(* ===== verification/Prelude.thy ===== *)
theory Prelude
  imports Main "HOL-Library.Word" "HOL-Library.Monad_Syntax" "HOL-Library.AList"
begin

unbundle bit_operations_syntax

text \<open>
  What the components share: the machine integer types of the Rust code, the
  byte order conversions (\<open>to_le_bytes\<close>, \<open>from_be_bytes\<close> and so on, generic in the
  width), slices and slice assignment of fixed buffers, the panic monad (an
  index out of range is the value \<open>None\<close>), and the interface of a fixed-width
  binary record (\<open>fixed_codec\<close>), whose lemmas carry the round trips of every
  on-disk table of the program.
\<close>

named_theorems wf_simps \<open>unfolding rules of the well-formedness predicates\<close>
named_theorems codec_simps \<open>byte lengths and field slices of encoded records\<close>

type_synonym byte = "8 word"
type_synonym u16 = "16 word"
type_synonym u32 = "32 word"
type_synonym u64 = "64 word"
type_synonym ekey = "byte list"

section \<open>Byte order\<close>

definition to_le :: "nat \<Rightarrow> 'a::len word \<Rightarrow> byte list" where
  "to_le n w = map (\<lambda>i. ucast (drop_bit (8 * i) w)) [0..<n]"

fun from_le :: "byte list \<Rightarrow> 'a::len word" where
  "from_le [] = 0"
| "from_le (b # bs) = ucast b OR push_bit 8 (from_le bs)"

definition to_be :: "nat \<Rightarrow> 'a::len word \<Rightarrow> byte list" where
  "to_be n w = rev (to_le n w)"

definition from_be :: "byte list \<Rightarrow> 'a::len word" where
  "from_be bs = from_le (rev bs)"

text \<open>Half-open slices \<open>data[i..j]\<close>, and \<open>buf[i..].copy_from_slice(xs)\<close>.\<close>

definition slice :: "nat \<Rightarrow> nat \<Rightarrow> 'a list \<Rightarrow> 'a list" where
  "slice i j xs = take (j - i) (drop i xs)"

definition put_slice :: "nat \<Rightarrow> 'a list \<Rightarrow> 'a list \<Rightarrow> 'a list" where
  "put_slice i xs buf = take i buf @ xs @ drop (i + length xs) buf"

text \<open>A checked index: \<open>None\<close> is the panic of an out-of-range access.\<close>

definition idx :: "'a list \<Rightarrow> nat \<Rightarrow> 'a option" where
  "idx xs i = (if i < length xs then Some (xs ! i) else None)"

definition set_idx :: "'a list \<Rightarrow> nat \<Rightarrow> 'a \<Rightarrow> 'a list option" where
  "set_idx xs i v = (if i < length xs then Some (xs[i := v]) else None)"

text \<open>A table of \<open>n\<close> records of \<open>w\<close> bytes each, read one after the other.\<close>

fun decode_table :: "nat \<Rightarrow> (byte list \<Rightarrow> 'e) \<Rightarrow> nat \<Rightarrow> byte list \<Rightarrow> 'e list" where
  "decode_table w dec 0 bs = []"
| "decode_table w dec (Suc n) bs = dec (take w bs) # decode_table w dec n (drop w bs)"

text \<open>
  The loop that copies chunk \<open>i\<close> to \<open>buf[i * w .. i * w + w]\<close> of a fixed buffer; a slice past the
  end of the buffer is a panic.
\<close>

fun copy_chunks :: "nat \<Rightarrow> nat \<Rightarrow> byte list list \<Rightarrow> byte list \<Rightarrow> byte list option" where
  "copy_chunks w i [] buf = Some buf"
| "copy_chunks w i (x # xs) buf =
     (if i * w + w \<le> length buf then copy_chunks w (Suc i) xs (put_slice (i * w) x buf) else None)"

section \<open>Byte order: round trips\<close>

lemma length_to_le [simp, codec_simps]: "length (to_le n w) = n"
  by (simp add: to_le_def)

lemma length_to_be [simp, codec_simps]: "length (to_be n w) = n"
  by (simp add: to_be_def)

lemma to_le_Suc: "to_le (Suc n) w = ucast w # to_le n (drop_bit 8 w)"
  by (simp add: to_le_def map_upt_Suc add.commute del: upt_Suc)

lemma to_le_0 [simp]: "to_le 0 w = []"
  by (simp add: to_le_def)

lemma from_le_to_le_take: "from_le (to_le n (w :: 'a::len word)) = (take_bit (8 * n) w :: 'a word)"
proof (induction n arbitrary: w)
  case 0
  then show ?case by simp
next
  case (Suc n)
  have "from_le (to_le (Suc n) w) = (ucast (ucast w :: byte) OR push_bit 8 (take_bit (8 * n) (drop_bit 8 w)) :: 'a word)"
    by (simp add: to_le_Suc Suc.IH)
  also have "\<dots> = take_bit (8 * Suc n) w"
    by (rule bit_word_eqI)
       (auto simp: bit_or_iff bit_push_bit_iff bit_take_bit_iff bit_drop_bit_eq bit_ucast_iff)
  finally show ?case .
qed

lemma from_le_to_le: "LENGTH('a) \<le> 8 * n \<Longrightarrow> from_le (to_le n (w :: 'a::len word)) = w"
  by (simp add: from_le_to_le_take take_bit_word_eq_self)

lemma to_le_from_le:
  "length bs = n \<Longrightarrow> 8 * n \<le> LENGTH('a) \<Longrightarrow> to_le n (from_le bs :: 'a::len word) = bs"
proof (induction bs arbitrary: n)
  case Nil
  then show ?case by simp
next
  case (Cons b bs)
  then obtain m where n: "n = Suc m" and m: "length bs = m"
    by (cases n) auto
  let ?r = "from_le bs :: 'a word"
  have low: "ucast (ucast b OR push_bit 8 ?r :: 'a word) = b"
    using Cons.prems n
    by (intro bit_word_eqI) (auto simp: bit_ucast_iff bit_or_iff bit_push_bit_iff)
  have high: "drop_bit 8 (ucast b OR push_bit 8 ?r) = (take_bit (LENGTH('a) - 8) ?r :: 'a word)"
    by (rule bit_word_eqI)
       (auto simp: bit_drop_bit_eq bit_ucast_iff bit_or_iff bit_push_bit_iff bit_take_bit_iff
             dest: bit_imp_le_length)
  have "to_le m (take_bit (LENGTH('a) - 8) ?r) = to_le m ?r"
    using Cons.prems n
    by (auto simp: to_le_def intro!: bit_word_eqI
             simp: bit_ucast_iff bit_drop_bit_eq bit_take_bit_iff)
  moreover have "to_le m ?r = bs"
    using Cons.prems n m by (intro Cons.IH) auto
  ultimately show ?case
    using n low high by (simp add: to_le_Suc)
qed

lemma from_be_to_be: "LENGTH('a) \<le> 8 * n \<Longrightarrow> from_be (to_be n (w :: 'a::len word)) = w"
  by (simp add: from_be_def to_be_def from_le_to_le)

lemma to_be_from_be:
  "length bs = n \<Longrightarrow> 8 * n \<le> LENGTH('a) \<Longrightarrow> to_be n (from_be bs :: 'a::len word) = bs"
  by (simp add: from_be_def to_be_def to_le_from_le)

lemma u8_bound: "unat (w :: byte) < 256"
  using unsigned_less [of w] by simp

lemma byte_or_shift_add: "ucast (b :: byte) OR push_bit 8 r = ucast b + push_bit 8 (r :: 'a::len word)"
  by (rule disjunctive_add [symmetric])
     (simp add: bit_simps, use bit_imp_le_length [of b] in fastforce)

lemma from_be_snoc: "from_be (bs @ [b]) = ucast b + push_bit 8 (from_be bs :: 'a::len word)"
  by (simp add: from_be_def byte_or_shift_add)

text \<open>The big-endian value of a byte string as a number.\<close>

definition be_value :: "nat \<Rightarrow> byte list \<Rightarrow> nat" where
  "be_value = foldl (\<lambda>a b. 256 * a + unat b)"

lemma from_be_value: "(from_be bs :: 'a::len word) = word_of_nat (be_value 0 bs)"
proof (induction bs rule: rev_induct)
  case (snoc b bs)
  have "(word_of_nat (unat b) :: 'a word) = ucast b" by simp
  with snoc show ?case
    by (simp add: from_be_snoc be_value_def push_bit_eq_mult add.commute)
qed (simp add: from_be_def be_value_def)

lemma be_value_less: "be_value a bs < (a + 1) * 256 ^ length bs"
proof (induction bs arbitrary: a)
  case (Cons b bs)
  have "be_value (256 * a + unat b) bs < (256 * a + unat b + 1) * 256 ^ length bs"
    by (rule Cons)
  also have "\<dots> \<le> (256 * (a + 1)) * 256 ^ length bs"
    using u8_bound [of b] by (intro mult_right_mono) auto
  finally show ?case
    by (simp add: be_value_def algebra_simps)
qed (simp add: be_value_def)

lemmas le_be_round_trips [simp] =
  from_le_to_le [where ?'a = 16 and n = 2, simplified]
  from_le_to_le [where ?'a = 32 and n = 4, simplified]
  from_le_to_le [where ?'a = 64 and n = 8, simplified]
  from_be_to_be [where ?'a = 16 and n = 2, simplified]
  from_be_to_be [where ?'a = 32 and n = 4, simplified]
  from_be_to_be [where ?'a = 64 and n = 8, simplified]

lemma u16_bound: "unat (w :: u16) < 2 ^ 16"
  using unsigned_less [of w] by simp

lemma u32_bound: "unat (w :: u32) < 2 ^ 32"
  using unsigned_less [of w] by simp

lemma u64_bound: "unat (w :: u64) < 2 ^ 64"
  using unsigned_less [of w] by simp

lemma unat_succ: "(w :: 'a::len word) \<noteq> -1 \<Longrightarrow> unat (w + 1) = Suc (unat w)"
  by (metis unatSuc add.commute eq_neg_iff_add_eq_0)

lemma unat_less_pow: "(w :: 'a::len word) < 2 ^ k \<Longrightarrow> unat w < 2 ^ k"
proof -
  assume "w < 2 ^ k"
  also have "(2 :: 'a word) ^ k = word_of_nat (2 ^ k)" by simp
  finally have "unat w < unat (word_of_nat (2 ^ k) :: 'a word)"
    by (simp only: word_less_nat_alt)
  also have "\<dots> \<le> 2 ^ k"
    by (simp only: unat_of_nat) simp
  finally show ?thesis .
qed

lemma bit_less_pow: "(w :: 'a::len word) < 2 ^ k \<Longrightarrow> bit w n \<Longrightarrow> n < k"
proof -
  assume "w < 2 ^ k" "bit w n"
  then have "take_bit k (unat w) = unat w" "bit (unat w) n"
    by (auto simp: take_bit_nat_eq_self unat_less_pow bit_unsigned_iff bit_imp_le_length)
  then show ?thesis
    by (metis bit_take_bit_iff)
qed

lemma and_masks:
  "(w :: 'a::len word) AND 3 = take_bit 2 w"
  "w AND 0x3FFFFFFF = take_bit 30 w"
  by (simp_all add: take_bit_eq_mask mask_eq_exp_minus_1)

section \<open>Slices\<close>

lemma slice_append [codec_simps]:
  "length xs = i \<Longrightarrow> length ys = j - i \<Longrightarrow> slice i j (xs @ ys @ zs) = ys"
  by (simp add: slice_def)

lemma slice_0 [simp]: "slice 0 j xs = take j xs"
  by (simp add: slice_def)

lemma length_slice [simp]: "length (slice i j xs) = min (j - i) (length xs - i)"
  by (simp add: slice_def)

lemma slice_take: "j \<le> n \<Longrightarrow> slice i j (take n xs) = slice i j xs"
  by (simp add: slice_def drop_take min_def)

lemma slice_append_left: "j \<le> length xs \<Longrightarrow> slice i j (xs @ ys) = slice i j xs"
  by (cases "i \<le> length xs") (simp_all add: slice_def)

lemma length_put_slice [simp]:
  "i + length xs \<le> length buf \<Longrightarrow> length (put_slice i xs buf) = length buf"
  by (simp add: put_slice_def)

lemma slice_put_slice_same:
  "i + length xs \<le> length buf \<Longrightarrow> j = i + length xs \<Longrightarrow> slice i j (put_slice i xs buf) = xs"
  by (simp add: slice_def put_slice_def)

lemma copy_chunks_eq:
  "list_all (\<lambda>x. length x = w) xs \<Longrightarrow> i * w + w * length xs \<le> length buf \<Longrightarrow>
   copy_chunks w i xs buf = Some (take (i * w) buf @ concat xs @ drop (i * w + w * length xs) buf)"
proof (induction xs arbitrary: i buf)
  case (Cons x xs)
  let ?b = "put_slice (i * w) x buf"
  have "take (Suc i * w) ?b = take (i * w) buf @ x"
    "drop (Suc i * w + w * length xs) ?b = drop (i * w + w * length (x # xs)) buf"
    using Cons.prems by (simp_all add: put_slice_def algebra_simps min_def)
  with Cons show ?case
    by (simp add: algebra_simps)
qed simp

section \<open>Checked indexing\<close>

lemma idx_Some_iff: "idx xs i = Some x \<longleftrightarrow> i < length xs \<and> xs ! i = x"
  by (auto simp: idx_def)

lemma idx_in [simp]: "i < length xs \<Longrightarrow> idx xs i = Some (xs ! i)"
  by (simp add: idx_def)

lemma set_idx_in [simp]: "i < length xs \<Longrightarrow> set_idx xs i v = Some (xs[i := v])"
  by (simp add: set_idx_def)

lemma idx_out [simp]: "\<not> i < length xs \<Longrightarrow> idx xs i = None"
  by (simp add: idx_def)

lemma set_idx_out [simp]: "\<not> i < length xs \<Longrightarrow> set_idx xs i v = None"
  by (simp add: set_idx_def)

section \<open>Fixed-width records\<close>

text \<open>
  The contract of an on-disk record: encoding gives exactly \<open>width\<close> bytes, and
  decoding them gives the record back, for every record that is well-formed
  (its arrays have their declared lengths, its bit fields fit).
\<close>

locale fixed_codec =
  fixes width :: nat
    and wf :: "'e \<Rightarrow> bool"
    and enc :: "'e \<Rightarrow> byte list"
    and dec :: "byte list \<Rightarrow> 'e"
  assumes length_enc: "wf e \<Longrightarrow> length (enc e) = width"
    and dec_enc: "wf e \<Longrightarrow> dec (enc e) = e"
begin

lemma length_table: "list_all wf es \<Longrightarrow> length (concat (map enc es)) = width * length es"
  by (induction es) (auto simp: length_enc)

lemma decode_table_prefix:
  "list_all wf es \<Longrightarrow> decode_table width dec (length es) (concat (map enc es) @ rest) = es"
  by (induction es) (auto simp: length_enc dec_enc)

lemma table_round_trip:
  "list_all wf es \<Longrightarrow> decode_table width dec (length es) (concat (map enc es)) = es"
  using decode_table_prefix [of es "[]"] by simp

lemma enc_inj: "wf a \<Longrightarrow> wf b \<Longrightarrow> enc a = enc b \<Longrightarrow> a = b"
  by (metis dec_enc)

end

lemma length_decode_table [simp]: "length (decode_table w dec n bs) = n"
  by (induction n arbitrary: bs) auto

lemma decode_table_nth:
  "i < n \<Longrightarrow> decode_table w dec n bs ! i = dec (take w (drop (i * w) bs))"
proof (induction n arbitrary: i bs)
  case 0
  then show ?case by simp
next
  case (Suc n)
  then show ?case by (cases i) (auto simp: add.commute)
qed

end
