(* ===== verification/Text.thy ===== *)
theory Text
  imports Prelude
begin

text \<open>
  The string operations of the standard library that the file-name code uses. A \<open>str\<close> is
  the list of its UTF-8 bytes, so lengths and slice positions are those of the code:
  lower-case hex formatting (\<open>{:02x}\<close>), \<open>from_str_radix(_, 16)\<close> with its optional plus sign,
  and slicing, which panics inside a multi-byte character.
\<close>

section \<open>Model\<close>

definition hex_digit :: "nat \<Rightarrow> char" where
  "hex_digit n = ''0123456789abcdef'' ! n"

definition hex_byte :: "byte \<Rightarrow> string" where
  "hex_byte b = [hex_digit (unat b div 16), hex_digit (unat b mod 16)]"

definition hex_lower :: "byte list \<Rightarrow> string" where
  "hex_lower bs = concat (map hex_byte bs)"

definition hex_value :: "char \<Rightarrow> nat option" where
  "hex_value c =
     (let n = of_char c :: nat in
      if 48 \<le> n \<and> n \<le> 57 then Some (n - 48)
      else if 97 \<le> n \<and> n \<le> 102 then Some (n - 87)
      else if 65 \<le> n \<and> n \<le> 70 then Some (n - 55)
      else None)"

fun hex_digits :: "nat \<Rightarrow> string \<Rightarrow> nat option" where
  "hex_digits acc [] = Some acc"
| "hex_digits acc (c # cs) =
     (case hex_value c of None \<Rightarrow> None | Some d \<Rightarrow> hex_digits (16 * acc + d) cs)"

definition from_str_radix16 :: "nat \<Rightarrow> string \<Rightarrow> nat option" where
  "from_str_radix16 bound s =
     (if s = [] \<or> s = ''+'' \<or> s = ''-'' then None
      else case hex_digits 0 (if hd s = CHR ''+'' then tl s else s) of
             None \<Rightarrow> None
           | Some n \<Rightarrow> if n < bound then Some n else None)"

definition is_char_boundary :: "string \<Rightarrow> nat \<Rightarrow> bool" where
  "is_char_boundary s i \<longleftrightarrow>
     i = length s \<or> i < length s \<and> \<not> (let n = of_char (s ! i) :: nat in 128 \<le> n \<and> n < 192)"

definition str_slice :: "nat \<Rightarrow> nat \<Rightarrow> string \<Rightarrow> string option" where
  "str_slice i j s =
     (if i \<le> j \<and> is_char_boundary s i \<and> is_char_boundary s j then Some (slice i j s) else None)"

definition ascii_lower :: "char \<Rightarrow> char" where
  "ascii_lower c = (let n = of_char c :: nat in if 65 \<le> n \<and> n \<le> 90 then char_of (n + 32) else c)"

text \<open>
  Decimal: \<open>Display\<close> of an unsigned integer, and the value of a string of digits. The ASCII
  classes are those of \<open>char::is_ascii_digit\<close> and its siblings.
\<close>

definition is_digit :: "char \<Rightarrow> bool" where
  "is_digit c \<longleftrightarrow> (let n = of_char c :: nat in 48 \<le> n \<and> n \<le> 57)"

definition is_alpha :: "char \<Rightarrow> bool" where
  "is_alpha c \<longleftrightarrow> (let n = of_char c :: nat in 65 \<le> n \<and> n \<le> 90 \<or> 97 \<le> n \<and> n \<le> 122)"

definition is_alnum :: "char \<Rightarrow> bool" where
  "is_alnum c \<longleftrightarrow> is_digit c \<or> is_alpha c"

definition is_hexdigit :: "char \<Rightarrow> bool" where
  "is_hexdigit c \<longleftrightarrow> hex_value c \<noteq> None"

definition dec_digit :: "nat \<Rightarrow> char" where
  "dec_digit n = char_of (48 + n)"

fun dec :: "nat \<Rightarrow> string" where
  "dec n = (if n < 10 then [dec_digit n] else dec (n div 10) @ [dec_digit (n mod 10)])"

definition dec_value :: "string \<Rightarrow> nat" where
  "dec_value = foldl (\<lambda>a c. 10 * a + (of_char c - 48)) 0"

text \<open>
  A directory as \<open>read_dir\<close> lists it: the names, valid UTF-8 or not (\<open>OsStr::to_str\<close>), with the
  contents of the files.
\<close>

datatype os_name = Utf8 string | NonUtf8 "byte list"

type_synonym directory = "(os_name \<times> byte list) list"

section \<open>Hex digits\<close>

lemma length_hex_lower [simp]: "length (hex_lower bs) = 2 * length bs"
  by (induction bs) (auto simp: hex_lower_def hex_byte_def)

lemma hex_value_digit: "n < 16 \<Longrightarrow> hex_value (hex_digit n) = Some n"
proof -
  assume "n < 16"
  moreover have "list_all (\<lambda>n. hex_value (hex_digit n) = Some n) [0..<16]"
    by code_simp
  ultimately show ?thesis
    by (simp add: list_all_iff)
qed

lemma hex_digits_lower: "hex_digits acc (hex_lower bs @ cs) = hex_digits (be_value acc bs) cs"
proof (induction bs arbitrary: acc)
  case (Cons b bs)
  have "unat b div 16 < 16" using u8_bound [of b] by simp
  moreover have "16 * (16 * acc + unat b div 16) + unat b mod 16 = 256 * acc + unat b" by simp
  ultimately have "hex_digits acc (hex_lower (b # bs) @ cs) = hex_digits (256 * acc + unat b) (hex_lower bs @ cs)"
    by (simp add: hex_lower_def hex_byte_def hex_value_digit add.commute)
  with Cons show ?case
    by (simp add: be_value_def)
qed (simp add: hex_lower_def be_value_def)

lemma hex_digit_ascii: "n < 16 \<Longrightarrow> hex_digit n \<noteq> CHR ''+'' \<and> (of_char (hex_digit n) :: nat) < 128"
proof -
  assume "n < 16"
  moreover have "list_all (\<lambda>n. hex_digit n \<noteq> CHR ''+'' \<and> (of_char (hex_digit n) :: nat) < 128) [0..<16]"
    by code_simp
  ultimately show ?thesis
    by (simp add: list_all_iff)
qed

lemma hex_lower_ascii: "c \<in> set (hex_lower bs) \<Longrightarrow> c \<noteq> CHR ''+'' \<and> (of_char c :: nat) < 128"
proof (induction bs)
  case (Cons b bs)
  have "unat b div 16 < 16" "unat b mod 16 < 16" using u8_bound [of b] by simp_all
  with Cons show ?case
    using hex_digit_ascii by (auto simp: hex_lower_def hex_byte_def)
qed (simp add: hex_lower_def)

lemma from_str_radix16_hex:
  assumes "bs \<noteq> []"
  shows "from_str_radix16 (256 ^ length bs) (hex_lower bs) = Some (be_value 0 bs)"
proof -
  obtain b bs' where "bs = b # bs'"
    using assms by (cases bs) auto
  then have "hex_lower bs \<noteq> []" "hex_lower bs \<noteq> ''+''" "hex_lower bs \<noteq> ''-''"
    by (simp_all add: hex_lower_def hex_byte_def)
  moreover from this have "hd (hex_lower bs) \<noteq> CHR ''+''"
    using hex_lower_ascii [of "hd (hex_lower bs)" bs] by auto
  ultimately show ?thesis
    using hex_digits_lower [of 0 bs "[]"] be_value_less [of 0 bs]
    by (simp add: from_str_radix16_def)
qed

section \<open>Decimal digits\<close>

declare dec.simps [simp del]

lemma of_char_dec_digit: "n < 10 \<Longrightarrow> (of_char (dec_digit n) :: nat) = 48 + n"
  by (simp add: dec_digit_def)

lemma is_digit_dec_digit: "n < 10 \<Longrightarrow> is_digit (dec_digit n)"
  by (simp add: is_digit_def Let_def of_char_dec_digit)

lemma dec_digits: "list_all is_digit (dec n)"
proof (induction n rule: dec.induct)
  case (1 n)
  then show ?case
    by (cases "n < 10") (simp_all add: dec.simps [of n] is_digit_dec_digit)
qed

lemma dec_nonempty [simp]: "dec n \<noteq> []"
  by (subst dec.simps) simp

lemma dec_value_dec [simp]: "dec_value (dec n) = n"
proof (induction n rule: dec.induct)
  case (1 n)
  show ?case
  proof (cases "n < 10")
    case True
    then show ?thesis
      by (simp add: dec.simps [of n] dec_value_def of_char_dec_digit)
  next
    case False
    then have "foldl (\<lambda>a c. 10 * a + (of_char c - 48)) 0 (dec (n div 10)) = n div 10"
      using 1 by (simp add: dec_value_def)
    with False show ?thesis
      by (simp add: dec.simps [of n] dec_value_def of_char_dec_digit)
  qed
qed

end
