(* ===== verification/Lru_File.thy ===== *)
theory Lru_File
  imports Text
begin

text \<open>
  The \<open>.lru\<close> checkpoint format of \<open>cascette-client-storage/src/lru/lru_file.rs\<close>:
  the 28-byte header, the 20-byte entries, the generation-numbered file names and
  the whole-file \<open>serialize\<close> and \<open>deserialize\<close>. MD5 (crate \<open>md5\<close>) and the hex
  decoder (crate \<open>hex\<close>) are third-party code, so both are arguments of the
  definitions that call them.
\<close>

section \<open>Model\<close>

definition LRU_HEADER_SIZE :: nat where "LRU_HEADER_SIZE = 28"
definition LRU_ENTRY_SIZE :: nat where "LRU_ENTRY_SIZE = 20"
definition LRU_SENTINEL :: u32 where "LRU_SENTINEL = 0xFFFFFFFF"
definition LRU_MAX_VERSION :: u16 where "LRU_MAX_VERSION = 1"
definition LRU_CURRENT_VERSION :: u16 where "LRU_CURRENT_VERSION = 1"
definition LRU_EXTENSION :: string where "LRU_EXTENSION = ''.lru''"
definition LRU_FILENAME_LEN :: nat where "LRU_FILENAME_LEN = 20"

record lru_file_header =
  lh_version :: u16
  lh_hash :: "byte list"
  mru_head :: u32
  lru_tail :: u32

definition default_header :: lru_file_header where
  "default_header =
     \<lparr>lh_version = LRU_CURRENT_VERSION, lh_hash = replicate 16 0,
      mru_head = LRU_SENTINEL, lru_tail = LRU_SENTINEL\<rparr>"

definition header_to_bytes :: "lru_file_header \<Rightarrow> byte list" where
  "header_to_bytes h =
     to_le 2 (lh_version h) @ [0, 0] @ lh_hash h @ to_le 4 (mru_head h) @ to_le 4 (lru_tail h)"

definition header_from_bytes :: "byte list \<Rightarrow> lru_file_header option" where
  "header_from_bytes data =
     (let version = from_le (slice 0 2 data) in
      if version > LRU_MAX_VERSION then None
      else Some \<lparr>lh_version = version, lh_hash = slice 4 20 data,
                 mru_head = from_le (slice 20 24 data), lru_tail = from_le (slice 24 28 data)\<rparr>)"

record lru_file_entry =
  e_prev :: u32
  e_next :: u32
  e_ekey :: ekey
  e_flags :: byte

definition empty_entry :: lru_file_entry where
  "empty_entry =
     \<lparr>e_prev = LRU_SENTINEL, e_next = LRU_SENTINEL, e_ekey = replicate 9 0, e_flags = 0\<rparr>"

definition entry_to_bytes :: "lru_file_entry \<Rightarrow> byte list" where
  "entry_to_bytes e = to_le 4 (e_prev e) @ to_le 4 (e_next e) @ e_ekey e @ [e_flags e] @ [0, 0]"

definition entry_from_bytes :: "byte list \<Rightarrow> lru_file_entry" where
  "entry_from_bytes data =
     \<lparr>e_prev = from_le (slice 0 4 data), e_next = from_le (slice 4 8 data),
      e_ekey = slice 8 17 data, e_flags = data ! 17\<rparr>"

definition is_active :: "lru_file_entry \<Rightarrow> bool" where
  "is_active e \<longleftrightarrow> e_ekey e \<noteq> replicate 9 0"

definition generation_to_filename :: "u64 \<Rightarrow> string" where
  "generation_to_filename generation = hex_lower (to_be 8 generation) @ LRU_EXTENSION"

definition filename_to_generation :: "(string \<Rightarrow> byte list option) \<Rightarrow> string \<Rightarrow> u64 option" where
  "filename_to_generation hex_decode name =
     (if length name \<noteq> LRU_FILENAME_LEN then None
      else if drop (length name - length LRU_EXTENSION) name \<noteq> LRU_EXTENSION then None
      else case hex_decode (take 16 name) of
             None \<Rightarrow> None
           | Some bytes \<Rightarrow> if length bytes \<noteq> 8 then None else Some (from_be bytes))"

definition validate_file_size :: "nat \<Rightarrow> bool" where
  "validate_file_size sz \<longleftrightarrow>
     sz \<ge> LRU_HEADER_SIZE \<and> (sz - LRU_HEADER_SIZE) mod LRU_ENTRY_SIZE = 0"

definition entry_count_from_file_size :: "nat \<Rightarrow> nat" where
  "entry_count_from_file_size sz =
     (if sz < LRU_HEADER_SIZE then 0 else (sz - LRU_HEADER_SIZE) div LRU_ENTRY_SIZE)"

definition serialize :: "(byte list \<Rightarrow> byte list) \<Rightarrow> lru_file_header \<Rightarrow> lru_file_entry list \<Rightarrow> byte list" where
  "serialize md5 header entries =
     (let header_bytes = put_slice 4 (replicate 16 0) (header_to_bytes header);
          data = header_bytes @ concat (map entry_to_bytes entries)
      in put_slice 4 (md5 data) data)"

definition deserialize ::
  "(byte list \<Rightarrow> byte list) \<Rightarrow> byte list \<Rightarrow> (lru_file_header \<times> lru_file_entry list) option" where
  "deserialize md5 data =
     (if \<not> validate_file_size (length data) then None
      else case header_from_bytes (take LRU_HEADER_SIZE data) of
             None \<Rightarrow> None
           | Some header \<Rightarrow>
               (let check_data = put_slice 4 (replicate 16 0) data in
                if md5 check_data \<noteq> lh_hash header then None
                else Some (header,
                           decode_table LRU_ENTRY_SIZE entry_from_bytes
                             (entry_count_from_file_size (length data)) (drop LRU_HEADER_SIZE data))))"

text \<open>Rust's array types: \<open>[u8; 16]\<close> and \<open>[u8; 9]\<close>.\<close>

definition wf_header :: "lru_file_header \<Rightarrow> bool" where
  "wf_header h \<longleftrightarrow> length (lh_hash h) = 16 \<and> lh_version h \<le> LRU_MAX_VERSION"

definition wf_entry :: "lru_file_entry \<Rightarrow> bool" where
  "wf_entry e \<longleftrightarrow> length (e_ekey e) = 9"

section \<open>Entries and headers\<close>

lemmas lru_consts =
  LRU_HEADER_SIZE_def LRU_ENTRY_SIZE_def LRU_MAX_VERSION_def LRU_CURRENT_VERSION_def
  LRU_EXTENSION_def LRU_FILENAME_LEN_def

lemma wf_empty_entry [simp]: "wf_entry empty_entry"
  by (simp add: wf_entry_def empty_entry_def)

lemma wf_default_header [simp]: "wf_header default_header"
  by (simp add: wf_header_def default_header_def lru_consts)

interpretation lru_entry: fixed_codec LRU_ENTRY_SIZE wf_entry entry_to_bytes entry_from_bytes
proof unfold_locales
  fix e :: lru_file_entry
  assume "wf_entry e"
  then have k: "length (e_ekey e) = 9" by (simp add: wf_entry_def)
  then show "length (entry_to_bytes e) = LRU_ENTRY_SIZE"
    by (simp add: entry_to_bytes_def lru_consts)
  show "entry_from_bytes (entry_to_bytes e) = e"
    using k by (simp add: entry_from_bytes_def entry_to_bytes_def slice_def nth_append)
qed

lemma length_header_to_bytes: "length (lh_hash h) = 16 \<Longrightarrow> length (header_to_bytes h) = 28"
  by (simp add: header_to_bytes_def)

lemma header_round_trip: "wf_header h \<Longrightarrow> header_from_bytes (header_to_bytes h) = Some h"
  by (auto simp: header_from_bytes_def header_to_bytes_def wf_header_def slice_def Let_def)

lemma put_hash_header:
  "length (lh_hash h) = 16 \<Longrightarrow> length xs = 16 \<Longrightarrow>
   put_slice 4 xs (header_to_bytes h @ rest) = header_to_bytes (h\<lparr>lh_hash := xs\<rparr>) @ rest"
  by (simp add: put_slice_def header_to_bytes_def)

section \<open>Whole files\<close>

definition unhashed_image :: "lru_file_header \<Rightarrow> lru_file_entry list \<Rightarrow> byte list" where
  "unhashed_image h es =
     header_to_bytes (h\<lparr>lh_hash := replicate 16 0\<rparr>) @ concat (map entry_to_bytes es)"

lemma serialize_eq:
  assumes "wf_header h" and "\<And>d. length (md5 d) = 16"
  shows "serialize md5 h es =
           header_to_bytes (h\<lparr>lh_hash := md5 (unhashed_image h es)\<rparr>) @ concat (map entry_to_bytes es)"
  using assms put_hash_header [of h "replicate 16 0" "[]"]
  by (simp add: serialize_def Let_def unhashed_image_def put_hash_header wf_header_def)

lemma length_serialize:
  assumes "wf_header h" and "list_all wf_entry es" and "\<And>d. length (md5 d) = 16"
  shows "length (serialize md5 h es) = LRU_HEADER_SIZE + LRU_ENTRY_SIZE * length es"
  using assms
  by (simp add: serialize_eq length_header_to_bytes lru_entry.length_table lru_consts)

lemma deserialize_serialize:
  assumes h: "wf_header h" and es: "list_all wf_entry es" and md5: "\<And>d. length (md5 d) = 16"
  shows "deserialize md5 (serialize md5 h es) =
           Some (h\<lparr>lh_hash := md5 (unhashed_image h es)\<rparr>, es)"
proof -
  let ?h = "h\<lparr>lh_hash := md5 (unhashed_image h es)\<rparr>"
  let ?d = "serialize md5 h es"
  have d: "?d = header_to_bytes ?h @ concat (map entry_to_bytes es)"
    using h md5 by (rule serialize_eq)
  have wf: "wf_header ?h" using h md5 by (simp add: wf_header_def)
  then have len: "length (header_to_bytes ?h) = 28"
    by (intro length_header_to_bytes) (simp add: wf_header_def)
  have size: "length ?d = 28 + 20 * length es"
    using length_serialize [OF h es md5] by (simp add: lru_consts)
  have zero: "put_slice 4 (replicate 16 0) ?d = unhashed_image h es"
    using wf md5 unfolding d
    by (subst put_hash_header) (auto simp: unhashed_image_def wf_header_def)
  have "header_from_bytes (take LRU_HEADER_SIZE ?d) = Some ?h"
    using len header_round_trip [OF wf] by (simp add: d lru_consts)
  moreover have "decode_table LRU_ENTRY_SIZE entry_from_bytes (length es) (drop LRU_HEADER_SIZE ?d) = es"
    using len lru_entry.table_round_trip [OF es] by (simp add: d lru_consts)
  ultimately show ?thesis
    using size zero
    by (simp add: deserialize_def validate_file_size_def entry_count_from_file_size_def lru_consts)
qed

lemma deserialize_SomeD:
  assumes "deserialize md5 data = Some (h, es)"
  shows "length data = LRU_HEADER_SIZE + LRU_ENTRY_SIZE * length es"
    and "lh_hash h = md5 (put_slice 4 (replicate 16 0) data)"
    and "lh_version h \<le> LRU_MAX_VERSION"
    and "lh_hash h = slice 4 20 data"
    and "\<And>i. i < length es \<Longrightarrow>
           es ! i = entry_from_bytes (slice (28 + i * 20) (28 + i * 20 + 20) data)"
  using assms
  by (auto simp: deserialize_def validate_file_size_def entry_count_from_file_size_def lru_consts
      header_from_bytes_def Let_def slice_def drop_take decode_table_nth add.commute
      split: if_splits option.splits)

section \<open>File names\<close>

lemma filename_round_trip:
  assumes "\<And>bs. hex_decode (hex_lower bs) = Some bs"
  shows "filename_to_generation hex_decode (generation_to_filename g) = Some g"
  using assms
  by (simp add: filename_to_generation_def generation_to_filename_def lru_consts)

lemma generation_to_filename_inj:
  assumes "\<And>bs. hex_decode (hex_lower bs) = Some bs"
  shows "generation_to_filename g = generation_to_filename g' \<longleftrightarrow> g = g'"
  using filename_round_trip [OF assms] by (metis option.inject)

end
