(* ===== verification/Lru.thy ===== *)
theory Lru
  imports Lru_File
begin

text \<open>
  The LRU manager of \<open>cascette-client-storage/src/lru/mod.rs\<close>: a doubly linked list
  threaded through a flat array of entries, a hash map from keys to array indices
  and a stack of free slots. \<open>prev\<close> points towards the LRU tail, \<open>next\<close> towards
  the MRU head. Every operation is in the panic monad: \<open>None\<close> is an index out of
  range or an arithmetic overflow (and, for the two loops that follow links, also
  not returning). The hash map is an association list with distinct keys.
\<close>

section \<open>Model: state and list surgery\<close>

record lru_manager =
  header :: lru_file_header
  entries :: "lru_file_entry list"
  key_map :: "(ekey \<times> u32) list"
  free_list :: "u32 list"
  generation :: u64
  prev_generation :: u64
  capacity :: u32

definition new_lru :: "u32 \<Rightarrow> lru_manager" where
  "new_lru cap =
     \<lparr>header = default_header, entries = replicate (unat cap) empty_entry, key_map = [],
      free_list = map word_of_nat [0..<unat cap], generation = 1, prev_generation = 0,
      capacity = cap\<rparr>"

definition upd_entry ::
  "lru_manager \<Rightarrow> u32 \<Rightarrow> (lru_file_entry \<Rightarrow> lru_file_entry) \<Rightarrow> lru_manager option" where
  "upd_entry s i f = do {
     e \<leftarrow> idx (entries s) (unat i);
     Some (s\<lparr>entries := (entries s)[unat i := f e]\<rparr>)
   }"

definition unlink :: "lru_manager \<Rightarrow> u32 \<Rightarrow> lru_manager option" where
  "unlink s i = do {
     entry \<leftarrow> idx (entries s) (unat i);
     let prev = e_prev entry;
     let next = e_next entry;
     s1 \<leftarrow> (if prev = LRU_SENTINEL then Some (s\<lparr>header := (header s)\<lparr>lru_tail := next\<rparr>\<rparr>)
           else upd_entry s prev (\<lambda>e. e\<lparr>e_next := next\<rparr>));
     s2 \<leftarrow> (if next = LRU_SENTINEL then Some (s1\<lparr>header := (header s1)\<lparr>mru_head := prev\<rparr>\<rparr>)
           else upd_entry s1 next (\<lambda>e. e\<lparr>e_prev := prev\<rparr>));
     upd_entry s2 i (\<lambda>e. e\<lparr>e_prev := LRU_SENTINEL, e_next := LRU_SENTINEL\<rparr>)
   }"

definition link_at_head :: "lru_manager \<Rightarrow> u32 \<Rightarrow> lru_manager option" where
  "link_at_head s i = do {
     let old_head = mru_head (header s);
     s1 \<leftarrow> upd_entry s i (\<lambda>e. e\<lparr>e_next := LRU_SENTINEL, e_prev := old_head\<rparr>);
     s2 \<leftarrow> (if old_head = LRU_SENTINEL then Some (s1\<lparr>header := (header s1)\<lparr>lru_tail := i\<rparr>\<rparr>)
           else upd_entry s1 old_head (\<lambda>e. e\<lparr>e_next := i\<rparr>));
     Some (s2\<lparr>header := (header s2)\<lparr>mru_head := i\<rparr>\<rparr>)
   }"

section \<open>Model: operations\<close>

definition evict_tail :: "lru_manager \<Rightarrow> (u32 option \<times> lru_manager) option" where
  "evict_tail s = (
     let tail = lru_tail (header s) in
     if tail = LRU_SENTINEL then Some (None, s)
     else do {
       entry \<leftarrow> idx (entries s) (unat tail);
       s1 \<leftarrow> unlink (s\<lparr>key_map := AList.delete (e_ekey entry) (key_map s)\<rparr>) tail;
       s2 \<leftarrow> upd_entry s1 tail (\<lambda>_. empty_entry);
       Some (Some tail, s2)
     })"

definition alloc_slot :: "lru_manager \<Rightarrow> (u32 option \<times> lru_manager) option" where
  "alloc_slot s =
     (if free_list s = [] then evict_tail s
      else Some (Some (last (free_list s)), s\<lparr>free_list := butlast (free_list s)\<rparr>))"

definition touch :: "lru_manager \<Rightarrow> ekey \<Rightarrow> (bool \<times> lru_manager) option" where
  "touch s k = (case map_of (key_map s) k of
     Some i \<Rightarrow> do {
       s1 \<leftarrow> unlink s i;
       s2 \<leftarrow> link_at_head s1 i;
       Some (True, s2)
     }
   | None \<Rightarrow> do {
       (slot, s1) \<leftarrow> alloc_slot s;
       (case slot of
          None \<Rightarrow> Some (False, s1)
        | Some i \<Rightarrow> do {
            s2 \<leftarrow> upd_entry s1 i (\<lambda>_. \<lparr>e_prev = LRU_SENTINEL, e_next = LRU_SENTINEL,
                                      e_ekey = k, e_flags = 0\<rparr>);
            s3 \<leftarrow> link_at_head (s2\<lparr>key_map := AList.update k i (key_map s2)\<rparr>) i;
            Some (True, s3)
          })
     })"

definition remove :: "lru_manager \<Rightarrow> ekey \<Rightarrow> (bool \<times> lru_manager) option" where
  "remove s k = (case map_of (key_map s) k of
     None \<Rightarrow> Some (False, s)
   | Some i \<Rightarrow> do {
       s1 \<leftarrow> unlink (s\<lparr>key_map := AList.delete k (key_map s)\<rparr>) i;
       s2 \<leftarrow> upd_entry s1 i (\<lambda>_. empty_entry);
       Some (True, s2\<lparr>free_list := free_list s2 @ [i]\<rparr>)
     })"

definition contains_key :: "lru_manager \<Rightarrow> ekey \<Rightarrow> bool" where
  "contains_key s k \<longleftrightarrow> map_of (key_map s) k \<noteq> None"

definition len :: "lru_manager \<Rightarrow> nat" where
  "len s = length (key_map s)"

definition bump_generation :: "lru_manager \<Rightarrow> lru_manager" where
  "bump_generation s =
     (let g = generation s + 1 in
      s\<lparr>prev_generation := generation s, generation := (if g = 0 then 1 else g)\<rparr>)"

definition reset :: "lru_manager \<Rightarrow> lru_manager" where
  "reset s =
     s\<lparr>header := default_header, entries := replicate (unat (capacity s)) empty_entry,
       key_map := [], free_list := map word_of_nat [0..<unat (capacity s)]\<rparr>"

text \<open>
  \<open>evict_to_target\<close>: \<open>freed += avg_entry_size\<close> is a checked addition on \<open>u64\<close>.
\<close>

partial_function (option) evict_loop ::
  "u64 \<Rightarrow> u64 \<Rightarrow> nat \<Rightarrow> u64 \<Rightarrow> lru_manager \<Rightarrow> ((nat \<times> u64) \<times> lru_manager) option" where
  "evict_loop target avg evicted freed s =
     (if freed < target then
        (case evict_tail s of
           None \<Rightarrow> None
         | Some (None, s1) \<Rightarrow> Some ((evicted, freed), s1)
         | Some (Some _, s1) \<Rightarrow>
             (if unat freed + unat avg < 2 ^ 64
              then evict_loop target avg (Suc evicted) (freed + avg) s1
              else None))
      else Some ((evicted, freed), s))"

definition evict_to_target :: "lru_manager \<Rightarrow> u64 \<Rightarrow> u64 \<Rightarrow> ((nat \<times> u64) \<times> lru_manager) option" where
  "evict_to_target s target avg = evict_loop target avg 0 0 s"

text \<open>
  \<open>for_each_entry\<close>: the keys the callback receives, in order.
\<close>

partial_function (option) walk ::
  "lru_file_entry list \<Rightarrow> u32 \<Rightarrow> ekey list \<Rightarrow> ekey list option" where
  "walk es i acc =
     (if i = LRU_SENTINEL then Some (rev acc)
      else (case idx es (unat i) of
              None \<Rightarrow> None
            | Some e \<Rightarrow> walk es (e_next e) (if is_active e then e_ekey e # acc else acc)))"

definition for_each_entry :: "lru_manager \<Rightarrow> ekey list option" where
  "for_each_entry s = walk (entries s) (lru_tail (header s)) []"

text \<open>The loop of \<open>load_from_disk\<close> that rebuilds the key map and the free list.\<close>

fun rebuild ::
  "nat \<Rightarrow> lru_file_entry list \<Rightarrow> (ekey \<times> u32) list \<Rightarrow> u32 list \<Rightarrow> (ekey \<times> u32) list \<times> u32 list" where
  "rebuild i [] km fl = (km, fl)"
| "rebuild i (e # es) km fl =
     (if is_active e then rebuild (Suc i) es (AList.update (e_ekey e) (word_of_nat i) km) fl
      else rebuild (Suc i) es km (fl @ [word_of_nat i]))"

definition load_image ::
  "(byte list \<Rightarrow> byte list) \<Rightarrow> lru_manager \<Rightarrow> u64 \<Rightarrow> byte list \<Rightarrow> lru_manager option" where
  "load_image md5 s g data =
     (case deserialize md5 data of
        None \<Rightarrow> None
      | Some (h, es) \<Rightarrow>
          (let (km, fl) = rebuild 0 es [] [] in
           Some (s\<lparr>header := h, entries := es, key_map := km, free_list := fl, generation := g\<rparr>)))"

end
