(* ===== verification/Recency.thy ===== *)
theory Recency
  imports Main
begin

text \<open>
  The abstract contract of a recency cache: its state is the list of cached keys
  from the least to the most recently used, and a number of free slots. The
  locale states what an implementation promises about \<open>touch\<close> and about
  dropping the least recently used key; its lemmas are what a client may rely on,
  whatever the implementation.
\<close>

definition touch_spec :: "'k \<Rightarrow> 'k list \<Rightarrow> nat \<Rightarrow> bool \<times> 'k list \<times> nat" where
  "touch_spec k ks n =
     (if k \<in> set ks then (True, remove1 k ks @ [k], n)
      else if 0 < n then (True, ks @ [k], n - 1)
      else case ks of [] \<Rightarrow> (False, [], 0) | _ # ks' \<Rightarrow> (True, ks' @ [k], 0))"

text \<open>Touching a sequence of keys; the flag says that every touch succeeded.\<close>

primrec touch_all :: "('s \<Rightarrow> 'k \<Rightarrow> (bool \<times> 's) option) \<Rightarrow> 'k list \<Rightarrow> 's \<Rightarrow> (bool \<times> 's) option" where
  "touch_all touch [] s = Some (True, s)"
| "touch_all touch (q # qs) s =
     (case touch s q of
        None \<Rightarrow> None
      | Some (b, s') \<Rightarrow> map_option (\<lambda>(b', s''). (b \<and> b', s'')) (touch_all touch qs s'))"

lemma length_remove1_Suc: "q \<in> set xs \<Longrightarrow> Suc (length (remove1 q xs)) = length xs"
  by (induction xs) auto

locale recency_cache =
  fixes rep :: "'s \<Rightarrow> 'k list \<Rightarrow> nat \<Rightarrow> bool"
    and valid :: "'k \<Rightarrow> bool"
    and touch :: "'s \<Rightarrow> 'k \<Rightarrow> (bool \<times> 's) option"
  assumes rep_distinct: "rep s ks n \<Longrightarrow> distinct ks"
    and touch_refines:
      "rep s ks n \<Longrightarrow> valid k \<Longrightarrow> touch_spec k ks n = (b, ks', n') \<Longrightarrow>
       \<exists>s'. touch s k = Some (b, s') \<and> rep s' ks' n'"
begin

text \<open>
  One step, with the cached keys split into the old ones and the recent ones: as
  long as the recent keys and the new one fit into the slots, no recent key is lost.
\<close>

lemma touch_keeps_recent:
  assumes rep: "rep s (old @ recent) n" and q: "valid q"
    and room: "card (insert q (set recent)) \<le> length old + length recent + n"
  shows "\<exists>s' old' recent' n'. touch s q = Some (True, s') \<and> rep s' (old' @ recent') n' \<and>
           set recent' = insert q (set recent) \<and>
           length old' + length recent' + n' = length old + length recent + n"
proof -
  have dist: "distinct (old @ recent)" using rep by (rule rep_distinct)
  consider (rec) "q \<in> set recent" | (old) "q \<in> set old" "q \<notin> set recent"
    | (free) "q \<notin> set (old @ recent)" "0 < n" | (full) "q \<notin> set (old @ recent)" "n = 0"
    by auto
  then show ?thesis
  proof cases
    case rec
    then have "q \<notin> set old" using dist by auto
    with rec have "touch_spec q (old @ recent) n = (True, old @ (remove1 q recent @ [q]), n)"
      by (simp add: touch_spec_def remove1_append)
    from touch_refines [OF rep q this] obtain s' where
      "touch s q = Some (True, s')" "rep s' (old @ (remove1 q recent @ [q])) n" by auto
    moreover have "length (remove1 q recent @ [q]) = length recent"
      using rec by (simp add: length_remove1_Suc)
    ultimately show ?thesis
      using rec dist
      by (intro exI [of _ s'] exI [of _ old] exI [of _ "remove1 q recent @ [q]"] exI [of _ n]) auto
  next
    case old
    then have "touch_spec q (old @ recent) n = (True, remove1 q old @ (recent @ [q]), n)"
      by (simp add: touch_spec_def remove1_append)
    from touch_refines [OF rep q this] obtain s' where
      "touch s q = Some (True, s')" "rep s' (remove1 q old @ (recent @ [q])) n" by auto
    moreover have "Suc (length (remove1 q old)) = length old"
      using old by (simp add: length_remove1_Suc)
    ultimately show ?thesis
      by (intro exI [of _ s'] exI [of _ "remove1 q old"] exI [of _ "recent @ [q]"] exI [of _ n]) auto
  next
    case free
    then have "touch_spec q (old @ recent) n = (True, old @ (recent @ [q]), n - 1)"
      by (simp add: touch_spec_def)
    from touch_refines [OF rep q this] obtain s' where
      "touch s q = Some (True, s')" "rep s' (old @ (recent @ [q])) (n - 1)" by auto
    with free show ?thesis
      by (intro exI [of _ s'] exI [of _ old] exI [of _ "recent @ [q]"] exI [of _ "n - 1"]) auto
  next
    case full
    have "card (insert q (set recent)) = Suc (length recent)"
      using full dist by (simp add: distinct_card)
    with room full obtain o1 old' where o: "old = o1 # old'" by (cases old) auto
    then have "touch_spec q (old @ recent) n = (True, old' @ (recent @ [q]), 0)"
      using full by (simp add: touch_spec_def)
    from touch_refines [OF rep q this] obtain s' where
      "touch s q = Some (True, s')" "rep s' (old' @ (recent @ [q])) 0" by auto
    with full o show ?thesis
      by (intro exI [of _ s'] exI [of _ old'] exI [of _ "recent @ [q]"] exI [of _ 0]) auto
  qed
qed

text \<open>The working set: keys that fit into the slots stay cached while only they are touched.\<close>

lemma working_set_step:
  assumes "rep s (old @ recent) n" and "\<forall>q \<in> set qs. valid q"
    and "card (set recent \<union> set qs) \<le> length old + length recent + n"
  shows "\<exists>s' old' recent' n'. touch_all touch qs s = Some (True, s') \<and> rep s' (old' @ recent') n' \<and>
           set recent' = set recent \<union> set qs"
  using assms
proof (induction qs arbitrary: s old recent n)
  case Nil
  then show ?case by auto
next
  case (Cons q qs)
  have "card (insert q (set recent)) \<le> card (set recent \<union> set (q # qs))"
    by (rule card_mono) auto
  then have room: "card (insert q (set recent)) \<le> length old + length recent + n"
    using Cons.prems(3) by simp
  obtain s1 old1 recent1 n1 where step: "touch s q = Some (True, s1)" "rep s1 (old1 @ recent1) n1"
      "set recent1 = insert q (set recent)"
      "length old1 + length recent1 + n1 = length old + length recent + n"
    using touch_keeps_recent [OF Cons.prems(1) _ room] Cons.prems(2) by auto
  then have "card (set recent1 \<union> set qs) \<le> length old1 + length recent1 + n1"
    using Cons.prems(3) by simp
  from Cons.IH [OF step(2) _ this] Cons.prems(2) obtain s' old' recent' n' where
    "touch_all touch qs s1 = Some (True, s')" "rep s' (old' @ recent') n'"
    "set recent' = set recent1 \<union> set qs" by auto
  with step show ?case by auto
qed

lemma working_set:
  assumes "rep s ks n" and "\<forall>q \<in> set qs. valid q" and "card (set qs) \<le> length ks + n"
  shows "\<exists>s' ks' n'. touch_all touch qs s = Some (True, s') \<and> rep s' ks' n' \<and> set qs \<subseteq> set ks'"
proof -
  from working_set_step [of s ks "[]" n qs] assms obtain s' old' recent' n' where
    "touch_all touch qs s = Some (True, s')" "rep s' (old' @ recent') n'" "set recent' = set qs" by auto
  then show ?thesis by (intro exI [of _ s'] exI [of _ "old' @ recent'"] exI [of _ n']) auto
qed

end

end
