(* ===== verification/Lru_Props.thy ===== *)
theory Lru_Props
  imports Lru Recency
begin

text \<open>
  Correctness of the LRU manager. \<open>dlink es p xs q\<close> says that the indices \<open>xs\<close>
  form a doubly linked segment of the entry array, entered from \<open>p\<close> and left
  towards \<open>q\<close>; \<open>lru_inv s xs\<close> is the invariant of the manager whose list, from
  the LRU tail to the MRU head, is \<open>xs\<close>; \<open>keys_of s xs\<close> is the abstract state, the
  keys in recency order. The operations are proved to refine the list operations
  of the abstract LRU cache.
\<close>

section \<open>Doubly linked segments\<close>

definition first_or :: "'a list \<Rightarrow> 'a \<Rightarrow> 'a" where
  "first_or xs q = (case xs of [] \<Rightarrow> q | x # _ \<Rightarrow> x)"

definition last_or :: "'a \<Rightarrow> 'a list \<Rightarrow> 'a" where
  "last_or p xs = (if xs = [] then p else last xs)"

fun dlink :: "lru_file_entry list \<Rightarrow> u32 \<Rightarrow> u32 list \<Rightarrow> u32 \<Rightarrow> bool" where
  "dlink es p [] q = True"
| "dlink es p (x # xs) q =
     (unat x < length es \<and> e_prev (es ! unat x) = p \<and> e_next (es ! unat x) = first_or xs q \<and>
      dlink es x xs q)"

lemma first_or_simps [simp]: "first_or [] q = q" "first_or (x # xs) q = x"
  by (simp_all add: first_or_def)

lemma last_or_simps [simp]: "last_or p [] = p" "last_or p (x # xs) = last_or x xs"
  by (simp_all add: last_or_def)

lemma last_or_snoc [simp]: "last_or p (xs @ [x]) = x"
  by (simp add: last_or_def)

lemma first_or_append [simp]: "first_or (xs @ ys) q = first_or xs (first_or ys q)"
  by (cases xs) auto

lemma last_or_append [simp]: "last_or p (xs @ ys) = last_or (last_or p xs) ys"
  by (auto simp: last_or_def)

lemma first_or_hd: "xs \<noteq> [] \<Longrightarrow> first_or xs q = hd xs"
  by (cases xs) auto

lemma last_or_last: "xs \<noteq> [] \<Longrightarrow> last_or p xs = last xs"
  by (simp add: last_or_def)

lemma dlink_append:
  "dlink es p (xs @ ys) q \<longleftrightarrow> dlink es p xs (first_or ys q) \<and> dlink es (last_or p xs) ys q"
  by (induction xs arbitrary: p) auto

lemma dlink_bound: "dlink es p xs q \<Longrightarrow> x \<in> set xs \<Longrightarrow> unat x < length es"
  by (induction xs arbitrary: p) auto

lemma unat_neq: "(x :: u32) \<noteq> y \<Longrightarrow> unat x \<noteq> unat y"
  by (simp add: word_unat_eq_iff)

lemma nth_update_u32: "j \<noteq> i \<Longrightarrow> es[unat i := e] ! unat (j :: u32) = es ! unat j"
  by (metis nth_list_update_neq unat_neq)

lemma dlink_frame: "x \<notin> set xs \<Longrightarrow> dlink (es[unat x := e]) p xs q = dlink es p xs q"
proof (induction xs arbitrary: p)
  case (Cons y ys)
  then have "unat x \<noteq> unat y" by (intro unat_neq) auto
  with Cons show ?case by (simp add: nth_list_update_neq)
qed simp

lemma dlink_set_next:
  "dlink es p (xs @ [x]) q \<Longrightarrow> x \<notin> set xs \<Longrightarrow>
   dlink (es[unat x := (es ! unat x)\<lparr>e_next := q'\<rparr>]) p (xs @ [x]) q'"
  by (auto simp: dlink_append dlink_frame)

lemma dlink_set_prev:
  "dlink es p (x # xs) q \<Longrightarrow> x \<notin> set xs \<Longrightarrow>
   dlink (es[unat x := (es ! unat x)\<lparr>e_prev := p'\<rparr>]) p' (x # xs) q"
  by (auto simp: dlink_frame)

section \<open>The invariant and the abstract state\<close>

definition key_at :: "lru_manager \<Rightarrow> u32 \<Rightarrow> ekey" where
  "key_at s i = e_ekey (entries s ! unat i)"

definition keys_of :: "lru_manager \<Rightarrow> u32 list \<Rightarrow> ekey list" where
  "keys_of s xs = map (key_at s) xs"

definition list_inv :: "lru_manager \<Rightarrow> u32 list \<Rightarrow> bool" where
  "list_inv s xs \<longleftrightarrow>
     length (entries s) < 2 ^ 32 \<and> distinct xs \<and>
     dlink (entries s) LRU_SENTINEL xs LRU_SENTINEL \<and>
     lru_tail (header s) = first_or xs LRU_SENTINEL \<and>
     mru_head (header s) = last_or LRU_SENTINEL xs"

definition slots_inv :: "lru_manager \<Rightarrow> u32 list \<Rightarrow> bool" where
  "slots_inv s xs \<longleftrightarrow>
     distinct (free_list s) \<and> set (free_list s) \<inter> set xs = {} \<and>
     (\<forall>i \<in> set (free_list s). unat i < length (entries s)) \<and>
     (\<forall>j. unat j < length (entries s) \<longrightarrow> j \<notin> set xs \<longrightarrow> entries s ! unat j = empty_entry)"

definition map_inv :: "lru_manager \<Rightarrow> u32 list \<Rightarrow> bool" where
  "map_inv s xs \<longleftrightarrow>
     distinct (map fst (key_map s)) \<and>
     (\<forall>k i. map_of (key_map s) k = Some i \<longleftrightarrow> i \<in> set xs \<and> key_at s i = k) \<and>
     (\<forall>e \<in> set (entries s). wf_entry e) \<and> wf_header (header s)"

definition lru_inv :: "lru_manager \<Rightarrow> u32 list \<Rightarrow> bool" where
  "lru_inv s xs \<longleftrightarrow> list_inv s xs \<and> slots_inv s xs \<and> map_inv s xs"

text \<open>Every slot is either in the list or free: no slot is lost.\<close>

definition no_leak :: "lru_manager \<Rightarrow> u32 list \<Rightarrow> bool" where
  "no_leak s xs \<longleftrightarrow> length xs + length (free_list s) = length (entries s)"

lemma sentinel_not_slot:
  "length (entries s) < 2 ^ 32 \<Longrightarrow> unat i < length (entries s) \<Longrightarrow> i \<noteq> LRU_SENTINEL"
  by (auto simp: LRU_SENTINEL_def)

lemma list_inv_slot:
  assumes "list_inv s xs" and "i \<in> set xs"
  shows "unat i < length (entries s)" and "i \<noteq> LRU_SENTINEL"
proof -
  from assms show "unat i < length (entries s)"
    by (auto simp: list_inv_def intro: dlink_bound)
  with assms(1) show "i \<noteq> LRU_SENTINEL"
    by (intro sentinel_not_slot) (auto simp: list_inv_def)
qed

lemma upd_entry_in:
  "unat i < length (entries s) \<Longrightarrow>
   upd_entry s i f = Some (s\<lparr>entries := (entries s)[unat i := f (entries s ! unat i)]\<rparr>)"
  by (simp add: upd_entry_def)


section \<open>Relinking\<close>

text \<open>
  \<open>set_next es xs q\<close> redirects the last entry of the segment \<open>xs\<close> towards \<open>q\<close>,
  \<open>set_prev es xs p\<close> its first entry towards \<open>p\<close>; on the empty segment both do
  nothing, which is where the code updates the header instead.
\<close>

definition set_next :: "lru_file_entry list \<Rightarrow> u32 list \<Rightarrow> u32 \<Rightarrow> lru_file_entry list" where
  "set_next es xs q =
     (if xs = [] then es
      else es[unat (last xs) := (es ! unat (last xs))\<lparr>e_next := q\<rparr>])"

definition set_prev :: "lru_file_entry list \<Rightarrow> u32 list \<Rightarrow> u32 \<Rightarrow> lru_file_entry list" where
  "set_prev es xs p =
     (if xs = [] then es
      else es[unat (hd xs) := (es ! unat (hd xs))\<lparr>e_prev := p\<rparr>])"

lemma length_relink [simp]:
  "length (set_next es xs q) = length es" "length (set_prev es xs p) = length es"
  by (simp_all add: set_next_def set_prev_def)

lemma ekey_list_update:
  "e_ekey e = e_ekey (es ! i) \<Longrightarrow> e_ekey (es[i := e] ! j) = e_ekey (es ! j)"
  by (cases "i < length es"; cases "i = j") (simp_all add: list_update_beyond)

lemma ekey_relink [simp]:
  "e_ekey (set_next es xs q ! j) = e_ekey (es ! j)" "e_ekey (set_prev es xs p ! j) = e_ekey (es ! j)"
  by (simp_all add: set_next_def set_prev_def ekey_list_update)

lemma wf_relink:
  "\<forall>e \<in> set es. wf_entry e \<Longrightarrow> \<forall>e \<in> set (set_next es xs q). wf_entry e"
  "\<forall>e \<in> set es. wf_entry e \<Longrightarrow> \<forall>e \<in> set (set_prev es xs p). wf_entry e"
  unfolding all_set_conv_all_nth by (simp_all add: wf_entry_def)

lemma relink_other:
  "x \<notin> set xs \<Longrightarrow> set_next es xs q ! unat x = es ! unat x"
  "x \<notin> set xs \<Longrightarrow> set_prev es xs p ! unat x = es ! unat x"
  by (auto simp: set_next_def set_prev_def intro!: nth_list_update_neq unat_neq)

lemma dlink_relink:
  "distinct xs \<Longrightarrow> dlink es p xs q \<Longrightarrow> dlink (set_next es xs q') p xs q'"
  "distinct xs \<Longrightarrow> dlink es p xs q \<Longrightarrow> dlink (set_prev es xs p') p' xs q"
proof -
  show "dlink (set_next es xs q') p xs q'" if "distinct xs" "dlink es p xs q"
    using that dlink_set_next by (cases xs rule: rev_cases) (auto simp: set_next_def)
  show "dlink (set_prev es xs p') p' xs q" if "distinct xs" "dlink es p xs q"
    using that dlink_set_prev by (cases xs) (auto simp: set_prev_def)
qed

lemma dlink_relink_frame:
  "set xs \<inter> set ys = {} \<Longrightarrow> dlink (set_next es xs q) p' ys q' = dlink es p' ys q'"
  "set xs \<inter> set ys = {} \<Longrightarrow> dlink (set_prev es xs p) p' ys q' = dlink es p' ys q'"
  by (auto simp: set_next_def set_prev_def disjoint_iff intro!: dlink_frame)

definition unlinked :: "lru_manager \<Rightarrow> u32 list \<Rightarrow> u32 \<Rightarrow> u32 list \<Rightarrow> lru_manager" where
  "unlinked s ys i zs =
     (let p = last_or LRU_SENTINEL ys; q = first_or zs LRU_SENTINEL;
          es = set_prev (set_next (entries s) ys q) zs p
      in s\<lparr>header := (header s)\<lparr>lru_tail := first_or (ys @ zs) LRU_SENTINEL,
                                mru_head := last_or LRU_SENTINEL (ys @ zs)\<rparr>,
            entries := es[unat i := (es ! unat i)\<lparr>e_prev := LRU_SENTINEL, e_next := LRU_SENTINEL\<rparr>]\<rparr>)"

lemma list_inv_split:
  assumes "list_inv s (ys @ i # zs)"
  shows "unat i < length (entries s)"
    and "e_prev (entries s ! unat i) = last_or LRU_SENTINEL ys"
    and "e_next (entries s ! unat i) = first_or zs LRU_SENTINEL"
    and "dlink (entries s) LRU_SENTINEL ys i" and "dlink (entries s) i zs LRU_SENTINEL"
    and "distinct (ys @ i # zs)"
  using assms by (auto simp: list_inv_def dlink_append)

lemma unlink_eq:
  assumes inv: "list_inv s (ys @ i # zs)"
  shows "unlink s i = Some (unlinked s ys i zs)"
proof -
  note sp = list_inv_split [OF inv]
  have ys: "last ys \<noteq> LRU_SENTINEL" "unat (last ys) < length (entries s)" if "ys \<noteq> []"
    using that list_inv_slot [OF inv, of "last ys"] by auto
  have zs: "hd zs \<noteq> LRU_SENTINEL" "unat (hd zs) < length (entries s)" if "zs \<noteq> []"
    using that list_inv_slot [OF inv, of "hd zs"] by auto
  have tail: "lru_tail (header s) = first_or ys i" and head: "mru_head (header s) = last_or i zs"
    using inv by (auto simp: list_inv_def)
  show ?thesis
  proof (cases "ys = []"; cases "zs = []")
    assume "ys = []" "zs = []"
    with sp(1-3) tail head show ?thesis
      by (simp add: unlink_def unlinked_def Let_def upd_entry_in set_next_def set_prev_def)
  next
    assume "ys = []" "zs \<noteq> []"
    with sp(1-3) tail head zs show ?thesis
      by (simp add: unlink_def unlinked_def Let_def upd_entry_in set_next_def set_prev_def
            first_or_hd last_or_last)
  next
    assume "ys \<noteq> []" "zs = []"
    with sp(1-3) tail head ys show ?thesis
      by (simp add: unlink_def unlinked_def Let_def upd_entry_in set_next_def set_prev_def
            first_or_hd last_or_last)
  next
    assume "ys \<noteq> []" "zs \<noteq> []"
    with sp(1-3) tail head ys zs show ?thesis
      by (simp add: unlink_def unlinked_def Let_def upd_entry_in set_next_def set_prev_def
            first_or_hd last_or_last)
  qed
qed


lemma wf_by_keys:
  "\<forall>e \<in> set es. wf_entry e \<Longrightarrow> length es' = length es \<Longrightarrow>
   (\<And>j. j < length es \<Longrightarrow> e_ekey (es' ! j) = e_ekey (es ! j)) \<Longrightarrow> \<forall>e \<in> set es'. wf_entry e"
  unfolding all_set_conv_all_nth by (simp add: wf_entry_def)

lemma unlinked_frame [simp]:
  "key_map (unlinked s ys i zs) = key_map s" "free_list (unlinked s ys i zs) = free_list s"
  "length (entries (unlinked s ys i zs)) = length (entries s)"
  "capacity (unlinked s ys i zs) = capacity s"
  "generation (unlinked s ys i zs) = generation s"
  "prev_generation (unlinked s ys i zs) = prev_generation s"
  "wf_header (header (unlinked s ys i zs)) = wf_header (header s)"
  by (simp_all add: unlinked_def Let_def wf_header_def)

lemma unlinked_ekey: "e_ekey (entries (unlinked s ys i zs) ! j) = e_ekey (entries s ! j)"
  by (simp add: unlinked_def Let_def ekey_list_update)

lemma unlinked_key_at [simp]: "key_at (unlinked s ys i zs) j = key_at s j"
  by (simp add: key_at_def unlinked_ekey)

lemma unlinked_other:
  "j \<notin> set (ys @ i # zs) \<Longrightarrow> entries (unlinked s ys i zs) ! unat j = entries s ! unat j"
  by (simp add: unlinked_def Let_def nth_update_u32 relink_other)

lemma unlinked_list_inv:
  assumes inv: "list_inv s (ys @ i # zs)"
  shows "list_inv (unlinked s ys i zs) (ys @ zs)"
proof -
  note sp = list_inv_split [OF inv]
  let ?p = "last_or LRU_SENTINEL ys" and ?q = "first_or zs LRU_SENTINEL"
  let ?es = "set_prev (set_next (entries s) ys ?q) zs ?p"
  have disj: "set ys \<inter> set zs = {}" "set zs \<inter> set ys = {}" using sp(6) by auto
  have "dlink ?es LRU_SENTINEL ys ?q"
    using sp(4,6) disj by (simp add: dlink_relink_frame dlink_relink)
  moreover have "dlink ?es ?p zs LRU_SENTINEL"
    using sp(5,6) disj by (intro dlink_relink) (auto simp: dlink_relink_frame)
  ultimately show ?thesis
    using inv sp(6)
    by (simp add: list_inv_def unlinked_def Let_def dlink_append dlink_frame)
qed

definition linked :: "lru_manager \<Rightarrow> u32 list \<Rightarrow> u32 \<Rightarrow> lru_manager" where
  "linked s xs i =
     s\<lparr>header := (header s)\<lparr>lru_tail := first_or xs i, mru_head := i\<rparr>,
       entries := set_next ((entries s)[unat i := (entries s ! unat i)\<lparr>e_next := LRU_SENTINEL,
                                                   e_prev := last_or LRU_SENTINEL xs\<rparr>]) xs i\<rparr>"

lemma link_at_head_eq:
  assumes inv: "list_inv s xs" and i: "i \<notin> set xs" "unat i < length (entries s)"
  shows "link_at_head s i = Some (linked s xs i)"
proof (cases "xs = []")
  case True
  with inv i show ?thesis
    by (simp add: link_at_head_def linked_def Let_def upd_entry_in list_inv_def set_next_def)
next
  case False
  with list_inv_slot [OF inv, of "last xs"]
  have "last xs \<noteq> LRU_SENTINEL" "unat (last xs) < length (entries s)" by auto
  with False inv i show ?thesis
    by (simp add: link_at_head_def linked_def Let_def upd_entry_in list_inv_def set_next_def
          first_or_hd last_or_last)
qed

lemma linked_frame [simp]:
  "key_map (linked s xs i) = key_map s" "free_list (linked s xs i) = free_list s"
  "length (entries (linked s xs i)) = length (entries s)"
  "capacity (linked s xs i) = capacity s" "generation (linked s xs i) = generation s"
  "prev_generation (linked s xs i) = prev_generation s"
  "wf_header (header (linked s xs i)) = wf_header (header s)"
  by (simp_all add: linked_def wf_header_def)

lemma linked_ekey: "e_ekey (entries (linked s xs i) ! j) = e_ekey (entries s ! j)"
  by (simp add: linked_def ekey_list_update)

lemma linked_key_at [simp]: "key_at (linked s xs i) j = key_at s j"
  by (simp add: key_at_def linked_ekey)

lemma linked_other:
  "j \<notin> set (xs @ [i]) \<Longrightarrow> entries (linked s xs i) ! unat j = entries s ! unat j"
  by (simp add: linked_def relink_other nth_update_u32)

lemma linked_list_inv:
  assumes inv: "list_inv s xs" and i: "i \<notin> set xs" "unat i < length (entries s)"
  shows "list_inv (linked s xs i) (xs @ [i])"
proof -
  let ?p = "last_or LRU_SENTINEL xs"
  let ?es = "(entries s)[unat i := (entries s ! unat i)\<lparr>e_next := LRU_SENTINEL, e_prev := ?p\<rparr>]"
  have "dlink ?es LRU_SENTINEL xs LRU_SENTINEL" and dist: "distinct xs"
    using inv i by (auto simp: list_inv_def dlink_frame)
  then have "dlink (set_next ?es xs i) LRU_SENTINEL xs i" by (intro dlink_relink)
  moreover have "dlink (set_next ?es xs i) ?p [i] LRU_SENTINEL"
    using i by (subst dlink_relink_frame) auto
  ultimately show ?thesis
    using inv i dist by (simp add: list_inv_def linked_def dlink_append)
qed


section \<open>Operations on the invariant\<close>

lemma map_inv_Some:
  "map_inv s xs \<Longrightarrow> map_of (key_map s) k = Some i \<longleftrightarrow> i \<in> set xs \<and> key_at s i = k"
  by (simp add: map_inv_def)

lemma map_inv_None:
  assumes inv: "map_inv s xs"
  shows "map_of (key_map s) k = None \<longleftrightarrow> k \<notin> set (keys_of s xs)"
proof (cases "map_of (key_map s) k")
  case None
  then have "\<And>i. i \<in> set xs \<Longrightarrow> key_at s i \<noteq> k" using map_inv_Some [OF inv, of k] by auto
  with None show ?thesis by (auto simp: keys_of_def)
next
  case (Some i)
  then have "i \<in> set xs" "key_at s i = k" using map_inv_Some [OF inv, of k i] by auto
  with Some show ?thesis by (auto simp: keys_of_def)
qed

lemma keys_of_distinct: "lru_inv s xs \<Longrightarrow> distinct (keys_of s xs)"
proof -
  assume inv: "lru_inv s xs"
  then have m: "map_inv s xs" and d: "distinct xs" by (auto simp: lru_inv_def list_inv_def)
  have "inj_on (key_at s) (set xs)"
  proof (rule inj_onI)
    fix i j assume "i \<in> set xs" "j \<in> set xs" "key_at s i = key_at s j"
    then have "map_of (key_map s) (key_at s i) = Some i" "map_of (key_map s) (key_at s i) = Some j"
      using map_inv_Some [OF m] by auto
    then show "i = j" by simp
  qed
  with d show ?thesis by (simp add: keys_of_def distinct_map)
qed

lemma keys_of_append [simp]: "keys_of s (xs @ ys) = keys_of s xs @ keys_of s ys"
  by (simp add: keys_of_def)

lemma keys_of_Cons [simp]: "keys_of s (x # xs) = key_at s x # keys_of s xs"
  by (simp add: keys_of_def)

lemma keys_of_Nil [simp]: "keys_of s [] = []"
  by (simp add: keys_of_def)

lemma keys_of_cong: "(\<And>j. j \<in> set xs \<Longrightarrow> key_at s' j = key_at s j) \<Longrightarrow> keys_of s' xs = keys_of s xs"
  by (simp add: keys_of_def)

text \<open>Moving an entry to the MRU head.\<close>

lemma move_to_head_inv:
  assumes inv: "lru_inv s (ys @ i # zs)"
  shows "lru_inv (linked (unlinked s ys i zs) (ys @ zs) i) (ys @ zs @ [i])"
proof -
  let ?u = "unlinked s ys i zs" and ?s = "linked (unlinked s ys i zs) (ys @ zs) i"
  have l: "list_inv s (ys @ i # zs)" using inv by (simp add: lru_inv_def)
  note sp = list_inv_split [OF l]
  have "list_inv ?s ((ys @ zs) @ [i])"
    using sp by (intro linked_list_inv unlinked_list_inv l) auto
  moreover have "entries ?s ! unat j = entries s ! unat j" if "j \<notin> set (ys @ i # zs)" for j
    using that by (simp add: linked_other unlinked_other)
  then have "slots_inv ?s (ys @ zs @ [i])"
    using inv by (auto simp: lru_inv_def slots_inv_def)
  moreover have "\<forall>e \<in> set (entries ?s). wf_entry e"
  proof (rule wf_by_keys)
    show "\<forall>e \<in> set (entries s). wf_entry e" using inv by (simp add: lru_inv_def map_inv_def)
  qed (simp_all add: linked_ekey unlinked_ekey)
  then have "map_inv ?s (ys @ zs @ [i])"
    using inv by (auto simp: lru_inv_def map_inv_def)
  ultimately show ?thesis by (simp add: lru_inv_def)
qed

text \<open>Dropping an entry from the list, the map and the array.\<close>

definition discarded :: "lru_manager \<Rightarrow> u32 list \<Rightarrow> u32 \<Rightarrow> u32 list \<Rightarrow> lru_manager" where
  "discarded s ys i zs =
     (let s1 = unlinked (s\<lparr>key_map := AList.delete (key_at s i) (key_map s)\<rparr>) ys i zs
      in s1\<lparr>entries := (entries s1)[unat i := empty_entry]\<rparr>)"

lemma list_inv_cong:
  "list_inv s xs \<Longrightarrow> header s' = header s \<Longrightarrow> entries s' = entries s \<Longrightarrow> list_inv s' xs"
  by (simp add: list_inv_def)

lemma list_inv_upd_other:
  "list_inv s xs \<Longrightarrow> i \<notin> set xs \<Longrightarrow> list_inv (s\<lparr>entries := (entries s)[unat i := e]\<rparr>) xs"
  by (simp add: list_inv_def dlink_frame)

lemma list_inv_fill:
  "list_inv s xs \<Longrightarrow> i \<notin> set xs \<Longrightarrow>
   list_inv (s\<lparr>entries := (entries s)[unat i := e], key_map := m\<rparr>) xs"
  by (simp add: list_inv_def dlink_frame)

lemma discarded_frame [simp]:
  "key_map (discarded s ys i zs) = AList.delete (key_at s i) (key_map s)"
  "free_list (discarded s ys i zs) = free_list s"
  "length (entries (discarded s ys i zs)) = length (entries s)"
  "capacity (discarded s ys i zs) = capacity s"
  "generation (discarded s ys i zs) = generation s"
  "prev_generation (discarded s ys i zs) = prev_generation s"
  "wf_header (header (discarded s ys i zs)) = wf_header (header s)"
  by (simp_all add: discarded_def Let_def)

lemma discarded_key_at: "j \<noteq> i \<Longrightarrow> key_at (discarded s ys i zs) j = key_at s j"
  using unlinked_key_at [of "s\<lparr>key_map := AList.delete (key_at s i) (key_map s)\<rparr>" ys i zs j]
  by (simp add: discarded_def Let_def key_at_def nth_update_u32)

lemma discarded_inv:
  assumes inv: "lru_inv s (ys @ i # zs)"
  shows "lru_inv (discarded s ys i zs) (ys @ zs)"
proof -
  let ?base = "s\<lparr>key_map := AList.delete (key_at s i) (key_map s)\<rparr>"
  let ?d = "discarded s ys i zs"
  have l: "list_inv s (ys @ i # zs)" using inv by (simp add: lru_inv_def)
  note sp = list_inv_split [OF l]
  have "list_inv ?base (ys @ i # zs)" using l by (rule list_inv_cong) simp_all
  then have "list_inv ?d (ys @ zs)"
    using sp(6) unfolding discarded_def Let_def
    by (intro list_inv_upd_other unlinked_list_inv) auto
  moreover have "entries ?d ! unat j = (if j = i then empty_entry else entries s ! unat j)"
    if "j \<notin> set (ys @ zs)" for j
    using that sp(1) by (auto simp: discarded_def Let_def nth_update_u32 unlinked_other)
  then have "slots_inv ?d (ys @ zs)"
    using inv by (auto simp: lru_inv_def slots_inv_def)
  moreover have "\<forall>e \<in> set (entries (unlinked ?base ys i zs)). wf_entry e"
  proof (rule wf_by_keys)
    show "\<forall>e \<in> set (entries s). wf_entry e" using inv by (simp add: lru_inv_def map_inv_def)
  qed (simp_all add: unlinked_ekey)
  then have "\<forall>e \<in> set (entries ?d). wf_entry e"
    by (auto simp: discarded_def Let_def dest: set_update_subset_insert [THEN subsetD])
  moreover have "map_of (key_map ?d) k = Some j \<longleftrightarrow> j \<in> set (ys @ zs) \<and> key_at ?d j = k" for k j
  proof -
    have m: "map_of (key_map s) k = Some j \<longleftrightarrow> j \<in> set (ys @ i # zs) \<and> key_at s j = k"
      using inv by (intro map_inv_Some) (simp add: lru_inv_def)
    have u: "j \<noteq> i \<and> key_at s j \<noteq> key_at s i" if j: "j \<in> set (ys @ zs)"
    proof -
      have "key_at s j \<in> set (keys_of s (ys @ zs))" using j by (auto simp: keys_of_def)
      with j keys_of_distinct [OF inv] sp(6) show ?thesis by auto
    qed
    show ?thesis
      using m u by (auto simp: delete_conv' discarded_key_at)
  qed
  ultimately have "map_inv ?d (ys @ zs)"
    using inv unfolding lru_inv_def map_inv_def by (simp add: distinct_delete)
  with \<open>list_inv ?d (ys @ zs)\<close> \<open>slots_inv ?d (ys @ zs)\<close> show ?thesis by (simp add: lru_inv_def)
qed


text \<open>Filling a slot that is neither in the list nor free, and linking it at the head.\<close>

definition inserted :: "lru_manager \<Rightarrow> u32 list \<Rightarrow> u32 \<Rightarrow> ekey \<Rightarrow> lru_manager" where
  "inserted s xs i k =
     linked (s\<lparr>entries := (entries s)[unat i := \<lparr>e_prev = LRU_SENTINEL, e_next = LRU_SENTINEL,
                                              e_ekey = k, e_flags = 0\<rparr>],
               key_map := AList.update k i (key_map s)\<rparr>) xs i"

lemma inserted_frame [simp]:
  "key_map (inserted s xs i k) = AList.update k i (key_map s)"
  "free_list (inserted s xs i k) = free_list s"
  "length (entries (inserted s xs i k)) = length (entries s)"
  "capacity (inserted s xs i k) = capacity s" "generation (inserted s xs i k) = generation s"
  "prev_generation (inserted s xs i k) = prev_generation s"
  "wf_header (header (inserted s xs i k)) = wf_header (header s)"
  by (simp_all add: inserted_def)

lemma inserted_key_at:
  "unat i < length (entries s) \<Longrightarrow>
   key_at (inserted s xs i k) j = (if j = i then k else key_at s j)"
  by (simp add: inserted_def) (simp add: key_at_def nth_update_u32)

lemma inserted_keys_of:
  "unat i < length (entries s) \<Longrightarrow> i \<notin> set xs \<Longrightarrow>
   keys_of (inserted s xs i k) (xs @ [i]) = keys_of s xs @ [k]"
  using keys_of_cong [of xs "inserted s xs i k" s] by (fastforce simp: inserted_key_at)

lemma inserted_inv:
  assumes inv: "lru_inv s xs" and i: "unat i < length (entries s)" "i \<notin> set xs" "i \<notin> set (free_list s)"
    and k: "k \<notin> set (keys_of s xs)" "length k = 9"
  shows "lru_inv (inserted s xs i k) (xs @ [i])"
proof -
  let ?e = "\<lparr>e_prev = LRU_SENTINEL, e_next = LRU_SENTINEL, e_ekey = k, e_flags = 0\<rparr>"
  let ?base = "s\<lparr>entries := (entries s)[unat i := ?e], key_map := AList.update k i (key_map s)\<rparr>"
  let ?s = "inserted s xs i k"
  have l: "list_inv ?base xs"
    using inv i(2) by (intro list_inv_fill) (simp add: lru_inv_def)
  then have "list_inv ?s (xs @ [i])"
    using i unfolding inserted_def by (intro linked_list_inv) auto
  moreover have "entries ?s ! unat j = entries s ! unat j" if "j \<notin> set (xs @ [i])" for j
    using that by (simp add: inserted_def linked_other nth_update_u32)
  then have "slots_inv ?s (xs @ [i])"
    using inv i(3) by (auto simp: lru_inv_def slots_inv_def)
  moreover have "\<forall>e \<in> set (entries ?base). wf_entry e"
    using inv k(2) by (auto simp: lru_inv_def map_inv_def wf_entry_def
        dest: set_update_subset_insert [THEN subsetD])
  then have "\<forall>e \<in> set (entries ?s). wf_entry e"
    by (rule wf_by_keys) (simp_all add: inserted_def linked_ekey)
  moreover have "map_of (key_map ?s) k' = Some j \<longleftrightarrow> j \<in> set (xs @ [i]) \<and> key_at ?s j = k'" for k' j
  proof -
    have m: "map_of (key_map s) k' = Some j \<longleftrightarrow> j \<in> set xs \<and> key_at s j = k'"
      using inv by (intro map_inv_Some) (simp add: lru_inv_def)
    have "key_at s j \<noteq> k" if "j \<in> set xs" using that k(1) by (auto simp: keys_of_def)
    with m i show ?thesis by (auto simp: update_conv' inserted_key_at)
  qed
  ultimately have "map_inv ?s (xs @ [i])"
    using inv unfolding lru_inv_def map_inv_def by (simp add: distinct_update)
  with \<open>list_inv ?s (xs @ [i])\<close> \<open>slots_inv ?s (xs @ [i])\<close> show ?thesis by (simp add: lru_inv_def)
qed

lemma lru_inv_pop_free:
  assumes inv: "lru_inv s xs" and ne: "free_list s \<noteq> []"
  shows "lru_inv (s\<lparr>free_list := butlast (free_list s)\<rparr>) xs"
    and "last (free_list s) \<notin> set (butlast (free_list s))"
    and "last (free_list s) \<notin> set xs" and "unat (last (free_list s)) < length (entries s)"
proof -
  obtain fl i where fl: "free_list s = fl @ [i]" using ne by (cases "free_list s" rule: rev_cases) auto
  then show "lru_inv (s\<lparr>free_list := butlast (free_list s)\<rparr>) xs"
    and "last (free_list s) \<notin> set (butlast (free_list s))"
    and "last (free_list s) \<notin> set xs" and "unat (last (free_list s)) < length (entries s)"
    using inv by (auto simp: lru_inv_def list_inv_def slots_inv_def map_inv_def key_at_def)
qed

section \<open>The operations, computed\<close>

lemma unlink_cong_key_map:
  assumes "list_inv s (ys @ i # zs)"
  shows "unlink (s\<lparr>key_map := m\<rparr>) i = Some (unlinked (s\<lparr>key_map := m\<rparr>) ys i zs)"
  by (rule unlink_eq) (rule list_inv_cong [OF assms]; simp)

lemma evict_tail_Nil: "lru_inv s [] \<Longrightarrow> evict_tail s = Some (None, s)"
  by (simp add: evict_tail_def lru_inv_def list_inv_def)

lemma evict_tail_Cons:
  assumes inv: "lru_inv s (i # zs)"
  shows "evict_tail s = Some (Some i, discarded s [] i zs)"
proof -
  have l: "list_inv s ([] @ i # zs)" using inv by (simp add: lru_inv_def)
  then have "i \<noteq> LRU_SENTINEL" "unat i < length (entries s)"
    using list_inv_slot [of s "i # zs" i] by auto
  moreover have "lru_tail (header s) = i" using l by (simp add: list_inv_def)
  ultimately show ?thesis
    using unlink_cong_key_map [OF l]
    by (simp add: evict_tail_def Let_def upd_entry_in discarded_def key_at_def)
qed

lemma remove_hit:
  assumes inv: "lru_inv s (ys @ i # zs)" and k: "key_at s i = k"
  shows "remove s k = Some (True, (discarded s ys i zs)\<lparr>free_list := free_list s @ [i]\<rparr>)"
proof -
  have l: "list_inv s (ys @ i # zs)" and m: "map_inv s (ys @ i # zs)"
    using inv by (auto simp: lru_inv_def)
  have "map_of (key_map s) k = Some i" using map_inv_Some [OF m, of k i] k by simp
  then show ?thesis
    using unlink_cong_key_map [OF l] list_inv_split(1) [OF l] k
    by (simp add: remove_def upd_entry_in discarded_def Let_def)
qed

lemma touch_hit:
  assumes inv: "lru_inv s (ys @ i # zs)" and k: "key_at s i = k"
  shows "touch s k = Some (True, linked (unlinked s ys i zs) (ys @ zs) i)"
proof -
  have l: "list_inv s (ys @ i # zs)" and m: "map_inv s (ys @ i # zs)"
    using inv by (auto simp: lru_inv_def)
  have "map_of (key_map s) k = Some i" using map_inv_Some [OF m, of k i] k by simp
  moreover have "link_at_head (unlinked s ys i zs) i = Some (linked (unlinked s ys i zs) (ys @ zs) i)"
    using unlinked_list_inv [OF l] list_inv_split(1,6) [OF l] by (intro link_at_head_eq) auto
  ultimately show ?thesis
    using unlink_eq [OF l] by (simp add: touch_def)
qed

lemma fill_slot:
  assumes inv: "lru_inv s xs" and i: "unat i < length (entries s)" "i \<notin> set xs"
  shows "(do { s2 \<leftarrow> upd_entry s i (\<lambda>_. \<lparr>e_prev = LRU_SENTINEL, e_next = LRU_SENTINEL,
                                      e_ekey = k, e_flags = 0\<rparr>);
               s3 \<leftarrow> link_at_head (s2\<lparr>key_map := AList.update k i (key_map s2)\<rparr>) i;
               Some (True, s3) }) = Some (True, inserted s xs i k)"
proof -
  let ?e = "\<lparr>e_prev = LRU_SENTINEL, e_next = LRU_SENTINEL, e_ekey = k, e_flags = 0\<rparr>"
  have "list_inv (s\<lparr>entries := (entries s)[unat i := ?e], key_map := AList.update k i (key_map s)\<rparr>) xs"
    using inv i(2) by (intro list_inv_fill) (simp add: lru_inv_def)
  from link_at_head_eq [OF this i(2)] i(1) show ?thesis
    by (simp add: upd_entry_in inserted_def)
qed


section \<open>Refinement of the recency cache\<close>

definition represents :: "lru_manager \<Rightarrow> ekey list \<Rightarrow> nat \<Rightarrow> bool" where
  "represents s ks n \<longleftrightarrow>
     (\<exists>xs. lru_inv s xs \<and> keys_of s xs = ks \<and> length (free_list s) = n)"

lemma representsI: "lru_inv s xs \<Longrightarrow> keys_of s xs = ks \<Longrightarrow> length (free_list s) = n \<Longrightarrow> represents s ks n"
  by (auto simp: represents_def)

lemma represents_split:
  assumes "represents s ks n" and "k \<in> set ks"
  obtains ys i zs where "lru_inv s (ys @ i # zs)" "key_at s i = k"
    "ks = keys_of s ys @ k # keys_of s zs" "k \<notin> set (keys_of s ys)" "length (free_list s) = n"
proof -
  from assms obtain xs where xs: "lru_inv s xs" "keys_of s xs = ks" "length (free_list s) = n"
    by (auto simp: represents_def)
  with assms(2) obtain i where "i \<in> set xs" and k: "key_at s i = k" by (auto simp: keys_of_def)
  then obtain ys zs where "xs = ys @ i # zs" by (auto dest: split_list)
  with xs k keys_of_distinct [OF xs(1)] show thesis by (intro that [of ys i zs]) auto
qed

lemma represents_contains:
  assumes "represents s ks n"
  shows "contains_key s k \<longleftrightarrow> k \<in> set ks"
proof -
  from assms obtain xs where "map_inv s xs" "keys_of s xs = ks" by (auto simp: represents_def lru_inv_def)
  with map_inv_None [of s xs k] show ?thesis by (auto simp: contains_key_def)
qed

lemma represents_keys_9:
  assumes "represents s ks n" and "k \<in> set ks"
  shows "length k = 9"
proof -
  from represents_split [OF assms] obtain ys i zs where
    inv: "lru_inv s (ys @ i # zs)" and k: "key_at s i = k" by metis
  have "unat i < length (entries s)" using inv list_inv_split(1) [of s ys i zs] by (simp add: lru_inv_def)
  with inv k show ?thesis
    by (auto simp: lru_inv_def map_inv_def wf_entry_def key_at_def)
qed

lemma touch_hit_rep:
  assumes "represents s ks n" and "k \<in> set ks"
  shows "\<exists>s'. touch s k = Some (True, s') \<and> represents s' (remove1 k ks @ [k]) n"
proof -
  from represents_split [OF assms] obtain ys i zs where sp: "lru_inv s (ys @ i # zs)" "key_at s i = k"
    "ks = keys_of s ys @ k # keys_of s zs" "k \<notin> set (keys_of s ys)" "length (free_list s) = n" by metis
  let ?s = "linked (unlinked s ys i zs) (ys @ zs) i"
  have "keys_of ?s (ys @ zs @ [i]) = remove1 k ks @ [k]"
    using sp(2-4) by (simp add: keys_of_def remove1_append)
  with touch_hit [OF sp(1,2)] move_to_head_inv [OF sp(1)] sp(5) show ?thesis
    by (intro exI [of _ ?s]) (auto intro: representsI)
qed

lemma fill_slot_rep:
  assumes inv: "lru_inv s xs" and i: "unat i < length (entries s)" "i \<notin> set xs" "i \<notin> set (free_list s)"
    and k: "k \<notin> set (keys_of s xs)" "length k = 9"
  shows "represents (inserted s xs i k) (keys_of s xs @ [k]) (length (free_list s))"
  using inserted_inv [OF inv i k] inserted_keys_of [OF i(1,2)] by (intro representsI) auto

lemma touch_free_rep:
  assumes rep: "represents s ks n" and k: "k \<notin> set ks" "length k = 9" and n: "0 < n"
  shows "\<exists>s'. touch s k = Some (True, s') \<and> represents s' (ks @ [k]) (n - 1)"
proof -
  from rep obtain xs where xs: "lru_inv s xs" "keys_of s xs = ks" "length (free_list s) = n"
    by (auto simp: represents_def)
  with n have ne: "free_list s \<noteq> []" by auto
  let ?i = "last (free_list s)" and ?p = "s\<lparr>free_list := butlast (free_list s)\<rparr>"
  note pop = lru_inv_pop_free [OF xs(1) ne]
  have ks: "keys_of ?p xs = ks" using xs(2) keys_of_cong [of xs ?p s] by (simp add: key_at_def)
  have "map_of (key_map s) k = None" using xs k(1) map_inv_None [of s xs k] by (simp add: lru_inv_def)
  then have "touch s k = Some (True, inserted ?p xs ?i k)"
    using fill_slot [OF pop(1), of ?i k] pop(3,4) ne by (simp add: touch_def alloc_slot_def)
  moreover have "represents (inserted ?p xs ?i k) (ks @ [k]) (n - 1)"
    using fill_slot_rep [OF pop(1), of ?i k] pop(2-4) ks k xs(3) by simp
  ultimately show ?thesis by blast
qed

lemma discarded_keys_of: "i \<notin> set xs \<Longrightarrow> keys_of (discarded s ys i zs) xs = keys_of s xs"
  by (rule keys_of_cong, rule discarded_key_at) auto

lemma discarded_rep:
  assumes "lru_inv s (ys @ i # zs)"
  shows "represents (discarded s ys i zs) (keys_of s (ys @ zs)) (length (free_list s))"
proof -
  have "i \<notin> set (ys @ zs)" using assms by (auto simp: lru_inv_def list_inv_def)
  then have "keys_of (discarded s ys i zs) (ys @ zs) = keys_of s (ys @ zs)"
    by (rule discarded_keys_of)
  with discarded_inv [OF assms] show ?thesis by (intro representsI) auto
qed

lemma evict_tail_rep:
  assumes "represents s ks n"
  shows "ks = [] \<Longrightarrow> evict_tail s = Some (None, s)"
    and "ks = k # ks' \<Longrightarrow> \<exists>i s'. evict_tail s = Some (Some i, s') \<and> represents s' ks' n"
proof -
  from assms obtain xs where xs: "lru_inv s xs" "keys_of s xs = ks" "length (free_list s) = n"
    by (auto simp: represents_def)
  show "evict_tail s = Some (None, s)" if "ks = []"
    using that xs evict_tail_Nil by (auto simp: keys_of_def)
  show "\<exists>i s'. evict_tail s = Some (Some i, s') \<and> represents s' ks' n" if ks: "ks = k # ks'"
  proof -
    from ks xs obtain i zs where "xs = i # zs" by (cases xs) (auto simp: keys_of_def)
    with xs ks evict_tail_Cons [of s i zs] discarded_rep [of s "[]" i zs] show ?thesis by auto
  qed
qed

lemma touch_full_rep:
  assumes rep: "represents s (k0 # ks) 0" and k: "k \<notin> set (k0 # ks)" "length k = 9"
  shows "\<exists>s'. touch s k = Some (True, s') \<and> represents s' (ks @ [k]) 0"
proof -
  from rep obtain i zs where xs: "lru_inv s (i # zs)" "keys_of s (i # zs) = k0 # ks" "free_list s = []"
    by (auto simp: represents_def keys_of_def)
  let ?d = "discarded s [] i zs"
  have inv: "lru_inv ?d zs" using discarded_inv [of s "[]" i zs] xs(1) by simp
  have i: "unat i < length (entries ?d)" "i \<notin> set zs"
    using xs(1) list_inv_split [of s "[]" i zs] by (auto simp: lru_inv_def)
  have ks: "keys_of ?d zs = ks"
    using xs(2) discarded_keys_of [OF i(2)] by simp
  have "map_of (key_map s) k = None" using xs(1,2) k(1) map_inv_None [of s "i # zs" k] by (simp add: lru_inv_def)
  then have "touch s k = Some (True, inserted ?d zs i k)"
    using fill_slot [OF inv i, of k] evict_tail_Cons [OF xs(1)] xs(3)
    by (simp add: touch_def alloc_slot_def)
  moreover have "represents (inserted ?d zs i k) (ks @ [k]) 0"
    using fill_slot_rep [OF inv i, of k] ks k xs(3) by simp
  ultimately show ?thesis by blast
qed

lemma touch_none_rep:
  assumes "represents s [] 0"
  shows "touch s k = Some (False, s)"
proof -
  from assms have inv: "lru_inv s []" and fl: "free_list s = []"
    by (auto simp: represents_def keys_of_def)
  then have "map_of (key_map s) k = None" using map_inv_None [of s "[]" k] by (simp add: lru_inv_def)
  with inv fl show ?thesis by (simp add: touch_def alloc_slot_def evict_tail_Nil)
qed

interpretation lru: recency_cache represents "\<lambda>k. length k = 9" touch
proof
  fix s :: lru_manager and ks n
  assume "represents s ks n"
  then show "distinct ks" by (auto simp: represents_def dest: keys_of_distinct)
next
  fix s :: lru_manager and ks n k b ks' n'
  assume rep: "represents s ks n" and k: "length k = 9" and spec: "touch_spec k ks n = (b, ks', n')"
  consider "k \<in> set ks" | "k \<notin> set ks" "0 < n" | "n = 0" "ks = []"
    | k0 ks0 where "k \<notin> set ks" "n = 0" "ks = k0 # ks0" by (cases ks; cases n) auto
  then show "\<exists>s'. touch s k = Some (b, s') \<and> represents s' ks' n'"
  proof cases
    case 1 with touch_hit_rep [OF rep] spec show ?thesis by (auto simp: touch_spec_def)
  next
    case 2 with touch_free_rep [OF rep _ k] spec show ?thesis by (auto simp: touch_spec_def)
  next
    case 3 with touch_none_rep [of s k] rep spec show ?thesis by (auto simp: touch_spec_def)
  next
    case 4 with touch_full_rep [of s k0 ks0 k] rep k spec show ?thesis by (auto simp: touch_spec_def)
  qed
qed


section \<open>Removal, eviction, iteration\<close>

lemma remove_rep:
  assumes rep: "represents s ks n"
  shows "\<exists>s'. remove s k = Some (k \<in> set ks, s') \<and>
           represents s' (remove1 k ks) (if k \<in> set ks then Suc n else n)"
proof (cases "k \<in> set ks")
  case False
  then have "map_of (key_map s) k = None"
    using represents_contains [OF rep, of k] by (simp add: contains_key_def)
  with False rep show ?thesis by (simp add: remove_def remove1_idem)
next
  case True
  from represents_split [OF rep True] obtain ys i zs where sp: "lru_inv s (ys @ i # zs)" "key_at s i = k"
    "ks = keys_of s ys @ k # keys_of s zs" "k \<notin> set (keys_of s ys)" "length (free_list s) = n" by metis
  let ?d = "discarded s ys i zs" and ?f = "free_list s @ [i]"
  have inv: "lru_inv ?d (ys @ zs)" using sp(1) by (rule discarded_inv)
  have i: "i \<notin> set (ys @ zs)" "unat i < length (entries s)" "i \<notin> set (free_list s)"
    using sp(1) list_inv_split [of s ys i zs] by (auto simp: lru_inv_def slots_inv_def)
  have "lru_inv (?d\<lparr>free_list := ?f\<rparr>) (ys @ zs)"
    using inv i by (auto simp: lru_inv_def list_inv_def slots_inv_def map_inv_def key_at_def)
  moreover have "keys_of (?d\<lparr>free_list := ?f\<rparr>) (ys @ zs) = remove1 k ks"
    using sp(2-4) i(1) discarded_keys_of [of i "ys @ zs" s ys zs]
      keys_of_cong [of "ys @ zs" "?d\<lparr>free_list := ?f\<rparr>" ?d]
    by (simp add: key_at_def remove1_append)
  ultimately show ?thesis
    using True remove_hit [OF sp(1,2)] sp(5) by (auto intro!: representsI)
qed

text \<open>How many entries \<open>evict_to_target\<close> drops, counted on naturals.\<close>

fun evict_count :: "nat \<Rightarrow> nat \<Rightarrow> nat \<Rightarrow> nat \<Rightarrow> nat" where
  "evict_count t a f 0 = 0"
| "evict_count t a f (Suc l) = (if f < t then Suc (evict_count t a (f + a) l) else 0)"

lemma evict_count_le: "evict_count t a f l \<le> l"
  by (induction l arbitrary: f) auto

lemma evict_count_closed:
  "0 < a \<Longrightarrow> evict_count t a f l = min l ((t - f + a - 1) div a)"
proof (induction l arbitrary: f)
  case (Suc l)
  show ?case
  proof (cases "f < t")
    case True
    then have "t - f + a - 1 = (t - f - 1) + a" by simp
    then have "(t - f + a - 1) div a = Suc ((t - f - 1) div a)"
      using Suc.prems by (simp only: div_add_self2)
    moreover have "t - f - 1 = t - (f + a) + a - 1 \<or> (t - f - 1 < a \<and> t \<le> f + a)"
      using True by auto
    then have "(t - f - 1) div a = (t - (f + a) + a - 1) div a" by auto
    ultimately show ?thesis using True Suc by simp
  next
    case False
    then show ?thesis using Suc.prems by simp
  qed
qed simp

lemma evict_loop_rep:
  assumes "represents s ks n" and "unat target + unat avg \<le> 2 ^ 64"
  shows "\<exists>f' s'. evict_loop target avg e f s =
             Some ((e + evict_count (unat target) (unat avg) (unat f) (length ks), f'), s') \<and>
           unat f' = unat f + evict_count (unat target) (unat avg) (unat f) (length ks) * unat avg \<and>
           represents s' (drop (evict_count (unat target) (unat avg) (unat f) (length ks)) ks) n"
  using assms(1)
proof (induction ks arbitrary: s e f)
  case Nil
  then show ?case using evict_tail_rep(1) [OF Nil] by (subst evict_loop.simps) simp
next
  case (Cons k ks)
  show ?case
  proof (cases "f < target")
    case False
    with Cons.prems show ?thesis by (subst evict_loop.simps) (simp add: word_less_nat_alt)
  next
    case True
    from evict_tail_rep(2) [OF Cons.prems refl] obtain i s1 where
      ev: "evict_tail s = Some (Some i, s1)" and rep: "represents s1 ks n" by auto
    have sum: "unat f + unat avg < 2 ^ 64"
      using True assms(2) by (simp add: word_less_nat_alt)
    then have "unat (f + avg) = unat f + unat avg" by (simp add: unat_word_ariths)
    with True ev sum Cons.IH [OF rep, of "Suc e" "f + avg"] show ?thesis
      by (subst evict_loop.simps) (simp add: word_less_nat_alt add.assoc)
  qed
qed

lemma evict_to_target_rep:
  assumes "represents s ks n" and "unat target + unat avg \<le> 2 ^ 64"
  shows "\<exists>f s'. evict_to_target s target avg =
             Some ((evict_count (unat target) (unat avg) 0 (length ks), f), s') \<and>
           unat f = evict_count (unat target) (unat avg) 0 (length ks) * unat avg \<and>
           represents s' (drop (evict_count (unat target) (unat avg) 0 (length ks)) ks) n"
  using evict_loop_rep [OF assms, of 0 0] by (simp add: evict_to_target_def)

lemma walk_dlink:
  assumes "dlink es p xs LRU_SENTINEL" and "\<forall>i \<in> set xs. i \<noteq> LRU_SENTINEL"
  shows "walk es (first_or xs LRU_SENTINEL) acc =
           Some (rev acc @ filter (\<lambda>k. k \<noteq> replicate 9 0) (map (\<lambda>i. e_ekey (es ! unat i)) xs))"
  using assms
proof (induction xs arbitrary: p acc)
  case Nil
  then show ?case by (subst walk.simps) simp
next
  case (Cons x xs)
  have "walk es (first_or (x # xs) LRU_SENTINEL) acc =
          walk es (first_or xs LRU_SENTINEL)
            (if e_ekey (es ! unat x) \<noteq> replicate 9 0 then e_ekey (es ! unat x) # acc else acc)"
    using Cons.prems by (subst walk.simps) (simp add: is_active_def)
  also have "\<dots> = Some (rev acc @ filter (\<lambda>k. k \<noteq> replicate 9 0) (map (\<lambda>i. e_ekey (es ! unat i)) (x # xs)))"
    using Cons.prems Cons.IH [of x] by simp
  finally show ?case .
qed

lemma for_each_entry_rep:
  assumes "represents s ks n"
  shows "for_each_entry s = Some (filter (\<lambda>k. k \<noteq> replicate 9 0) ks)"
proof -
  from assms obtain xs where l: "list_inv s xs" and ks: "keys_of s xs = ks"
    by (auto simp: represents_def lru_inv_def)
  from l have "dlink (entries s) LRU_SENTINEL xs LRU_SENTINEL"
    and "lru_tail (header s) = first_or xs LRU_SENTINEL" by (auto simp: list_inv_def)
  moreover have "\<forall>i \<in> set xs. i \<noteq> LRU_SENTINEL" using list_inv_slot(2) [OF l] by blast
  ultimately show ?thesis
    using walk_dlink [of "entries s" LRU_SENTINEL xs "[]"] ks
    by (simp add: for_each_entry_def keys_of_def key_at_def [abs_def])
qed

section \<open>Initial states\<close>

lemma slot_range:
  fixes cap :: u32
  shows "distinct (map word_of_nat [0..<unat cap] :: u32 list)"
    and "i \<in> set (map word_of_nat [0..<unat cap] :: u32 list) \<Longrightarrow> unat i < unat cap"
proof -
  have *: "unat (word_of_nat j :: u32) = j" if "j < unat cap" for j
    using that u32_bound [of cap] by (simp add: unat_of_nat take_bit_nat_eq_self)
  show "distinct (map word_of_nat [0..<unat cap] :: u32 list)"
    unfolding distinct_map by (auto intro!: inj_onI dest: arg_cong [where f = unat] simp: *)
  show "i \<in> set (map word_of_nat [0..<unat cap] :: u32 list) \<Longrightarrow> unat i < unat cap"
    using * by auto
qed

lemma cleared_rep:
  assumes "header s = default_header" "entries s = replicate (unat cap) empty_entry" "key_map s = []"
    "free_list s = map word_of_nat [0..<unat cap]"
  shows "represents s [] (unat (cap :: u32))"
proof (rule representsI)
  show "lru_inv s []"
    using assms slot_range(1) [of cap] slot_range(2) [of _ cap] u32_bound [of cap]
    by (auto simp: lru_inv_def list_inv_def slots_inv_def map_inv_def default_header_def
        wf_header_def lru_consts)
qed (use assms in simp_all)

lemma new_lru_rep: "represents (new_lru cap) [] (unat cap)"
  by (rule cleared_rep) (simp_all add: new_lru_def)

lemma reset_rep: "represents (reset s) [] (unat (capacity s))"
  by (rule cleared_rep) (simp_all add: reset_def)


section \<open>Loading a checkpoint\<close>

definition inactive_from :: "nat \<Rightarrow> lru_file_entry list \<Rightarrow> u32 list" where
  "inactive_from i es =
     map (\<lambda>m. word_of_nat (i + m)) (filter (\<lambda>m. \<not> is_active (es ! m)) [0..<length es])"

lemma inactive_from_Cons:
  "inactive_from i (e # es) =
     (if is_active e then [] else [word_of_nat i]) @ inactive_from (Suc i) es"
proof -
  have "[0..<length (e # es)] = 0 # map Suc [0..<length es]"
    by (simp add: upt_conv_Cons map_Suc_upt del: upt_Suc)
  then show ?thesis
    by (simp add: inactive_from_def filter_map comp_def del: upt_Suc)
qed

lemma rebuild_free: "snd (rebuild i es km fl) = fl @ inactive_from i es"
  by (induction i es km fl rule: rebuild.induct)
     (simp_all add: inactive_from_Cons, simp add: inactive_from_def)

lemma rebuild_distinct: "distinct (map fst km) \<Longrightarrow> distinct (map fst (fst (rebuild i es km fl)))"
  by (induction i es km fl rule: rebuild.induct) (simp_all add: distinct_update)

lemma rebuild_map:
  assumes "distinct (map e_ekey (filter is_active es))"
    and "\<And>e. e \<in> set es \<Longrightarrow> is_active e \<Longrightarrow> map_of km (e_ekey e) = None"
  shows "map_of (fst (rebuild i es km fl)) k = Some j \<longleftrightarrow>
           map_of km k = Some j \<or>
           (\<exists>m < length es. is_active (es ! m) \<and> e_ekey (es ! m) = k \<and> j = word_of_nat (i + m))"
  using assms
proof (induction i es km fl rule: rebuild.induct)
  case (1 i km fl)
  then show ?case by simp
next
  case (2 i e es km fl)
  have ex: "(\<exists>m < length (e # es). is_active ((e # es) ! m) \<and> e_ekey ((e # es) ! m) = k \<and> j = word_of_nat (i + m))
    \<longleftrightarrow> (is_active e \<and> e_ekey e = k \<and> j = word_of_nat i) \<or>
      (\<exists>m < length es. is_active (es ! m) \<and> e_ekey (es ! m) = k \<and> j = word_of_nat (Suc i + m))"
    unfolding length_Cons Ex_less_Suc2 by simp
  show ?case
  proof (cases "is_active e")
    case True
    have fresh: "e_ekey e' \<noteq> e_ekey e" if "e' \<in> set es" "is_active e'" for e'
      using that "2.prems"(1) True by (auto simp: image_iff)
    have "map_of (fst (rebuild (Suc i) es (AList.update (e_ekey e) (word_of_nat i) km) fl)) k = Some j \<longleftrightarrow>
        map_of (AList.update (e_ekey e) (word_of_nat i) km) k = Some j \<or>
        (\<exists>m < length es. is_active (es ! m) \<and> e_ekey (es ! m) = k \<and> j = word_of_nat (Suc i + m))"
      using True "2.prems" fresh by (intro "2.IH"(1)) (auto simp: update_conv')
    moreover have "map_of km (e_ekey e) = None" using "2.prems"(2) True by simp
    ultimately show ?thesis using True unfolding ex by (auto simp: update_conv')
  next
    case False
    with "2.IH"(2) "2.prems" show ?thesis unfolding ex by simp
  qed
qed


lemma active_iff_listed:
  assumes inv: "lru_inv s xs" and nz: "replicate 9 0 \<notin> set (keys_of s xs)"
    and i: "unat i < length (entries s)"
  shows "is_active (entries s ! unat i) \<longleftrightarrow> i \<in> set xs"
proof (cases "i \<in> set xs")
  case True
  then have "key_at s i \<in> set (keys_of s xs)" by (simp add: keys_of_def)
  with nz True show ?thesis by (auto simp: is_active_def key_at_def)
next
  case False
  then have "entries s ! unat i = empty_entry"
    using inv i by (simp add: lru_inv_def slots_inv_def)
  with False show ?thesis by (simp add: is_active_def empty_entry_def)
qed

lemma slot_word:
  "length (entries s) < 2 ^ 32 \<Longrightarrow> m < length (entries s) \<Longrightarrow> unat (word_of_nat m :: u32) = m"
  by (simp add: unat_of_nat take_bit_nat_eq_self)

lemma inactive_indices:
  assumes inv: "lru_inv s xs" and nz: "replicate 9 0 \<notin> set (keys_of s xs)"
  shows "distinct (inactive_from 0 (entries s))"
    and "set (inactive_from 0 (entries s)) = {i. unat i < length (entries s) \<and> i \<notin> set xs}"
    and "length xs + length (inactive_from 0 (entries s)) = length (entries s)"
proof -
  let ?n = "length (entries s)"
  let ?ms = "filter (\<lambda>m. \<not> is_active (entries s ! m)) [0..<?n]"
  have n: "?n < 2 ^ 32" and xs: "distinct xs" "\<And>i. i \<in> set xs \<Longrightarrow> unat i < ?n"
    using inv list_inv_slot(1) by (auto simp: lru_inv_def list_inv_def dest: dlink_bound)
  have word: "unat (word_of_nat m :: u32) = m" if "m < ?n" for m using slot_word [OF n that] .
  show dist: "distinct (inactive_from 0 (entries s))"
    unfolding inactive_from_def distinct_map
    by (auto intro!: inj_onI dest: arg_cong [where f = unat] simp: word)
  show set_eq: "set (inactive_from 0 (entries s)) = {i. unat i < ?n \<and> i \<notin> set xs}" (is "?L = ?R")
  proof (intro set_eqI iffI)
    fix i assume "i \<in> ?L"
    then obtain m where m: "m < ?n" "\<not> is_active (entries s ! m)" "i = word_of_nat m"
      by (auto simp: inactive_from_def)
    with word [OF m(1)] active_iff_listed [OF inv nz, of i] show "i \<in> ?R" by auto
  next
    fix i assume "i \<in> ?R"
    with active_iff_listed [OF inv nz, of i] show "i \<in> ?L"
      by (auto simp: inactive_from_def intro!: image_eqI [of _ _ "unat i"])
  qed
  have "card (set xs \<union> ?L) = card (set xs) + card ?L"
    by (rule card_Un_disjoint) (auto simp: set_eq)
  moreover have "set xs \<union> ?L = (word_of_nat :: nat \<Rightarrow> u32) ` {..<?n}"
    using xs(2) word by (auto simp: set_eq intro!: image_eqI [of _ _ "unat _"])
  moreover have "card ((word_of_nat :: nat \<Rightarrow> u32) ` {..<?n}) = ?n"
    by (subst card_image) (auto intro!: inj_onI dest: arg_cong [where f = unat] simp: word)
  ultimately show "length xs + length (inactive_from 0 (entries s)) = ?n"
    using xs(1) dist by (simp add: distinct_card)
qed

lemma active_keys_distinct:
  assumes inv: "lru_inv s xs" and nz: "replicate 9 0 \<notin> set (keys_of s xs)"
  shows "distinct (map e_ekey (filter is_active (entries s)))"
proof -
  let ?n = "length (entries s)"
  let ?ms = "filter (\<lambda>m. is_active (entries s ! m)) [0..<?n]"
  have n: "?n < 2 ^ 32" using inv by (simp add: lru_inv_def list_inv_def)
  have "map e_ekey (filter is_active (entries s)) = map (\<lambda>m. e_ekey (entries s ! m)) ?ms"
    by (subst (1) map_nth [of "entries s", symmetric]) (simp add: filter_map comp_def)
  moreover have "inj_on (\<lambda>m. e_ekey (entries s ! m)) (set ?ms)"
  proof (rule inj_onI)
    fix a b assume ab: "a \<in> set ?ms" "b \<in> set ?ms" "e_ekey (entries s ! a) = e_ekey (entries s ! b)"
    let ?a = "word_of_nat a :: u32" and ?b = "word_of_nat b :: u32"
    have u: "unat ?a = a" "unat ?b = b" using ab slot_word [OF n] by auto
    then have "?a \<in> set xs" "?b \<in> set xs"
      using ab active_iff_listed [OF inv nz, of ?a] active_iff_listed [OF inv nz, of ?b] by auto
    moreover have "key_at s ?a = key_at s ?b" using ab u by (simp add: key_at_def)
    ultimately have "?a = ?b"
      using keys_of_distinct [OF inv] by (auto simp: keys_of_def distinct_map inj_on_def)
    then show "a = b" using u by metis
  qed
  ultimately show ?thesis by (simp add: distinct_map)
qed

lemma load_image_rep:
  assumes rep: "represents s ks n" and nz: "replicate 9 0 \<notin> set ks"
    and md5: "\<And>d. length (md5 d) = 16"
  shows "\<exists>s'. load_image md5 init g (serialize md5 (header s) (entries s)) = Some s' \<and>
           represents s' ks (length (entries s) - length ks) \<and> generation s' = g"
proof -
  from rep obtain xs where inv: "lru_inv s xs" and ks: "keys_of s xs = ks"
    by (auto simp: represents_def)
  let ?h = "(header s)\<lparr>lh_hash := md5 (unhashed_image (header s) (entries s))\<rparr>"
  let ?r = "rebuild 0 (entries s) [] []"
  let ?s = "init\<lparr>header := ?h, entries := entries s, key_map := fst ?r, free_list := snd ?r,
               generation := g\<rparr>"
  have wf: "wf_header (header s)" "list_all wf_entry (entries s)"
    using inv by (auto simp: lru_inv_def map_inv_def list_all_iff)
  have load: "load_image md5 init g (serialize md5 (header s) (entries s)) = Some ?s"
    using deserialize_serialize [OF wf md5] by (simp add: load_image_def split_beta)
  have sw: "unat (word_of_nat m :: u32) = m" if "m < length (entries s)" for m
    using inv that by (intro slot_word) (simp_all add: lru_inv_def list_inv_def)
  note ina = inactive_indices [OF inv nz [folded ks]]
  have "list_inv ?s xs" using inv by (simp add: lru_inv_def list_inv_def)
  moreover have "slots_inv ?s xs"
    using inv ina by (auto simp: lru_inv_def slots_inv_def rebuild_free)
  moreover have "map_of (key_map ?s) k = Some j \<longleftrightarrow> j \<in> set xs \<and> key_at ?s j = k" for k j
  proof -
    have "map_of (key_map ?s) k = Some j \<longleftrightarrow>
        (\<exists>m < length (entries s). is_active (entries s ! m) \<and> e_ekey (entries s ! m) = k \<and> j = word_of_nat m)"
      using rebuild_map [OF active_keys_distinct [OF inv nz [folded ks]], of "[]" 0 "[]" k j] by simp
    also have "\<dots> \<longleftrightarrow> unat j < length (entries s) \<and> is_active (entries s ! unat j) \<and> key_at s j = k"
      using sw by (auto simp: key_at_def intro!: exI [of _ "unat j"])
    also have "\<dots> \<longleftrightarrow> j \<in> set xs \<and> key_at ?s j = k"
      using active_iff_listed [OF inv nz [folded ks], of j] inv list_inv_slot(1) [of s xs j]
      by (auto simp: lru_inv_def key_at_def)
    finally show ?thesis .
  qed
  then have "map_inv ?s xs"
    using wf md5 rebuild_distinct [of "[]" 0 "entries s" "[]"]
    unfolding map_inv_def by (simp add: list_all_iff wf_header_def)
  ultimately have "lru_inv ?s xs" by (simp add: lru_inv_def)
  moreover have "keys_of ?s xs = ks" using ks keys_of_cong [of xs ?s s] by (simp add: key_at_def)
  moreover have "length (free_list ?s) = length (entries s) - length ks"
    using ina(3) ks by (auto simp: rebuild_free keys_of_def)
  ultimately show ?thesis using load by (intro exI [of _ ?s]) (auto intro: representsI)
qed


section \<open>Properties\<close>

text \<open>
  C6. \<open>touch\<close> on the array, link and map representation is the abstract recency
  operation: a known key moves to the MRU end, a new key takes a free slot or the
  slot of the least recently used key, and nothing panics.
\<close>

theorem touch_refines_recency:
  assumes "represents s ks n" and "length k = 9"
  shows "\<exists>s'. touch s k = Some (fst (touch_spec k ks n), s') \<and>
           represents s' (fst (snd (touch_spec k ks n))) (snd (snd (touch_spec k ks n)))"
  using lru.touch_refines [OF assms] by (metis prod.collapse)

theorem touch_refines_recency_witness:
  "\<exists>s'. touch (new_lru 2) [1, 2, 3, 4, 5, 6, 7, 8, 9] = Some (True, s') \<and>
     represents s' [[1, 2, 3, 4, 5, 6, 7, 8, 9]] 1"
  using touch_refines_recency [OF new_lru_rep [of 2], of "[1, 2, 3, 4, 5, 6, 7, 8, 9]"]
  by (simp add: touch_spec_def)

text \<open>
  The working set of a new manager: touching any sequence of keys, of which at
  most \<open>capacity\<close> are distinct, always succeeds and leaves all of them cached.
\<close>

theorem touch_working_set:
  assumes "\<forall>q \<in> set qs. length q = 9" and "card (set qs) \<le> unat cap"
  shows "\<exists>s'. touch_all touch qs (new_lru cap) = Some (True, s') \<and> (\<forall>q \<in> set qs. contains_key s' q)"
proof -
  from lru.working_set [OF new_lru_rep [of cap] assms(1)] assms(2) obtain s' ks' n' where
    "touch_all touch qs (new_lru cap) = Some (True, s')" "represents s' ks' n'" "set qs \<subseteq> set ks'" by auto
  then show ?thesis using represents_contains by blast
qed

theorem touch_working_set_witness:
  "\<exists>s'. touch_all touch [replicate 9 1, replicate 9 2, replicate 9 1] (new_lru 2) = Some (True, s') \<and>
     contains_key s' (replicate 9 1) \<and> contains_key s' (replicate 9 2)"
proof -
  have "card (set [replicate 9 1, replicate 9 2, replicate 9 (1 :: byte)]) \<le> unat (2 :: u32)"
    by (simp add: card_insert_if)
  from touch_working_set [OF _ this] show ?thesis by auto
qed

text \<open>
  C20. \<open>remove\<close> reports whether the key was cached, takes exactly it out of the recency
  order and returns its slot to the free list.
\<close>

theorem remove_refines_recency:
  assumes "represents s ks n"
  shows "\<exists>s'. remove s k = Some (k \<in> set ks, s') \<and>
           represents s' (remove1 k ks) (if k \<in> set ks then Suc n else n)"
  using assms by (rule remove_rep)

definition lru_example :: lru_manager where
  "lru_example = snd (the (touch (new_lru 1) (replicate 9 1)))"

lemma lru_example_rep: "represents lru_example [replicate 9 1] 0"
proof -
  from touch_free_rep [OF new_lru_rep [of 1], of "replicate 9 1"] obtain s' where
    "touch (new_lru 1) (replicate 9 1) = Some (True, s')" "represents s' [replicate 9 1] 0" by auto
  then show ?thesis by (simp add: lru_example_def)
qed

theorem remove_refines_recency_witness:
  "\<exists>s'. remove lru_example (replicate 9 1) = Some (True, s') \<and> represents s' [] 1"
  using remove_refines_recency [OF lru_example_rep, of "replicate 9 1"] by simp

text \<open>
  C21. \<open>evict_to_target\<close> terminates and drops from the LRU end the least number of
  entries whose estimated size reaches the target, or all of them. The number of
  free slots does not change: the slots of the dropped entries are not returned.
\<close>

theorem evict_to_target_count:
  assumes "represents s ks n" and "unat target + unat avg \<le> 2 ^ 64" and "0 < avg"
    and "m = min (length ks) ((unat target + unat avg - 1) div unat avg)"
  shows "\<exists>f s'. evict_to_target s target avg = Some ((m, f), s') \<and> unat f = m * unat avg \<and>
           represents s' (drop m ks) n"
proof -
  have "evict_count (unat target) (unat avg) 0 (length ks) = m"
    using assms(3,4) by (simp add: evict_count_closed word_less_nat_alt)
  with evict_to_target_rep [OF assms(1,2)] show ?thesis by auto
qed

theorem evict_to_target_count_witness:
  "\<exists>f s'. evict_to_target lru_example 7 5 = Some ((1, f), s') \<and> unat f = 5 \<and> represents s' [] 0"
  using evict_to_target_count [OF lru_example_rep, of 7 5 1] by simp

text \<open>
  A full manager that \<open>evict_to_target\<close> empties is dead: it is empty, and yet
  every later \<open>touch\<close> fails, because no slot came back to the free list and there is
  no tail left to evict.
\<close>

theorem evict_all_disables_touch:
  assumes "represents s ks 0" and "unat target + unat avg \<le> 2 ^ 64"
    and "length ks * unat avg \<le> unat target" and "0 < avg"
  shows "\<exists>r s'. evict_to_target s target avg = Some (r, s') \<and> len s' = 0 \<and>
           (\<forall>k. touch s' k = Some (False, s'))"
proof -
  have a: "0 < unat avg" using assms(4) by (simp add: word_less_nat_alt)
  have "length ks = length ks * unat avg div unat avg" using a by simp
  also have "\<dots> \<le> (unat target + unat avg - 1) div unat avg"
    using assms(3) a by (intro div_le_mono) linarith
  finally have m: "evict_count (unat target) (unat avg) 0 (length ks) = length ks"
    using a by (simp add: evict_count_closed)
  with evict_to_target_rep [OF assms(1,2)] obtain r s' where
    ev: "evict_to_target s target avg = Some (r, s')" and rep: "represents s' [] 0" by auto
  then have "len s' = 0"
    by (auto simp: represents_def keys_of_def lru_inv_def map_inv_def len_def map_of_eq_None_iff
        simp del: not_None_eq)
  with ev touch_none_rep [OF rep] show ?thesis by blast
qed

theorem evict_all_disables_touch_witness:
  "\<exists>r s'. evict_to_target lru_example 5 5 = Some (r, s') \<and> len s' = 0 \<and>
     touch s' (replicate 9 7) = Some (False, s')"
  using evict_all_disables_touch [OF lru_example_rep, of 5 5] by auto

text \<open>
  \<open>for_each_entry\<close> terminates and calls back once per cached key, from the least to
  the most recently used; only the all-zero key, which marks unused entries, is skipped.
\<close>

theorem for_each_entry_visits:
  assumes "represents s ks n"
  shows "for_each_entry s = Some (filter (\<lambda>k. k \<noteq> replicate 9 0) ks)"
  using assms by (rule for_each_entry_rep)

theorem for_each_entry_visits_witness: "for_each_entry lru_example = Some [replicate 9 1]"
  using for_each_entry_visits [OF lru_example_rep] by simp

end
