(* ===== verification/Lru_Disk.thy ===== *)
theory Lru_Disk
  imports Lru_Props
begin

text \<open>
  The part of \<open>cascette-client-storage/src/lru/mod.rs\<close> that touches the data
  directory: checkpointing, loading, the search for the latest checkpoint, the
  removal of stale ones, the maintenance cycle and the shutdown. The directory is
  the list of its entries in the order \<open>read_dir\<close> yields them; a name is either
  valid UTF-8 or not (\<open>OsStr::to_str\<close>). Which file operations succeed is an
  argument, \<open>io\<close>. MD5 and the hex decoder are arguments as well.
\<close>

section \<open>Model\<close>

record io_env =
  read_dir_ok :: bool
  read_ok :: "string \<Rightarrow> bool"
  write_ok :: "string \<Rightarrow> bool"
  remove_ok :: "os_name \<Rightarrow> bool"

datatype lru_error = WriteFailed string | ReadFailed string | InvalidLruFile string

record lru_cycle_stats =
  loaded_entries :: nat
  entries_evicted :: nat
  bytes_freed :: u64
  stale_files_removed :: nat
  active_entries :: nat

definition remove_file :: "io_env \<Rightarrow> os_name \<Rightarrow> directory \<Rightarrow> directory" where
  "remove_file io name dir = (if remove_ok io name then AList.delete name dir else dir)"

definition checkpoint_to_disk ::
  "(byte list \<Rightarrow> byte list) \<Rightarrow> io_env \<Rightarrow> lru_manager \<Rightarrow> directory \<Rightarrow> (lru_error + unit) \<times> directory" where
  "checkpoint_to_disk md5 io s dir =
     (let data = serialize md5 (header s) (entries s);
          path = generation_to_filename (generation s) in
      if \<not> write_ok io path then (Inl (WriteFailed path), dir)
      else let dir1 = AList.update (Utf8 path) data dir in
           (Inr (), if prev_generation s \<noteq> 0
                    then remove_file io (Utf8 (generation_to_filename (prev_generation s))) dir1
                    else dir1))"

definition load_from_disk ::
  "(byte list \<Rightarrow> byte list) \<Rightarrow> io_env \<Rightarrow> lru_manager \<Rightarrow> u64 \<Rightarrow> directory \<Rightarrow> lru_error + lru_manager" where
  "load_from_disk md5 io s g dir =
     (let path = generation_to_filename g in
      case (if read_ok io path then map_of dir (Utf8 path) else None) of
        None \<Rightarrow> Inl (ReadFailed path)
      | Some data \<Rightarrow> (case load_image md5 s g data of
                         None \<Rightarrow> Inl (InvalidLruFile path)
                       | Some s' \<Rightarrow> Inr s'))"

fun find_latest_loop ::
  "(string \<Rightarrow> byte list option) \<Rightarrow> (u64 \<times> string) option \<Rightarrow> os_name list \<Rightarrow> (u64 \<times> string) option" where
  "find_latest_loop hexd best [] = best"
| "find_latest_loop hexd best (NonUtf8 _ # names) = None"
| "find_latest_loop hexd best (Utf8 name # names) =
     (case filename_to_generation hexd name of
        None \<Rightarrow> find_latest_loop hexd best names
      | Some file_gen \<Rightarrow>
          find_latest_loop hexd
            (if (case best of None \<Rightarrow> True | Some (best_gen, _) \<Rightarrow> file_gen > best_gen)
             then Some (file_gen, name) else best) names)"

definition find_latest_lru_file ::
  "(string \<Rightarrow> byte list option) \<Rightarrow> io_env \<Rightarrow> directory \<Rightarrow> (u64 \<times> string) option" where
  "find_latest_lru_file hexd io dir =
     (if read_dir_ok io then find_latest_loop hexd None (map fst dir) else None)"

definition is_stale :: "(string \<Rightarrow> byte list option) \<Rightarrow> lru_manager \<Rightarrow> os_name \<Rightarrow> bool" where
  "is_stale hexd s name =
     (case name of
        NonUtf8 _ \<Rightarrow> False
      | Utf8 n \<Rightarrow> (case filename_to_generation hexd n of
                     None \<Rightarrow> False
                   | Some g \<Rightarrow> g \<noteq> generation s \<and> g \<noteq> prev_generation s))"

fun scan_loop ::
  "(string \<Rightarrow> byte list option) \<Rightarrow> io_env \<Rightarrow> lru_manager \<Rightarrow> os_name list \<Rightarrow> nat \<Rightarrow> directory
   \<Rightarrow> nat \<times> directory" where
  "scan_loop hexd io s [] removed dir = (removed, dir)"
| "scan_loop hexd io s (name # names) removed dir =
     (if is_stale hexd s name \<and> remove_ok io name
      then scan_loop hexd io s names (Suc removed) (AList.delete name dir)
      else scan_loop hexd io s names removed dir)"

definition scan_directory ::
  "(string \<Rightarrow> byte list option) \<Rightarrow> io_env \<Rightarrow> lru_manager \<Rightarrow> directory \<Rightarrow> nat \<times> directory" where
  "scan_directory hexd io s dir =
     (if read_dir_ok io then scan_loop hexd io s (map fst dir) 0 dir else (0, dir))"

text \<open>The eviction step of \<open>run_cycle\<close>; \<open>len * avg_entry_size\<close> is a checked \<open>u64\<close> product.\<close>

definition cycle_evict :: "lru_manager \<Rightarrow> u64 \<Rightarrow> u64 \<Rightarrow> ((nat \<times> u64) \<times> lru_manager) option" where
  "cycle_evict s size_limit avg =
     (if size_limit > 0 \<and> avg > 0 then
        (if len s * unat avg < 2 ^ 64 then
           (let current_size = word_of_nat (len s) * avg in
            if current_size > size_limit
            then evict_to_target s (current_size - size_limit) avg
            else Some ((0, 0), s))
         else None)
      else Some ((0, 0), s))"

definition run_cycle ::
  "(byte list \<Rightarrow> byte list) \<Rightarrow> (string \<Rightarrow> byte list option) \<Rightarrow> io_env \<Rightarrow> lru_manager \<Rightarrow> u64 \<Rightarrow> u64
   \<Rightarrow> directory \<Rightarrow> (lru_error + (lru_cycle_stats \<times> lru_manager \<times> directory)) option" where
  "run_cycle md5 hexd io s size_limit avg dir =
     (case (case find_latest_lru_file hexd io dir of
              None \<Rightarrow> Inr (0, s)
            | Some (g, _) \<Rightarrow> (case load_from_disk md5 io s g dir of
                                Inl e \<Rightarrow> Inl e
                              | Inr s1 \<Rightarrow> Inr (len s1, s1))) of
        Inl e \<Rightarrow> Some (Inl e)
      | Inr (loaded, s1) \<Rightarrow> do {
          ((evicted, freed), s2) \<leftarrow> cycle_evict s1 size_limit avg;
          let (stale, dir1) = scan_directory hexd io s2 dir;
          keys \<leftarrow> for_each_entry s2;
          Some (Inr (\<lparr>loaded_entries = loaded, entries_evicted = evicted, bytes_freed = freed,
                      stale_files_removed = stale, active_entries = length keys\<rparr>, s2, dir1))
        })"

definition shutdown ::
  "(byte list \<Rightarrow> byte list) \<Rightarrow> (string \<Rightarrow> byte list option) \<Rightarrow> io_env \<Rightarrow> lru_manager \<Rightarrow> directory
   \<Rightarrow> (lru_error + unit) \<times> lru_manager \<times> directory" where
  "shutdown md5 hexd io s dir =
     (let s1 = bump_generation s in
      case checkpoint_to_disk md5 io s1 dir of
        (Inl e, dir1) \<Rightarrow> (Inl e, s1, dir1)
      | (Inr _, dir1) \<Rightarrow> (Inr (), s1, snd (scan_directory hexd io s1 dir1)))"

section \<open>The directory after a scan\<close>

lemma len_represents:
  assumes "represents s ks n"
  shows "len s = length ks"
proof -
  from assms obtain xs where xs: "lru_inv s xs" "keys_of s xs = ks" by (auto simp: represents_def)
  then have m: "map_inv s xs" by (simp add: lru_inv_def)
  have "set (map fst (key_map s)) = set ks"
    using map_inv_None [OF m] xs(2) by (auto simp: map_of_eq_None_iff)
  moreover have "distinct (map fst (key_map s))" using m by (simp add: map_inv_def)
  moreover have "distinct ks" using xs keys_of_distinct by auto
  ultimately show ?thesis by (metis len_def length_map distinct_card)
qed

lemma scan_loop_dir:
  "snd (scan_loop hexd io s names removed dir) =
     filter (\<lambda>(name, _). \<not> (name \<in> set names \<and> is_stale hexd s name \<and> remove_ok io name)) dir"
proof (induction hexd io s names removed dir rule: scan_loop.induct)
  case (2 hexd io s name names removed dir)
  show ?case
  proof (cases "is_stale hexd s name \<and> remove_ok io name")
    case True
    with "2.IH"(1) show ?thesis
      by (simp add: AList.delete_eq filter_filter) (rule filter_cong; auto)
  next
    case False
    then have "snd (scan_loop hexd io s (name # names) removed dir) =
        filter (\<lambda>(name, _). \<not> (name \<in> set names \<and> is_stale hexd s name \<and> remove_ok io name)) dir"
      using "2.IH"(2) by (simp only: scan_loop.simps if_False not_False_eq_True simp_thms)
    also have "\<dots> = filter (\<lambda>(name', _). \<not> (name' \<in> set (name # names) \<and> is_stale hexd s name' \<and>
                            remove_ok io name')) dir"
      using False by (intro filter_cong) auto
    finally show ?thesis .
  qed
qed (simp add: case_prod_beta)

lemma scan_directory_dir:
  "read_dir_ok io \<Longrightarrow>
   snd (scan_directory hexd io s dir) =
     filter (\<lambda>(name, _). \<not> (is_stale hexd s name \<and> remove_ok io name)) dir"
  by (auto simp: scan_directory_def scan_loop_dir intro!: filter_cong image_eqI [of _ fst])

lemma scan_loop_count:
  "fst (scan_loop hexd io s names removed dir) =
     removed + length (filter (\<lambda>name. is_stale hexd s name \<and> remove_ok io name) names)"
  by (induction hexd io s names removed dir rule: scan_loop.induct) auto

section \<open>The latest checkpoint\<close>

text \<open>The generation a run of the loop ends with is the largest it has seen.\<close>

definition best_upd ::
  "(string \<Rightarrow> byte list option) \<Rightarrow> (u64 \<times> string) option \<Rightarrow> string \<Rightarrow> (u64 \<times> string) option" where
  "best_upd hexd best name =
     (case filename_to_generation hexd name of
        None \<Rightarrow> best
      | Some g \<Rightarrow> (case best of
                    None \<Rightarrow> Some (g, name)
                  | Some (bg, _) \<Rightarrow> if g > bg then Some (g, name) else best))"

lemma find_latest_loop_step:
  "find_latest_loop hexd best (Utf8 name # names) = find_latest_loop hexd (best_upd hexd best name) names"
  by (auto simp: best_upd_def split: option.splits)

lemma best_upd_ge:
  "best = Some (g, n) \<Longrightarrow> \<exists>g' n'. best_upd hexd best name = Some (g', n') \<and> g \<le> g'"
  "filename_to_generation hexd name = Some g \<Longrightarrow> \<exists>g' n'. best_upd hexd best name = Some (g', n') \<and> g \<le> g'"
  by (auto simp: best_upd_def not_less split: option.splits)

lemma find_latest_loop_ge_best:
  "find_latest_loop hexd (Some (g0, n0)) (map Utf8 ns) = Some (g, n) \<Longrightarrow> g0 \<le> g"
proof (induction ns arbitrary: g0 n0)
  case (Cons m ns)
  obtain g1 n1 where up: "best_upd hexd (Some (g0, n0)) m = Some (g1, n1)" "g0 \<le> g1"
    using best_upd_ge(1) by blast
  then have "g1 \<le> g"
    using Cons.IH [of g1 n1] Cons.prems by (simp only: list.map find_latest_loop_step)
  with up show ?case by simp
qed simp

lemma find_latest_loop_ge:
  assumes "find_latest_loop hexd best (map Utf8 ns) = Some (g, n)"
    and "m \<in> set ns" and "filename_to_generation hexd m = Some g'"
  shows "g' \<le> g"
  using assms
proof (induction ns arbitrary: best)
  case (Cons x ns)
  show ?case
  proof (cases "m = x")
    case True
    then obtain g1 n1 where up: "best_upd hexd best x = Some (g1, n1)" "g' \<le> g1"
      using best_upd_ge(2) Cons.prems(3) by blast
    with Cons.prems(1) have "find_latest_loop hexd (Some (g1, n1)) (map Utf8 ns) = Some (g, n)"
      by (simp only: list.map find_latest_loop_step)
    then have "g1 \<le> g" by (rule find_latest_loop_ge_best)
    with up show ?thesis by simp
  next
    case False
    with Cons show ?thesis
      by (metis find_latest_loop_step list.simps(9) set_ConsD)
  qed
qed simp

lemma find_latest_loop_from:
  "find_latest_loop hexd best (map Utf8 ns) = Some (g, n) \<Longrightarrow>
   best = Some (g, n) \<or> (n \<in> set ns \<and> filename_to_generation hexd n = Some g)"
proof (induction ns arbitrary: best)
  case (Cons x ns)
  then have "find_latest_loop hexd (best_upd hexd best x) (map Utf8 ns) = Some (g, n)"
    by (simp only: list.map find_latest_loop_step)
  from Cons.IH [OF this] show ?case
    by (auto simp: best_upd_def split: option.splits if_splits)
qed simp

lemma find_latest_loop_Some:
  "best \<noteq> None \<Longrightarrow> find_latest_loop hexd best (map Utf8 ns) \<noteq> None"
proof (induction ns arbitrary: best)
  case (Cons x ns)
  then have "best_upd hexd best x \<noteq> None" by (auto simp: best_upd_def split: option.splits)
  then have "find_latest_loop hexd (best_upd hexd best x) (map Utf8 ns) \<noteq> None" by (rule Cons.IH)
  then show ?case by (simp only: list.map find_latest_loop_step not_False_eq_True)
qed simp

lemma find_latest_loop_found:
  assumes "m \<in> set ns" and "filename_to_generation hexd m \<noteq> None"
  shows "find_latest_loop hexd best (map Utf8 ns) \<noteq> None"
  using assms
proof (induction ns arbitrary: best)
  case (Cons x ns)
  show ?case
  proof (cases "m = x")
    case True
    with Cons.prems have "best_upd hexd best x \<noteq> None"
      by (auto simp: best_upd_def split: option.splits)
    from find_latest_loop_Some [OF this] show ?thesis by (simp only: list.map find_latest_loop_step not_False_eq_True)
  next
    case False
    with Cons.prems have "m \<in> set ns" by simp
    from Cons.IH [OF this Cons.prems(2)] show ?thesis
      by (simp only: list.map find_latest_loop_step not_False_eq_True)
  qed
qed simp


lemma map_of_filter_key:
  "map_of (filter (\<lambda>(k', _). P k') xs) k = (if P k then map_of xs k else None)"
  by (induction xs) auto

section \<open>Shutdown and restart\<close>

definition io_all_ok :: "io_env \<Rightarrow> bool" where
  "io_all_ok io \<longleftrightarrow> read_dir_ok io \<and> read_ok io = (\<lambda>_. True) \<and> write_ok io = (\<lambda>_. True) \<and>
     remove_ok io = (\<lambda>_. True)"

lemma bump_generation_fields:
  "generation s \<noteq> -1 \<Longrightarrow> generation (bump_generation s) = generation s + 1"
  "prev_generation (bump_generation s) = generation s"
  "header (bump_generation s) = header s" "entries (bump_generation s) = entries s"
  by (auto simp: bump_generation_def Let_def eq_neg_iff_add_eq_0)

lemma bump_generation_nonzero: "generation (bump_generation s) \<noteq> 0"
  by (simp add: bump_generation_def Let_def)

lemma checkpoint_dir:
  assumes io: "io_all_ok io" and hex: "\<And>bs. hexd (hex_lower bs) = Some bs"
    and neq: "generation s \<noteq> prev_generation s"
    and res: "checkpoint_to_disk md5 io s dir = (r, dir1)"
  shows "r = Inr ()"
    and "map_of dir1 (Utf8 (generation_to_filename (generation s))) =
           Some (serialize md5 (header s) (entries s))"
    and "fst ` set dir1 \<subseteq> insert (Utf8 (generation_to_filename (generation s))) (fst ` set dir)"
proof -
  let ?new = "Utf8 (generation_to_filename (generation s))"
  let ?old = "Utf8 (generation_to_filename (prev_generation s))"
  let ?dir = "AList.update ?new (serialize md5 (header s) (entries s)) dir"
  have d: "r = Inr ()" "dir1 = (if prev_generation s \<noteq> 0 then AList.delete ?old ?dir else ?dir)"
    using res io by (auto simp: checkpoint_to_disk_def io_all_ok_def remove_file_def Let_def)
  then show "r = Inr ()" by simp
  have "?new \<noteq> ?old" using neq generation_to_filename_inj [OF hex] by simp
  then show "map_of dir1 ?new = Some (serialize md5 (header s) (entries s))"
    using d by (simp add: update_conv' delete_conv')
  have "fst ` set ?dir = insert ?new (fst ` set dir)" by (simp add: dom_update)
  then show "fst ` set dir1 \<subseteq> insert ?new (fst ` set dir)"
    using d by (auto simp: AList.delete_eq)
qed

lemma latest_after_scan:
  assumes io: "io_all_ok io" and hex: "\<And>bs. hexd (hex_lower bs) = Some bs"
    and names: "\<forall>name \<in> fst ` set dir. \<exists>n. name = Utf8 n"
    and here: "map_of dir (Utf8 (generation_to_filename (generation s))) \<noteq> None"
    and order: "prev_generation s < generation s"
  shows "\<exists>n. find_latest_lru_file hexd io (snd (scan_directory hexd io s dir)) = Some (generation s, n)"
proof -
  let ?name = "generation_to_filename (generation s)"
  let ?dir = "snd (scan_directory hexd io s dir)"
  have dir: "?dir = filter (\<lambda>(name, _). \<not> is_stale hexd s name) dir"
    using io by (simp add: scan_directory_dir io_all_ok_def)
  have gen: "filename_to_generation hexd ?name = Some (generation s)"
    using hex by (rule filename_round_trip)
  then have keep: "\<not> is_stale hexd s (Utf8 ?name)" by (simp add: is_stale_def)
  have "\<forall>name \<in> set (map fst ?dir). \<exists>n. name = Utf8 n" using names by (auto simp: dir)
  then have "\<exists>ns. map fst ?dir = map Utf8 ns" by (simp only: ex_map_conv)
  then obtain ns where ns: "map fst ?dir = map Utf8 ns" ..
  have mem: "x \<in> set ns \<longleftrightarrow> Utf8 x \<in> fst ` set ?dir" for x
    using arg_cong [OF ns, of set] by auto
  have "Utf8 ?name \<in> fst ` set dir" using here by (auto simp: map_of_eq_None_iff)
  then have here': "?name \<in> set ns" using keep by (force simp: mem dir)
  from find_latest_loop_found [OF here', of hexd None] gen obtain g n where
    found: "find_latest_loop hexd None (map Utf8 ns) = Some (g, n)" by auto
  from find_latest_loop_ge [OF found here' gen] have "generation s \<le> g" .
  moreover from find_latest_loop_from [OF found] have "n \<in> set ns" "filename_to_generation hexd n = Some g"
    by auto
  then have "g = generation s \<or> g = prev_generation s"
    by (auto simp: mem dir is_stale_def)
  ultimately have "g = generation s" using order by auto
  with found io ns show ?thesis by (auto simp: find_latest_lru_file_def io_all_ok_def)
qed

lemma restart_rep:
  assumes rep: "represents s ks n" and nz: "replicate 9 0 \<notin> set ks"
    and gen: "generation s \<noteq> -1" and io: "io_all_ok io"
    and names: "\<forall>name \<in> fst ` set dir. \<exists>n. name = Utf8 n"
    and md5: "\<And>d. length (md5 d) = 16" and hex: "\<And>bs. hexd (hex_lower bs) = Some bs"
  shows "\<exists>s1 dir1 stats s2 dir2.
           shutdown md5 hexd io s dir = (Inr (), s1, dir1) \<and>
           run_cycle md5 hexd io fresh 0 avg dir1 = Some (Inr (stats, s2, dir2)) \<and>
           represents s2 ks (length (entries s) - length ks) \<and>
           loaded_entries stats = length ks \<and> active_entries stats = length ks \<and>
           generation s2 = generation s + 1"
proof -
  let ?s1 = "bump_generation s"
  note fields = bump_generation_fields(1) [OF gen] bump_generation_fields(2-4) [of s]
  have order: "prev_generation ?s1 < generation ?s1"
    using fields unat_succ [OF gen] by (simp add: word_less_nat_alt)
  obtain r dirA where cp: "checkpoint_to_disk md5 io ?s1 dir = (r, dirA)" by fastforce
  have "generation ?s1 \<noteq> prev_generation ?s1" using order by auto
  note cd = checkpoint_dir [OF io hex this cp]
  let ?dir1 = "snd (scan_directory hexd io ?s1 dirA)"
  have sd: "shutdown md5 hexd io s dir = (Inr (), ?s1, ?dir1)"
    using cp cd(1) by (simp add: shutdown_def Let_def)
  have "\<forall>name \<in> fst ` set dirA. \<exists>n. name = Utf8 n" using names cd(3) by blast
  from latest_after_scan [OF io hex this _ order] cd(2) obtain nm where
    latest: "find_latest_lru_file hexd io ?dir1 = Some (generation ?s1, nm)" by auto
  have keep: "\<not> is_stale hexd ?s1 (Utf8 (generation_to_filename (generation ?s1)))"
    using filename_round_trip [of hexd, OF hex] by (simp add: is_stale_def)
  have data: "map_of ?dir1 (Utf8 (generation_to_filename (generation ?s1))) =
      Some (serialize md5 (header s) (entries s))"
    using io keep cd(2) fields by (simp add: scan_directory_dir io_all_ok_def map_of_filter_key)
  from load_image_rep [OF rep nz, of md5 fresh "generation ?s1"] md5 obtain s2 where
    s2: "load_image md5 fresh (generation ?s1) (serialize md5 (header s) (entries s)) = Some s2"
    "represents s2 ks (length (entries s) - length ks)" "generation s2 = generation ?s1" by blast
  then have load: "load_from_disk md5 io fresh (generation ?s1) ?dir1 = Inr s2"
    using data io by (simp add: load_from_disk_def io_all_ok_def Let_def)
  have keys: "for_each_entry s2 = Some ks"
    using for_each_entry_rep [OF s2(2)] nz by (simp add: filter_id_conv) (metis nz)
  have "cycle_evict s2 0 avg = Some ((0, 0), s2)" by (simp add: cycle_evict_def)
  then show ?thesis
    using sd latest load keys s2 fields len_represents [OF s2(2)]
    by (simp add: run_cycle_def split_beta Let_def)
qed


section \<open>Properties\<close>

text \<open>
  C22. Shutdown followed by the maintenance cycle of a new process restores the cache:
  the checkpoint that \<open>shutdown\<close> writes is the one \<open>run_cycle\<close> finds and loads, with the
  same keys in the same recency order (the all-zero key cannot be cached; the generation
  counter is not at its maximum; every name in the directory is UTF-8).
\<close>

theorem shutdown_restart_preserves_cache:
  assumes "represents s ks n" and "replicate 9 0 \<notin> set ks" and "generation s \<noteq> -1"
    and "io_all_ok io" and "\<forall>name \<in> fst ` set dir. \<exists>n. name = Utf8 n"
    and "\<And>d. length (md5 d) = 16" and "\<And>bs. hexd (hex_lower bs) = Some bs"
  shows "\<exists>s1 dir1 stats s2 dir2.
           shutdown md5 hexd io s dir = (Inr (), s1, dir1) \<and>
           run_cycle md5 hexd io (new_lru cap) 0 avg dir1 = Some (Inr (stats, s2, dir2)) \<and>
           represents s2 ks (length (entries s) - length ks) \<and>
           loaded_entries stats = length ks \<and> active_entries stats = length ks \<and>
           generation s2 = generation s + 1"
  using assms by (rule restart_rep)

text \<open>A digest and a hex decoder to instantiate the two parameters with.\<close>

definition example_md5 :: "byte list \<Rightarrow> byte list" where
  "example_md5 d = take 16 (d @ replicate 16 0)"

definition hex_digit_val :: "char \<Rightarrow> byte" where
  "hex_digit_val c = (if of_char c < (58 :: nat) then of_char c - 48 else of_char c - 87)"

fun example_hex_decode :: "string \<Rightarrow> byte list option" where
  "example_hex_decode [] = Some []"
| "example_hex_decode [c] = None"
| "example_hex_decode (a # b # cs) =
     map_option (\<lambda>bs. (16 * hex_digit_val a + hex_digit_val b) # bs) (example_hex_decode cs)"


lemma hex_digit_val_digit: "n < 16 \<Longrightarrow> hex_digit_val (''0123456789abcdef'' ! n) = word_of_nat n"
proof -
  have "\<forall>n \<in> {..<16}. hex_digit_val (''0123456789abcdef'' ! n) = word_of_nat n"
    by code_simp
  then show "n < 16 \<Longrightarrow> hex_digit_val (''0123456789abcdef'' ! n) = word_of_nat n" by simp
qed

lemma example_hex_decode_law: "example_hex_decode (hex_lower bs) = Some bs"
proof (induction bs)
  case (Cons b bs)
  have "unat b div 16 < 16" using u8_bound [of b] by simp
  moreover have "16 * word_of_nat (unat b div 16) + word_of_nat (unat b mod 16) =
        (word_of_nat (16 * (unat b div 16) + unat b mod 16) :: byte)"
    by (simp only: of_nat_add of_nat_mult of_nat_numeral)
  ultimately have "16 * hex_digit_val (''0123456789abcdef'' ! (unat b div 16)) +
        hex_digit_val (''0123456789abcdef'' ! (unat b mod 16)) = b"
    by (simp add: hex_digit_val_digit)
  with Cons show ?case by (simp add: hex_lower_def hex_byte_def hex_digit_def)
qed (simp add: hex_lower_def)

definition example_io :: io_env where
  "example_io = \<lparr>read_dir_ok = True, read_ok = \<lambda>_. True, write_ok = \<lambda>_. True, remove_ok = \<lambda>_. True\<rparr>"

theorem shutdown_restart_preserves_cache_witness:
  "\<exists>s1 dir1 stats s2 dir2.
     shutdown example_md5 example_hex_decode example_io lru_example [(Utf8 ''data.000'', [])] = (Inr (), s1, dir1) \<and>
     run_cycle example_md5 example_hex_decode example_io (new_lru 4) 0 0 dir1 = Some (Inr (stats, s2, dir2)) \<and>
     represents s2 [replicate 9 1] 0 \<and>
     loaded_entries stats = 1 \<and> active_entries stats = 1 \<and> generation s2 = 2"
proof -
  have fields: "generation lru_example = 1 \<and> length (entries lru_example) = 1"
    by code_simp
  have md5: "length (example_md5 d) = 16" for d by (simp add: example_md5_def)
  show ?thesis
    using shutdown_restart_preserves_cache [OF lru_example_rep, of example_io "[(Utf8 ''data.000'', [])]"
        example_md5 example_hex_decode 4 0] fields md5 example_hex_decode_law
    by (simp add: io_all_ok_def example_io_def)
qed

end
