(* ===== verification/Index_Entry.thy ===== *)
theory Index_Entry
  imports Prelude
begin

text \<open>
  The 18-byte entry of a local \<open>.idx\<close> file, from
  \<open>cascette-client-storage/src/index/mod.rs\<close>: the archive location, packed into five
  big-endian bytes (ten bits of archive number, thirty bits of offset), and the entry
  (nine key bytes, the location, a little-endian size).
\<close>

section \<open>Model\<close>

record archive_location =
  archive_id :: u16
  archive_offset :: u32

record index_entry =
  ie_key :: ekey
  ie_location :: archive_location
  ie_size :: u32

datatype index_error =
    EntryDataTooSmall
  | EmptyEntry
  | ArchiveIdTooLarge
  | HeaderTooSmall
  | VersionMismatch u16
  | FieldEightZero
  | BadFieldLength byte
  | HeaderHashMismatch
  | DataTooSmall
  | BlockHashMismatch nat
  | InvalidKeySize byte
  | UnexpectedEof
  | EntryBlockTooLarge
  | SaveFailed
  | CannotOpen string
  | CannotReadDirectory
  | UpdateSectionFull

definition index_entry_new :: "ekey \<Rightarrow> u16 \<Rightarrow> u32 \<Rightarrow> u32 \<Rightarrow> index_entry" where
  "index_entry_new key a off sz =
     \<lparr>ie_key = key, ie_location = \<lparr>archive_id = a, archive_offset = off\<rparr>, ie_size = sz\<rparr>"

text \<open>
  The four packed bytes: the two low bits of the archive number above the thirty bits
  of the offset.
\<close>

definition pack_low :: "archive_location \<Rightarrow> u32" where
  "pack_low l =
     push_bit 30 (ucast (archive_id l AND 0x03)) OR (archive_offset l AND 0x3FFFFFFF)"

definition unpack_location :: "byte \<Rightarrow> u32 \<Rightarrow> archive_location" where
  "unpack_location index_high index_low =
     \<lparr>archive_id = push_bit 2 (ucast index_high) OR ucast (drop_bit 30 index_low),
      archive_offset = index_low AND 0x3FFFFFFF\<rparr>"

definition write_archive_location :: "archive_location \<Rightarrow> index_error + byte list" where
  "write_archive_location l =
     (let high = drop_bit 2 (archive_id l) in
      if high > 255 then Inl ArchiveIdTooLarge
      else Inr (ucast high # to_be 4 (pack_low l)))"

definition parse_archive_location :: "byte list \<Rightarrow> archive_location" where
  "parse_archive_location data = unpack_location (data ! 0) (from_be (slice 1 5 data))"

text \<open>\<open>read_be\<close> of the derived reader: eighteen bytes, or the end of the data.\<close>

definition index_entry_read :: "byte list \<Rightarrow> index_entry" where
  "index_entry_read data =
     \<lparr>ie_key = slice 0 9 data, ie_location = parse_archive_location (slice 9 14 data),
      ie_size = from_le (slice 14 18 data)\<rparr>"

definition from_packed :: "byte list \<Rightarrow> index_error + index_entry" where
  "from_packed data =
     (if length data < 18 then Inl EntryDataTooSmall
      else let entry = index_entry_read data in
           if ie_key entry = replicate 9 0 then Inl EmptyEntry else Inr entry)"

text \<open>An archive number that does not fit is written as eighteen zero bytes.\<close>

definition to_packed :: "index_entry \<Rightarrow> byte list" where
  "to_packed e =
     (case write_archive_location (ie_location e) of
        Inl _ \<Rightarrow> replicate 18 0
      | Inr location \<Rightarrow> ie_key e @ location @ to_le 4 (ie_size e))"

section \<open>Locations\<close>

definition wf_location :: "archive_location \<Rightarrow> bool" where
  "wf_location l \<longleftrightarrow> archive_id l < 1024 \<and> archive_offset l < 0x40000000"

definition wf_index_entry :: "index_entry \<Rightarrow> bool" where
  "wf_index_entry e \<longleftrightarrow> length (ie_key e) = 9 \<and> wf_location (ie_location e)"

lemma unpack_pack:
  assumes "wf_location l"
  shows "unpack_location (ucast (drop_bit 2 (archive_id l))) (pack_low l) = l"
proof -
  have a: "bit (archive_id l) n \<Longrightarrow> n < 10" for n
    using bit_less_pow [of "archive_id l" 10 n] assms by (simp add: wf_location_def)
  have b: "bit (archive_offset l) n \<Longrightarrow> n < 30" for n
    using bit_less_pow [of "archive_offset l" 30 n] assms by (simp add: wf_location_def)
  let ?id = "push_bit 2 (ucast (ucast (drop_bit 2 (archive_id l)) :: byte)) OR ucast (drop_bit 30 (pack_low l)) :: u16"
  have id: "?id = archive_id l"
  proof (rule bit_word_eqI)
    fix n
    assume "n < LENGTH(16)"
    show "bit ?id n = bit (archive_id l) n"
    proof (cases "n < 2")
      case True
      then show ?thesis
        by (simp add: pack_low_def and_masks bit_simps)
    next
      case False
      then obtain m where "n = m + 2"
        by (metis add.commute le_Suc_ex not_less)
      then show ?thesis
        using a [of n] bit_imp_le_length [of "archive_id l" n]
        by (auto simp: pack_low_def and_masks bit_simps)
    qed
  qed
  have off: "pack_low l AND 0x3FFFFFFF = archive_offset l"
    by (rule bit_word_eqI)
       (use b in \<open>auto simp: pack_low_def and_masks bit_simps  dest: bit_imp_le_length\<close>)
  show ?thesis by (simp add: unpack_location_def id off)
qed

lemma wf_location_high: "wf_location l \<Longrightarrow> \<not> drop_bit 2 (archive_id l) > 255"
  by (simp add: wf_location_def word_less_nat_alt drop_bit_eq_div unat_div, arith)

lemma wf_unpack: "wf_location (unpack_location h w)"
proof -
  have "(push_bit 2 (ucast h) OR ucast (drop_bit 30 w) :: u16) = take_bit 10 (push_bit 2 (ucast h) OR ucast (drop_bit 30 w))"
    by (rule bit_word_eqI) (auto simp: bit_simps dest: bit_imp_le_length)
  moreover have "take_bit 10 x < (1024 :: u16)" for x
    using take_bit_nat_less_exp [of 10 "unat x"]
    by (simp add: word_less_nat_alt unsigned_take_bit_eq)
  moreover have "take_bit 30 w < 0x40000000"
    using take_bit_nat_less_exp [of 30 "unat w"]
    by (simp add: word_less_nat_alt unsigned_take_bit_eq)
  ultimately show ?thesis
    by (metis (no_types) wf_location_def unpack_location_def and_masks(2)
          archive_location.select_convs)
qed

lemma wf_index_entry_read: "length data \<ge> 18 \<Longrightarrow> wf_index_entry (index_entry_read data)"
  by (simp add: wf_index_entry_def index_entry_read_def parse_archive_location_def wf_unpack)

section \<open>Entries\<close>

interpretation packed_entry: fixed_codec 18 wf_index_entry to_packed index_entry_read
proof unfold_locales
  fix e :: index_entry
  assume wf: "wf_index_entry e"
  let ?l = "ie_location e"
  have k: "length (ie_key e) = 9" and l: "wf_location ?l"
    using wf by (auto simp: wf_index_entry_def)
  have enc: "to_packed e = ie_key e @ ucast (drop_bit 2 (archive_id ?l)) # to_be 4 (pack_low ?l) @ to_le 4 (ie_size e)"
    using wf_location_high [OF l] by (simp add: to_packed_def write_archive_location_def Let_def)
  then show "length (to_packed e) = 18"
    by (simp add: k)
  have "parse_archive_location (slice 9 14 (to_packed e)) = ?l"
    using unpack_pack [OF l] by (simp add: enc k slice_def parse_archive_location_def)
  then show "index_entry_read (to_packed e) = e"
    by (simp add: index_entry_read_def enc k slice_def)
qed

lemma from_packed_to_packed:
  "wf_index_entry e \<Longrightarrow> ie_key e \<noteq> replicate 9 0 \<Longrightarrow> from_packed (to_packed e) = Inr e"
  by (simp add: from_packed_def packed_entry.length_enc packed_entry.dec_enc)

end
