(* ===== verification/Lsm.thy ===== *)
theory Lsm
  imports Prelude
begin

text \<open>
  What the two-level index relies on: ordered maps (\<open>std::collections::BTreeMap\<close>) as
  association lists with strictly increasing keys, the binary search of a slice
  (\<open>slice::binary_search_by_key\<close>), and the contract of an append-only log whose newest
  record for a key wins (\<open>update_log\<close>).
\<close>

section \<open>Ordered maps\<close>

fun bt_insert :: "'k::linorder \<Rightarrow> 'v \<Rightarrow> ('k \<times> 'v) list \<Rightarrow> ('k \<times> 'v) list" where
  "bt_insert k v [] = [(k, v)]"
| "bt_insert k v ((k', v') # m) =
     (if k < k' then (k, v) # (k', v') # m
      else if k = k' then (k, v) # m
      else (k', v') # bt_insert k v m)"

definition bt_wf :: "('k::linorder \<times> 'v) list \<Rightarrow> bool" where
  "bt_wf m \<longleftrightarrow> sorted_wrt (<) (map fst m)"

lemma bt_wf_Nil [simp]: "bt_wf []"
  by (simp add: bt_wf_def)

lemma bt_insert_keys: "fst ` set (bt_insert k v m) = insert k (fst ` set m)"
proof (induction m)
  case (Cons p m)
  then show ?case by (cases p) auto
qed simp

lemma bt_wf_insert [intro]: "bt_wf m \<Longrightarrow> bt_wf (bt_insert k v m)"
proof (induction m)
  case (Cons p m)
  have "set (map fst (bt_insert k v m)) = insert k (set (map fst m))"
    using bt_insert_keys [of k v m] by simp
  with Cons show ?case
    by (cases p) (auto simp: bt_wf_def simp del: set_map)
qed (simp add: bt_wf_def)

lemma map_of_bt_insert:
  "bt_wf m \<Longrightarrow> map_of (bt_insert k v m) = (map_of m)(k \<mapsto> v)"
proof (induction m)
  case (Cons p m)
  moreover have "k < fst p \<Longrightarrow> map_of m k = None"
    using Cons.prems by (auto simp: bt_wf_def map_of_eq_None_iff)
  ultimately show ?case
    by (cases p) (auto simp: bt_wf_def fun_eq_iff)
qed (simp add: bt_wf_def fun_eq_iff)

lemma bt_wf_distinct: "bt_wf m \<Longrightarrow> distinct (map fst m)"
  by (simp add: bt_wf_def strict_sorted_iff)

section \<open>Binary search\<close>

text \<open>
  The loop of the standard library: \<open>base\<close> moves to the middle unless the element there
  is greater than the key, \<open>size\<close> is halved rounding up; the element at \<open>base\<close> decides.
\<close>

function bsearch_loop :: "('e \<Rightarrow> 'k::linorder) \<Rightarrow> 'e list \<Rightarrow> 'k \<Rightarrow> nat \<Rightarrow> nat \<Rightarrow> nat" where
  "bsearch_loop f xs k base sz =
     (if sz > 1
      then let half = sz div 2; mid = base + half
           in bsearch_loop f xs k (if f (xs ! mid) > k then base else mid) (sz - half)
      else base)"
  by pat_completeness auto
termination
  by (relation "measure (\<lambda>(_, _, _, _, sz). sz)") auto

definition binary_search_by_key :: "('e \<Rightarrow> 'k::linorder) \<Rightarrow> 'e list \<Rightarrow> 'k \<Rightarrow> nat option" where
  "binary_search_by_key f xs k =
     (if xs = [] then None
      else let base = bsearch_loop f xs k 0 (length xs)
           in if f (xs ! base) = k then Some base else None)"

declare bsearch_loop.simps [simp del]

lemma bsearch_loop_range:
  assumes "0 < sz" "base + sz \<le> length xs"
  shows "base \<le> bsearch_loop f xs k base sz \<and> bsearch_loop f xs k base sz < base + sz"
  using assms
proof (induction f xs k base sz rule: bsearch_loop.induct)
  case (1 f xs k base sz)
  let ?mid = "base + sz div 2"
  show ?case
  proof (cases "sz > 1")
    case True
    let ?b = "if f (xs ! ?mid) > k then base else ?mid" and ?n = "sz - sz div 2"
    have eq: "bsearch_loop f xs k base sz = bsearch_loop f xs k ?b ?n"
      using True by (subst bsearch_loop.simps) (simp add: Let_def)
    have b: "base \<le> ?b" "?b + ?n \<le> base + sz" "0 < ?n"
      using True by auto
    then have "?b \<le> bsearch_loop f xs k ?b ?n \<and> bsearch_loop f xs k ?b ?n < ?b + ?n"
      using "1.prems" by (intro "1.IH" [OF True refl refl]) auto
    then show ?thesis
      unfolding eq using b by linarith
  next
    case False
    then show ?thesis
      using "1.prems" by (simp add: bsearch_loop.simps [of f xs k base sz])
  qed
qed

lemma bsearch_loop_finds:
  assumes "sorted_wrt (<) (map f xs)" "base + sz \<le> length xs"
    and "base \<le> i" "i < base + sz" "f (xs ! i) = k"
  shows "bsearch_loop f xs k base sz = i"
  using assms
proof (induction f xs k base sz rule: bsearch_loop.induct)
  case (1 f xs k base sz)
  let ?mid = "base + sz div 2"
  show ?case
  proof (cases "sz > 1")
    case True
    have eq: "bsearch_loop f xs k base sz =
        bsearch_loop f xs k (if f (xs ! ?mid) > k then base else ?mid) (sz - sz div 2)"
      using True by (subst bsearch_loop.simps) (simp add: Let_def)
    have lt: "a < b \<Longrightarrow> b < length xs \<Longrightarrow> f (xs ! a) < f (xs ! b)" for a b
      using "1.prems"(1) sorted_wrt_nth_less [of "(<)" "map f xs" a b] by simp
    have mid: "?mid < length xs"
      using "1.prems"(2) True by linarith
    have "k < f (xs ! ?mid) \<longleftrightarrow> i < ?mid"
      using lt [of i ?mid] lt [of ?mid i] mid "1.prems"(2-5)
      by (cases i ?mid rule: linorder_cases) auto
    then show ?thesis
      unfolding eq using "1.prems" True by (intro "1.IH" [OF True refl refl]) auto
  next
    case False
    then show ?thesis
      using "1.prems" by (simp add: bsearch_loop.simps [of f xs k base sz])
  qed
qed

lemma binary_search_None:
  "k \<notin> f ` set xs \<Longrightarrow> binary_search_by_key f xs k = None"
  using bsearch_loop_range [of "length xs" 0 xs f k]
  by (cases "xs = []") (auto simp: binary_search_by_key_def Let_def, metis image_eqI nth_mem)

lemma binary_search_nth:
  "sorted_wrt (<) (map f xs) \<Longrightarrow> i < length xs \<Longrightarrow> binary_search_by_key f xs (f (xs ! i)) = Some i"
  using bsearch_loop_finds [of f xs 0 "length xs" i "f (xs ! i)"]
  by (auto simp: binary_search_by_key_def Let_def)

definition keyed :: "('e \<Rightarrow> 'k) \<Rightarrow> 'e list \<Rightarrow> 'k \<Rightarrow> 'e option" where
  "keyed f xs = map_of (map (\<lambda>e. (f e, e)) xs)"

lemma keyed_Nil [simp]: "keyed f [] k = None"
  by (simp add: keyed_def)

lemma keyed_Cons: "keyed f (x # xs) k = (if f x = k then Some x else keyed f xs k)"
  by (simp add: keyed_def)

lemma keyed_append: "keyed f (xs @ ys) k = (case keyed f xs k of None \<Rightarrow> keyed f ys k | Some e \<Rightarrow> Some e)"
  by (induction xs) (auto simp: keyed_Cons)

lemma keyed_None: "keyed f xs k = None \<longleftrightarrow> k \<notin> f ` set xs"
  by (auto simp: keyed_def map_of_eq_None_iff image_image)

lemma keyed_SomeD: "keyed f xs k = Some e \<Longrightarrow> e \<in> set xs \<and> f e = k"
  by (induction xs) (auto simp: keyed_Cons split: if_splits)

lemma keyed_nth:
  "distinct (map f xs) \<Longrightarrow> i < length xs \<Longrightarrow> keyed f xs (f (xs ! i)) = Some (xs ! i)"
  using map_of_map_keys [of xs] by (auto simp: keyed_def distinct_conv_nth intro!: map_of_is_SomeI)

text \<open>On strictly increasing keys the binary search finds exactly the element with the key.\<close>

lemma binary_search_keyed:
  assumes "sorted_wrt (<) (map f xs)"
  shows "map_option (\<lambda>i. xs ! i) (binary_search_by_key f xs k) = keyed f xs k"
proof (cases "k \<in> f ` set xs")
  case True
  then obtain i where i: "i < length xs" "k = f (xs ! i)"
    by (auto simp: in_set_conv_nth)
  moreover have "distinct (map f xs)"
    using assms by (simp add: strict_sorted_iff)
  ultimately show ?thesis
    using assms by (simp add: binary_search_nth keyed_nth)
next
  case False
  then have "keyed f xs k = None"
    by (simp add: keyed_None)
  with False show ?thesis
    by (simp add: binary_search_None)
qed

section \<open>Append-only logs\<close>

text \<open>The deduplicated view: inserting a log, oldest first, into an ordered map.\<close>

lemma bt_collect_wf: "bt_wf m \<Longrightarrow> bt_wf (foldl (\<lambda>m e. bt_insert (key e) (h e) m) m es)"
  by (induction es arbitrary: m) auto

lemma bt_collect_keyed:
  "bt_wf m \<Longrightarrow> map_of (foldl (\<lambda>m e. bt_insert (key e) (h e) m) m es) k
     = (case keyed key (rev es) k of None \<Rightarrow> map_of m k | Some e \<Rightarrow> Some (h e))"
  by (induction es arbitrary: m)
     (auto simp: keyed_append keyed_Cons map_of_bt_insert bt_wf_insert split: option.splits)

lemma keyed_rev: "distinct (map f es) \<Longrightarrow> keyed f (rev es) k = keyed f es k"
proof (induction es)
  case (Cons a es)
  have "f a = k \<Longrightarrow> keyed f es k = None"
    using Cons.prems by (auto simp: keyed_None)
  with Cons show ?case
    by (auto simp: keyed_append keyed_Cons split: option.split)
qed simp

lemma bt_insert_set: "set (bt_insert k v m) \<subseteq> insert (k, v) (set m)"
proof (induction m)
  case (Cons p m)
  then show ?case by (cases p) auto
qed simp

lemma bt_collect_set:
  "set (foldl (\<lambda>m e. bt_insert (key e) (h e) m) m es) \<subseteq> set m \<union> (\<lambda>e. (key e, h e)) ` set es"
proof (induction es arbitrary: m)
  case (Cons e es)
  then show ?case
    using bt_insert_set [of "key e" "h e" m] by fastforce
qed simp

lemma find_append:
  "find P (xs @ ys) = (case find P xs of None \<Rightarrow> find P ys | Some x \<Rightarrow> Some x)"
  by (induction xs) auto

text \<open>
  The contract of the update section: an accepted record goes to the end of the log, a
  refused one leaves the section as it is, and a search gives the newest record of a key.
\<close>

locale update_log =
  fixes log :: "'s \<Rightarrow> 'e list"
    and append :: "'s \<Rightarrow> 'e \<Rightarrow> 's \<times> bool"
    and search :: "'s \<Rightarrow> 'k::linorder \<Rightarrow> 'e option"
    and clear :: "'s \<Rightarrow> 's"
    and key :: "'e \<Rightarrow> 'k"
  assumes append_accepted: "append s e = (s', True) \<Longrightarrow> log s' = log s @ [e]"
    and append_refused: "append s e = (s', False) \<Longrightarrow> s' = s"
    and search_newest: "search s k = find (\<lambda>e. key e = k) (rev (log s))"
    and log_clear: "log (clear s) = []"
begin

lemma find_keyed: "find (\<lambda>e. key e = k) es = keyed key es k"
  by (induction es) (auto simp: keyed_Cons)

lemma search_keyed: "search s k = keyed key (rev (log s)) k"
  by (simp add: search_newest find_keyed)

lemma search_append:
  "append s e = (s', True) \<Longrightarrow> search s' k = (if key e = k then Some e else search s k)"
  by (simp add: search_keyed append_accepted keyed_Cons)

lemma search_clear [simp]: "search (clear s) k = None"
  by (simp add: search_keyed log_clear)

lemma collect_search:
  "map_of (foldl (\<lambda>m e. bt_insert (key e) (h e) m) [] (log s)) k = map_option h (search s k)"
  by (simp add: bt_collect_keyed search_keyed split: option.splits)

end

end
