(* ===== verification/Jenkins.thy ===== *)
theory Jenkins
  imports Prelude
begin

text \<open>
  Bob Jenkins' lookup3 hash as \<open>cascette-crypto/src/jenkins.rs\<close> has it: the two mixing
  steps, \<open>hashlittle\<close>, \<open>hashlittle2\<close> and the combined 96-bit hash. All arithmetic
  wraps, so every value is a 32-bit word.
\<close>

section \<open>Model\<close>

type_synonym abc = "u32 \<times> u32 \<times> u32"

definition mix :: "abc \<Rightarrow> abc" where
  "mix = (\<lambda>(a, b, c).
     (let a = a - c; a = a XOR word_rotl 4 c; c = c + b;
          b = b - a; b = b XOR word_rotl 6 a; a = a + c;
          c = c - b; c = c XOR word_rotl 8 b; b = b + a;
          a = a - c; a = a XOR word_rotl 16 c; c = c + b;
          b = b - a; b = b XOR word_rotl 19 a; a = a + c;
          c = c - b; c = c XOR word_rotl 4 b; b = b + a
      in (a, b, c)))"

definition final_mix :: "abc \<Rightarrow> abc" where
  "final_mix = (\<lambda>(a, b, c).
     (let c = c XOR b; c = c - word_rotl 14 b;
          a = a XOR c; a = a - word_rotl 11 c;
          b = b XOR a; b = b - word_rotl 25 a;
          c = c XOR b; c = c - word_rotl 16 b;
          a = a XOR c; a = a - word_rotl 4 c;
          b = b XOR a; b = b - word_rotl 14 a;
          c = c XOR b; c = c - word_rotl 24 b
      in (a, b, c)))"

text \<open>\<open>u32::try_from(len).unwrap_or(u32::MAX)\<close>.\<close>

definition len_u32 :: "byte list \<Rightarrow> u32" where
  "len_u32 data =
     (let n = word_of_nat (length data) in if unat n = length data then n else - 1)"

text \<open>The loop over full 12-byte chunks, and the chunk of at most 12 bytes it leaves.\<close>

function chunks12 :: "byte list \<Rightarrow> abc \<Rightarrow> byte list \<times> abc" where
  "chunks12 k (a, b, c) =
     (if length k > 12
      then chunks12 (drop 12 k)
             (mix (a + from_le (slice 0 4 k), b + from_le (slice 4 8 k), c + from_le (slice 8 12 k)))
      else (k, (a, b, c)))"
  by pat_completeness auto
termination
  by (relation "measure (\<lambda>(k, _). length k)") auto

text \<open>
  The last chunk adds every byte that is there, shifted to its place in its word:
  bytes 0 to 3 into \<open>a\<close>, 4 to 7 into \<open>b\<close>, 8 to 11 into \<open>c\<close>.
\<close>

fun add_bytes :: "nat \<Rightarrow> byte list \<Rightarrow> u32 \<Rightarrow> u32" where
  "add_bytes i [] w = w"
| "add_bytes i (x # xs) w = add_bytes (Suc i) xs w + push_bit (8 * i) (ucast x)"

definition add_tail :: "byte list \<Rightarrow> abc \<Rightarrow> abc" where
  "add_tail k = (\<lambda>(a, b, c).
     (add_bytes 0 (slice 0 4 k) a, add_bytes 0 (slice 4 8 k) b, add_bytes 0 (slice 8 12 k) c))"

definition hashlittle :: "byte list \<Rightarrow> u32 \<Rightarrow> u32" where
  "hashlittle data initval =
     (let a = 0xdeadbeef + len_u32 data + initval in
      if data = [] then a
      else case chunks12 data (a, a, a) of
             (k, abc) \<Rightarrow>
               if k = [] then snd (snd abc)
               else snd (snd (final_mix (add_tail k abc))))"

definition hashlittle2 :: "byte list \<Rightarrow> u32 \<Rightarrow> u32 \<Rightarrow> u32 \<times> u32" where
  "hashlittle2 key pc pb =
     (let a = 0xdeadbeef + len_u32 key + pc; b = a; c = a + pb in
      if key = [] then (c, b)
      else case chunks12 key (a, b, c) of
             (k, (a', b', c')) \<Rightarrow>
               if k = [] then (c', b')
               else case final_mix (add_tail k (a', b', c')) of (_, b'', c'') \<Rightarrow> (c'', b''))"

record jenkins96 =
  hash64 :: u64
  hash32 :: u32

definition jenkins96_hash :: "byte list \<Rightarrow> jenkins96" where
  "jenkins96_hash data =
     (case hashlittle2 data 0 0 of
        (pc, pb) \<Rightarrow> \<lparr>hash64 = push_bit 32 (ucast pc) OR ucast pb, hash32 = pc\<rparr>)"

section \<open>The mixing steps are reversible\<close>

text \<open>
  Every assignment pair of \<open>mix\<close> is one round on the three words with their roles rotated,
  and so is every pair of \<open>final_mix\<close>; each round has an inverse.
\<close>

definition cyc :: "abc \<Rightarrow> abc" where
  "cyc = (\<lambda>(x, y, z). (y, z, x))"

definition mix_round :: "nat \<Rightarrow> abc \<Rightarrow> abc" where
  "mix_round r = (\<lambda>(x, y, z). ((x - z) XOR word_rotl r z, y, z + y))"

definition final_round :: "nat \<Rightarrow> abc \<Rightarrow> abc" where
  "final_round r = (\<lambda>(x, y, z). ((x XOR z) - word_rotl r z, y, z))"

lemma bij_cyc: "bij cyc"
  by (rule o_bij [of "\<lambda>(x, y, z). (z, x, y)"]) (auto simp: cyc_def)

lemma xor_cancel: "((x :: u32) XOR y) XOR y = x"
  by (simp add: xor.assoc)

lemma bij_mix_round: "bij (mix_round r)"
  by (rule o_bij [of "\<lambda>(x, y, z). ((x XOR word_rotl r (z - y)) + (z - y), y, z - y)"])
     (auto simp: mix_round_def xor_cancel)

lemma bij_final_round: "bij (final_round r)"
  by (rule o_bij [of "\<lambda>(x, y, z). ((x + word_rotl r z) XOR z, y, z)"])
     (auto simp: final_round_def xor_cancel)

lemma mix_rounds:
  "mix = (cyc \<circ> mix_round 4) \<circ> (cyc \<circ> mix_round 19) \<circ> (cyc \<circ> mix_round 16)
       \<circ> (cyc \<circ> mix_round 8) \<circ> (cyc \<circ> mix_round 6) \<circ> (cyc \<circ> mix_round 4)"
  by (simp add: fun_eq_iff mix_def mix_round_def cyc_def Let_def)

text \<open>In \<open>final_mix\<close> the words are visited in the order \<open>c, a, b\<close>, each with its predecessor.\<close>

lemma final_mix_rounds:
  "final_mix = (cyc \<circ> final_round 24)
       \<circ> (cyc \<circ> final_round 14) \<circ> (cyc \<circ> final_round 4) \<circ> (cyc \<circ> final_round 16)
       \<circ> (cyc \<circ> final_round 25) \<circ> (cyc \<circ> final_round 11) \<circ> (cyc \<circ> final_round 14) \<circ> (cyc \<circ> cyc)"
  by (simp add: fun_eq_iff final_mix_def final_round_def cyc_def Let_def)

text \<open>
  \<open>mix\<close> and \<open>final_mix\<close> lose no information: each is a bijection on the 96 bits of
  internal state, so no two states of the hash are ever merged by a mixing step.
\<close>

theorem mixing_reversible: "bij mix \<and> bij final_mix"
  unfolding mix_rounds final_mix_rounds
  by (intro conjI bij_comp bij_cyc bij_mix_round bij_final_round)

section \<open>The hash functions agree\<close>

text \<open>
  The reference: lookup3 on a list of three-word blocks, \<open>mix\<close> after every block but the last,
  \<open>final_mix\<close> after the last. The message is cut into 12-byte blocks, each read as three
  little-endian words, the missing bytes of the last block being zero.
\<close>

definition absorb :: "abc \<Rightarrow> abc \<Rightarrow> abc" where
  "absorb = (\<lambda>(x, y, z) (a, b, c). (a + x, b + y, c + z))"

fun lookup3 :: "abc list \<Rightarrow> abc \<Rightarrow> abc" where
  "lookup3 [] s = s"
| "lookup3 [m] s = final_mix (absorb m s)"
| "lookup3 (m # ms) s = lookup3 ms (mix (absorb m s))"

definition block_words :: "byte list \<Rightarrow> abc" where
  "block_words k = (from_le (slice 0 4 k), from_le (slice 4 8 k), from_le (slice 8 12 k))"

definition message_blocks :: "byte list \<Rightarrow> abc list" where
  "message_blocks data = map (\<lambda>i. block_words (drop (12 * i) data)) [0..<(length data + 11) div 12]"

lemma add_bytes_eq: "add_bytes i xs w = w + push_bit (8 * i) (from_le xs)"
proof (induction xs arbitrary: i)
  case (Cons x xs)
  have "push_bit (8 * i) (ucast x + push_bit 8 (from_le xs) :: u32)
      = push_bit (8 * i) (ucast x) + push_bit (8 * Suc i) (from_le xs)"
    by (simp add: push_bit_add add.commute)
  with Cons.IH [of "Suc i"] show ?case
    by (simp add: byte_or_shift_add)
qed simp

lemma add_tail_eq: "add_tail k s = absorb (block_words k) s"
  by (cases s) (simp add: add_tail_def absorb_def block_words_def add_bytes_eq)

lemma message_blocks_Nil [simp]: "message_blocks [] = []"
  by (simp add: message_blocks_def)

lemma message_blocks_short: "k \<noteq> [] \<Longrightarrow> length k \<le> 12 \<Longrightarrow> message_blocks k = [block_words k]"
proof -
  assume "k \<noteq> []" "length k \<le> 12"
  then have "(length k + 11) div 12 = 1"
    by (cases k) auto
  then show ?thesis
    by (simp add: message_blocks_def)
qed

lemma message_blocks_long:
  assumes "length k > 12"
  shows "message_blocks k = block_words k # message_blocks (drop 12 k)"
proof -
  have "(length k + 11) div 12 = Suc ((length k - 12 + 11) div 12)"
    using assms by simp
  then show ?thesis
    by (simp add: message_blocks_def map_upt_Suc add.commute del: upt_Suc)
qed

lemma message_blocks_eq_Nil: "message_blocks k = [] \<longleftrightarrow> k = []"
  by (cases k) (simp_all add: message_blocks_def)

lemma chunks12_lookup3:
  assumes "k \<noteq> []" "chunks12 k s = (k', s')"
  shows "k' \<noteq> [] \<and> lookup3 (message_blocks k) s = final_mix (add_tail k' s')"
  using assms
proof (induction k s rule: chunks12.induct)
  case (1 k a b c)
  show ?case
  proof (cases "length k > 12")
    case True
    let ?s = "mix (absorb (block_words k) (a, b, c))"
    have rest: "chunks12 (drop 12 k) ?s = (k', s')"
      using "1.prems" True by (simp add: absorb_def block_words_def)
    obtain m ms where ms: "message_blocks (drop 12 k) = m # ms"
      using True by (cases "message_blocks (drop 12 k)") (auto simp: message_blocks_eq_Nil)
    have "lookup3 (message_blocks k) (a, b, c) = lookup3 (message_blocks (drop 12 k)) ?s"
      using True by (simp add: message_blocks_long ms)
    then show ?thesis
      using "1.IH" [OF True] rest True by (simp add: absorb_def block_words_def)
  next
    case False
    then show ?thesis
      using "1.prems" by (auto simp: message_blocks_short add_tail_eq)
  qed
qed

lemma hashlittle2_lookup3:
  "hashlittle2 key pc pb =
     (let a = 0xdeadbeef + len_u32 key + pc in
      case lookup3 (message_blocks key) (a, a, a + pb) of (_, b, c) \<Rightarrow> (c, b))"
  using chunks12_lookup3 [of key]
  by (auto simp: hashlittle2_def Let_def split: prod.splits) fastforce+

lemma hashlittle_fst_hashlittle2: "hashlittle data initval = fst (hashlittle2 data initval 0)"
  by (auto simp: hashlittle_def hashlittle2_def Let_def split: prod.splits)

text \<open>
  C38. The three entry points compute the same hash, and it is lookup3 over the zero-padded
  message: \<open>hashlittle\<close> is the primary result of \<open>hashlittle2\<close> with a zero secondary seed, both
  are the words \<open>c\<close> and \<open>b\<close> of the reference, and \<open>Jenkins96::hash\<close> holds exactly them.
\<close>

theorem jenkins_entry_points_agree:
  "hashlittle data initval = fst (hashlittle2 data initval 0)
   \<and> hashlittle2 data initval pb =
       (let a = 0xdeadbeef + len_u32 data + initval in
        case lookup3 (message_blocks data) (a, a, a + pb) of (_, b, c) \<Rightarrow> (c, b))
   \<and> hash32 (jenkins96_hash data) = hashlittle data 0
   \<and> ucast (drop_bit 32 (hash64 (jenkins96_hash data))) = hashlittle data 0
   \<and> ucast (hash64 (jenkins96_hash data)) = snd (hashlittle2 data 0 0)"
proof -
  have hi: "ucast (drop_bit 32 (push_bit 32 (ucast p) OR ucast q :: u64)) = p" for p q :: u32
    by (rule bit_word_eqI) (use bit_imp_le_length [of q] in \<open>fastforce simp: bit_simps\<close>)
  have lo: "ucast (push_bit 32 (ucast p) OR ucast q :: u64) = q" for p q :: u32
    by (rule bit_word_eqI) (auto simp: bit_simps)
  show ?thesis
    by (simp add: jenkins96_hash_def hashlittle_fst_hashlittle2 hashlittle2_lookup3 [symmetric] hi lo
             del: drop_bit_or
             split: prod.split)
qed

end
