(* ===== verification/Update.thy ===== *)
theory Update
  imports Index_Entry Lsm Jenkins "HOL-Library.List_Lexorder"
begin

text \<open>
  The update section of an index file, \<open>cascette-client-storage/src/index/update.rs\<close>: the
  24-byte entries with their hash guards, the 4096-byte pages of up to 170 entries and the
  append-only section of pages, with their byte formats.
\<close>

section \<open>Model\<close>

definition UPDATE_ENTRY_SIZE :: nat where "UPDATE_ENTRY_SIZE = 24"
definition UPDATE_PAGE_SIZE :: nat where "UPDATE_PAGE_SIZE = 0x1000"
definition ENTRIES_PER_PAGE :: nat where "ENTRIES_PER_PAGE = UPDATE_PAGE_SIZE div UPDATE_ENTRY_SIZE"
definition MIN_UPDATE_SECTION_SIZE :: nat where "MIN_UPDATE_SECTION_SIZE = 12 * UPDATE_PAGE_SIZE"
definition SYNC_PAGE_INTERVAL :: nat where "SYNC_PAGE_INTERVAL = 8"

datatype update_status = Normal | Delete | HeaderNonResident | DataNonResident

definition status_from_byte :: "byte \<Rightarrow> update_status" where
  "status_from_byte b =
     (if b = 3 then Delete else if b = 6 then HeaderNonResident
      else if b = 7 then DataNonResident else Normal)"

fun status_byte :: "update_status \<Rightarrow> byte" where
  "status_byte Normal = 0"
| "status_byte Delete = 3"
| "status_byte HeaderNonResident = 6"
| "status_byte DataNonResident = 7"

record update_entry =
  hash_guard :: u32
  ue_ekey :: ekey
  ue_location :: archive_location
  ue_size :: u32
  ue_status :: update_status

text \<open>\<open>archive_id >> 2\<close> is cut to a byte here, where \<open>write_archive_location\<close> refuses it.\<close>

definition update_to_bytes :: "update_entry \<Rightarrow> byte list" where
  "update_to_bytes e =
     to_le 4 (hash_guard e) @ ue_ekey e
     @ [ucast (drop_bit 2 (archive_id (ue_location e)))] @ to_be 4 (pack_low (ue_location e))
     @ to_le 4 (ue_size e) @ [status_byte (ue_status e)] @ [0]"

definition compute_hash_guard :: "byte list \<Rightarrow> u32" where
  "compute_hash_guard entry_bytes = hashlittle (slice 4 23 entry_bytes) 0 OR 0x80000000"

definition update_entry_new :: "ekey \<Rightarrow> archive_location \<Rightarrow> u32 \<Rightarrow> update_status \<Rightarrow> update_entry" where
  "update_entry_new key location sz status =
     (let entry = \<lparr>hash_guard = 0, ue_ekey = key, ue_location = location, ue_size = sz,
                   ue_status = status\<rparr>
      in entry\<lparr>hash_guard := compute_hash_guard (update_to_bytes entry)\<rparr>)"

definition update_from_bytes :: "byte list \<Rightarrow> update_entry" where
  "update_from_bytes data =
     \<lparr>hash_guard = from_le (slice 0 4 data), ue_ekey = slice 4 13 data,
      ue_location = unpack_location (data ! 13) (from_be (slice 14 18 data)),
      ue_size = from_le (slice 18 22 data), ue_status = status_from_byte (data ! 22)\<rparr>"

definition to_index_entry :: "update_entry \<Rightarrow> index_entry" where
  "to_index_entry e =
     index_entry_new (ue_ekey e) (archive_id (ue_location e)) (archive_offset (ue_location e)) (ue_size e)"

definition validate_hash_guard :: "update_entry \<Rightarrow> bool" where
  "validate_hash_guard e \<longleftrightarrow> hash_guard e = compute_hash_guard (update_to_bytes e)"

text \<open>A page is the vector of its entries.\<close>

type_synonym update_page = "update_entry list"

definition page_is_full :: "update_page \<Rightarrow> bool" where
  "page_is_full p \<longleftrightarrow> length p \<ge> ENTRIES_PER_PAGE"

definition page_push :: "update_page \<Rightarrow> update_entry \<Rightarrow> update_page \<times> bool" where
  "page_push p e = (if page_is_full p then (p, False) else (p @ [e], True))"

definition page_to_bytes :: "update_page \<Rightarrow> byte list option" where
  "page_to_bytes p =
     copy_chunks UPDATE_ENTRY_SIZE 0 (map update_to_bytes p) (replicate UPDATE_PAGE_SIZE 0)"

text \<open>The loop over the slots of a page: it stops at the first zero hash guard.\<close>

function read_slots :: "byte list \<Rightarrow> update_entry list" where
  "read_slots data =
     (if length data < UPDATE_ENTRY_SIZE then []
      else if from_le (slice 0 4 data) = (0 :: u32) then []
      else update_from_bytes (take UPDATE_ENTRY_SIZE data) # read_slots (drop UPDATE_ENTRY_SIZE data))"
  by pat_completeness auto
termination
  by (relation "measure length") (auto simp: UPDATE_ENTRY_SIZE_def)

definition page_from_bytes :: "byte list \<Rightarrow> update_page option" where
  "page_from_bytes data =
     (if length data < UPDATE_PAGE_SIZE then None
      else if slice 0 4 data = [0, 0, 0, 0] then None
      else let entries = read_slots (take UPDATE_PAGE_SIZE data)
           in if entries = [] then None else Some entries)"

record update_section =
  pages :: "update_page list"
  capacity_pages :: nat

definition section_new :: update_section where
  "section_new = \<lparr>pages = [], capacity_pages = MIN_UPDATE_SECTION_SIZE div UPDATE_PAGE_SIZE\<rparr>"

definition section_with_capacity :: "nat \<Rightarrow> update_section" where
  "section_with_capacity size_bytes =
     \<lparr>pages = [], capacity_pages = max size_bytes MIN_UPDATE_SECTION_SIZE div UPDATE_PAGE_SIZE\<rparr>"

definition section_is_full :: "update_section \<Rightarrow> bool" where
  "section_is_full s \<longleftrightarrow>
     pages s \<noteq> [] \<and> length (pages s) \<ge> capacity_pages s \<and> page_is_full (last (pages s))"

definition entry_count :: "update_section \<Rightarrow> nat" where
  "entry_count s = sum_list (map length (pages s))"

definition section_append :: "update_section \<Rightarrow> update_entry \<Rightarrow> update_section \<times> bool" where
  "section_append s e =
     (if pages s \<noteq> [] \<and> \<not> page_is_full (last (pages s))
      then (s\<lparr>pages := butlast (pages s) @ [last (pages s) @ [e]]\<rparr>, True)
      else if length (pages s) \<ge> capacity_pages s then (s, False)
      else (s\<lparr>pages := pages s @ [[e]]\<rparr>, True))"

definition should_sync :: "update_section \<Rightarrow> bool" where
  "should_sync s \<longleftrightarrow>
     pages s \<noteq> [] \<and> (length (pages s) - 1) mod SYNC_PAGE_INTERVAL = SYNC_PAGE_INTERVAL - 1"

text \<open>The two nested loops of \<open>search\<close>, pages newest first and entries newest first.\<close>

fun search_pages :: "update_page list \<Rightarrow> ekey \<Rightarrow> update_entry option" where
  "search_pages [] key = None"
| "search_pages (p # ps) key =
     (case find (\<lambda>e. ue_ekey e = key) (rev p) of
        Some e \<Rightarrow> Some e
      | None \<Rightarrow> search_pages ps key)"

definition section_search :: "update_section \<Rightarrow> ekey \<Rightarrow> update_entry option" where
  "section_search s key = search_pages (rev (pages s)) key"

definition all_entries :: "update_section \<Rightarrow> update_entry list" where
  "all_entries s = concat (pages s)"

definition section_clear :: "update_section \<Rightarrow> update_section" where
  "section_clear s = s\<lparr>pages := []\<rparr>"

definition section_to_bytes :: "update_section \<Rightarrow> byte list option" where
  "section_to_bytes s = do {
     let total_pages = max (capacity_pages s) (length (pages s));
     images \<leftarrow> those (map page_to_bytes (pages s));
     copy_chunks UPDATE_PAGE_SIZE 0 images (replicate (total_pages * UPDATE_PAGE_SIZE) 0)
   }"

function read_pages :: "byte list \<Rightarrow> update_page list" where
  "read_pages data =
     (if length data < UPDATE_PAGE_SIZE then []
      else case page_from_bytes (take UPDATE_PAGE_SIZE data) of
             None \<Rightarrow> []
           | Some p \<Rightarrow> p # read_pages (drop UPDATE_PAGE_SIZE data))"
  by pat_completeness auto
termination
  by (relation "measure length") (auto simp: UPDATE_PAGE_SIZE_def)

definition section_from_bytes :: "byte list \<Rightarrow> update_section" where
  "section_from_bytes data =
     \<lparr>pages = read_pages data,
      capacity_pages = max (length data div UPDATE_PAGE_SIZE) (MIN_UPDATE_SECTION_SIZE div UPDATE_PAGE_SIZE)\<rparr>"

section \<open>Entries\<close>

lemmas update_sizes =
  UPDATE_ENTRY_SIZE_def UPDATE_PAGE_SIZE_def ENTRIES_PER_PAGE_def MIN_UPDATE_SECTION_SIZE_def

declare read_slots.simps [simp del] read_pages.simps [simp del]

definition wf_update_entry :: "update_entry \<Rightarrow> bool" where
  "wf_update_entry e \<longleftrightarrow> length (ue_ekey e) = 9 \<and> wf_location (ue_location e)"

lemma status_round_trip [simp]: "status_from_byte (status_byte st) = st"
  by (cases st) (simp_all add: status_from_byte_def)

lemma length_update_to_bytes: "length (ue_ekey e) = 9 \<Longrightarrow> length (update_to_bytes e) = 24"
  by (simp add: update_to_bytes_def)

interpretation upd: fixed_codec UPDATE_ENTRY_SIZE wf_update_entry update_to_bytes update_from_bytes
proof unfold_locales
  fix e
  assume wf: "wf_update_entry e"
  then have k: "length (ue_ekey e) = 9" and l: "wf_location (ue_location e)"
    by (auto simp: wf_update_entry_def)
  show "length (update_to_bytes e) = UPDATE_ENTRY_SIZE"
    using k by (simp add: length_update_to_bytes update_sizes)
  show "update_from_bytes (update_to_bytes e) = e"
    using k unpack_pack [OF l]
    by (simp add: update_from_bytes_def update_to_bytes_def slice_def nth_append)
qed

lemma guard_slice: "slice 4 23 (update_to_bytes (e\<lparr>hash_guard := g\<rparr>)) = slice 4 23 (update_to_bytes e)"
  by (simp add: update_to_bytes_def slice_def)

lemma update_entry_new_fields [simp]:
  "ue_ekey (update_entry_new k l z st) = k" "ue_location (update_entry_new k l z st) = l"
  "ue_size (update_entry_new k l z st) = z" "ue_status (update_entry_new k l z st) = st"
  by (simp_all add: update_entry_new_def Let_def)

lemma update_entry_new_valid: "validate_hash_guard (update_entry_new k l z st)"
  by (simp add: validate_hash_guard_def update_entry_new_def Let_def compute_hash_guard_def guard_slice
           del: update_entry.update_convs)

lemma guard_nonzero: "compute_hash_guard bs \<noteq> 0"
proof
  assume "compute_hash_guard bs = 0"
  moreover have "bit (compute_hash_guard bs) 31"
    by (simp add: compute_hash_guard_def bit_simps)
  ultimately show False by simp
qed

lemma update_entry_new_guard [simp]: "hash_guard (update_entry_new k l z st) \<noteq> 0"
  using update_entry_new_valid [of k l z st] guard_nonzero by (simp add: validate_hash_guard_def)

section \<open>The section as a log\<close>

lemma search_pages_find:
  "search_pages ps k = find (\<lambda>e. ue_ekey e = k) (concat (map rev ps))"
  by (induction ps) (auto simp: find_append split: option.splits)

interpretation upd_log: update_log all_entries section_append section_search section_clear ue_ekey
proof unfold_locales
  fix s e s' k
  show "section_append s e = (s', True) \<Longrightarrow> all_entries s' = all_entries s @ [e]"
    by (cases "pages s" rule: rev_cases)
       (auto simp: section_append_def all_entries_def split: if_splits)
  show "section_append s e = (s', False) \<Longrightarrow> s' = s"
    by (auto simp: section_append_def split: if_splits)
  show "section_search s k = find (\<lambda>e. ue_ekey e = k) (rev (all_entries s))"
    by (simp add: section_search_def all_entries_def search_pages_find rev_concat rev_map)
  show "all_entries (section_clear s) = []"
    by (simp add: section_clear_def all_entries_def)
qed

lemma entry_count_all: "entry_count s = length (all_entries s)"
  by (simp add: entry_count_def all_entries_def length_concat)

section \<open>The section invariant\<close>

text \<open>
  Every page but the last is full, no page is empty or overfull, the pages fit the
  capacity, and every entry is storable: its fields fit and its guard is not zero.
\<close>

definition storable :: "update_entry \<Rightarrow> bool" where
  "storable e \<longleftrightarrow> wf_update_entry e \<and> hash_guard e \<noteq> 0"

definition section_inv :: "update_section \<Rightarrow> bool" where
  "section_inv s \<longleftrightarrow>
     12 \<le> capacity_pages s \<and> length (pages s) \<le> capacity_pages s
     \<and> list_all (\<lambda>p. length p = 170) (butlast (pages s))
     \<and> list_all (\<lambda>p. p \<noteq> [] \<and> length p \<le> 170 \<and> list_all storable p) (pages s)"

lemma storable_new: "length k = 9 \<Longrightarrow> wf_location l \<Longrightarrow> storable (update_entry_new k l z st)"
  by (simp add: storable_def wf_update_entry_def)

lemma page_is_full_iff: "page_is_full p \<longleftrightarrow> 170 \<le> length p"
  by (simp add: page_is_full_def update_sizes)

lemma section_inv_new [simp]: "section_inv section_new"
  by (simp add: section_inv_def section_new_def update_sizes)

lemma section_inv_clear: "section_inv s \<Longrightarrow> section_inv (section_clear s)"
  by (simp add: section_inv_def section_clear_def)

lemma section_inv_append:
  assumes "section_inv s" "storable e" "section_append s e = (s', ok)"
  shows "section_inv s'"
proof (cases ok)
  case False
  then show ?thesis
    using assms upd_log.append_refused by fastforce
next
  case ok: True
  show ?thesis
  proof (cases "pages s" rule: rev_cases)
    case Nil
    then show ?thesis
      using assms ok by (auto simp: section_inv_def section_append_def split: if_splits)
  next
    case (snoc ps p)
    then have "page_is_full p \<Longrightarrow> length p = 170"
      using assms(1) by (simp add: section_inv_def page_is_full_iff)
    then show ?thesis
      using assms ok
      by (auto simp: section_inv_def section_append_def snoc butlast_append page_is_full_iff
               split: if_splits)
  qed
qed

lemma entry_count_snoc:
  "section_inv s \<Longrightarrow> pages s = ps @ [p] \<Longrightarrow> entry_count s = 170 * length ps + length p"
proof -
  assume "section_inv s" and ps: "pages s = ps @ [p]"
  then have "list_all (\<lambda>p. length p = 170) ps"
    by (simp add: section_inv_def)
  then have "sum_list (map length ps) = 170 * length ps"
    by (induction ps) auto
  then show ?thesis
    by (simp add: entry_count_def ps)
qed

lemma accepts_iff_not_full: "section_inv s \<Longrightarrow> snd (section_append s u) \<longleftrightarrow> \<not> section_is_full s"
  by (cases "pages s" rule: rev_cases)
     (auto simp: section_append_def section_is_full_def section_inv_def)

text \<open>
  The update section holds exactly 170 entries for each page of its capacity: an
  append is accepted if and only if there are fewer, whatever was appended before, and
  \<open>is_full\<close> reports exactly the sections that refuse.
\<close>

theorem append_accepts_up_to_capacity:
  assumes "section_inv s"
  shows "(snd (section_append s e) \<longleftrightarrow> entry_count s < 170 * capacity_pages s)
       \<and> (section_is_full s \<longleftrightarrow> \<not> snd (section_append s e))"
proof (cases "pages s" rule: rev_cases)
  case Nil
  then show ?thesis
    using assms
    by (auto simp: section_append_def section_is_full_def entry_count_def section_inv_def)
next
  case (snoc ps p)
  moreover have "length p \<le> 170" "length ps < capacity_pages s"
    using assms by (auto simp: section_inv_def snoc)
  ultimately show ?thesis
    using entry_count_snoc [OF assms snoc]
    by (auto simp: section_append_def section_is_full_def page_is_full_iff)
qed

theorem append_accepts_up_to_capacity_witness:
  "section_inv section_new
   \<and> snd (section_append section_new (update_entry_new (replicate 9 1) \<lparr>archive_id = 3, archive_offset = 30\<rparr> 5 Normal))"
  using append_accepts_up_to_capacity
    [of section_new "update_entry_new (replicate 9 1) \<lparr>archive_id = 3, archive_offset = 30\<rparr> 5 Normal"]
  by (simp add: section_new_def entry_count_def update_sizes section_inv_def)

section \<open>Bytes\<close>

lemma from_le_zeros [simp]: "from_le (replicate n 0) = 0"
  by (induction n) auto

lemma read_slots_zeros: "read_slots (replicate n 0) = []"
  by (simp add: read_slots.simps)

lemma guard_first: "from_le (slice 0 4 (update_to_bytes e @ rest)) = hash_guard e"
  by (simp add: update_to_bytes_def)

lemma read_slots_page:
  "list_all storable p \<Longrightarrow> read_slots (concat (map update_to_bytes p) @ replicate n 0) = p"
proof (induction p)
  case (Cons e p)
  then have wf: "wf_update_entry e" "hash_guard e \<noteq> 0"
    by (auto simp: storable_def)
  have "read_slots (update_to_bytes e @ concat (map update_to_bytes p) @ replicate n 0)
      = update_from_bytes (update_to_bytes e) # read_slots (concat (map update_to_bytes p) @ replicate n 0)"
    using wf upd.length_enc [OF wf(1)] guard_first [of e "concat (map update_to_bytes p) @ replicate n 0"]
    by (subst read_slots.simps) simp
  with Cons wf show ?case
    by (simp add: upd.dec_enc)
qed (simp add: read_slots_zeros)

lemma page_to_bytes_eq:
  assumes "list_all storable p" "length p \<le> 170"
  shows "page_to_bytes p = Some (concat (map update_to_bytes p) @ replicate (4096 - 24 * length p) 0)"
proof -
  have "list_all (\<lambda>x. length x = 24) (map update_to_bytes p)"
    using assms(1) upd.length_enc
    by (auto simp: list_all_iff storable_def UPDATE_ENTRY_SIZE_def)
  with assms(2) show ?thesis
    by (simp add: page_to_bytes_def update_sizes copy_chunks_eq drop_replicate)
qed

definition page_image :: "update_page \<Rightarrow> byte list" where
  "page_image p = concat (map update_to_bytes p) @ replicate (4096 - 24 * length p) 0"

lemma wf_of_storable: "list_all storable p \<Longrightarrow> list_all wf_update_entry p"
  by (auto simp: list_all_iff storable_def)

lemma length_page_image: "list_all storable p \<Longrightarrow> length p \<le> 170 \<Longrightarrow> length (page_image p) = 4096"
  using upd.length_table [OF wf_of_storable, of p] by (simp add: page_image_def UPDATE_ENTRY_SIZE_def)

lemma page_from_image:
  assumes "list_all storable p" "length p \<le> 170" "p \<noteq> []"
  shows "page_from_bytes (page_image p) = Some p"
proof -
  obtain e p' where p: "p = e # p'" using assms(3) by (cases p) auto
  have "from_le (slice 0 4 (page_image p)) \<noteq> (0 :: u32)"
    using assms(1) by (simp add: p page_image_def guard_first [unfolded append_assoc] storable_def del: slice_0)
  then have "slice 0 4 (page_image p) \<noteq> [0, 0, 0, 0]"
    by (auto simp del: slice_0)
  then show ?thesis
    using length_page_image [OF assms(1,2)] read_slots_page [OF assms(1)] assms(3)
    by (simp add: page_from_bytes_def update_sizes page_image_def [of p, symmetric] del: slice_0)
       (simp add: page_image_def)
qed

lemma four_zeros: "replicate 4 (0 :: byte) = [0, 0, 0, 0]"
  by (simp add: numeral_eq_Suc)

lemma page_from_zeros: "page_from_bytes (replicate n 0) = None"
  by (simp add: page_from_bytes_def update_sizes min_def four_zeros)

lemma read_pages_zeros: "read_pages (replicate n 0) = []"
  by (simp add: read_pages.simps page_from_zeros)

abbreviation page_ok :: "update_page \<Rightarrow> bool" where
  "page_ok p \<equiv> p \<noteq> [] \<and> length p \<le> 170 \<and> list_all storable p"

lemma read_pages_images:
  "list_all page_ok ps \<Longrightarrow> read_pages (concat (map page_image ps) @ replicate n 0) = ps"
proof (induction ps)
  case (Cons p ps)
  then have "length (page_image p) = 4096" "page_from_bytes (page_image p) = Some p"
    by (simp_all add: length_page_image page_from_image)
  with Cons show ?case
    by (subst read_pages.simps) (simp add: update_sizes)
qed (simp add: read_pages_zeros)

definition section_image :: "update_section \<Rightarrow> byte list" where
  "section_image s =
     concat (map page_image (pages s)) @ replicate ((capacity_pages s - length (pages s)) * 4096) 0"

lemma those_map_Some: "(\<And>x. x \<in> set xs \<Longrightarrow> f x = Some (g x)) \<Longrightarrow> those (map f xs) = Some (map g xs)"
  by (induction xs) auto

lemma length_page_images:
  "list_all page_ok ps \<Longrightarrow> list_all (\<lambda>x. length x = 4096) (map page_image ps)"
  by (auto simp: list_all_iff length_page_image)

lemma length_concat_images: "list_all page_ok ps \<Longrightarrow> length (concat (map page_image ps)) = 4096 * length ps"
  by (induction ps) (auto simp: length_page_image)

lemma section_to_bytes_eq:
  assumes "section_inv s"
  shows "section_to_bytes s = Some (section_image s)"
proof -
  have ok: "list_all page_ok (pages s)" and cap: "length (pages s) \<le> capacity_pages s"
    using assms by (auto simp: section_inv_def)
  have "those (map page_to_bytes (pages s)) = Some (map page_image (pages s))"
    using ok by (intro those_map_Some) (auto simp: list_all_iff page_to_bytes_eq page_image_def)
  then show ?thesis
    using length_page_images [OF ok] cap
    by (simp add: section_to_bytes_def copy_chunks_eq section_image_def update_sizes max_def
          algebra_simps)
qed

lemma length_section_image:
  "section_inv s \<Longrightarrow> length (section_image s) = 4096 * capacity_pages s"
  by (auto simp: section_inv_def section_image_def length_concat_images algebra_simps)

lemma section_from_image:
  assumes "section_inv s"
  shows "section_from_bytes (section_image s @ replicate n 0) =
           \<lparr>pages = pages s, capacity_pages = capacity_pages s + n div 4096\<rparr>"
proof -
  have "list_all page_ok (pages s)" and "12 \<le> capacity_pages s"
    using assms by (auto simp: section_inv_def)
  then show ?thesis
    using length_section_image [OF assms] read_pages_images [of "pages s"]
    by (simp add: section_from_bytes_def update_sizes)
       (simp add: section_image_def replicate_add [symmetric])
qed

text \<open>
  Saving and loading an update section loses nothing: \<open>to_bytes\<close> does not panic on
  any section built by appends, gives one page of bytes for each page of capacity, and
  \<open>from_bytes\<close> gives the section back, every entry with its hash guard.
\<close>

theorem section_round_trip:
  assumes "section_inv s"
  shows "\<exists>bytes. section_to_bytes s = Some bytes
           \<and> length bytes = UPDATE_PAGE_SIZE * capacity_pages s \<and> section_from_bytes bytes = s"
  using section_to_bytes_eq [OF assms] length_section_image [OF assms] section_from_image [OF assms, of 0]
  by (simp add: update_sizes)

theorem section_round_trip_witness:
  "let e = update_entry_new (replicate 9 7) \<lparr>archive_id = 1023, archive_offset = 30\<rparr> 5 Delete;
       s = \<lparr>pages = [[e]], capacity_pages = 12\<rparr>
   in section_inv s \<and> (\<exists>bytes. section_to_bytes s = Some bytes \<and> section_from_bytes bytes = s)"
  using section_round_trip
    [of "\<lparr>pages = [[update_entry_new (replicate 9 7) \<lparr>archive_id = 1023, archive_offset = 30\<rparr> 5 Delete]],
          capacity_pages = 12\<rparr>"]
  by (auto simp: section_inv_def storable_new wf_location_def Let_def)

end
