(* ===== verification/Index.thy ===== *)
theory Index
  imports Update Text
begin

text \<open>
  The index manager of \<open>cascette-client-storage/src/index/mod.rs\<close>, in memory: sixteen buckets,
  each a sorted section with an update section on top of it, and the image of a bucket as
  an index file. Loading and saving are in theory \<open>Index_Disk\<close>. A panic is the value \<open>None\<close>
  of the outer \<open>option\<close>; an error returned by the code is \<open>Inl\<close>.
\<close>

section \<open>Model\<close>

datatype index_version = V5 | V7

record index_header =
  data_size :: u32
  data_hash :: u32
  ih_version :: u16
  ih_bucket :: byte
  ih_unused :: byte
  length_size :: byte
  location_size :: byte
  key_size :: byte
  segment_bits :: byte

record index_file =
  if_version :: index_version
  if_header :: index_header
  if_entries :: "index_entry list"
  if_updates :: update_section

record index_manager =
  indices :: "(byte \<times> index_file) list"

definition manager_new :: index_manager where
  "manager_new = \<lparr>indices = []\<rparr>"

definition get_bucket_index :: "byte list \<Rightarrow> byte" where
  "get_bucket_index key =
     (if length key < 9 then 0
      else let hash = key ! 0 XOR key ! 1 XOR key ! 2 XOR key ! 3 XOR key ! 4 XOR key ! 5
                      XOR key ! 6 XOR key ! 7 XOR key ! 8
           in (hash AND 0x0F) XOR drop_bit 4 hash)"

text \<open>\<open>search_key[..9.min(len)].copy_from_slice(...)\<close> on nine zero bytes.\<close>

definition truncate_key :: "byte list \<Rightarrow> ekey" where
  "truncate_key key = put_slice 0 (take 9 key) (replicate 9 0)"

definition search_both_sections :: "index_file \<Rightarrow> ekey \<Rightarrow> index_entry option" where
  "search_both_sections index search_key =
     (case section_search (if_updates index) search_key of
        Some u \<Rightarrow> if ue_status u = Delete then None else Some (to_index_entry u)
      | None \<Rightarrow> map_option (\<lambda>i. if_entries index ! i)
                   (binary_search_by_key ie_key (if_entries index) search_key))"

definition lookup :: "index_manager \<Rightarrow> byte list \<Rightarrow> index_entry option" where
  "lookup m key =
     (case map_of (indices m) (get_bucket_index key) of
        None \<Rightarrow> None
      | Some index \<Rightarrow> search_both_sections index (truncate_key key))"

definition lookup_by_content_key :: "index_manager \<Rightarrow> byte list \<Rightarrow> index_entry option" where
  "lookup_by_content_key m key =
     (case map_of (indices m) (get_bucket_index key) of
        None \<Rightarrow> None
      | Some index \<Rightarrow> search_both_sections index (truncate_key key))"

definition has_entry :: "index_manager \<Rightarrow> byte list \<Rightarrow> bool" where
  "has_entry m key \<longleftrightarrow> lookup m key \<noteq> None"

definition new_index_file :: "byte \<Rightarrow> index_file" where
  "new_index_file b =
     \<lparr>if_version = V7,
      if_header = \<lparr>data_size = 16, data_hash = 0, ih_version = 7, ih_bucket = b, ih_unused = 0,
                   length_size = 4, location_size = 5, key_size = 9, segment_bits = 30\<rparr>,
      if_entries = [], if_updates = section_new\<rparr>"

text \<open>The updates, deduplicated: the latest entry of a key wins.\<close>

definition collect_updates :: "update_section \<Rightarrow> (ekey \<times> update_entry) list" where
  "collect_updates s = foldl (\<lambda>m e. bt_insert (ue_ekey e) e m) [] (all_entries s)"

text \<open>
  The merge of \<open>flush_updates_for_bucket\<close>: before each update the smaller sorted entries
  are copied, one sorted entry with the same key is skipped, and a tombstone adds nothing.
\<close>

fun merge_updates :: "(ekey \<times> update_entry) list \<Rightarrow> index_entry list \<Rightarrow> index_entry list" where
  "merge_updates [] es = es"
| "merge_updates ((k, u) # us) es =
     (let before = takeWhile (\<lambda>e. ie_key e < k) es;
          rest = dropWhile (\<lambda>e. ie_key e < k) es;
          rest' = (case rest of [] \<Rightarrow> [] | e # es' \<Rightarrow> if ie_key e = k then es' else rest);
          this = (if ue_status u \<noteq> Delete then [to_index_entry u] else [])
      in before @ this @ merge_updates us rest')"

definition flush_index :: "index_file \<Rightarrow> index_file" where
  "flush_index index =
     index\<lparr>if_entries := merge_updates (collect_updates (if_updates index)) (if_entries index),
           if_updates := section_clear (if_updates index)\<rparr>"

section \<open>Mutation without I/O\<close>

definition remove_entry :: "index_manager \<Rightarrow> byte list \<Rightarrow> index_manager \<times> bool" where
  "remove_entry m key =
     (case lookup m key of
        None \<Rightarrow> (m, False)
      | Some entry \<Rightarrow>
          (let index_id = get_bucket_index key in
           case map_of (indices m) index_id of
             None \<Rightarrow> (m, False)
           | Some index \<Rightarrow>
               (let tombstone = update_entry_new (truncate_key key) (ie_location entry) (ie_size entry) Delete;
                    (s', _) = section_append (if_updates index) tombstone
                in (m\<lparr>indices := bt_insert index_id (index\<lparr>if_updates := s'\<rparr>) (indices m)\<rparr>, True))))"

definition update_entry_location ::
  "index_manager \<Rightarrow> byte list \<Rightarrow> u16 \<Rightarrow> u32 \<Rightarrow> u32 \<Rightarrow> index_manager \<times> bool" where
  "update_entry_location m key a off sz =
     (if lookup m key = None then (m, False)
      else let index_id = get_bucket_index key in
           case map_of (indices m) index_id of
             None \<Rightarrow> (m, False)
           | Some index \<Rightarrow>
               (let entry = update_entry_new (truncate_key key) \<lparr>archive_id = a, archive_offset = off\<rparr> sz Normal;
                    (s', ok) = section_append (if_updates index) entry
                in (m\<lparr>indices := bt_insert index_id (index\<lparr>if_updates := s'\<rparr>) (indices m)\<rparr>, ok)))"

definition update_entry_status ::
  "index_manager \<Rightarrow> byte list \<Rightarrow> update_status \<Rightarrow> index_manager \<times> bool" where
  "update_entry_status m key status =
     (case lookup m key of
        None \<Rightarrow> (m, False)
      | Some entry \<Rightarrow>
          (let index_id = get_bucket_index key in
           case map_of (indices m) index_id of
             None \<Rightarrow> (m, False)
           | Some index \<Rightarrow>
               (let upd = update_entry_new (truncate_key key) (ie_location entry) (ie_size entry) status;
                    (s', ok) = section_append (if_updates index) upd
                in (m\<lparr>indices := bt_insert index_id (index\<lparr>if_updates := s'\<rparr>) (indices m)\<rparr>, ok))))"

definition clear_index :: "index_file \<Rightarrow> index_file" where
  "clear_index index = index\<lparr>if_entries := [], if_updates := section_clear (if_updates index)\<rparr>"

definition clear_all :: "index_manager \<Rightarrow> index_manager" where
  "clear_all m = m\<lparr>indices := map (\<lambda>(b, index). (b, clear_index index)) (indices m)\<rparr>"

definition index_entry_count :: "index_file \<Rightarrow> nat" where
  "index_entry_count index = length (if_entries index) + entry_count (if_updates index)"

definition clear_bucket :: "index_manager \<Rightarrow> byte \<Rightarrow> index_manager \<times> nat" where
  "clear_bucket m bucket =
     (case map_of (indices m) bucket of
        None \<Rightarrow> (m, 0)
      | Some index \<Rightarrow> (m\<lparr>indices := bt_insert bucket (clear_index index) (indices m)\<rparr>, index_entry_count index))"

section \<open>Queries\<close>

definition merged_view :: "index_file \<Rightarrow> (ekey \<times> index_entry option) list" where
  "merged_view index =
     foldl (\<lambda>m u. bt_insert (ue_ekey u) (if ue_status u = Delete then None else Some (to_index_entry u)) m)
       (foldl (\<lambda>m e. bt_insert (ie_key e) (Some e) m) [] (if_entries index))
       (all_entries (if_updates index))"

definition iter_entries :: "index_manager \<Rightarrow> (byte \<times> index_entry) list" where
  "iter_entries m =
     concat (map (\<lambda>(b, index). map (\<lambda>e. (b, e)) (List.map_filter snd (merged_view index))) (indices m))"

definition manager_entry_count :: "index_manager \<Rightarrow> nat" where
  "manager_entry_count m = length (iter_entries m)"

definition bucket_entry_count :: "index_manager \<Rightarrow> byte \<Rightarrow> nat" where
  "bucket_entry_count m bucket =
     (case map_of (indices m) bucket of None \<Rightarrow> 0 | Some index \<Rightarrow> index_entry_count index)"

definition bucket_for_key :: "byte list \<Rightarrow> byte" where
  "bucket_for_key key = get_bucket_index key"

definition bucket_count :: "index_manager \<Rightarrow> nat" where
  "bucket_count m = length (indices m)"

definition loaded_buckets :: "index_manager \<Rightarrow> byte list" where
  "loaded_buckets m = map fst (indices m)"

record index_stats =
  index_count :: nat
  total_entries :: nat

definition stats :: "index_manager \<Rightarrow> index_stats" where
  "stats m = \<lparr>index_count = length (indices m),
              total_entries = sum_list (map (\<lambda>(_, index). length (if_entries index)) (indices m))\<rparr>"

end
