(* ===== verification/Index_Props.thy ===== *)
theory Index_Props
  imports Index
begin

text \<open>
  Correctness of the index manager: a bucket is a map from nine-byte keys to entries, given
  by the update section over the sorted section; flushing keeps the map, adding, removing and
  updating change it at one key, and iterating lists it.
\<close>

section \<open>The map of a bucket\<close>

definition visible :: "update_entry \<Rightarrow> index_entry option" where
  "visible u = (if ue_status u = Delete then None else Some (to_index_entry u))"

definition keys_sorted :: "index_entry list \<Rightarrow> bool" where
  "keys_sorted es \<longleftrightarrow> sorted_wrt (<) (map ie_key es)"

definition std_header :: "index_header \<Rightarrow> bool" where
  "std_header h \<longleftrightarrow> key_size h = 9 \<and> location_size h = 5 \<and> length_size h = 4 \<and> segment_bits h < 56"

definition file_inv :: "byte \<Rightarrow> index_file \<Rightarrow> bool" where
  "file_inv b index \<longleftrightarrow>
     keys_sorted (if_entries index)
     \<and> list_all (\<lambda>e. wf_index_entry e \<and> get_bucket_index (ie_key e) = b) (if_entries index)
     \<and> list_all (\<lambda>u. get_bucket_index (ue_ekey u) = b) (all_entries (if_updates index))
     \<and> section_inv (if_updates index) \<and> std_header (if_header index)"

definition manager_inv :: "index_manager \<Rightarrow> bool" where
  "manager_inv m \<longleftrightarrow> bt_wf (indices m) \<and> list_all (\<lambda>(b, index). file_inv b index) (indices m)"

lemma to_index_entry_key [simp]: "ie_key (to_index_entry u) = ue_ekey u"
  by (simp add: to_index_entry_def index_entry_new_def)

lemma search_both_eq:
  "keys_sorted (if_entries index) \<Longrightarrow>
   search_both_sections index k =
     (case section_search (if_updates index) k of
        Some u \<Rightarrow> visible u
      | None \<Rightarrow> keyed ie_key (if_entries index) k)"
  by (simp add: search_both_sections_def visible_def binary_search_keyed keys_sorted_def
           split: option.splits)

section \<open>The merge\<close>

lemma merge_split:
  assumes "keys_sorted es"
  shows "\<exists>mid. es = takeWhile (\<lambda>e. ie_key e < k) es @ mid
            @ (case dropWhile (\<lambda>e. ie_key e < k) es of [] \<Rightarrow> [] | e # es' \<Rightarrow> if ie_key e = k then es' else e # es')
          \<and> (\<forall>e\<in>set mid. ie_key e = k)
          \<and> (\<forall>e\<in>set (case dropWhile (\<lambda>e. ie_key e < k) es of [] \<Rightarrow> [] | e # es' \<Rightarrow> if ie_key e = k then es' else e # es').
               k < ie_key e)"
proof (cases "dropWhile (\<lambda>e. ie_key e < k) es")
  case Nil
  then show ?thesis
    by (metis append_Nil2 empty_iff list.set(1) list.simps(4) takeWhile_dropWhile_id)
next
  case (Cons e es')
  have es: "es = takeWhile (\<lambda>e. ie_key e < k) es @ e # es'"
    using takeWhile_dropWhile_id [of "\<lambda>e. ie_key e < k" es] Cons by simp
  then have "keys_sorted (takeWhile (\<lambda>e. ie_key e < k) es @ e # es')"
    using assms by simp
  then have later: "\<forall>x\<in>set es'. ie_key e < ie_key x"
    by (simp add: keys_sorted_def sorted_wrt_append)
  have "\<not> ie_key e < k"
    using hd_dropWhile [of "\<lambda>e. ie_key e < k" es] Cons by simp
  then show ?thesis
    using es later Cons
    by (intro exI [of _ "if ie_key e = k then [e] else []"]) auto
qed

lemma takeWhile_less: "\<forall>e\<in>set (takeWhile (\<lambda>e. ie_key e < k) es). ie_key e < k"
  by (auto dest: set_takeWhileD)

text \<open>The merged list is, as a map, the updates over the sorted entries.\<close>

definition keys_match :: "(ekey \<times> update_entry) list \<Rightarrow> bool" where
  "keys_match us \<longleftrightarrow> list_all (\<lambda>(k, u). ue_ekey u = k) us"

lemma keyed_notin [simp]: "k \<notin> ie_key ` set es \<Longrightarrow> keyed ie_key es k = None"
  by (simp add: keyed_None)

lemma merge_Cons:
  assumes "keys_sorted es"
  obtains before mid rest where "es = before @ mid @ rest" "keys_sorted before" "keys_sorted rest"
    "\<forall>e\<in>set before. ie_key e < c" "\<forall>e\<in>set mid. ie_key e = c" "\<forall>e\<in>set rest. c < ie_key e"
    "merge_updates ((c, u) # us) es =
       before @ (if ue_status u \<noteq> Delete then [to_index_entry u] else []) @ merge_updates us rest"
proof -
  define before where "before = takeWhile (\<lambda>e. ie_key e < c) es"
  define rest where "rest = (case dropWhile (\<lambda>e. ie_key e < c) es of [] \<Rightarrow> []
                               | e # es' \<Rightarrow> if ie_key e = c then es' else e # es')"
  obtain mid where es: "es = before @ mid @ rest"
    and mid: "\<forall>e\<in>set mid. ie_key e = c" and rest: "\<forall>e\<in>set rest. c < ie_key e"
    using merge_split [OF assms, of c] unfolding before_def rest_def by blast
  have "\<forall>e\<in>set before. ie_key e < c"
    unfolding before_def by (rule takeWhile_less)
  moreover have "keys_sorted before" "keys_sorted rest"
    using assms by (auto simp: es keys_sorted_def sorted_wrt_append)
  moreover have "merge_updates ((c, u) # us) es =
      before @ (if ue_status u \<noteq> Delete then [to_index_entry u] else []) @ merge_updates us rest"
    by (cases "dropWhile (\<lambda>e. ie_key e < c) es")
       (simp_all add: before_def rest_def Let_def del: dropWhile_eq_Nil_conv)
  ultimately show ?thesis
    using that es mid rest by blast
qed

lemma bt_wf_Cons: "bt_wf (p # us) \<longleftrightarrow> bt_wf us \<and> (\<forall>k\<in>fst ` set us. fst p < k)"
  by (auto simp: bt_wf_def)

lemma keys_match_Cons: "keys_match ((c, u) # us) \<longleftrightarrow> ue_ekey u = c \<and> keys_match us"
  by (simp add: keys_match_def)

lemma merge_keyed:
  assumes "keys_sorted es" "bt_wf us" "keys_match us"
  shows "keyed ie_key (merge_updates us es) k =
           (case map_of us k of Some u \<Rightarrow> visible u | None \<Rightarrow> keyed ie_key es k)"
  using assms
proof (induction us arbitrary: es)
  case (Cons p us)
  obtain c u where p: "p = (c, u)" by (cases p)
  have us: "bt_wf us" "keys_match us" "ue_ekey u = c" "\<forall>k\<in>fst ` set us. c < k"
    using Cons.prems by (auto simp: p bt_wf_Cons keys_match_Cons)
  obtain before mid rest where es: "es = before @ mid @ rest" and sorted: "keys_sorted rest"
    and parts: "\<forall>e\<in>set before. ie_key e < c" "\<forall>e\<in>set mid. ie_key e = c" "\<forall>e\<in>set rest. c < ie_key e"
    and merged: "merge_updates ((c, u) # us) es =
       before @ (if ue_status u \<noteq> Delete then [to_index_entry u] else []) @ merge_updates us rest"
    using Cons.prems(1) by (rule merge_Cons)
  have "c \<ge> k \<Longrightarrow> map_of us k = None" and "c \<ge> k \<Longrightarrow> keyed ie_key rest k = None"
    and "c \<le> k \<Longrightarrow> keyed ie_key before k = None" and "c \<noteq> k \<Longrightarrow> keyed ie_key mid k = None"
    using us(4) parts by (force simp: map_of_eq_None_iff keyed_None)+
  then show ?case
    unfolding p merged using Cons.IH [OF sorted us(1,2)]
    by (cases k c rule: linorder_cases)
       (auto simp: es keyed_append keyed_Cons us(3) visible_def split: option.split)
qed simp

lemma merge_set: "set (merge_updates us es) \<subseteq> set es \<union> to_index_entry ` snd ` set us"
proof (induction us arbitrary: es)
  case (Cons p us)
  obtain c u where p: "p = (c, u)" by (cases p)
  show ?case
    using Cons [of "dropWhile (\<lambda>e. ie_key e < c) es"] Cons [of "tl (dropWhile (\<lambda>e. ie_key e < c) es)"]
      set_dropWhileD [of _ "\<lambda>e. ie_key e < c" es]
    by (cases "dropWhile (\<lambda>e. ie_key e < c) es")
       (auto simp: p Let_def simp del: dropWhile_eq_Nil_conv dest: set_takeWhileD)
qed simp

lemma merge_sorted:
  assumes "keys_sorted es" "bt_wf us" "keys_match us"
  shows "keys_sorted (merge_updates us es)"
  using assms
proof (induction us arbitrary: es)
  case (Cons p us)
  obtain c u where p: "p = (c, u)" by (cases p)
  have us: "bt_wf us" "keys_match us" "ue_ekey u = c" "\<forall>k\<in>fst ` set us. c < k"
    using Cons.prems by (auto simp: p bt_wf_Cons keys_match_Cons)
  obtain before mid rest where sorted: "keys_sorted before" "keys_sorted rest"
    and parts: "\<forall>e\<in>set before. ie_key e < c" "\<forall>e\<in>set rest. c < ie_key e"
    and merged: "merge_updates ((c, u) # us) es =
       before @ (if ue_status u \<noteq> Delete then [to_index_entry u] else []) @ merge_updates us rest"
    using merge_Cons [OF Cons.prems(1), of c u us] by metis
  have "\<forall>e\<in>set (merge_updates us rest). c < ie_key e"
    using merge_set [of us rest] us(2,4) parts(2)
    by (fastforce simp: keys_match_def list_all_iff)
  then show ?case
    unfolding p merged using Cons.IH [OF sorted(2) us(1,2)] sorted(1) parts(1) us(3)
    by (auto simp: keys_sorted_def sorted_wrt_append intro: less_trans)
qed simp

section \<open>Flushing\<close>

lemma collect_updates_facts:
  "bt_wf (collect_updates s)" "keys_match (collect_updates s)"
  "map_of (collect_updates s) k = section_search s k"
  "snd ` set (collect_updates s) \<subseteq> set (all_entries s)"
  using bt_collect_set [of ue_ekey "\<lambda>e. e" "[]" "all_entries s"]
    upd_log.collect_search [of "\<lambda>e. e" s k]
  by (auto simp: collect_updates_def bt_collect_wf keys_match_def list_all_iff option.map_ident)

lemma flush_search:
  assumes "keys_sorted (if_entries index)"
  shows "search_both_sections (flush_index index) k = search_both_sections index k"
proof -
  have "keys_sorted (merge_updates (collect_updates (if_updates index)) (if_entries index))"
    by (rule merge_sorted [OF assms]) (rule collect_updates_facts)+
  then show ?thesis
    using assms
    by (simp add: search_both_eq flush_index_def merge_keyed collect_updates_facts)
qed

lemma storable_all: "section_inv s \<Longrightarrow> u \<in> set (all_entries s) \<Longrightarrow> storable u"
  by (auto simp: section_inv_def all_entries_def list_all_iff)

lemma flush_inv:
  assumes "file_inv b index"
  shows "file_inv b (flush_index index)"
proof -
  let ?us = "collect_updates (if_updates index)" and ?es = "if_entries index"
  have inv: "keys_sorted ?es" "section_inv (if_updates index)"
    using assms by (auto simp: file_inv_def)
  have "set (merge_updates ?us ?es) \<subseteq> set ?es \<union> to_index_entry ` set (all_entries (if_updates index))"
    using merge_set [of ?us ?es] collect_updates_facts(4) [of "if_updates index"] by blast
  moreover have "wf_index_entry (to_index_entry u)" if "u \<in> set (all_entries (if_updates index))" for u
    using storable_all [OF inv(2) that]
    by (simp add: wf_index_entry_def to_index_entry_def index_entry_new_def storable_def wf_update_entry_def
          wf_location_def)
  ultimately have "list_all (\<lambda>e. wf_index_entry e \<and> get_bucket_index (ie_key e) = b) (merge_updates ?us ?es)"
    using assms by (fastforce simp: file_inv_def list_all_iff)
  moreover have "keys_sorted (merge_updates ?us ?es)"
    by (rule merge_sorted [OF inv(1)]) (rule collect_updates_facts)+
  ultimately show ?thesis
    using assms
    by (simp add: file_inv_def flush_index_def section_inv_clear upd_log.log_clear)
qed

section \<open>Buckets\<close>

lemma truncate_key_take: "9 \<le> length key \<Longrightarrow> truncate_key key = take 9 key"
  by (simp add: truncate_key_def put_slice_def)

lemma bucket_take: "9 \<le> length key \<Longrightarrow> get_bucket_index (take 9 key) = get_bucket_index key"
  by (simp add: get_bucket_index_def)

lemma lookup_take: "9 \<le> length key \<Longrightarrow> lookup m (take 9 key) = lookup m key"
  by (simp add: lookup_def bucket_take truncate_key_take split: option.split)

lemma lookup_same_prefix:
  "9 \<le> length key \<Longrightarrow> 9 \<le> length key' \<Longrightarrow> take 9 key' = take 9 key \<Longrightarrow> lookup m key' = lookup m key"
  by (metis lookup_take)

definition set_bucket :: "byte \<Rightarrow> index_file \<Rightarrow> index_manager \<Rightarrow> index_manager" where
  "set_bucket b index m = m\<lparr>indices := bt_insert b index (indices m)\<rparr>"

lemma manager_inv_file: "manager_inv m \<Longrightarrow> map_of (indices m) b = Some index \<Longrightarrow> file_inv b index"
  by (auto simp: manager_inv_def list_all_iff dest!: map_of_SomeD)

lemma set_bucket_inv: "manager_inv m \<Longrightarrow> file_inv b index \<Longrightarrow> manager_inv (set_bucket b index m)"
  using bt_insert_set [of b index "indices m"]
  by (auto simp: manager_inv_def set_bucket_def bt_wf_insert list_all_iff)

lemma set_bucket_get:
  "manager_inv m \<Longrightarrow> map_of (indices (set_bucket b index m)) = (map_of (indices m))(b \<mapsto> index)"
  by (simp add: manager_inv_def set_bucket_def map_of_bt_insert)

lemma lookup_set_bucket:
  "manager_inv m \<Longrightarrow> lookup (set_bucket b index m) key =
     (if get_bucket_index key = b then search_both_sections index (truncate_key key) else lookup m key)"
  by (simp add: lookup_def set_bucket_get)

text \<open>One accepted append changes the map of the manager at one key.\<close>

lemma append_file_inv:
  assumes "file_inv b index" "storable u" "get_bucket_index (ue_ekey u) = b"
    and "section_append (if_updates index) u = (s', ok)"
  shows "file_inv b (index\<lparr>if_updates := s'\<rparr>)"
proof -
  have "list_all (\<lambda>u. get_bucket_index (ue_ekey u) = b) (all_entries s')"
    using assms upd_log.append_accepted [of "if_updates index" u s']
      upd_log.append_refused [of "if_updates index" u s']
    by (cases ok) (auto simp: file_inv_def)
  then show ?thesis
    using assms section_inv_append [OF _ assms(2,4)] by (simp add: file_inv_def)
qed

lemma append_lookup:
  assumes inv: "manager_inv m" and b: "get_bucket_index key = b" "length key \<ge> 9"
    and index: "map_of (indices m) b = Some index"
    and u: "ue_ekey u = take 9 key"
    and ok: "section_append (if_updates index) u = (s', True)"
    and key': "length key' \<ge> 9"
  shows "lookup (set_bucket b (index\<lparr>if_updates := s'\<rparr>) m) key' =
           (if take 9 key' = take 9 key then visible u else lookup m key')"
proof -
  have "keys_sorted (if_entries index)"
    using manager_inv_file [OF inv index] by (simp add: file_inv_def)
  then have "search_both_sections (index\<lparr>if_updates := s'\<rparr>) k =
      (if k = take 9 key then visible u else search_both_sections index k)" for k
    using upd_log.search_append [OF ok, of k] u by (auto simp: search_both_eq split: option.split)
  moreover have "take 9 key' = take 9 key \<Longrightarrow> get_bucket_index key' = b"
    using b key' by (metis bucket_take)
  ultimately show ?thesis
    using inv key' index
    by (auto simp: lookup_set_bucket truncate_key_take) (simp add: lookup_def truncate_key_take)
qed

section \<open>Removing\<close>

lemma lookup_SomeD:
  assumes "manager_inv m" "lookup m key = Some e" "9 \<le> length key"
  obtains index where "map_of (indices m) (get_bucket_index key) = Some index"
    "file_inv (get_bucket_index key) index" "wf_index_entry e" "ie_key e = take 9 key"
proof -
  obtain index where index: "map_of (indices m) (get_bucket_index key) = Some index"
    and e: "search_both_sections index (take 9 key) = Some e"
    using assms by (auto simp: lookup_def truncate_key_take split: option.splits)
  have inv: "file_inv (get_bucket_index key) index"
    using manager_inv_file [OF assms(1) index] .
  then have sorted: "keys_sorted (if_entries index)" by (simp add: file_inv_def)
  have "wf_index_entry e \<and> ie_key e = take 9 key"
  proof (cases "section_search (if_updates index) (take 9 key)")
    case None
    then show ?thesis
      using e inv keyed_SomeD [of ie_key "if_entries index" "take 9 key" e]
      by (auto simp: search_both_eq sorted file_inv_def list_all_iff)
  next
    case (Some u)
    then have "u \<in> set (all_entries (if_updates index))" "ue_ekey u = take 9 key"
      using keyed_SomeD by (fastforce simp: upd_log.search_keyed)+
    then show ?thesis
      using Some e inv storable_all [of "if_updates index" u]
      by (auto simp: search_both_eq sorted visible_def file_inv_def storable_def wf_update_entry_def
            wf_index_entry_def wf_location_def to_index_entry_def index_entry_new_def split: if_splits)
  qed
  with index inv that show ?thesis by blast
qed

definition room :: "index_manager \<Rightarrow> byte list \<Rightarrow> bool" where
  "room m key \<longleftrightarrow>
     (case map_of (indices m) (get_bucket_index key) of
        None \<Rightarrow> True
      | Some index \<Rightarrow> \<not> section_is_full (if_updates index))"

lemma remove_entry_cases:
  assumes inv: "manager_inv m" and key: "9 \<le> length key"
  obtains (absent) "lookup m key = None" "remove_entry m key = (m, False)"
  | (present) index e u s' ok where "lookup m key = Some e"
      "map_of (indices m) (get_bucket_index key) = Some index"
      "u = update_entry_new (take 9 key) (ie_location e) (ie_size e) Delete" "storable u"
      "section_append (if_updates index) u = (s', ok)" "ok = room m key"
      "remove_entry m key = (set_bucket (get_bucket_index key) (index\<lparr>if_updates := s'\<rparr>) m, True)"
proof (cases "lookup m key")
  case None
  then show ?thesis by (intro absent) (auto simp: remove_entry_def)
next
  case (Some e)
  obtain index where index: "map_of (indices m) (get_bucket_index key) = Some index"
    and finv: "file_inv (get_bucket_index key) index" and e: "wf_index_entry e" "ie_key e = take 9 key"
    using lookup_SomeD [OF inv Some key] by blast
  define u where "u = update_entry_new (take 9 key) (ie_location e) (ie_size e) Delete"
  obtain s' ok where app: "section_append (if_updates index) u = (s', ok)" by fastforce
  have "storable u"
    using e key unfolding u_def by (intro storable_new) (auto simp: wf_index_entry_def)
  moreover have "ok = room m key"
    using accepts_iff_not_full [of "if_updates index" u] finv index app
    by (simp add: room_def file_inv_def)
  moreover have "remove_entry m key = (set_bucket (get_bucket_index key) (index\<lparr>if_updates := s'\<rparr>) m, True)"
    using app by (simp add: remove_entry_def Some index Let_def truncate_key_take key u_def set_bucket_def)
  ultimately show ?thesis
    using present Some index app u_def by blast
qed

lemma remove_entry_effect:
  assumes inv: "manager_inv m" and len: "9 \<le> length key" "9 \<le> length key'" and rm: "remove_entry m key = (m', found)"
  shows "manager_inv m' \<and> (found \<longleftrightarrow> has_entry m key)
         \<and> lookup m' key' = (if room m key \<and> take 9 key' = take 9 key then None else lookup m key')
         \<and> (\<not> room m key \<longrightarrow> lookup m' = lookup m)"
proof (cases rule: remove_entry_cases [OF inv len(1), case_names absent present])
  case absent
  then show ?thesis using inv rm lookup_same_prefix [OF len] by (auto simp: has_entry_def)
next
  case (present index e u s' ok)
  let ?b = "get_bucket_index key"
  have m': "m' = set_bucket ?b (index\<lparr>if_updates := s'\<rparr>) m" and found: "found"
    using present(7) rm by auto
  have u: "ue_ekey u = take 9 key" "visible u = None"
    by (simp_all add: present(3) visible_def)
  have "file_inv ?b (index\<lparr>if_updates := s'\<rparr>)"
    using append_file_inv [OF manager_inv_file [OF inv present(2)] present(4) _ present(5)] bucket_take [OF len(1)] u by simp
  then have minv: "manager_inv m'"
    unfolding m' by (rule set_bucket_inv [OF inv])
  show ?thesis
  proof (cases "room m key")
    case True
    then have "section_append (if_updates index) u = (s', True)" using present(5,6) by simp
    then show ?thesis
      using append_lookup [OF inv refl len(1) present(2) u(1) _ len(2)] u(2) found present(1) minv True
      by (simp add: has_entry_def m')
  next
    case False
    then have "s' = if_updates index" using present(5,6) upd_log.append_refused by fastforce
    then have "lookup m' k = lookup m k" for k
      using present(2) by (simp add: m' lookup_set_bucket inv) (simp add: lookup_def)
    then show ?thesis using False found present(1) minv by (simp add: has_entry_def fun_eq_iff)
  qed
qed

text \<open>
  C23. With room in the bucket's update section, \<open>remove_entry\<close> reports whether the key was
  there and makes it absent, leaves every other key as it was, and keeps the manager
  well-formed.
\<close>

theorem remove_entry_removes:
  assumes "manager_inv m" "length key = 16" "room m key" "length key' = 16"
    and "remove_entry m key = (m', found)"
  shows "manager_inv m' \<and> (found \<longleftrightarrow> has_entry m key)
         \<and> lookup m' key' = (if take 9 key' = take 9 key then None else lookup m key')"
  using remove_entry_effect [OF assms(1) _ _ assms(5), of key'] assms(2,3,4) by simp

definition example_key :: "byte list" where
  "example_key = [1, 1, 0, 0, 0, 0, 0, 0, 0, 5, 5, 5, 5, 5, 5, 5]"

definition example_update :: update_entry where
  "example_update = update_entry_new (take 9 example_key) \<lparr>archive_id = 4, archive_offset = 100\<rparr> 64 Normal"

definition example_manager :: "nat \<Rightarrow> nat \<Rightarrow> index_manager" where
  "example_manager n k =
     \<lparr>indices = [(0, (new_index_file 0)
        \<lparr>if_updates := \<lparr>pages = replicate n (replicate k example_update), capacity_pages = 12\<rparr>\<rparr>)]\<rparr>"

lemma example_bucket: "get_bucket_index example_key = 0" "get_bucket_index (take 9 example_key) = 0"
  by (simp_all add: get_bucket_index_def example_key_def)

lemma example_update_facts [simp]:
  "ue_ekey example_update = take 9 example_key" "ue_status example_update = Normal"
  "storable example_update"
  by (simp_all add: example_update_def storable_new wf_location_def example_key_def)

lemma example_inv:
  assumes "n \<le> 12" "k \<le> 170" "0 < k" "n > 1 \<Longrightarrow> k = 170"
  shows "manager_inv (example_manager n k)"
proof -
  have "list_all (\<lambda>p. length p = 170) (butlast (replicate n (replicate k example_update)))"
    using assms(4) by (auto simp: list_all_iff butlast_conv_take)
  then show ?thesis
    using assms example_bucket
    by (auto simp: manager_inv_def example_manager_def bt_wf_def file_inv_def keys_sorted_def
          section_inv_def std_header_def new_index_file_def all_entries_def list_all_iff)
qed

lemma example_lookup:
  assumes "0 < n" "0 < k"
  shows "lookup (example_manager n k) example_key = Some (to_index_entry example_update)"
proof -
  have "find (\<lambda>e. ue_ekey e = take 9 example_key) (rev (replicate k example_update)) = Some example_update"
    using assms(2) unfolding rev_replicate by (cases k) auto
  then have "section_search \<lparr>pages = replicate n (replicate k example_update), capacity_pages = 12\<rparr>
          (take 9 example_key) = Some example_update"
    using assms(1) by (cases n) (simp_all add: section_search_def replicate_append_same)
  then show ?thesis
    using example_bucket
    by (simp add: lookup_def example_manager_def search_both_sections_def truncate_key_take example_key_def)
qed

theorem remove_entry_removes_witness:
  "manager_inv (example_manager 1 3) \<and> room (example_manager 1 3) example_key
   \<and> lookup (example_manager 1 3) example_key \<noteq> None
   \<and> lookup (fst (remove_entry (example_manager 1 3) example_key)) example_key = None"
proof -
  have "room (example_manager 1 3) example_key"
    using example_bucket
    by (simp add: room_def example_manager_def section_is_full_def)
  then show ?thesis
    using remove_entry_removes [of "example_manager 1 3" example_key example_key] example_inv [of 1 3]
      example_lookup [of 1 3]
    by (cases "remove_entry (example_manager 1 3) example_key") (simp add: example_key_def)
qed

text \<open>
  Once the bucket's update section is full, \<open>remove_entry\<close> still answers that the entry
  was removed, but the tombstone is dropped: every lookup, the removed key's included,
  gives what it gave before.
\<close>

theorem remove_entry_lost_when_full:
  assumes "manager_inv m" "length key = 16" "has_entry m key" "\<not> room m key"
  shows "snd (remove_entry m key) \<and> lookup (fst (remove_entry m key)) key' = lookup m key'
         \<and> lookup (fst (remove_entry m key)) key \<noteq> None"
proof -
  obtain m' found where rm: "remove_entry m key = (m', found)" by fastforce
  show ?thesis using remove_entry_effect [OF assms(1) _ _ rm, of key] assms(2-4) by (simp add: rm has_entry_def)
qed

theorem remove_entry_lost_when_full_witness:
  "\<not> room (example_manager 12 170) example_key
   \<and> snd (remove_entry (example_manager 12 170) example_key)
   \<and> lookup (fst (remove_entry (example_manager 12 170) example_key)) example_key \<noteq> None"
proof -
  have "\<not> room (example_manager 12 170) example_key"
    using example_bucket
    by (simp add: room_def example_manager_def section_is_full_def page_is_full_iff)
  then show ?thesis
    using remove_entry_lost_when_full [of "example_manager 12 170" example_key example_key]
      example_inv [of 12 170] example_lookup [of 12 170]
    by (simp add: has_entry_def example_key_def)
qed

section \<open>Iterating\<close>

lemma merged_view_wf: "bt_wf (merged_view index)"
  by (simp add: merged_view_def bt_collect_wf)

lemma merged_view_get:
  assumes "keys_sorted (if_entries index)"
  shows "map_of (merged_view index) k =
           (case section_search (if_updates index) k of
              Some u \<Rightarrow> Some (visible u)
            | None \<Rightarrow> map_option Some (keyed ie_key (if_entries index) k))"
proof -
  have "distinct (map ie_key (if_entries index))"
    using assms by (simp add: keys_sorted_def strict_sorted_iff)
  then show ?thesis
    by (simp add: merged_view_def bt_collect_keyed bt_collect_wf keyed_rev visible_def
          upd_log.search_keyed split: option.split)
qed

lemma merged_view_visible:
  assumes "keys_sorted (if_entries index)"
  shows "(k, Some e) \<in> set (merged_view index) \<longleftrightarrow> search_both_sections index k = Some e"
proof -
  have "(k, Some e) \<in> set (merged_view index) \<longleftrightarrow> map_of (merged_view index) k = Some (Some e)"
    by (metis bt_wf_distinct map_of_eq_Some_iff merged_view_wf)
  then show ?thesis
    by (auto simp: merged_view_get search_both_eq assms split: option.splits)
qed

lemma set_map_filter_snd: "set (List.map_filter snd m) = {e. \<exists>k. (k, Some e) \<in> set m}"
proof (induction m)
  case (Cons p m)
  then show ?case
    by (cases p; cases "snd p") (auto simp: map_filter_simps)
qed (simp add: map_filter_simps)

lemma search_both_key:
  assumes "file_inv b index" "search_both_sections index k = Some e"
  shows "ie_key e = k \<and> length k = 9 \<and> get_bucket_index k = b"
proof (cases "section_search (if_updates index) k")
  case None
  then show ?thesis
    using assms keyed_SomeD [of ie_key "if_entries index" k e]
    by (auto simp: search_both_eq file_inv_def list_all_iff wf_index_entry_def)
next
  case (Some u)
  then have "u \<in> set (all_entries (if_updates index))" "ue_ekey u = k"
    using keyed_SomeD by (fastforce simp: upd_log.search_keyed)+
  then show ?thesis
    using Some assms storable_all [of "if_updates index" u]
    by (auto simp: search_both_eq visible_def file_inv_def list_all_iff storable_def wf_update_entry_def
             split: if_splits)
qed

lemma lookup_key9: "length k = 9 \<Longrightarrow> map_of (indices m) (get_bucket_index k) = Some index \<Longrightarrow>
    lookup m k = search_both_sections index k"
  by (simp add: lookup_def truncate_key_take)

lemma iter_entries_mem:
  assumes inv: "manager_inv m"
  shows "(b, e) \<in> set (iter_entries m) \<longleftrightarrow>
           length (ie_key e) = 9 \<and> b = get_bucket_index (ie_key e) \<and> lookup m (ie_key e) = Some e"
proof
  assume "(b, e) \<in> set (iter_entries m)"
  then obtain index k where index: "(b, index) \<in> set (indices m)" and k: "(k, Some e) \<in> set (merged_view index)"
    by (auto simp: iter_entries_def set_map_filter_snd)
  from index have get: "map_of (indices m) b = Some index"
    using inv by (simp add: manager_inv_def bt_wf_distinct)
  have "file_inv b index"
    using manager_inv_file [OF inv get] .
  then show "length (ie_key e) = 9 \<and> b = get_bucket_index (ie_key e) \<and> lookup m (ie_key e) = Some e"
    using k get search_both_key [of b index k e] lookup_key9 [of k m index]
    by (simp add: merged_view_visible file_inv_def)
next
  assume e: "length (ie_key e) = 9 \<and> b = get_bucket_index (ie_key e) \<and> lookup m (ie_key e) = Some e"
  then obtain index where get: "map_of (indices m) b = Some index" and "file_inv b index"
    using lookup_SomeD [OF inv, of "ie_key e" e] by auto
  moreover from this have "search_both_sections index (ie_key e) = Some e"
    using e lookup_key9 [of "ie_key e" m index] by simp
  then have "(ie_key e, Some e) \<in> set (merged_view index)"
    using \<open>file_inv b index\<close> by (simp add: merged_view_visible file_inv_def)
  ultimately show "(b, e) \<in> set (iter_entries m)"
    using map_of_SomeD [OF get] by (force simp: iter_entries_def set_map_filter_snd)
qed

lemma map_filter_keys:
  "(\<And>k e. (k, Some e) \<in> set m \<Longrightarrow> f e = k) \<Longrightarrow> map f (List.map_filter snd m) = map fst (filter (\<lambda>(k, v). v \<noteq> None) m)"
proof (induction m)
  case (Cons p m)
  obtain k v where p: "p = (k, v)" by (cases p)
  have "map f (List.map_filter snd m) = map fst (filter (\<lambda>(k, v). v \<noteq> None) m)"
    using Cons.prems by (intro Cons.IH) simp
  then show ?case
    using Cons.prems [of k] by (cases v) (simp_all add: p map_filter_simps)
qed (simp add: map_filter_simps)

lemma bucket_keys:
  assumes "file_inv b index"
  shows "distinct (map ie_key (List.map_filter snd (merged_view index)))"
    and "e \<in> set (List.map_filter snd (merged_view index)) \<Longrightarrow> get_bucket_index (ie_key e) = b"
proof -
  have sorted: "keys_sorted (if_entries index)"
    using assms by (simp add: file_inv_def)
  have key: "ie_key e = k \<and> get_bucket_index k = b" if "(k, Some e) \<in> set (merged_view index)" for k e
    using that search_both_key [OF assms] by (auto simp: merged_view_visible sorted)
  then have "map ie_key (List.map_filter snd (merged_view index)) =
      map fst (filter (\<lambda>(k, v). v \<noteq> None) (merged_view index))"
    by (intro map_filter_keys) blast
  then show "distinct (map ie_key (List.map_filter snd (merged_view index)))"
    using bt_wf_distinct [OF merged_view_wf, of index] by (simp add: distinct_map_filter)
  show "get_bucket_index (ie_key e) = b" if "e \<in> set (List.map_filter snd (merged_view index))"
    using that key by (auto simp: set_map_filter_snd)
qed

lemma iter_entries_distinct:
  assumes "bt_wf ms" "list_all (\<lambda>(b, index). file_inv b index) ms"
  shows "distinct (map (\<lambda>(b, e). ie_key e) (iter_entries \<lparr>indices = ms\<rparr>))"
  using assms
proof (induction ms)
  case (Cons p ms)
  obtain b index where p: "p = (b, index)" by (cases p)
  let ?own = "List.map_filter snd (merged_view index)"
  have own: "distinct (map ie_key ?own)" "\<forall>e\<in>set ?own. get_bucket_index (ie_key e) = b"
    using Cons.prems bucket_keys [of b index] by (auto simp: p)
  have other: "get_bucket_index (ie_key e) \<noteq> b" if "(c, e) \<in> set (iter_entries \<lparr>indices = ms\<rparr>)" for c e
  proof -
    from that obtain index' where i: "(c, index') \<in> set ms" "e \<in> set (List.map_filter snd (merged_view index'))"
      by (auto simp: iter_entries_def)
    then have "b < c"
      using Cons.prems(1) by (force simp: p bt_wf_Cons)
    then show ?thesis
      using i Cons.prems(2) bucket_keys(2) [of c index' e] by (auto simp: list_all_iff)
  qed
  have "distinct (map (\<lambda>(b, e). ie_key e) (iter_entries \<lparr>indices = ms\<rparr>))"
    using Cons by (simp add: bt_wf_Cons)
  moreover have "iter_entries \<lparr>indices = p # ms\<rparr> = map (\<lambda>e. (b, e)) ?own @ iter_entries \<lparr>indices = ms\<rparr>"
    by (simp add: iter_entries_def p)
  ultimately show ?case
    using own other by (fastforce simp: comp_def)
qed (simp add: iter_entries_def)

text \<open>
  C24. \<open>iter_entries\<close> yields exactly the visible entries: an entry is yielded for a bucket if
  and only if the bucket is the key's own and looking the key up gives this entry, and no key
  is yielded twice; so \<open>entry_count\<close> counts the keys that can be looked up.
\<close>

theorem iter_entries_lists_lookup:
  assumes "manager_inv m"
  shows "((b, e) \<in> set (iter_entries m) \<longleftrightarrow>
            length (ie_key e) = 9 \<and> b = get_bucket_index (ie_key e) \<and> lookup m (ie_key e) = Some e)
         \<and> distinct (map (\<lambda>(b, e). ie_key e) (iter_entries m))
         \<and> manager_entry_count m = card {k. length k = 9 \<and> lookup m k \<noteq> None}"
proof -
  let ?keys = "map (\<lambda>(b, e). ie_key e) (iter_entries m)"
  have distinct: "distinct ?keys"
    using assms iter_entries_distinct [of "indices m"]
    by (cases m) (simp add: manager_inv_def iter_entries_def)
  have "set ?keys = {k. length k = 9 \<and> lookup m k \<noteq> None}"
  proof (intro equalityI subsetI)
    fix k
    assume "k \<in> {k. length k = 9 \<and> lookup m k \<noteq> None}"
    then obtain e where e: "length k = 9" "lookup m k = Some e" by auto
    then have "ie_key e = k"
      using lookup_SomeD [OF assms, of k e] by auto
    then have "(get_bucket_index k, e) \<in> set (iter_entries m)"
      using e by (simp add: iter_entries_mem [OF assms])
    with \<open>ie_key e = k\<close> show "k \<in> set ?keys" by force
  qed (auto simp: iter_entries_mem [OF assms])
  then have "manager_entry_count m = card {k. length k = 9 \<and> lookup m k \<noteq> None}"
    using distinct_card [OF distinct] by (simp add: manager_entry_count_def)
  with distinct show ?thesis
    by (simp add: iter_entries_mem [OF assms])
qed

theorem iter_entries_lists_lookup_witness:
  "manager_inv (example_manager 1 3)
   \<and> (0, to_index_entry example_update) \<in> set (iter_entries (example_manager 1 3))"
  using iter_entries_lists_lookup [of "example_manager 1 3" 0 "to_index_entry example_update"]
    example_inv [of 1 3] example_lookup [of 1 3] example_bucket
    lookup_take [of example_key "example_manager 1 3"]
  by (simp add: example_key_def)

end
