(* ===== verification/Index_Disk.thy ===== *)
theory Index_Disk
  imports Index_Props
begin

text \<open>
  Index files on disk, from \<open>cascette-client-storage/src/index/mod.rs\<close>: the byte image of a
  bucket, its atomic replacement through a temporary file with three attempts, the flush and
  the insertion that write it, and the loaders of the current (V7) and the old (V5) format.
  Which file operations succeed at which attempt is the argument \<open>io\<close>.
\<close>

section \<open>Model: the file image\<close>

record guarded_block_header =
  block_size :: u32
  block_hash :: u32

definition guarded_to_bytes :: "guarded_block_header \<Rightarrow> byte list" where
  "guarded_to_bytes g = to_le 4 (block_size g) @ to_le 4 (block_hash g)"

definition guarded_from_bytes :: "byte list \<Rightarrow> guarded_block_header" where
  "guarded_from_bytes data = \<lparr>block_size = from_le (slice 0 4 data), block_hash = from_le (slice 4 8 data)\<rparr>"

record index_header_v2 =
  h2_version :: u16
  h2_bucket :: byte
  h2_extra_bytes :: byte
  h2_encoded_size_length :: byte
  h2_storage_offset_length :: byte
  h2_ekey_length :: byte
  h2_file_offset_bits :: byte
  h2_segment_size :: u64

definition header_v2_to_bytes :: "index_header_v2 \<Rightarrow> byte list" where
  "header_v2_to_bytes h =
     to_le 2 (h2_version h)
     @ [h2_bucket h, h2_extra_bytes h, h2_encoded_size_length h, h2_storage_offset_length h,
        h2_ekey_length h, h2_file_offset_bits h]
     @ to_le 8 (h2_segment_size h)"

definition header_v2_from_bytes :: "byte list \<Rightarrow> index_header_v2" where
  "header_v2_from_bytes data =
     \<lparr>h2_version = from_le (slice 0 2 data), h2_bucket = data ! 2, h2_extra_bytes = data ! 3,
      h2_encoded_size_length = data ! 4, h2_storage_offset_length = data ! 5,
      h2_ekey_length = data ! 6, h2_file_offset_bits = data ! 7,
      h2_segment_size = from_le (slice 8 16 data)\<rparr>"

text \<open>Checked arithmetic: the \<open>u8\<close> sum of the field widths and the \<open>u64\<close> segment size.\<close>

definition add_u8 :: "byte \<Rightarrow> byte \<Rightarrow> byte option" where
  "add_u8 a b = (if unat a + unat b < 256 then Some (a + b) else None)"

definition header_entry_size :: "index_header \<Rightarrow> nat option" where
  "header_entry_size h = do {
     n \<leftarrow> add_u8 (key_size h) (location_size h);
     n \<leftarrow> add_u8 n (length_size h);
     Some (unat n)
   }"

definition total_segment_size :: "byte \<Rightarrow> u64 option" where
  "total_segment_size bits =
     (if bits < 64 then
        let seg = push_bit (unat bits) 1 :: u64 in
        if unat seg * 256 < 2 ^ 64 then Some (seg * 256) else None
      else None)"

function chunks_of :: "nat \<Rightarrow> 'a list \<Rightarrow> 'a list list" where
  "chunks_of w xs = (if w = 0 \<or> xs = [] then [] else take w xs # chunks_of w (drop w xs))"
  by pat_completeness auto
termination
  by (relation "measure (\<lambda>(_, xs). length xs)") auto

definition entries_hash :: "nat \<Rightarrow> byte list \<Rightarrow> u32" where
  "entries_hash entry_size entry_data =
     fst (foldl (\<lambda>(pc, pb) chunk. hashlittle2 chunk pc pb) (0, 0) (chunks_of entry_size entry_data))"

text \<open>\<open>(x + a - 1) & !(a - 1)\<close> for a power of two \<open>a\<close>.\<close>

definition align_up :: "nat \<Rightarrow> nat \<Rightarrow> nat" where
  "align_up a x = (x + a - 1) div a * a"

definition write_index_to_file ::
  "guarded_block_header \<Rightarrow> byte list \<Rightarrow> guarded_block_header \<Rightarrow> byte list \<Rightarrow> nat \<Rightarrow> byte list option \<Rightarrow> byte list" where
  "write_index_to_file header_block header_data entry_block entry_data sorted_end update_data =
     (let written = guarded_to_bytes header_block @ header_data @ replicate 8 0
                    @ guarded_to_bytes entry_block @ entry_data;
          written = (case update_data of
                       None \<Rightarrow> written
                     | Some update_bytes \<Rightarrow>
                         written @ replicate (align_up 0x1000 sorted_end - sorted_end) 0 @ update_bytes)
      in written @ replicate (align_up 0x10000 (length written) - length written) 0)"

definition save_image :: "byte \<Rightarrow> index_file \<Rightarrow> (index_error + byte list) option" where
  "save_image bucket index = do {
     entry_size \<leftarrow> header_entry_size (if_header index);
     segment \<leftarrow> total_segment_size (segment_bits (if_header index));
     let h = if_header index;
     let header_bytes = header_v2_to_bytes
           \<lparr>h2_version = 7, h2_bucket = bucket, h2_extra_bytes = 0,
            h2_encoded_size_length = length_size h, h2_storage_offset_length = location_size h,
            h2_ekey_length = key_size h, h2_file_offset_bits = segment_bits h, h2_segment_size = segment\<rparr>;
     let entry_data = concat (map to_packed (if_entries index));
     if entry_size = 0 then None
     else if length entry_data \<ge> 2 ^ 32 then Some (Inl EntryBlockTooLarge)
     else do {
       let header_block = \<lparr>block_size = word_of_nat (length header_bytes), block_hash = hashlittle header_bytes 0\<rparr>;
       let entry_block = \<lparr>block_size = word_of_nat (length entry_data), block_hash = entries_hash entry_size entry_data\<rparr>;
       update_data \<leftarrow> (if entry_count (if_updates index) > 0
                      then map_option Some (section_to_bytes (if_updates index)) else Some None);
       let sorted_end = 8 + length header_bytes + 8 + 8 + length entry_data;
       Some (Inr (write_index_to_file header_block header_bytes entry_block entry_data sorted_end update_data))
     }
   }"

section \<open>Model: names and saving\<close>

definition index_stem :: "byte \<Rightarrow> u32 \<Rightarrow> string" where
  "index_stem bucket version = hex_lower [bucket] @ hex_lower (to_be 4 version)"

definition generate_index_filename :: "byte \<Rightarrow> u32 \<Rightarrow> string" where
  "generate_index_filename bucket version = index_stem bucket version @ ''.idx''"

text \<open>
  The extension of a fourteen-byte name is \<open>idx\<close> if the eleventh byte is the dot and the three
  after it spell it, in either case.
\<close>

definition parse_index_filename :: "string \<Rightarrow> (byte \<times> u32) option option" where
  "parse_index_filename name =
     (if length name \<noteq> 14 \<or> name ! 10 \<noteq> CHR ''.'' \<or> map ascii_lower (drop 11 name) \<noteq> ''idx''
      then Some None
      else do {
        b \<leftarrow> str_slice 0 2 name;
        (case from_str_radix16 256 b of
           None \<Rightarrow> Some None
         | Some bucket \<Rightarrow> do {
             v \<leftarrow> str_slice 2 10 name;
             Some (case from_str_radix16 (2 ^ 32) v of
                     None \<Rightarrow> None
                   | Some version \<Rightarrow> Some (word_of_nat bucket, word_of_nat version))
           })
      })"

record save_io =
  sv_write_ok :: "nat \<Rightarrow> bool"
  sv_partial :: "nat \<Rightarrow> byte list option"
  sv_rename_ok :: "nat \<Rightarrow> bool"
  sv_remove_ok :: "nat \<Rightarrow> bool"

text \<open>
  One temporary file, written, renamed over the target, removed again after a failure. A
  failed write may leave any part of a file behind.
\<close>

fun save_attempts ::
  "save_io \<Rightarrow> byte list \<Rightarrow> os_name \<Rightarrow> os_name \<Rightarrow> nat list \<Rightarrow> directory \<Rightarrow> (index_error + unit) \<times> directory" where
  "save_attempts io data tmp path [] dir = (Inl SaveFailed, dir)"
| "save_attempts io data tmp path (i # is) dir =
     (if sv_write_ok io i \<and> sv_rename_ok io i
      then (Inr (), AList.delete tmp (AList.update path data dir))
      else let dir1 = (if sv_write_ok io i then AList.update tmp data dir
                       else case sv_partial io i of None \<Rightarrow> dir | Some junk \<Rightarrow> AList.update tmp junk dir);
               dir2 = (if sv_remove_ok io i then AList.delete tmp dir1 else dir1)
           in save_attempts io data tmp path is dir2)"

definition save_index ::
  "save_io \<Rightarrow> byte \<Rightarrow> index_file \<Rightarrow> u32 \<Rightarrow> directory \<Rightarrow> ((index_error + unit) \<times> directory) option" where
  "save_index io bucket index version dir = do {
     image \<leftarrow> save_image bucket index;
     Some (case image of
             Inl e \<Rightarrow> (Inl e, dir)
           | Inr data \<Rightarrow> save_attempts io data (Utf8 (index_stem bucket version @ ''.tmp''))
                           (Utf8 (generate_index_filename bucket version)) [0, 1, 2] dir)
   }"

definition flush_updates_for_bucket ::
  "save_io \<Rightarrow> byte \<Rightarrow> index_manager \<Rightarrow> directory \<Rightarrow> ((index_error + unit) \<times> index_manager \<times> directory) option" where
  "flush_updates_for_bucket io bucket m dir =
     (case map_of (indices m) bucket of
        None \<Rightarrow> Some (Inr (), m, dir)
      | Some index \<Rightarrow>
          if entry_count (if_updates index) = 0 then Some (Inr (), m, dir)
          else do {
            let index' = flush_index index;
            let m' = m\<lparr>indices := bt_insert bucket index' (indices m)\<rparr>;
            (r, dir') \<leftarrow> save_index io bucket index' 1 dir;
            Some (r, m', dir')
          })"

fun flush_buckets ::
  "(byte \<Rightarrow> save_io) \<Rightarrow> byte list \<Rightarrow> index_manager \<Rightarrow> directory \<Rightarrow> ((index_error + unit) \<times> index_manager \<times> directory) option" where
  "flush_buckets io [] m dir = Some (Inr (), m, dir)"
| "flush_buckets io (b # bs) m dir = do {
     (r, m', dir') \<leftarrow> flush_updates_for_bucket (io b) b m dir;
     (case r of Inl e \<Rightarrow> Some (Inl e, m', dir') | Inr _ \<Rightarrow> flush_buckets io bs m' dir')
   }"

definition flush_all_updates ::
  "(byte \<Rightarrow> save_io) \<Rightarrow> index_manager \<Rightarrow> directory \<Rightarrow> ((index_error + unit) \<times> index_manager \<times> directory) option" where
  "flush_all_updates io m dir = flush_buckets io (map fst (indices m)) m dir"

fun save_buckets ::
  "(byte \<Rightarrow> save_io) \<Rightarrow> (byte \<times> index_file) list \<Rightarrow> directory \<Rightarrow> ((index_error + unit) \<times> directory) option" where
  "save_buckets io [] dir = Some (Inr (), dir)"
| "save_buckets io ((b, index) # rest) dir = do {
     (r, dir') \<leftarrow> save_index (io b) b index 1 dir;
     (case r of Inl e \<Rightarrow> Some (Inl e, dir') | Inr _ \<Rightarrow> save_buckets io rest dir')
   }"

definition save_all ::
  "(byte \<Rightarrow> save_io) \<Rightarrow> index_manager \<Rightarrow> directory \<Rightarrow> ((index_error + unit) \<times> directory) option" where
  "save_all io m dir = save_buckets io (indices m) dir"

definition add_entry ::
  "save_io \<Rightarrow> byte list \<Rightarrow> u16 \<Rightarrow> u32 \<Rightarrow> u32 \<Rightarrow> index_manager \<Rightarrow> directory
   \<Rightarrow> ((index_error + unit) \<times> index_manager \<times> directory) option" where
  "add_entry io key a off sz m dir =
     (let index_id = get_bucket_index key;
          entry = update_entry_new (truncate_key key) \<lparr>archive_id = a, archive_offset = off\<rparr> sz Normal;
          index = (case map_of (indices m) index_id of None \<Rightarrow> new_index_file index_id | Some f \<Rightarrow> f);
          m1 = m\<lparr>indices := bt_insert index_id index (indices m)\<rparr>;
          (s', ok) = section_append (if_updates index) entry in
      if ok
      then Some (Inr (), m1\<lparr>indices := bt_insert index_id (index\<lparr>if_updates := s'\<rparr>) (indices m1)\<rparr>, dir)
      else do {
        (r, m2, dir2) \<leftarrow> flush_updates_for_bucket io index_id m1 dir;
        (case r of
           Inl e \<Rightarrow> Some (Inl e, m2, dir2)
         | Inr _ \<Rightarrow> do {
             index2 \<leftarrow> map_of (indices m2) index_id;
             let (s2, ok2) = section_append (if_updates index2) entry;
             Some (if ok2 then Inr () else Inl UpdateSectionFull,
                   m2\<lparr>indices := bt_insert index_id (index2\<lparr>if_updates := s2\<rparr>) (indices m2)\<rparr>, dir2)
           })
      })"

section \<open>Model: loading the current format\<close>

definition read_index_header :: "byte list \<Rightarrow> (index_error + index_header \<times> nat) option" where
  "read_index_header data =
     (if length data < 24 then Some (Inl UnexpectedEof)
      else let header_block = guarded_from_bytes (slice 0 8 data);
               h = header_v2_from_bytes (slice 8 24 data) in
           if h2_ekey_length h \<noteq> 9 \<and> h2_ekey_length h \<noteq> 16
           then Some (Inl (InvalidKeySize (h2_ekey_length h)))
           else let header = \<lparr>data_size = block_size header_block, data_hash = block_hash header_block,
                              ih_version = h2_version h, ih_bucket = h2_bucket h,
                              ih_unused = h2_extra_bytes h, length_size = h2_encoded_size_length h,
                              location_size = h2_storage_offset_length h, key_size = h2_ekey_length h,
                              segment_bits = h2_file_offset_bits h\<rparr>
                in do { entry_size \<leftarrow> header_entry_size header; Some (Inr (header, entry_size)) })"

text \<open>What follows the header: eight bytes skipped, a guarded block header, the entry data.\<close>

definition read_entry_block :: "byte list \<Rightarrow> index_error + byte list" where
  "read_entry_block data =
     (if length data < 16 then Inl UnexpectedEof
      else let entry_block = guarded_from_bytes (slice 8 16 data);
               n = unat (block_size entry_block) in
           if length data < 16 + n then Inl UnexpectedEof else Inr (slice 16 (16 + n) data))"

text \<open>
  The loop over the entries: zero keys are skipped, and so are entries that do not parse. The
  slice \<open>entry_bytes[..9]\<close> panics when an entry is shorter than that.
\<close>

function parse_entries :: "nat \<Rightarrow> byte list \<Rightarrow> index_entry list option" where
  "parse_entries entry_size data =
     (if length data < entry_size then Some []
      else if entry_size < 9 then None
      else do {
        rest \<leftarrow> parse_entries entry_size (drop entry_size data);
        let entry_bytes = take entry_size data;
        Some ((if list_ex (\<lambda>b. b \<noteq> 0) (take 9 entry_bytes)
               then (case from_packed entry_bytes of Inl _ \<Rightarrow> [] | Inr entry \<Rightarrow> [entry])
               else []) @ rest)
      })"
  by pat_completeness auto
termination
  by (relation "measure (\<lambda>(_, data). length data)") auto

definition decode_index :: "byte list \<Rightarrow> (index_error + index_file) option" where
  "decode_index data = do {
     hdr \<leftarrow> read_index_header data;
     (case hdr of
        Inl e \<Rightarrow> Some (Inl e)
      | Inr (header, entry_size) \<Rightarrow>
          (case read_entry_block (drop 24 data) of
             Inl e \<Rightarrow> Some (Inl e)
           | Inr entry_data \<Rightarrow> do {
               entries \<leftarrow> parse_entries entry_size entry_data;
               let sorted_end = 8 + 16 + 8 + 8 + length entry_data;
               let update_start = align_up 0x1000 sorted_end;
               let updates = (if update_start < length data
                              then section_from_bytes (drop update_start data) else section_new);
               Some (Inr \<lparr>if_version = V7, if_header = header, if_entries = sort_key ie_key entries,
                          if_updates = updates\<rparr>)
             }))
   }"

section \<open>Model: loading the old format\<close>

record index_header_v5 =
  v5_version :: u16
  v5_bucket_index :: byte
  v5_padding :: byte
  v5_field_4 :: u32
  v5_field_8 :: u64
  v5_segment_size :: u64
  v5_encoded_size_length :: byte
  v5_storage_offset_length :: byte
  v5_ekey_length :: byte
  v5_file_offset_bits :: byte
  v5_ekey_count1 :: u32
  v5_ekey_count2 :: u32
  v5_keys_hash1 :: u32
  v5_keys_hash2 :: u32
  v5_header_hash :: u32

definition V5_HEADER_SIZE :: nat where "V5_HEADER_SIZE = 48"
definition V5_ENTRY_SIZE :: nat where "V5_ENTRY_SIZE = 18"

definition v5_fields :: "byte list \<Rightarrow> index_header_v5" where
  "v5_fields data =
     \<lparr>v5_version = from_le (slice 0 2 data), v5_bucket_index = data ! 2, v5_padding = data ! 3,
      v5_field_4 = from_le (slice 4 8 data), v5_field_8 = from_le (slice 8 16 data),
      v5_segment_size = from_le (slice 16 24 data), v5_encoded_size_length = data ! 0x18,
      v5_storage_offset_length = data ! 0x19, v5_ekey_length = data ! 0x1A,
      v5_file_offset_bits = data ! 0x1B, v5_ekey_count1 = from_le (slice 0x1C 0x20 data),
      v5_ekey_count2 = from_le (slice 0x20 0x24 data), v5_keys_hash1 = from_le (slice 0x24 0x28 data),
      v5_keys_hash2 = from_le (slice 0x28 0x2C data), v5_header_hash = from_le (slice 0x2C 0x30 data)\<rparr>"

definition read_v5_index_header :: "byte list \<Rightarrow> index_error + index_header_v5" where
  "read_v5_index_header data =
     (if length data < V5_HEADER_SIZE then Inl HeaderTooSmall
      else let header_bytes = take V5_HEADER_SIZE data; h = v5_fields header_bytes in
           if v5_version h \<noteq> 5 then Inl (VersionMismatch (v5_version h))
           else if v5_field_8 h = 0 then Inl FieldEightZero
           else if v5_encoded_size_length h \<noteq> 4 then Inl (BadFieldLength (v5_encoded_size_length h))
           else if v5_storage_offset_length h \<noteq> 5 then Inl (BadFieldLength (v5_storage_offset_length h))
           else if v5_ekey_length h \<noteq> 9 then Inl (BadFieldLength (v5_ekey_length h))
           else if hashlittle (put_slice 0x2C [0, 0, 0, 0] header_bytes) 0 \<noteq> v5_header_hash h
           then Inl HeaderHashMismatch
           else Inr h)"

definition v5_block_entries :: "byte list \<Rightarrow> index_entry list" where
  "v5_block_entries block_data =
     map index_entry_read
       (filter (\<lambda>e. list_ex (\<lambda>b. b \<noteq> 0) (take 9 e))
         (filter (\<lambda>e. length e = V5_ENTRY_SIZE) (chunks_of V5_ENTRY_SIZE block_data)))"

definition load_v5_entries :: "byte list \<Rightarrow> index_header_v5 \<Rightarrow> (index_error + index_entry list) option" where
  "load_v5_entries data h =
     (let block1_size = unat (v5_ekey_count1 h) * V5_ENTRY_SIZE;
          block2_size = unat (v5_ekey_count2 h) * V5_ENTRY_SIZE;
          block1_start = V5_HEADER_SIZE;
          block2_start = block1_start + block1_size;
          total_needed = block2_start + block2_size in
      if length data < total_needed then Some (Inl DataTooSmall)
      else let block1_data = slice block1_start (block1_start + block1_size) data;
               block2_data = slice block2_start (block2_start + block2_size) data in
           if hashlittle block1_data 0 \<noteq> v5_keys_hash1 h then Some (Inl (BlockHashMismatch 1))
           else if hashlittle block2_data 0 \<noteq> v5_keys_hash2 h then Some (Inl (BlockHashMismatch 2))
           else if unat (v5_ekey_count1 h) + unat (v5_ekey_count2 h) \<ge> 2 ^ 32 then None
           else Some (Inr (v5_block_entries block1_data @ v5_block_entries block2_data)))"

definition decode_v5_index :: "byte list \<Rightarrow> (index_error + index_file) option" where
  "decode_v5_index data =
     (case read_v5_index_header data of
        Inl e \<Rightarrow> Some (Inl e)
      | Inr h \<Rightarrow> do {
          r \<leftarrow> load_v5_entries data h;
          Some (case r of
                  Inl e \<Rightarrow> Inl e
                | Inr entries \<Rightarrow>
                    Inr \<lparr>if_version = V5,
                         if_header = \<lparr>data_size = 0, data_hash = 0, ih_version = 5,
                                      ih_bucket = v5_bucket_index h, ih_unused = 0,
                                      length_size = v5_encoded_size_length h,
                                      location_size = v5_storage_offset_length h,
                                      key_size = v5_ekey_length h, segment_bits = v5_file_offset_bits h\<rparr>,
                         if_entries = sort_key ie_key entries, if_updates = section_new\<rparr>)
        })"

definition parse_v5_index_filename :: "string \<Rightarrow> (byte \<times> byte) option option" where
  "parse_v5_index_filename filename =
     (if take 6 filename \<noteq> ''data.i'' then Some None
      else let name = drop 6 filename in
           if length name \<noteq> 2 then Some None
           else do {
             b \<leftarrow> str_slice 0 1 name;
             (case from_str_radix16 256 b of
                None \<Rightarrow> Some None
              | Some bucket \<Rightarrow> do {
                  v \<leftarrow> str_slice 1 2 name;
                  Some (case from_str_radix16 256 v of
                          None \<Rightarrow> None
                        | Some version \<Rightarrow>
                            if bucket > 0x0F then None else Some (word_of_nat bucket, word_of_nat version))
                })
           })"

section \<open>Model: loading a directory\<close>

text \<open>\<open>load_index\<close> and \<open>load_v5_index\<close>: open, decode, replace the bucket.\<close>

definition load_file ::
  "(byte list \<Rightarrow> (index_error + index_file) option) \<Rightarrow> byte \<Rightarrow> byte list option \<Rightarrow> index_manager
   \<Rightarrow> ((index_error + unit) \<times> index_manager) option" where
  "load_file decode bucket contents m =
     (case contents of
        None \<Rightarrow> Some (Inl (CannotOpen ''index''), m)
      | Some data \<Rightarrow> do {
          r \<leftarrow> decode data;
          Some (case r of
                  Inl e \<Rightarrow> (Inl e, m)
                | Inr index \<Rightarrow> (Inr (), m\<lparr>indices := bt_insert bucket index (indices m)\<rparr>))
        })"

definition load_index :: "byte \<Rightarrow> byte list option \<Rightarrow> index_manager \<Rightarrow> ((index_error + unit) \<times> index_manager) option" where
  "load_index = load_file decode_index"

definition load_v5_index :: "byte \<Rightarrow> byte list option \<Rightarrow> index_manager \<Rightarrow> ((index_error + unit) \<times> index_manager) option" where
  "load_v5_index = load_file decode_v5_index"

text \<open>
  \<open>load_all\<close>: the entries in the order \<open>read_dir\<close> gives them; \<open>open_ok\<close> says which can be read.
\<close>

fun load_entries ::
  "(string \<Rightarrow> bool) \<Rightarrow> directory \<Rightarrow> index_manager \<Rightarrow> ((index_error + unit) \<times> index_manager) option" where
  "load_entries open_ok [] m = Some (Inr (), m)"
| "load_entries open_ok ((NonUtf8 _, _) # dir) m = load_entries open_ok dir m"
| "load_entries open_ok ((Utf8 name, data) # dir) m = do {
     let contents = (if open_ok name then Some data else None);
     v7 \<leftarrow> parse_index_filename name;
     (r, m') \<leftarrow> (case v7 of
                   Some (bucket, _) \<Rightarrow> load_index bucket contents m
                 | None \<Rightarrow> do {
                     v5 \<leftarrow> parse_v5_index_filename name;
                     (case v5 of
                        Some (bucket, _) \<Rightarrow> load_v5_index bucket contents m
                      | None \<Rightarrow> Some (Inr (), m))
                   });
     (case r of Inl e \<Rightarrow> Some (Inl e, m') | Inr _ \<Rightarrow> load_entries open_ok dir m')
   }"

definition load_all ::
  "bool \<Rightarrow> (string \<Rightarrow> bool) \<Rightarrow> directory \<Rightarrow> index_manager \<Rightarrow> ((index_error + unit) \<times> index_manager) option" where
  "load_all read_dir_ok open_ok dir m =
     (if read_dir_ok then load_entries open_ok dir m else Some (Inl CannotReadDirectory, m))"

end
