(* ===== verification/Index_Disk_Props.thy ===== *)
theory Index_Disk_Props
  imports Index_Disk
begin

text \<open>
  Correctness of the index files: saving never panics on a well-formed bucket and replaces
  the file atomically, a flush and an insertion keep and extend the map of the manager, and a
  file that was saved loads back to the same map.
\<close>

section \<open>Images\<close>

declare chunks_of.simps [simp del] parse_entries.simps [simp del]

lemma std_entry_size: "std_header h \<Longrightarrow> header_entry_size h = Some 18"
  by (simp add: std_header_def header_entry_size_def add_u8_def)

lemma unat_two_pow: "n < 64 \<Longrightarrow> unat (2 ^ n :: u64) = 2 ^ n"
proof -
  assume "n < 64"
  then have "(2 :: nat) ^ n < 2 ^ 64" by (intro power_strict_increasing) auto
  moreover have "unat (2 ^ n :: u64) = unat (word_of_nat (2 ^ n) :: u64)" by simp
  ultimately show ?thesis
    by (simp only: unat_of_nat) simp
qed

lemma segment_size_ok: "bits < 56 \<Longrightarrow> \<exists>seg. total_segment_size bits = Some seg"
proof -
  assume b: "bits < 56"
  then have n: "unat bits < 56" by (simp add: word_less_nat_alt)
  then have "unat (2 ^ unat bits :: u64) * 256 = 2 ^ (unat bits + 8)"
    by (simp add: unat_two_pow power_add)
  also have "\<dots> < 2 ^ 64"
    using n by (intro power_strict_increasing) auto
  finally show ?thesis
    using b by (auto simp: total_segment_size_def Let_def word_less_nat_alt)
qed

lemma length_header_v2 [simp]: "length (header_v2_to_bytes h) = 16"
  by (simp add: header_v2_to_bytes_def)

lemma length_guarded [simp]: "length (guarded_to_bytes g) = 8"
  by (simp add: guarded_to_bytes_def)

lemma header_v2_round_trip [simp]: "header_v2_from_bytes (header_v2_to_bytes h) = h"
  by (simp add: header_v2_from_bytes_def header_v2_to_bytes_def slice_def nth_append)

lemma guarded_round_trip [simp]: "guarded_from_bytes (guarded_to_bytes g) = g"
  by (simp add: guarded_from_bytes_def guarded_to_bytes_def slice_def)

text \<open>The bytes after the entry data: the update section behind its padding, if there is one.\<close>

definition update_tail :: "index_file \<Rightarrow> nat \<Rightarrow> byte list" where
  "update_tail index sorted_end =
     (if entry_count (if_updates index) > 0
      then replicate (align_up 0x1000 sorted_end - sorted_end) 0 @ section_image (if_updates index)
      else [])"

lemma save_image_eq:
  assumes "file_inv b index"
  obtains (too_large) "18 * length (if_entries index) \<ge> 2 ^ 32"
      "save_image b index = Some (Inl EntryBlockTooLarge)"
  | (image) h g n eh where "18 * length (if_entries index) < 2 ^ 32"
      "h2_ekey_length h = 9" "h2_storage_offset_length h = 5" "h2_encoded_size_length h = 4"
      "h2_file_offset_bits h = segment_bits (if_header index)"
      "save_image b index = Some (Inr
         (guarded_to_bytes g @ header_v2_to_bytes h @ replicate 8 0
          @ guarded_to_bytes \<lparr>block_size = word_of_nat (18 * length (if_entries index)), block_hash = eh\<rparr>
          @ concat (map to_packed (if_entries index))
          @ update_tail index (40 + 18 * length (if_entries index)) @ replicate n 0))"
proof -
  let ?es = "if_entries index"
  have std: "std_header (if_header index)" and sec: "section_inv (if_updates index)"
    and wf: "list_all wf_index_entry ?es"
    using assms by (auto simp: file_inv_def list_all_iff)
  have len: "length (concat (map to_packed ?es)) = 18 * length ?es"
    by (rule packed_entry.length_table [OF wf])
  obtain seg where seg: "total_segment_size (segment_bits (if_header index)) = Some seg"
    using segment_size_ok std by (auto simp: std_header_def)
  have h: "key_size (if_header index) = 9" "location_size (if_header index) = 5" "length_size (if_header index) = 4"
    using std by (auto simp: std_header_def)
  let ?stop = "40 + 18 * length ?es"
  let ?total = "?stop + length (update_tail index ?stop)"
  show thesis
  proof (cases "18 * length ?es < 2 ^ 32")
    case True
    then show thesis
      using std_entry_size [OF std] seg section_to_bytes_eq [OF sec] h
      by (intro image [where n = "align_up 0x10000 ?total - ?total"])
         (auto simp: save_image_def Let_def len write_index_to_file_def update_tail_def algebra_simps)
  next
    case False
    then show thesis
      using std_entry_size [OF std] seg
      by (intro too_large) (auto simp: save_image_def Let_def len)
  qed
qed

section \<open>Loading what was saved\<close>

lemma list_ex_nonzero: "list_ex (\<lambda>b. b \<noteq> 0) k \<longleftrightarrow> k \<noteq> replicate (length k) (0 :: byte)"
  by (induction k) auto

lemma nonzero_key: "length k = 9 \<Longrightarrow> list_ex (\<lambda>b. b \<noteq> 0) k \<longleftrightarrow> k \<noteq> replicate 9 (0 :: byte)"
  using list_ex_nonzero [of k] by simp

lemma parse_entries_packed:
  "list_all (\<lambda>e. wf_index_entry e \<and> ie_key e \<noteq> replicate 9 0) es \<Longrightarrow>
   parse_entries 18 (concat (map to_packed es)) = Some es"
proof (induction es)
  case Nil
  then show ?case by (simp add: parse_entries.simps)
next
  case (Cons e es)
  then have wf: "wf_index_entry e" "ie_key e \<noteq> replicate 9 0" by auto
  have len: "length (to_packed e) = 18"
    by (rule packed_entry.length_enc [OF wf(1)])
  have "take 9 (to_packed e) = ie_key e"
    using packed_entry.dec_enc [OF wf(1)] by (metis index_entry.select_convs(1) index_entry_read_def slice_0)
  then have "list_ex (\<lambda>b. b \<noteq> 0) (take 9 (to_packed e))"
    using wf nonzero_key [of "ie_key e"] by (simp add: wf_index_entry_def)
  then show ?case
    using Cons len from_packed_to_packed [OF wf]
    by (subst parse_entries.simps) (simp add: Let_def)
qed

lemma align_up_ge:
  assumes "0 < a"
  shows "x \<le> align_up a x"
proof -
  have "(x + a - 1) div a * a + (x + a - 1) mod a = x + a - 1" by simp
  moreover have "(x + a - 1) mod a < a" using assms by simp
  ultimately show ?thesis
    using assms unfolding align_up_def by linarith
qed

lemma no_pages: "section_inv s \<Longrightarrow> entry_count s = 0 \<Longrightarrow> pages s = []"
  by (cases "pages s") (auto simp: section_inv_def entry_count_def)

lemma read_header_image:
  assumes "h2_ekey_length h = 9" "h2_storage_offset_length h = 5" "h2_encoded_size_length h = 4"
  shows "\<exists>header. read_index_header (guarded_to_bytes g @ header_v2_to_bytes h @ rest) = Some (Inr (header, 18))
           \<and> key_size header = 9 \<and> location_size header = 5 \<and> length_size header = 4
           \<and> segment_bits header = h2_file_offset_bits h"
  using assms
  by (simp add: read_index_header_def slice_def Let_def header_entry_size_def add_u8_def)

lemma read_block_image:
  assumes "length data < 2 ^ 32"
  shows "read_entry_block (replicate 8 0 @ guarded_to_bytes \<lparr>block_size = word_of_nat (length data), block_hash = eh\<rparr>
           @ data @ rest) = Inr data"
proof -
  have "unat (word_of_nat (length data) :: u32) = length data"
    using assms by (simp add: unat_of_nat)
  then show ?thesis
    by (simp add: read_entry_block_def slice_def Let_def)
qed

lemma section_from_zeros: "section_from_bytes (replicate n 0) = \<lparr>pages = [], capacity_pages = max (n div 4096) 12\<rparr>"
  by (simp add: section_from_bytes_def read_pages_zeros update_sizes)

lemma load_update_tail:
  fixes index :: index_file and pre :: "byte list" and e n :: nat
  assumes sec: "section_inv (if_updates index)" and pre: "length pre = e"
  defines "data \<equiv> pre @ update_tail index e @ replicate n 0"
  defines "updates \<equiv> if align_up 0x1000 e < length data
             then section_from_bytes (drop (align_up 0x1000 e) data) else section_new"
  shows "pages updates = pages (if_updates index) \<and> section_inv updates"
proof (cases "entry_count (if_updates index) > 0")
  case True
  have "e \<le> align_up 0x1000 e" by (rule align_up_ge) simp
  then have "drop (align_up 0x1000 e) data = section_image (if_updates index) @ replicate n 0"
    using True pre by (simp add: data_def update_tail_def)
  moreover have "align_up 0x1000 e < length data"
    using True pre length_section_image [OF sec] sec \<open>e \<le> align_up 0x1000 e\<close>
    by (simp add: data_def update_tail_def section_inv_def)
  ultimately have "updates = \<lparr>pages = pages (if_updates index),
      capacity_pages = capacity_pages (if_updates index) + n div 4096\<rparr>"
    by (simp add: updates_def section_from_image [OF sec])
  with sec show ?thesis
    by (simp add: section_inv_def)
next
  case False
  then have none: "pages (if_updates index) = []"
    using no_pages [OF sec] by simp
  have "e \<le> align_up 0x1000 e" by (rule align_up_ge) simp
  then have "drop (align_up 0x1000 e) data = replicate (n - (align_up 0x1000 e - e)) 0"
    using False pre by (simp add: data_def update_tail_def)
  then show ?thesis
    by (simp add: updates_def none section_from_zeros section_inv_def section_new_def update_sizes)
qed

lemma decode_saved:
  assumes inv: "file_inv b index"
    and keys: "list_all (\<lambda>e. ie_key e \<noteq> replicate 9 0) (if_entries index)"
    and saved: "save_image b index = Some (Inr data)"
  shows "\<exists>index'. decode_index data = Some (Inr index') \<and> file_inv b index'
           \<and> if_entries index' = if_entries index \<and> pages (if_updates index') = pages (if_updates index)"
  using inv
proof (cases rule: save_image_eq)
  case too_large
  then show ?thesis using saved by simp
next
  case (image h g n eh)
  let ?es = "if_entries index"
  let ?e = "concat (map to_packed ?es)" and ?stop = "40 + 18 * length ?es"
  let ?pre = "guarded_to_bytes g @ header_v2_to_bytes h @ replicate 8 0
          @ guarded_to_bytes \<lparr>block_size = word_of_nat (18 * length ?es), block_hash = eh\<rparr> @ ?e"
  have wf: "list_all wf_index_entry ?es" and sec: "section_inv (if_updates index)"
    using inv by (auto simp: file_inv_def list_all_iff)
  have len: "length ?e = 18 * length ?es"
    by (rule packed_entry.length_table [OF wf])
  have data: "data = ?pre @ update_tail index ?stop @ replicate n 0"
    using saved image(6) by simp
  obtain header where header: "read_index_header data = Some (Inr (header, 18))"
    and h: "std_header header"
    using read_header_image [OF image(2-4), of g] inv image(5) data
    by (fastforce simp: std_header_def file_inv_def)
  have block: "read_entry_block (drop 24 data) = Inr ?e"
    using read_block_image [of ?e eh] image(1) by (simp add: data len)
  have parsed: "parse_entries 18 ?e = Some ?es"
    using parse_entries_packed wf keys by (simp add: list_all_iff)
  have sorted: "sort_key ie_key ?es = ?es"
    using inv by (intro sort_key_id_if_sorted) (auto simp: file_inv_def keys_sorted_def strict_sorted_iff)
  have pre: "length ?pre = ?stop"
    by (simp add: len)
  define updates where "updates = (if align_up 0x1000 ?stop < length data
             then section_from_bytes (drop (align_up 0x1000 ?stop) data) else section_new)"
  have upd: "pages updates = pages (if_updates index)" "section_inv updates"
    using load_update_tail [OF sec pre, of n, folded data] unfolding updates_def by blast+
  have "decode_index data = Some (Inr \<lparr>if_version = V7, if_header = header, if_entries = ?es, if_updates = updates\<rparr>)"
    by (simp add: decode_index_def header block parsed sorted Let_def len updates_def)
  then show ?thesis
    using inv h upd by (simp add: file_inv_def all_entries_def)
qed

section \<open>Atomic replacement\<close>

definition can_save :: "save_io \<Rightarrow> bool" where
  "can_save io \<longleftrightarrow> list_ex (\<lambda>i. sv_write_ok io i \<and> sv_rename_ok io i) [0, 1, 2]"

lemma save_attempts_dir:
  assumes "tmp \<noteq> path" "save_attempts io data tmp path is dir = (r, dir')"
  shows "map_of dir' path = (if r = Inr () then Some data else map_of dir path)
         \<and> (\<forall>name. name \<noteq> tmp \<and> name \<noteq> path \<longrightarrow> map_of dir' name = map_of dir name)
         \<and> (r = Inr () \<longleftrightarrow> list_ex (\<lambda>i. sv_write_ok io i \<and> sv_rename_ok io i) is)"
  using assms(2)
proof (induction "is" arbitrary: dir)
  case (Cons i "is")
  show ?case
  proof (cases "sv_write_ok io i \<and> sv_rename_ok io i")
    case True
    then show ?thesis
      using Cons.prems assms(1) by (auto simp: delete_conv' update_conv')
  next
    case False
    define dir2 where "dir2 = (let dir1 = (if sv_write_ok io i then AList.update tmp data dir
                       else case sv_partial io i of None \<Rightarrow> dir | Some junk \<Rightarrow> AList.update tmp junk dir)
           in if sv_remove_ok io i then AList.delete tmp dir1 else dir1)"
    have "save_attempts io data tmp path is dir2 = (r, dir')"
      using Cons.prems False by (simp add: dir2_def Let_def)
    moreover have "map_of dir2 name = map_of dir name" if "name \<noteq> tmp" for name
      using that by (auto simp: dir2_def Let_def delete_conv' update_conv' split: option.split)
    ultimately show ?thesis
      using Cons.IH [of dir2] assms(1) False by auto
  qed
qed auto

lemma tmp_not_idx: "Utf8 (index_stem b v @ ''.tmp'') \<noteq> Utf8 (generate_index_filename b v)"
  by (simp add: generate_index_filename_def)

lemma save_index_facts:
  assumes "file_inv b index"
  shows "\<exists>r dir'. save_index io b index v dir = Some (r, dir')
    \<and> (r = Inr () \<longleftrightarrow> can_save io \<and> 18 * length (if_entries index) < 2 ^ 32)
    \<and> (let path = Utf8 (generate_index_filename b v) in
       if r = Inr () then \<exists>data. save_image b index = Some (Inr data) \<and> map_of dir' path = Some data
       else map_of dir' path = map_of dir path)
    \<and> (\<forall>name. name \<noteq> Utf8 (index_stem b v @ ''.tmp'') \<and> name \<noteq> Utf8 (generate_index_filename b v)
         \<longrightarrow> map_of dir' name = map_of dir name)"
  using assms
proof (cases rule: save_image_eq)
  case too_large
  then show ?thesis by (simp add: save_index_def)
next
  case (image h g n eh)
  obtain data where data: "save_image b index = Some (Inr data)" using image by blast
  obtain r dir' where rd: "save_attempts io data (Utf8 (index_stem b v @ ''.tmp''))
      (Utf8 (generate_index_filename b v)) [0, 1, 2] dir = (r, dir')" by fastforce
  have "save_index io b index v dir = Some (r, dir')"
    unfolding save_index_def data using rd by (simp del: One_nat_def save_attempts.simps)
  then show ?thesis
    using save_attempts_dir [OF tmp_not_idx rd] image(1) unfolding can_save_def Let_def data
    by (intro exI [of _ r] exI [of _ dir']) simp
qed

lemma save_index_total:
  assumes "file_inv b index"
  shows "\<exists>r dir'. save_index io b index v dir = Some (r, dir')
           \<and> (r = Inr () \<longleftrightarrow> can_save io \<and> 18 * length (if_entries index) < 2 ^ 32)"
  using save_index_facts [OF assms, of io v dir] by blast

text \<open>
  C7. Saving a bucket is atomic: for every pattern of failing writes, renames and removals the
  call returns, and the index file afterwards holds either exactly the new image, when the call
  reports success, or exactly what it held before, when it reports an error; no other file
  but the temporary one changes. It succeeds if and only if one of the three attempts can be
  written and renamed and the entry block fits its 32-bit size field.
\<close>

theorem save_index_atomic:
  assumes "file_inv b index"
  shows "\<exists>r dir'. save_index io b index v dir = Some (r, dir')
    \<and> (r = Inr () \<longleftrightarrow> can_save io \<and> 18 * length (if_entries index) < 2 ^ 32)
    \<and> (let path = Utf8 (generate_index_filename b v) in
       if r = Inr () then \<exists>data. save_image b index = Some (Inr data) \<and> map_of dir' path = Some data
       else map_of dir' path = map_of dir path)
    \<and> (\<forall>name. name \<noteq> Utf8 (index_stem b v @ ''.tmp'') \<and> name \<noteq> Utf8 (generate_index_filename b v)
         \<longrightarrow> map_of dir' name = map_of dir name)"
  using assms by (rule save_index_facts)

definition example_save_io :: save_io where
  "example_save_io = \<lparr>sv_write_ok = \<lambda>i. 0 < i, sv_partial = \<lambda>i. Some [1, 2], sv_rename_ok = \<lambda>i. i = 2,
                      sv_remove_ok = \<lambda>i. True\<rparr>"

theorem save_index_atomic_witness:
  "file_inv 3 (new_index_file 3)
   \<and> (\<exists>dir'. save_index example_save_io 3 (new_index_file 3) 1 [] = Some (Inr (), dir'))"
  using save_index_atomic [of 3 "new_index_file 3" example_save_io 1 "[]"]
  by (auto simp: can_save_def example_save_io_def new_index_file_def file_inv_def keys_sorted_def
        all_entries_def section_new_def section_inv_def update_sizes std_header_def)

section \<open>Flushing and inserting\<close>

lemma flush_facts:
  assumes inv: "manager_inv m"
  shows "\<exists>r m' dir'. flush_updates_for_bucket io b m dir = Some (r, m', dir')
    \<and> manager_inv m' \<and> (\<forall>key. lookup m' key = lookup m key)
    \<and> (map_of (indices m') b = None \<longleftrightarrow> map_of (indices m) b = None)
    \<and> (\<forall>index'. map_of (indices m') b = Some index' \<longrightarrow>
         pages (if_updates index') = []
         \<and> (r \<noteq> Inr () \<longrightarrow> \<not> can_save io \<or> 18 * length (if_entries index') \<ge> 2 ^ 32))"
proof (cases "map_of (indices m) b")
  case None
  then show ?thesis
    using inv by (simp add: flush_updates_for_bucket_def)
next
  case (Some index)
  have finv: "file_inv b index" by (rule manager_inv_file [OF inv Some])
  show ?thesis
  proof (cases "entry_count (if_updates index) = 0")
    case True
    then have "pages (if_updates index) = []"
      using finv no_pages by (auto simp: file_inv_def)
    then show ?thesis
      using inv Some True by (simp add: flush_updates_for_bucket_def)
  next
    case False
    let ?f = "flush_index index" and ?m = "set_bucket b (flush_index index) m"
    have finv': "file_inv b ?f" by (rule flush_inv [OF finv])
    obtain r dir' where save: "save_index io b ?f 1 dir = Some (r, dir')"
      and r: "r = Inr () \<longleftrightarrow> can_save io \<and> 18 * length (if_entries ?f) < 2 ^ 32"
      using save_index_total [OF finv'] by blast
    have "flush_updates_for_bucket io b m dir = Some (r, ?m, dir')"
      using Some False save by (simp add: flush_updates_for_bucket_def set_bucket_def)
    moreover have "lookup ?m key = lookup m key" for key
      using finv Some by (simp add: lookup_def set_bucket_get [OF inv] flush_search file_inv_def)
    moreover have "map_of (indices ?m) b = Some ?f"
      by (simp add: set_bucket_get [OF inv])
    moreover have "pages (if_updates ?f) = []"
      by (simp add: flush_index_def section_clear_def)
    moreover have "manager_inv ?m"
      by (rule set_bucket_inv [OF inv finv'])
    ultimately show ?thesis
      using Some r by fastforce
  qed
qed

text \<open>
  C9. Flushing a bucket changes no lookup: whether the file can be written or not, the call
  returns, every key gives what it gave before, the merged bucket is sorted and well-formed
  and its update section is empty.
\<close>

theorem flush_preserves_lookup:
  assumes "manager_inv m"
  shows "\<exists>r m' dir'. flush_updates_for_bucket io b m dir = Some (r, m', dir')
           \<and> manager_inv m' \<and> (\<forall>key. lookup m' key = lookup m key)
           \<and> (\<forall>index'. map_of (indices m') b = Some index' \<longrightarrow> pages (if_updates index') = [])"
  using flush_facts [OF assms, of io b dir] by blast

theorem flush_preserves_lookup_witness:
  "manager_inv (example_manager 1 3)
   \<and> (\<exists>r m' dir'. flush_updates_for_bucket example_save_io 0 (example_manager 1 3) [] = Some (r, m', dir')
        \<and> lookup m' example_key = Some (to_index_entry example_update))"
  using flush_preserves_lookup [of "example_manager 1 3" example_save_io 0 "[]"]
    example_inv [of 1 3] example_lookup [of 1 3] by fastforce

lemma file_inv_new: "file_inv b (new_index_file b)"
  by (simp add: new_index_file_def file_inv_def keys_sorted_def all_entries_def section_new_def
        section_inv_def update_sizes std_header_def)

lemma ensure_bucket:
  assumes inv: "manager_inv m"
    and index: "index = (case map_of (indices m) b of None \<Rightarrow> new_index_file b | Some f \<Rightarrow> f)"
  shows "file_inv b index \<and> manager_inv (set_bucket b index m)
         \<and> map_of (indices (set_bucket b index m)) b = Some index
         \<and> lookup (set_bucket b index m) key = lookup m key"
proof -
  have f: "file_inv b index"
    using index manager_inv_file [OF inv] file_inv_new by (auto split: option.splits)
  have "search_both_sections (new_index_file b) k = None" for k
    by (simp add: search_both_eq keys_sorted_def new_index_file_def section_search_def section_new_def)
  then have "lookup (set_bucket b index m) key = lookup m key"
    using index by (auto simp: lookup_def set_bucket_get [OF inv] split: option.splits)
  then show ?thesis
    using f set_bucket_inv [OF inv f] set_bucket_get [OF inv] by simp
qed

lemma append_no_pages: "section_inv s \<Longrightarrow> pages s = [] \<Longrightarrow> snd (section_append s u)"
  by (auto simp: section_append_def section_inv_def)

text \<open>One accepted append, as a step of the manager.\<close>

lemma append_step:
  assumes inv: "manager_inv m" and len: "9 \<le> length key" "9 \<le> length key'"
    and index: "map_of (indices m) (get_bucket_index key) = Some index"
    and u: "storable u" "ue_ekey u = take 9 key"
    and ok: "section_append (if_updates index) u = (s', True)"
  defines "m' \<equiv> set_bucket (get_bucket_index key) (index\<lparr>if_updates := s'\<rparr>) m"
  shows "manager_inv m' \<and> lookup m' key' = (if take 9 key' = take 9 key then visible u else lookup m key')"
proof -
  have "file_inv (get_bucket_index key) (index\<lparr>if_updates := s'\<rparr>)"
    using append_file_inv [OF manager_inv_file [OF inv index] u(1) _ ok] u(2) bucket_take [OF len(1)]
    by simp
  then have "manager_inv m'"
    unfolding m'_def by (rule set_bucket_inv [OF inv])
  then show ?thesis
    using append_lookup [OF inv refl len(1) index u(2) ok len(2)] by (simp add: m'_def)
qed

definition bucket_or_new :: "index_manager \<Rightarrow> byte \<Rightarrow> index_file" where
  "bucket_or_new m b = (case map_of (indices m) b of None \<Rightarrow> new_index_file b | Some f \<Rightarrow> f)"

definition retry_append ::
  "save_io \<Rightarrow> byte \<Rightarrow> update_entry \<Rightarrow> index_manager \<Rightarrow> directory \<Rightarrow> ((index_error + unit) \<times> index_manager \<times> directory) option" where
  "retry_append io b u m dir = do {
     (r, m2, dir2) \<leftarrow> flush_updates_for_bucket io b m dir;
     (case r of
        Inl e \<Rightarrow> Some (Inl e, m2, dir2)
      | Inr _ \<Rightarrow> do {
          index2 \<leftarrow> map_of (indices m2) b;
          let (s2, ok2) = section_append (if_updates index2) u;
          Some (if ok2 then Inr () else Inl UpdateSectionFull, set_bucket b (index2\<lparr>if_updates := s2\<rparr>) m2, dir2)
        })
   }"

lemma add_entry_eq:
  assumes len: "9 \<le> length key"
    and u: "u = update_entry_new (take 9 key) \<lparr>archive_id = a, archive_offset = off\<rparr> sz Normal"
    and b: "b = get_bucket_index key" and index: "index = bucket_or_new m b"
    and app: "section_append (if_updates index) u = (s', ok)"
  shows "add_entry io key a off sz m dir =
    (if ok then Some (Inr (), set_bucket b (index\<lparr>if_updates := s'\<rparr>) (set_bucket b index m), dir)
     else retry_append io b u (set_bucket b index m) dir)"
  unfolding add_entry_def retry_append_def Let_def truncate_key_take [OF len] b [symmetric] u [symmetric]
    bucket_or_new_def [symmetric] index [symmetric] set_bucket_def [symmetric] app
  by simp

text \<open>What an insertion may do: fail only if it cannot save, else set one key.\<close>

definition add_result ::
  "save_io \<Rightarrow> byte list \<Rightarrow> index_entry \<Rightarrow> index_manager \<Rightarrow> byte list \<Rightarrow> (index_error + unit) \<Rightarrow> index_manager \<Rightarrow> bool" where
  "add_result io key e m key' r m' \<longleftrightarrow> manager_inv m'
     \<and> (r \<noteq> Inr () \<longrightarrow> \<not> can_save io \<or> (\<exists>index'.
          map_of (indices m') (get_bucket_index key) = Some index' \<and> 18 * length (if_entries index') \<ge> 2 ^ 32))
     \<and> lookup m' key' = (if r = Inr () \<and> take 9 key' = take 9 key then Some e else lookup m key')"

lemma retry_append_spec:
  assumes inv: "manager_inv m" and len: "9 \<le> length key" "9 \<le> length key'"
    and present: "map_of (indices m) (get_bucket_index key) \<noteq> None"
    and u: "storable u" "ue_ekey u = take 9 key" "visible u = Some e"
  shows "\<exists>r m' dir'. retry_append io (get_bucket_index key) u m dir = Some (r, m', dir') \<and> add_result io key e m key' r m'"
proof -
  let ?b = "get_bucket_index key"
  obtain r m2 dir2 where fl: "flush_updates_for_bucket io ?b m dir = Some (r, m2, dir2)"
    and m2: "manager_inv m2" "\<forall>key. lookup m2 key = lookup m key" "map_of (indices m2) ?b \<noteq> None"
    and upd: "\<forall>index'. map_of (indices m2) ?b = Some index' \<longrightarrow> pages (if_updates index') = []
       \<and> (r \<noteq> Inr () \<longrightarrow> \<not> can_save io \<or> 18 * length (if_entries index') \<ge> 2 ^ 32)"
    using flush_facts [OF inv, of io ?b dir] present by auto
  obtain index2 where index2: "map_of (indices m2) ?b = Some index2" using m2(3) by auto
  show ?thesis
  proof (cases r)
    case (Inl e)
    then show ?thesis
      using fl m2 upd index2 by (simp add: retry_append_def add_result_def)
  next
    case (Inr x)
    have "section_inv (if_updates index2)"
      using manager_inv_file [OF m2(1) index2] by (simp add: file_inv_def)
    then obtain s2 where app2: "section_append (if_updates index2) u = (s2, True)"
      using append_no_pages [of "if_updates index2" u] upd index2
      by (cases "section_append (if_updates index2) u") auto
    then show ?thesis
      using fl Inr index2 append_step [OF m2(1) len index2 u(1,2) app2] u(3) m2(2)
      by (simp add: retry_append_def add_result_def)
  qed
qed

lemma add_entry_spec:
  fixes sz :: u32
  assumes inv: "manager_inv m" and len: "9 \<le> length key" "9 \<le> length key'"
    and loc: "wf_location \<lparr>archive_id = a, archive_offset = off\<rparr>"
  defines "e \<equiv> index_entry_new (take 9 key) a off sz"
  shows "\<exists>r m' dir'. add_entry io key a off sz m dir = Some (r, m', dir')
    \<and> (room m key \<longrightarrow> r = Inr ()) \<and> add_result io key e m key' r m'"
proof -
  define b where "b = get_bucket_index key"
  define u where "u = update_entry_new (take 9 key) \<lparr>archive_id = a, archive_offset = off\<rparr> sz Normal"
  define index where "index = bucket_or_new m b"
  have u: "storable u" "ue_ekey u = take 9 key" "visible u = Some e"
    using loc len by (simp_all add: u_def e_def storable_new visible_def to_index_entry_def)
  have m1: "file_inv b index" "manager_inv (set_bucket b index m)"
    "map_of (indices (set_bucket b index m)) b = Some index" "lookup (set_bucket b index m) key' = lookup m key'"
    using ensure_bucket [OF inv index_def [unfolded bucket_or_new_def], of key'] by simp_all
  obtain s' ok where app: "section_append (if_updates index) u = (s', ok)" by fastforce
  note add = add_entry_eq [OF len(1) u_def b_def index_def app]
  show ?thesis
  proof (cases ok)
    case True
    then show ?thesis
      using append_step [OF m1(2) len _ u(1,2), of index s'] app u(3) m1(3,4)
      by (simp add: add b_def add_result_def)
  next
    case False
    then have full: "\<not> room m key"
      using accepts_iff_not_full [of "if_updates index" u] m1(1) app
      by (auto simp: room_def index_def b_def bucket_or_new_def file_inv_def new_index_file_def
            section_is_full_def section_new_def split: option.splits)
    have "map_of (indices (set_bucket b index m)) (get_bucket_index key) \<noteq> None"
      using m1(3) by (simp add: b_def)
    then show ?thesis
      using False full m1(4) retry_append_spec [OF m1(2) len _ u, of io dir]
      by (auto simp: add b_def add_result_def)
  qed
qed

text \<open>
  C8. Adding an entry, in memory or through a flush, never panics. When it reports success the
  key gives the new entry and every other key what it gave before; when it reports an error no
  key has changed, and then the update section was full and the merged bucket could not be
  saved. With room in the update section it always succeeds.
\<close>

theorem add_entry_updates_lookup:
  assumes "manager_inv m" "length key = 16" "length key' = 16" "a < 1024" "off < 0x40000000"
  shows "\<exists>r m' dir'. add_entry io key a off sz m dir = Some (r, m', dir') \<and> manager_inv m'
    \<and> (room m key \<longrightarrow> r = Inr ())
    \<and> (r \<noteq> Inr () \<longrightarrow> \<not> can_save io \<or> (\<exists>index'.
         map_of (indices m') (get_bucket_index key) = Some index' \<and> 18 * length (if_entries index') \<ge> 2 ^ 32))
    \<and> lookup m' key' =
        (if r = Inr () \<and> take 9 key' = take 9 key then Some (index_entry_new (take 9 key) a off sz)
         else lookup m key')"
  using add_entry_spec [of m key key' a off io sz dir] assms
  by (auto simp: wf_location_def add_result_def)

theorem add_entry_updates_lookup_witness:
  "\<not> room (example_manager 12 170) example_key \<and> can_save example_save_io
   \<and> (\<exists>r m' dir'. add_entry example_save_io example_key 7 9 11 (example_manager 12 170) [] = Some (r, m', dir')
        \<and> manager_inv m')"
proof -
  have "\<not> room (example_manager 12 170) example_key"
    using example_bucket
    by (simp add: room_def example_manager_def section_is_full_def page_is_full_iff)
  moreover have "can_save example_save_io"
    by (simp add: can_save_def example_save_io_def)
  ultimately show ?thesis
    using add_entry_updates_lookup [of "example_manager 12 170" example_key example_key 7 9 example_save_io 11 "[]"]
      example_inv [of 12 170]
    by (auto simp: example_key_def)
qed

section \<open>Saving and loading\<close>

lemma search_both_cong:
  "if_entries f = if_entries g \<Longrightarrow> pages (if_updates f) = pages (if_updates g) \<Longrightarrow>
   search_both_sections f k = search_both_sections g k"
  by (simp add: search_both_sections_def section_search_def split: option.split)

lemma index_stem_ascii: "c \<in> set (index_stem b v) \<Longrightarrow> (of_char c :: nat) < 128"
  using hex_lower_ascii by (auto simp: index_stem_def)

lemma length_index_stem [simp]: "length (index_stem b v) = 10"
  by (simp add: index_stem_def)

lemma slice_index_stem:
  "i \<le> 10 \<Longrightarrow> j \<le> 10 \<Longrightarrow> i \<le> j \<Longrightarrow>
   str_slice i j (index_stem b v @ ''.idx'') = Some (slice i j (index_stem b v))"
proof -
  have "is_char_boundary (index_stem b v @ ''.idx'') i" if "i \<le> 10" for i
  proof (cases "i < 10")
    case True
    then have "index_stem b v ! i \<in> set (index_stem b v)"
      by (intro nth_mem) simp
    then show ?thesis
      using True index_stem_ascii [of "index_stem b v ! i" b v]
      by (simp add: is_char_boundary_def nth_append Let_def)
  next
    case False
    with that have "i = 10" by simp
    then show ?thesis
      by (simp add: is_char_boundary_def nth_append Let_def)
  qed
  then show "i \<le> 10 \<Longrightarrow> j \<le> 10 \<Longrightarrow> i \<le> j \<Longrightarrow>
      str_slice i j (index_stem b v @ ''.idx'') = Some (slice i j (index_stem b v))"
    by (simp add: str_slice_def slice_def)
qed

lemma index_filename_round_trip:
  "parse_index_filename (generate_index_filename b v) = Some (Some (b, v))"
proof -
  have "be_value 0 [b] = unat b"
    by (simp add: be_value_def)
  moreover have "word_of_nat (be_value 0 (to_be 4 v)) = v"
    using from_be_value [of "to_be 4 v", where ?'a = 32] by simp
  moreover have "slice 0 2 (index_stem b v) = hex_lower [b]" "slice 2 10 (index_stem b v) = hex_lower (to_be 4 v)"
    by (simp_all add: index_stem_def slice_def)
  moreover have "to_be 4 v \<noteq> []"
    by (simp flip: length_0_conv)
  moreover have "map ascii_lower ''idx'' = ''idx''"
    by code_simp
  ultimately show ?thesis
    using from_str_radix16_hex [of "[b]"] from_str_radix16_hex [of "to_be 4 v"]
      slice_index_stem [of 0 2 b v] slice_index_stem [of 2 10 b v]
    by (auto simp: parse_index_filename_def generate_index_filename_def nth_append)
qed

text \<open>
  C10. An index file that was saved loads back: from the bytes on disk \<open>load_index\<close> builds a
  bucket in which every key of that bucket gives what it gave before, sorted and updated entries,
  tombstones included; the file name it is saved under parses back to the bucket and version.
\<close>

theorem saved_index_reloads:
  assumes "file_inv b index" "list_all (\<lambda>e. ie_key e \<noteq> replicate 9 0) (if_entries index)"
    and "save_image b index = Some (Inr data)" "manager_inv m"
  shows "\<exists>m'. load_index b (Some data) m = Some (Inr (), m') \<and> manager_inv m'
    \<and> (\<forall>key. lookup m' key = (if get_bucket_index key = b then search_both_sections index (truncate_key key)
                                else lookup m key))
    \<and> parse_index_filename (generate_index_filename b v) = Some (Some (b, v))"
proof -
  obtain index' where i: "decode_index data = Some (Inr index')" "file_inv b index'"
    "if_entries index' = if_entries index" "pages (if_updates index') = pages (if_updates index)"
    using decode_saved [OF assms(1-3)] by blast
  have "load_index b (Some data) m = Some (Inr (), set_bucket b index' m)"
    by (simp add: load_index_def load_file_def i(1) set_bucket_def)
  then show ?thesis
    using set_bucket_inv [OF assms(4) i(2)] search_both_cong [OF i(3,4)]
    by (simp add: lookup_set_bucket [OF assms(4)] index_filename_round_trip)
qed

theorem saved_index_reloads_witness:
  "\<exists>data m'. save_image 0 (snd (hd (indices (example_manager 1 3)))) = Some (Inr data)
     \<and> load_index 0 (Some data) manager_new = Some (Inr (), m')
     \<and> lookup m' example_key = Some (to_index_entry example_update)"
proof -
  let ?f = "snd (hd (indices (example_manager 1 3)))"
  have inv: "file_inv 0 ?f"
    using manager_inv_file [OF example_inv [of 1 3], of 0 ?f] by (simp add: example_manager_def)
  have small: "if_entries ?f = []"
    by (simp add: example_manager_def new_index_file_def)
  obtain data where data: "save_image 0 ?f = Some (Inr data)"
    using inv by (rule save_image_eq) (simp_all add: small del: One_nat_def)
  have "search_both_sections ?f (truncate_key example_key) = Some (to_index_entry example_update)"
    using example_lookup [of 1 3] example_bucket by (simp add: lookup_def example_manager_def)
  moreover have "manager_inv manager_new"
    by (simp add: manager_inv_def manager_new_def)
  ultimately show ?thesis
    using saved_index_reloads [OF inv _ data, of manager_new 1] small data example_bucket by fastforce
qed

end
