(* ===== verification/Espec.thy ===== *)
theory Espec
  imports Text
begin

text \<open>
  Encoding specifications, \<open>cascette-formats/src/espec/types.rs\<close> and \<open>parser.rs\<close>: the syntax tree,
  its text form (\<open>Display\<close>) and the recursive-descent parser. A parser takes the position and
  the rest of the input and returns a value with the new position and rest, an error, or the
  panic of an overflowing multiplication. Errors keep the expected character and the
  position; the character found and the message texts are left out. The recursion takes
  fuel; that the length of the input is always enough is proved below. Hex encoding and
  decoding of the IV (crate \<open>hex\<close>) are arguments.
\<close>

section \<open>Model: specifications\<close>

datatype zlib_variant = MPQ | ZLibStd | LZ4HC

datatype block_size_spec = BlockSizeSpec (bs_size: u64) (bs_count: "u32 option")

datatype espec =
    ENone
  | ZLib "byte option" "zlib_variant option" "byte option"
  | Encrypted string "byte list" espec
  | BlockTable "block_chunk list"
  | BCPack "byte option"
  | GDeflate "byte option"
and block_chunk = BlockChunk "block_size_spec option" espec

datatype espec_error =
    EmptyInput
  | UnknownType
  | InvalidLevel byte
  | InvalidBits byte
  | InvalidBcn byte
  | InvalidHex
  | UnexpectedChar char nat
  | UnexpectedEnd nat
  | InvalidNumber nat
  | InvalidUnit char
  | MultipleVariableBlocks
  | InvalidIvLength nat

fun is_encrypted :: "espec \<Rightarrow> bool" where
  "is_encrypted (Encrypted _ _ _) = True"
| "is_encrypted _ = False"

fun is_compressed :: "espec \<Rightarrow> bool" and chunk_compressed :: "block_chunk \<Rightarrow> bool" where
  "is_compressed ENone = False"
| "is_compressed (ZLib _ _ _) = True"
| "is_compressed (BCPack _) = True"
| "is_compressed (GDeflate _) = True"
| "is_compressed (BlockTable chunks) = list_ex chunk_compressed chunks"
| "is_compressed (Encrypted _ _ spec) = is_compressed spec"
| "chunk_compressed (BlockChunk _ spec) = is_compressed spec"

fun compression_type :: "espec \<Rightarrow> string" where
  "compression_type ENone = ''none''"
| "compression_type (ZLib _ _ _) = ''zlib''"
| "compression_type (BCPack _) = ''bcpack''"
| "compression_type (GDeflate _) = ''gdeflate''"
| "compression_type (BlockTable _) = ''block''"
| "compression_type (Encrypted _ _ _) = ''encrypted''"

fun codec_id :: "espec \<Rightarrow> byte option" where
  "codec_id ENone = Some 0"
| "codec_id (ZLib _ variant _) = (case variant of Some LZ4HC \<Rightarrow> Some 3 | _ \<Rightarrow> Some 2)"
| "codec_id (BCPack _) = Some 4"
| "codec_id (GDeflate _) = Some 5"
| "codec_id (Encrypted _ _ _) = None"
| "codec_id (BlockTable _) = None"

section \<open>Model: the text form\<close>

fun show_variant :: "zlib_variant \<Rightarrow> string" where
  "show_variant MPQ = ''mpq''"
| "show_variant ZLibStd = ''zlib''"
| "show_variant LZ4HC = ''lz4hc''"

definition show_size_spec :: "block_size_spec \<Rightarrow> string" where
  "show_size_spec b =
     (let sz = unat (bs_size b) in
      (if sz mod (1024 * 1024) = 0 then dec (sz div (1024 * 1024)) @ ''M''
       else if sz mod 1024 = 0 then dec (sz div 1024) @ ''K''
       else dec sz)
      @ (case bs_count b of None \<Rightarrow> [] | Some count \<Rightarrow> ''*'' @ dec (unat count)))"

fun show_zlib :: "byte option \<Rightarrow> zlib_variant option \<Rightarrow> byte option \<Rightarrow> string" where
  "show_zlib None None None = []"
| "show_zlib (Some l) None None = '':'' @ dec (unat l)"
| "show_zlib (Some l) (Some v) None = '':{'' @ dec (unat l) @ '','' @ show_variant v @ ''}''"
| "show_zlib (Some l) None (Some wb) = '':{'' @ dec (unat l) @ '','' @ dec (unat wb) @ ''}''"
| "show_zlib (Some l) (Some v) (Some wb) =
     '':{'' @ dec (unat l) @ '','' @ show_variant v @ '','' @ dec (unat wb) @ ''}''"
| "show_zlib None (Some v) None = '':{'' @ show_variant v @ ''}''"
| "show_zlib None (Some v) (Some wb) = '':{'' @ show_variant v @ '','' @ dec (unat wb) @ ''}''"
| "show_zlib None None (Some wb) = '':{'' @ dec (unat wb) @ ''}''"

fun comma_separated :: "string list \<Rightarrow> string" where
  "comma_separated [] = []"
| "comma_separated [x] = x"
| "comma_separated (x # xs) = x @ '','' @ comma_separated xs"

fun show_espec :: "(byte list \<Rightarrow> string) \<Rightarrow> espec \<Rightarrow> string"
  and show_chunk :: "(byte list \<Rightarrow> string) \<Rightarrow> block_chunk \<Rightarrow> string" where
  "show_espec henc ENone = ''n''"
| "show_espec henc (ZLib level variant window_bits) = ''z'' @ show_zlib level variant window_bits"
| "show_espec henc (Encrypted key iv spec) =
     ''e:{'' @ key @ '','' @ henc iv @ '','' @ show_espec henc spec @ ''}''"
| "show_espec henc (BlockTable [BlockChunk None spec]) = ''b:'' @ show_espec henc spec"
| "show_espec henc (BlockTable chunks) =
     ''b:{'' @ comma_separated (map (show_chunk henc) chunks) @ ''}''"
| "show_espec henc (BCPack None) = ''c''"
| "show_espec henc (BCPack (Some n)) = ''c:{'' @ dec (unat n) @ ''}''"
| "show_espec henc (GDeflate None) = ''g''"
| "show_espec henc (GDeflate (Some l)) = ''g:{'' @ dec (unat l) @ ''}''"
| "show_chunk henc (BlockChunk size_spec spec) =
     (case size_spec of None \<Rightarrow> ''*='' | Some b \<Rightarrow> show_size_spec b @ ''='') @ show_espec henc spec"

section \<open>Model: the parser\<close>

datatype 'a presult = POk 'a nat string | PErr espec_error | PPanic | PFuel

type_synonym 'a parser = "nat \<Rightarrow> string \<Rightarrow> 'a presult"

definition pbind :: "'a presult \<Rightarrow> ('a \<Rightarrow> 'b parser) \<Rightarrow> 'b presult" where
  "pbind r f = (case r of POk x pos rest \<Rightarrow> f x pos rest | PErr e \<Rightarrow> PErr e | PPanic \<Rightarrow> PPanic | PFuel \<Rightarrow> PFuel)"

definition peek_is :: "char \<Rightarrow> string \<Rightarrow> bool" where
  "peek_is c s \<longleftrightarrow> s \<noteq> [] \<and> hd s = c"

definition peek_digit :: "string \<Rightarrow> bool" where
  "peek_digit s \<longleftrightarrow> s \<noteq> [] \<and> is_digit (hd s)"

definition pconsume :: "char \<Rightarrow> unit parser" where
  "pconsume expected pos s =
     (case s of
        [] \<Rightarrow> PErr (UnexpectedEnd pos)
      | c # rest \<Rightarrow> if c = expected then POk () (pos + 1) rest else PErr (UnexpectedChar expected pos))"

definition parse_number :: "nat parser" where
  "parse_number pos s =
     (let digits = takeWhile is_digit s in
      if digits = [] then PErr (InvalidNumber pos)
      else if dec_value digits < 2 ^ 64
      then POk (dec_value digits) (pos + length digits) (dropWhile is_digit s)
      else PErr (InvalidNumber pos))"

definition parse_identifier :: "string parser" where
  "parse_identifier pos s =
     (let ident = takeWhile is_alnum s in POk ident (pos + length ident) (dropWhile is_alnum s))"

definition parse_zlib_variant :: "zlib_variant parser" where
  "parse_zlib_variant pos s =
     pbind (parse_identifier pos s) (\<lambda>ident pos' rest.
       if ident = ''mpq'' then POk MPQ pos' rest
       else if ident = ''zlib'' then POk ZLibStd pos' rest
       else if ident = ''lz4hc'' then POk LZ4HC pos' rest
       else PErr (InvalidNumber (pos' - length ident)))"

definition parse_window_bits :: "byte parser" where
  "parse_window_bits pos s =
     pbind (parse_number pos s) (\<lambda>num pos rest.
       if num \<ge> 256 then PErr (InvalidBits 255)
       else if \<not> (8 \<le> num \<and> num \<le> 15) then PErr (InvalidBits (word_of_nat num))
       else POk (word_of_nat num) pos rest)"

text \<open>The level of \<open>parse_zlib\<close>, absent only inside braces.\<close>

definition parse_level :: "bool \<Rightarrow> byte option parser" where
  "parse_level has_braces pos s =
     (if peek_digit s
      then pbind (parse_number pos s) (\<lambda>num pos rest.
             if num \<ge> 256 then PErr (InvalidLevel 255)
             else if num = 0 \<or> num > 9 then PErr (InvalidLevel (word_of_nat num))
             else POk (Some (word_of_nat num)) pos rest)
      else if \<not> has_braces
      then PErr (if s = [] then UnexpectedEnd pos else UnexpectedChar (CHR ''0'') pos)
      else POk None pos s)"

text \<open>What may follow the level: window bits, or a variant with optional window bits.\<close>

definition parse_zlib_params :: "(zlib_variant option \<times> byte option) parser" where
  "parse_zlib_params pos s =
     (if peek_is (CHR '','') s
      then pbind (pconsume (CHR '','') pos s) (\<lambda>_ pos s.
             if peek_digit s
             then pbind (parse_window_bits pos s) (\<lambda>wb pos s. POk (None, Some wb) pos s)
             else pbind (parse_zlib_variant pos s) (\<lambda>v pos s.
                    if peek_is (CHR '','') s
                    then pbind (pconsume (CHR '','') pos s) (\<lambda>_ pos s.
                           pbind (parse_window_bits pos s) (\<lambda>wb pos s. POk (Some v, Some wb) pos s))
                    else POk (Some v, None) pos s))
      else POk (None, None) pos s)"

definition parse_zlib :: "espec parser" where
  "parse_zlib pos s =
     pbind (pconsume (CHR ''z'') pos s) (\<lambda>_ pos s.
       if \<not> peek_is (CHR '':'') s then POk (ZLib None None None) pos s
       else pbind (pconsume (CHR '':'') pos s) (\<lambda>_ pos s.
         let has_braces = peek_is (CHR ''{'') s in
         pbind (if has_braces then pconsume (CHR ''{'') pos s else POk () pos s) (\<lambda>_ pos s.
         pbind (parse_level has_braces pos s) (\<lambda>level pos s.
         pbind (if has_braces then parse_zlib_params pos s else POk (None, None) pos s)
           (\<lambda>(variant, window_bits) pos s.
         pbind (if has_braces then pconsume (CHR ''}'') pos s else POk () pos s) (\<lambda>_ pos s.
           POk (ZLib level variant window_bits) pos s))))))"

definition parse_hex_until :: "(string \<Rightarrow> byte list option) \<Rightarrow> char \<Rightarrow> nat \<Rightarrow> nat \<Rightarrow> byte list parser" where
  "parse_hex_until hdec delimiter min_bytes max_bytes pos s =
     (let hex = takeWhile (\<lambda>c. c \<noteq> delimiter) s in
      if \<not> list_all is_hexdigit hex then PErr InvalidHex
      else if odd (length hex) then PErr InvalidHex
      else if length hex div 2 < min_bytes \<or> length hex div 2 > max_bytes
      then PErr (InvalidIvLength (length hex div 2))
      else (case hdec hex of
              None \<Rightarrow> PErr InvalidHex
            | Some bytes \<Rightarrow> POk bytes (pos + length hex) (dropWhile (\<lambda>c. c \<noteq> delimiter) s)))"

definition parse_encrypted :: "(string \<Rightarrow> byte list option) \<Rightarrow> espec parser \<Rightarrow> espec parser" where
  "parse_encrypted hdec parse_nested pos s =
     pbind (pconsume (CHR ''e'') pos s) (\<lambda>_ pos s.
     pbind (pconsume (CHR '':'') pos s) (\<lambda>_ pos s.
     pbind (pconsume (CHR ''{'') pos s) (\<lambda>_ pos s.
     pbind (parse_identifier pos s) (\<lambda>key pos s.
       if length key \<noteq> 16 then PErr InvalidHex
       else pbind (pconsume (CHR '','') pos s) (\<lambda>_ pos s.
            pbind (parse_hex_until hdec (CHR '','') 1 8 pos s) (\<lambda>iv pos s.
            pbind (pconsume (CHR '','') pos s) (\<lambda>_ pos s.
            pbind (parse_nested pos s) (\<lambda>spec pos s.
            pbind (pconsume (CHR ''}'') pos s) (\<lambda>_ pos s.
              POk (Encrypted key iv spec) pos s)))))))))"

text \<open>The unit after a number; the multiplication is a checked \<open>u64\<close> product.\<close>

definition parse_unit :: "nat \<Rightarrow> nat parser" where
  "parse_unit n pos s =
     (if peek_is (CHR ''K'') s
      then pbind (pconsume (CHR ''K'') pos s) (\<lambda>_ pos s. if n * 1024 < 2 ^ 64 then POk (n * 1024) pos s else PPanic)
      else if peek_is (CHR ''M'') s
      then pbind (pconsume (CHR ''M'') pos s)
             (\<lambda>_ pos s. if n * (1024 * 1024) < 2 ^ 64 then POk (n * (1024 * 1024)) pos s else PPanic)
      else if peek_is (CHR ''G'') s \<or> peek_is (CHR ''T'') s \<or> peek_is (CHR ''P'') s
      then PErr (InvalidUnit (hd s))
      else POk n pos s)"

definition parse_count :: "u32 parser" where
  "parse_count pos s =
     pbind (parse_number pos s) (\<lambda>num pos s.
       if num < 2 ^ 32 then POk (word_of_nat num) pos s else PErr (InvalidNumber pos))"

definition parse_block_size_spec :: "block_size_spec parser" where
  "parse_block_size_spec pos s =
     pbind (parse_number pos s) (\<lambda>num pos s.
     pbind (parse_unit num pos s) (\<lambda>sz pos s.
     pbind (if peek_is (CHR ''*'') s
            then pbind (pconsume (CHR ''*'') pos s) (\<lambda>_ pos s.
                   if peek_digit s then pbind (parse_count pos s) (\<lambda>n pos s. POk (Some n) pos s)
                   else POk None pos s)
            else POk None pos s) (\<lambda>count pos s.
       POk (BlockSizeSpec (word_of_nat sz) count) pos s)))"

text \<open>The size of one chunk inside braces; at most one chunk may start with a star.\<close>

definition parse_chunk_size :: "nat \<Rightarrow> (block_size_spec option \<times> nat) parser" where
  "parse_chunk_size variable_count pos s =
     (if peek_is (CHR ''*'') s
      then pbind (pconsume (CHR ''*'') pos s) (\<lambda>_ pos s.
             if variable_count + 1 > 1 then PErr MultipleVariableBlocks
             else if peek_is (CHR ''='') s then POk (None, variable_count + 1) pos s
             else pbind (parse_count pos s) (\<lambda>n pos s.
                    POk (Some (BlockSizeSpec 0 (Some n)), variable_count + 1) pos s))
      else pbind (parse_block_size_spec pos s) (\<lambda>b pos s. POk (Some b, variable_count) pos s))"

fun parse_chunks :: "espec parser \<Rightarrow> nat \<Rightarrow> nat \<Rightarrow> block_chunk list parser" where
  "parse_chunks parse_nested 0 variable_count pos s = PFuel"
| "parse_chunks parse_nested (Suc n) variable_count pos s =
     pbind (parse_chunk_size variable_count pos s) (\<lambda>(size_spec, variable_count) pos s.
     pbind (pconsume (CHR ''='') pos s) (\<lambda>_ pos s.
     pbind (parse_nested pos s) (\<lambda>spec pos s.
       if peek_is (CHR '','') s
       then pbind (pconsume (CHR '','') pos s) (\<lambda>_ pos s.
            pbind (parse_chunks parse_nested n variable_count pos s) (\<lambda>chunks pos s.
              POk (BlockChunk size_spec spec # chunks) pos s))
       else POk [BlockChunk size_spec spec] pos s)))"

definition parse_block_table :: "espec parser \<Rightarrow> espec parser" where
  "parse_block_table parse_nested pos s =
     pbind (pconsume (CHR ''b'') pos s) (\<lambda>_ pos s.
     pbind (pconsume (CHR '':'') pos s) (\<lambda>_ pos s.
       if \<not> peek_is (CHR ''{'') s
       then (if peek_digit s \<or> peek_is (CHR ''*'') s
             then pbind (if peek_is (CHR ''*'') s
                         then pbind (pconsume (CHR ''*'') pos s) (\<lambda>_ pos s. POk None pos s)
                         else pbind (parse_block_size_spec pos s) (\<lambda>b pos s. POk (Some b) pos s))
                    (\<lambda>size_spec pos s.
                  pbind (pconsume (CHR ''='') pos s) (\<lambda>_ pos s.
                  pbind (parse_nested pos s) (\<lambda>spec pos s.
                    POk (BlockTable [BlockChunk size_spec spec]) pos s)))
             else pbind (parse_nested pos s) (\<lambda>spec pos s. POk (BlockTable [BlockChunk None spec]) pos s))
       else pbind (pconsume (CHR ''{'') pos s) (\<lambda>_ pos s.
            pbind (parse_chunks parse_nested (Suc (length s)) 0 pos s) (\<lambda>chunks pos s.
            pbind (pconsume (CHR ''}'') pos s) (\<lambda>_ pos s.
              POk (BlockTable chunks) pos s)))))"

text \<open>A small number in braces, as \<open>parse_bcpack\<close> and \<open>parse_gdeflate\<close> read it.\<close>

definition parse_bcpack :: "espec parser" where
  "parse_bcpack pos s =
     pbind (pconsume (CHR ''c'') pos s) (\<lambda>_ pos s.
       if \<not> peek_is (CHR '':'') s then POk (BCPack None) pos s
       else pbind (pconsume (CHR '':'') pos s) (\<lambda>_ pos s.
            pbind (pconsume (CHR ''{'') pos s) (\<lambda>_ pos s.
            pbind (parse_number pos s) (\<lambda>num pos s.
              if num \<ge> 256 then PErr (InvalidNumber pos)
              else if num = 0 \<or> num > 7 then PErr (InvalidBcn (word_of_nat num))
              else pbind (pconsume (CHR ''}'') pos s) (\<lambda>_ pos s. POk (BCPack (Some (word_of_nat num))) pos s)))))"

definition parse_gdeflate :: "espec parser" where
  "parse_gdeflate pos s =
     pbind (pconsume (CHR ''g'') pos s) (\<lambda>_ pos s.
       if \<not> peek_is (CHR '':'') s then POk (GDeflate None) pos s
       else pbind (pconsume (CHR '':'') pos s) (\<lambda>_ pos s.
            pbind (pconsume (CHR ''{'') pos s) (\<lambda>_ pos s.
            pbind (parse_number pos s) (\<lambda>num pos s.
              if num \<ge> 256 then PErr (InvalidLevel 255)
              else if num = 0 \<or> num > 12 then PErr (InvalidLevel (word_of_nat num))
              else pbind (pconsume (CHR ''}'') pos s) (\<lambda>_ pos s. POk (GDeflate (Some (word_of_nat num))) pos s)))))"

fun parse_espec :: "(string \<Rightarrow> byte list option) \<Rightarrow> nat \<Rightarrow> espec parser" where
  "parse_espec hdec 0 pos s = PFuel"
| "parse_espec hdec (Suc n) pos s =
     (if s = [] then PErr (UnexpectedEnd pos)
      else if peek_is (CHR ''n'') s then pbind (pconsume (CHR ''n'') pos s) (\<lambda>_ pos s. POk ENone pos s)
      else if peek_is (CHR ''z'') s then parse_zlib pos s
      else if peek_is (CHR ''e'') s then parse_encrypted hdec (parse_espec hdec n) pos s
      else if peek_is (CHR ''b'') s then parse_block_table (parse_espec hdec n) pos s
      else if peek_is (CHR ''c'') s then parse_bcpack pos s
      else if peek_is (CHR ''g'') s then parse_gdeflate pos s
      else PErr UnknownType)"

definition espec_parse :: "(string \<Rightarrow> byte list option) \<Rightarrow> string \<Rightarrow> espec presult" where
  "espec_parse hdec input =
     (if input = [] then PErr EmptyInput
      else pbind (parse_espec hdec (Suc (length input)) 0 input) (\<lambda>spec pos rest.
             if rest \<noteq> [] then PErr (UnexpectedChar (CHR 0x00) pos) else POk spec pos rest))"

definition espec_validate :: "(string \<Rightarrow> byte list option) \<Rightarrow> string \<Rightarrow> bool" where
  "espec_validate hdec input = (case espec_parse hdec input of POk _ _ _ \<Rightarrow> True | _ \<Rightarrow> False)"

section \<open>The fuel is enough\<close>

text \<open>A result that leaves fewer than \<open>n\<close> characters, if it is a value, and did not run out of fuel.\<close>

definition leaves :: "nat \<Rightarrow> 'a presult \<Rightarrow> bool" where
  "leaves n r \<longleftrightarrow> (case r of POk _ _ s \<Rightarrow> length s < n | PFuel \<Rightarrow> False | _ \<Rightarrow> True)"

lemma leaves_simps [simp]:
  "leaves n (POk x pos s) \<longleftrightarrow> length s < n" "leaves n (PErr e)" "leaves n PPanic" "\<not> leaves n PFuel"
  by (simp_all add: leaves_def)

lemma leaves_bind:
  "leaves n r \<Longrightarrow> (\<And>x pos s. length s < n \<Longrightarrow> leaves m (f x pos s)) \<Longrightarrow> leaves m (pbind r f)"
  by (cases r) (auto simp: pbind_def)

lemma leaves_mono: "leaves n r \<Longrightarrow> n \<le> m \<Longrightarrow> leaves m r"
  by (cases r) auto

lemma leaves_consume: "leaves (length s) (pconsume c pos s)"
  by (cases s) (auto simp: pconsume_def)

lemma leaves_number: "leaves (length s) (parse_number pos s)"
  using length_dropWhile_le [of is_digit "tl s"]
  by (cases s) (auto simp: parse_number_def Let_def)

lemma leaves_identifier: "leaves (Suc (length s)) (parse_identifier pos s)"
  using length_dropWhile_le [of is_alnum s] by (simp add: parse_identifier_def Let_def)

lemma leaves_hex: "leaves (Suc (length s)) (parse_hex_until hdec c lo hi pos s)"
  using length_dropWhile_le [of "\<lambda>x. x \<noteq> c" s]
  by (simp add: parse_hex_until_def Let_def split: option.split)

lemmas leaves_basic = leaves_bind [OF leaves_consume] leaves_bind [OF leaves_number]
  leaves_bind [OF leaves_identifier] leaves_bind [OF leaves_hex]

lemma leaves_window_bits: "leaves (length s) (parse_window_bits pos s)"
  unfolding parse_window_bits_def by (intro leaves_basic) auto

lemma leaves_variant: "leaves (Suc (length s)) (parse_zlib_variant pos s)"
  unfolding parse_zlib_variant_def by (intro leaves_basic) auto

lemma leaves_level: "leaves (Suc (length s)) (parse_level b pos s)"
  unfolding parse_level_def by (auto intro!: leaves_basic)

lemma leaves_params: "leaves (Suc (length s)) (parse_zlib_params pos s)"
  unfolding parse_zlib_params_def
  by (auto intro!: leaves_basic leaves_bind [OF leaves_window_bits] leaves_bind [OF leaves_variant])

lemma leaves_if_consume: "leaves (Suc (length s)) (if b then pconsume c pos s else POk () pos s)"
  using leaves_mono [OF leaves_consume [of s c pos]] by simp

lemma leaves_if_params: "leaves (Suc (length s)) (if b then parse_zlib_params pos s else POk (None, None) pos s)"
  using leaves_params by simp

lemma leaves_zlib: "leaves (length s) (parse_zlib pos s)"
  unfolding parse_zlib_def Let_def
  by (auto simp: case_prod_beta intro!: leaves_basic leaves_bind [OF leaves_if_consume]
        leaves_bind [OF leaves_level] leaves_bind [OF leaves_if_params])

lemma leaves_count: "leaves (length s) (parse_count pos s)"
  unfolding parse_count_def by (auto intro!: leaves_basic)

lemma leaves_unit: "leaves (Suc (length s)) (parse_unit n pos s)"
  unfolding parse_unit_def by (auto intro!: leaves_basic)

lemma leaves_star:
  "leaves (Suc (length s))
     (if peek_is (CHR ''*'') s
      then pbind (pconsume (CHR ''*'') pos s) (\<lambda>_ pos s.
             if peek_digit s then pbind (parse_count pos s) (\<lambda>n pos s. POk (Some n) pos s)
             else POk None pos s)
      else POk None pos s)"
  by (auto intro!: leaves_basic leaves_bind [OF leaves_count])

lemma leaves_size_spec: "leaves (length s) (parse_block_size_spec pos s)"
  unfolding parse_block_size_spec_def
  by (intro leaves_basic leaves_bind [OF leaves_unit] leaves_bind [OF leaves_star]) auto

lemma leaves_chunk_size: "leaves (length s) (parse_chunk_size vc pos s)"
  unfolding parse_chunk_size_def
  by (auto intro!: leaves_basic leaves_bind [OF leaves_count] leaves_bind [OF leaves_size_spec])

lemma leaves_chunks:
  assumes nested: "\<And>pos s. length s < k \<Longrightarrow> leaves (length s) (p pos s)"
  shows "length s < n \<Longrightarrow> length s \<le> k \<Longrightarrow> leaves (length s) (parse_chunks p n vc pos s)"
proof (induction n arbitrary: vc pos s)
  case (Suc n)
  have rest: "leaves (length s)
      (if peek_is (CHR '','') s'
       then pbind (pconsume (CHR '','') pos' s') (\<lambda>_ pos s.
            pbind (parse_chunks p n vc' pos s) (\<lambda>chunks pos s. POk (BlockChunk size_spec spec # chunks) pos s))
       else POk [BlockChunk size_spec spec] pos' s')"
    if "length s' < length s" for s' pos' vc' size_spec spec
    using that Suc.prems by (auto intro!: leaves_basic leaves_bind [OF Suc.IH])
  show ?case
    unfolding parse_chunks.simps case_prod_beta
    by (intro leaves_bind [OF leaves_chunk_size] leaves_bind [OF leaves_consume] leaves_bind [OF nested] rest)
       (use Suc.prems in auto)
qed simp

lemma leaves_shorthand_size:
  "leaves (length s)
     (if peek_is (CHR ''*'') s then pbind (pconsume (CHR ''*'') pos s) (\<lambda>_ pos s. POk None pos s)
      else pbind (parse_block_size_spec pos s) (\<lambda>b pos s. POk (Some b) pos s))"
  by (auto intro!: leaves_basic leaves_bind [OF leaves_size_spec])

lemma leaves_block_table:
  assumes nested: "\<And>pos s'. length s' < length s \<Longrightarrow> leaves (length s') (p pos s')"
  shows "leaves (length s) (parse_block_table p pos s)"
proof -
  have chunks: "leaves (length s') (parse_chunks p (Suc (length s')) 0 pos s')" if "length s' < length s" for pos s'
    using that by (intro leaves_chunks [where k = "length s"] nested) auto
  have short: "leaves (length s) (pbind (if peek_is (CHR ''*'') s' then pbind (pconsume (CHR ''*'') pos s') (\<lambda>_ pos s. POk None pos s)
      else pbind (parse_block_size_spec pos s') (\<lambda>b pos s. POk (Some b) pos s)) (\<lambda>size_spec pos s.
        pbind (pconsume (CHR ''='') pos s) (\<lambda>_ pos s.
        pbind (p pos s) (\<lambda>spec pos s. POk (BlockTable [BlockChunk size_spec spec]) pos s))))"
    if "length s' < length s" for pos s'
    using that
    by (intro leaves_bind [OF leaves_shorthand_size] leaves_bind [OF leaves_consume] leaves_bind [OF nested]) auto
  have plain: "leaves (length s) (pbind (p pos s') (\<lambda>spec pos s. POk (BlockTable [BlockChunk None spec]) pos s))"
    if "length s' < length s" for pos s'
    using that by (intro leaves_bind [OF nested]) auto
  have braces: "leaves (length s) (pbind (pconsume (CHR ''{'') pos s') (\<lambda>_ pos s.
            pbind (parse_chunks p (Suc (length s)) 0 pos s) (\<lambda>chunks pos s.
            pbind (pconsume (CHR ''}'') pos s) (\<lambda>_ pos s. POk (BlockTable chunks) pos s))))"
    if "length s' < length s" for pos s'
    using that
    by (intro leaves_bind [OF leaves_consume] leaves_bind [OF chunks]) auto
  show ?thesis
    unfolding parse_block_table_def
    by (intro leaves_bind [OF leaves_consume]) (simp only: short plain braces split: if_split, simp)
qed

lemma leaves_encrypted:
  assumes nested: "\<And>pos s'. length s' < length s \<Longrightarrow> leaves (length s') (p pos s')"
  shows "leaves (length s) (parse_encrypted hdec p pos s)"
  unfolding parse_encrypted_def
  by (auto intro!: leaves_basic leaves_bind [OF nested])

lemma leaves_bcpack: "leaves (length s) (parse_bcpack pos s)"
  unfolding parse_bcpack_def by (auto intro!: leaves_basic)

lemma leaves_gdeflate: "leaves (length s) (parse_gdeflate pos s)"
  unfolding parse_gdeflate_def by (auto intro!: leaves_basic)

lemma leaves_espec: "length s < n \<Longrightarrow> leaves (length s) (parse_espec hdec n pos s)"
proof (induction n arbitrary: pos s)
  case (Suc n)
  have nested: "length s' < length s \<Longrightarrow> leaves (length s') (parse_espec hdec n pos s')" for pos s'
    using Suc by simp
  show ?case
    using leaves_encrypted [OF nested] leaves_block_table [OF nested] leaves_zlib leaves_bcpack leaves_gdeflate
    by (auto intro!: leaves_basic)
qed simp

end
