(* ===== verification/Espec_Props.thy ===== *)
theory Espec_Props
  imports Espec
begin

text \<open>
  The parser of encoding specifications against the printer: every specification that the
  text form can express parses back from its text, and the specifications it cannot express.
\<close>

section \<open>Parsing printed text\<close>

lemma pbind_simps [simp]:
  "pbind (POk x pos s) f = f x pos s" "pbind (PErr e) f = PErr e" "pbind PPanic f = PPanic" "pbind PFuel f = PFuel"
  by (simp_all add: pbind_def)

lemma peek_is_simps [simp]: "\<not> peek_is c []" "peek_is c (x # s) \<longleftrightarrow> x = c"
  by (simp_all add: peek_is_def)

lemma peek_digit_simps [simp]: "\<not> peek_digit []" "peek_digit (x # s) \<longleftrightarrow> is_digit x"
  by (simp_all add: peek_digit_def)

lemma pconsume_simp [simp]: "pconsume c pos (c # s) = POk () (pos + 1) s"
  by (simp add: pconsume_def)

lemma span_append:
  assumes "list_all P xs" "r = [] \<or> \<not> P (hd r)"
  shows "takeWhile P (xs @ r) = xs" "dropWhile P (xs @ r) = r"
  using assms by (induction xs; cases r; auto)+

text \<open>What follows a printed specification: nothing, a comma or a closing brace.\<close>

definition follow :: "string \<Rightarrow> bool" where
  "follow r \<longleftrightarrow> r = [] \<or> hd r = CHR '','' \<or> hd r = CHR ''}''"

lemma digit_chars [simp]:
  "\<not> is_digit (CHR '','')" "\<not> is_digit (CHR ''}'')" "\<not> is_digit (CHR ''='')" "\<not> is_digit (CHR ''K'')"
  "\<not> is_digit (CHR ''M'')" "\<not> is_digit (CHR ''*'')" "\<not> is_digit (CHR ''{'')" "\<not> is_digit (CHR '':'')"
  "\<not> is_digit (CHR ''n'')" "\<not> is_digit (CHR ''z'')" "\<not> is_digit (CHR ''e'')" "\<not> is_digit (CHR ''b'')"
  "\<not> is_digit (CHR ''c'')" "\<not> is_digit (CHR ''g'')" "\<not> is_digit (CHR ''m'')" "\<not> is_digit (CHR ''l'')"
  by code_simp+

lemma alnum_chars [simp]: "\<not> is_alnum (CHR '','')" "\<not> is_alnum (CHR ''}'')"
  by code_simp+

lemma not_digit_follow: "follow r \<Longrightarrow> r = [] \<or> \<not> is_digit (hd r)"
  by (auto simp: follow_def)

lemma parse_number_dec:
  "n < 2 ^ 64 \<Longrightarrow> r = [] \<or> \<not> is_digit (hd r) \<Longrightarrow>
   parse_number pos (dec n @ r) = POk n (pos + length (dec n)) r"
  using span_append [OF dec_digits, of r n] by (simp add: parse_number_def)

lemma dec_Cons: obtains d ds where "dec n = d # ds" "is_digit d"
  using dec_digits [of n] by (cases "dec n") auto

lemma peek_dec [simp]:
  "peek_digit (dec n @ r)" "\<not> is_digit c \<Longrightarrow> \<not> peek_is c (dec n @ r)"
  by (rule dec_Cons [of n]; auto)+

lemma byte_small: "unat (b :: byte) < 2 ^ 64"
  using u8_bound [of b] by simp

text \<open>The specifications that the text form can express.\<close>

fun wf_zlib :: "byte option \<Rightarrow> zlib_variant option \<Rightarrow> byte option \<Rightarrow> bool" where
  "wf_zlib level variant window_bits \<longleftrightarrow>
     (case level of None \<Rightarrow> variant = None \<and> window_bits = None | Some l \<Rightarrow> 1 \<le> l \<and> l \<le> 9)
     \<and> (case window_bits of None \<Rightarrow> True | Some wb \<Rightarrow> 8 \<le> wb \<and> wb \<le> 15)"

lemma parse_variant_show:
  "r = [] \<or> \<not> is_alnum (hd r) \<Longrightarrow>
   parse_zlib_variant pos (show_variant v @ r) = POk v (pos + length (show_variant v)) r"
proof -
  assume r: "r = [] \<or> \<not> is_alnum (hd r)"
  have "list_all is_alnum (show_variant v)"
    by (cases v) (simp_all add: is_alnum_def is_alpha_def is_digit_def)
  note span = span_append [OF this r]
  show ?thesis
    by (cases v) (use span in \<open>simp_all add: parse_zlib_variant_def parse_identifier_def Let_def\<close>)
qed

lemma parse_window_bits_dec:
  assumes "8 \<le> wb" "wb \<le> 15" "r = [] \<or> \<not> is_digit (hd r)"
  shows "parse_window_bits pos (dec (unat wb) @ r) = POk wb (pos + length (dec (unat wb))) r"
  using assms u8_bound [of wb]
  by (simp add: parse_window_bits_def parse_number_dec word_le_nat_alt)

lemma parse_level_dec:
  assumes "1 \<le> l" "l \<le> 9" "r = [] \<or> \<not> is_digit (hd r)"
  shows "parse_level b pos (dec (unat l) @ r) = POk (Some l) (pos + length (dec (unat l))) r"
  using assms u8_bound [of l]
  by (simp add: parse_level_def parse_number_dec word_le_nat_alt)

lemma peek_variant [simp]: "\<not> peek_digit (show_variant v @ r)"
  by (cases v) (simp_all add: is_digit_def)

lemma parse_zlib_show:
  assumes "wf_zlib l v w" "follow r"
  shows "parse_zlib pos (''z'' @ show_zlib l v w @ r) = POk (ZLib l v w) (pos + length (''z'' @ show_zlib l v w)) r"
proof (cases l)
  case None
  then show ?thesis
    using assms by (cases r) (auto simp: parse_zlib_def follow_def)
next
  case (Some n)
  have n: "1 \<le> n" "n \<le> 9" using assms Some by auto
  have wb: "8 \<le> wb \<and> wb \<le> 15" if "w = Some wb" for wb using assms that by auto
  note level = parse_level_dec [OF n]
  show ?thesis
  proof (cases v)
    case None
    then show ?thesis
      using Some not_digit_follow [OF assms(2)] wb
      by (cases w) (simp_all add: parse_zlib_def level parse_zlib_params_def parse_window_bits_dec Let_def)
  next
    case v: (Some var)
    show ?thesis
      by (cases w)
         (use wb in \<open>simp_all add: parse_zlib_def level parse_zlib_params_def parse_window_bits_dec
            parse_variant_show Let_def Some v\<close>)
  qed
qed

lemma parse_unit_digitless:
  "n < 2 ^ 64 \<Longrightarrow> r \<noteq> [] \<Longrightarrow> hd r = CHR ''='' \<or> hd r = CHR ''*'' \<Longrightarrow> parse_unit n pos r = POk n pos r"
  by (cases r) (auto simp: parse_unit_def)

lemma parse_sized:
  fixes sz :: u64
  assumes "hd r = CHR ''='' \<or> hd r = CHR ''*''" "r \<noteq> []"
  defines "text \<equiv> (if unat sz mod (1024 * 1024) = 0 then dec (unat sz div (1024 * 1024)) @ ''M''
       else if unat sz mod 1024 = 0 then dec (unat sz div 1024) @ ''K'' else dec (unat sz))"
  shows "pbind (parse_number pos (text @ r)) parse_unit = POk (unat sz) (pos + length text) r"
proof -
  have sz: "unat sz < 2 ^ 64" using u64_bound [of sz] by simp
  have div: "unat sz div k < 2 ^ 64" for k
    using sz div_le_dividend [of "unat sz" k] by linarith
  have head: "r = [] \<or> \<not> is_digit (hd r)" using assms by auto
  consider (M) "unat sz mod (1024 * 1024) = 0" | (K) "unat sz mod (1024 * 1024) \<noteq> 0" "unat sz mod 1024 = 0"
    | (N) "unat sz mod (1024 * 1024) \<noteq> 0" "unat sz mod 1024 \<noteq> 0" by blast
  then show ?thesis
  proof cases
    case M
    then have "unat sz div (1024 * 1024) * (1024 * 1024) = unat sz" by (metis div_mult_mod_eq add_0_right)
    with M sz show ?thesis
      unfolding text_def by (simp add: parse_number_dec div parse_unit_def)
  next
    case K
    then have "unat sz div 1024 * 1024 = unat sz" by (metis div_mult_mod_eq add_0_right)
    with K sz show ?thesis
      unfolding text_def by (simp add: parse_number_dec div parse_unit_def)
  next
    case N
    then show ?thesis
      unfolding text_def
      by (simp only: if_False parse_number_dec [OF sz head] pbind_simps parse_unit_digitless [OF sz assms(2,1)])
  qed
qed

lemma pbind_assoc: "pbind (pbind r f) g = pbind r (\<lambda>x pos s. pbind (f x pos s) g)"
  by (cases r) simp_all

lemma parse_size_spec_show:
  "parse_block_size_spec pos (show_size_spec b @ CHR ''='' # r) =
   POk b (pos + length (show_size_spec b)) (CHR ''='' # r)"
proof (cases b)
  case (BlockSizeSpec sz count)
  show ?thesis
  proof (cases count)
    case None
    show ?thesis
      unfolding parse_block_size_spec_def pbind_assoc [of _ parse_unit, symmetric] show_size_spec_def Let_def
        BlockSizeSpec None block_size_spec.sel option.case append_Nil2
      by (subst parse_sized) auto
  next
    case (Some n)
    have "parse_count pos' (dec (unat n) @ CHR ''='' # r) = POk n (pos' + length (dec (unat n))) (CHR ''='' # r)" for pos'
      using u32_bound [of n] by (simp add: parse_count_def parse_number_dec)
    then show ?thesis
      unfolding parse_block_size_spec_def pbind_assoc [of _ parse_unit, symmetric] show_size_spec_def Let_def
        BlockSizeSpec Some block_size_spec.sel option.case append_assoc
      by (subst parse_sized) auto
  qed
qed

fun unsized :: "block_chunk \<Rightarrow> bool" where
  "unsized (BlockChunk size_spec _) \<longleftrightarrow> size_spec = None"

lemma peek_size_spec [simp]: "\<not> is_digit c \<Longrightarrow> \<not> peek_is c (show_size_spec b @ r)"
  by (simp add: show_size_spec_def Let_def)

lemma parse_chunk_size_show:
  assumes "variable_count + (if unsized (BlockChunk ss e) then 1 else 0) \<le> 1"
  shows "parse_chunk_size variable_count pos
           ((case ss of None \<Rightarrow> ''*'' | Some b \<Rightarrow> show_size_spec b) @ CHR ''='' # r) =
         POk (ss, variable_count + (if unsized (BlockChunk ss e) then 1 else 0))
           (pos + length (case ss of None \<Rightarrow> ''*'' | Some b \<Rightarrow> show_size_spec b)) (CHR ''='' # r)"
  using assms by (cases ss) (simp_all add: parse_chunk_size_def parse_size_spec_show)

lemma parse_chunk_show:
  fixes ss e henc
  defines "len \<equiv> length (show_chunk henc (BlockChunk ss e))"
  assumes nested: "\<And>pos. p pos (show_espec henc e @ r) = POk e (pos + length (show_espec henc e)) r"
    and vc: "vc' = vc + (if unsized (BlockChunk ss e) then 1 else 0)" "vc' \<le> 1"
  shows "parse_chunks p (Suc n) vc pos (show_chunk henc (BlockChunk ss e) @ r) =
     (if peek_is (CHR '','') r
      then pbind (parse_chunks p n vc' (pos + len + 1) (tl r)) (\<lambda>chunks pos s. POk (BlockChunk ss e # chunks) pos s)
      else POk [BlockChunk ss e] (pos + len) r)"
proof -
  let ?sz = "case ss of None \<Rightarrow> ''*'' | Some b \<Rightarrow> show_size_spec b"
  have shape: "show_chunk henc (BlockChunk ss e) @ r = ?sz @ CHR ''='' # show_espec henc e @ r"
    by (cases ss) simp_all
  have len: "len = length ?sz + 1 + length (show_espec henc e)"
    unfolding len_def by (cases ss) simp_all
  have "pconsume (CHR '','') q r = POk () (q + 1) (tl r)" if "peek_is (CHR '','') r" for q
    using that by (cases r) auto
  then show ?thesis
    unfolding shape len parse_chunks.simps
    by (simp add: parse_chunk_size_show [of vc ss e, folded vc(1), OF vc(2)] nested add.assoc del: unsized.simps)
qed

lemma parse_chunks_show:
  assumes "\<And>ss e pos r. BlockChunk ss e \<in> set cs \<Longrightarrow> follow r \<Longrightarrow> length (show_espec henc e) + length r < k \<Longrightarrow>
      p pos (show_espec henc e @ r) = POk e (pos + length (show_espec henc e)) r"
    and "cs \<noteq> []" "vc + length (filter unsized cs) \<le> 1"
    and "length (comma_separated (map (show_chunk henc) cs) @ CHR ''}'' # r) < n"
    and "length (comma_separated (map (show_chunk henc) cs) @ CHR ''}'' # r) < k"
  shows "parse_chunks p n vc pos (comma_separated (map (show_chunk henc) cs) @ CHR ''}'' # r) =
         POk cs (pos + length (comma_separated (map (show_chunk henc) cs))) (CHR ''}'' # r)"
  using assms
proof (induction cs arbitrary: n vc pos rule: induct_list012)
  case (2 c)
  obtain ss e where c: "c = BlockChunk ss e" by (cases c)
  obtain n' where n: "n = Suc n'" using 2 by (cases n) auto
  have "p pos (show_espec henc e @ CHR ''}'' # r) = POk e (pos + length (show_espec henc e)) (CHR ''}'' # r)" for pos
    by (rule 2(1) [of ss]) (use 2(5) in \<open>auto simp: c follow_def\<close>)
  moreover have "vc + (if unsized (BlockChunk ss e) then 1 else 0) \<le> 1"
    using 2(3) by (auto simp: c split: if_splits)
  ultimately have "parse_chunks p (Suc n') vc pos (show_chunk henc (BlockChunk ss e) @ CHR ''}'' # r) =
      POk [BlockChunk ss e] (pos + length (show_chunk henc (BlockChunk ss e))) (CHR ''}'' # r)"
    by (simp add: parse_chunk_show [where p = p and henc = henc, OF _ refl] del: show_chunk.simps parse_chunks.simps unsized.simps)
  then show ?case
    by (simp add: c n del: show_chunk.simps parse_chunks.simps)
next
  case (3 c c' cs)
  obtain ss e where c: "c = BlockChunk ss e" by (cases c)
  obtain n' where n: "n = Suc n'" using 3 by (cases n) auto
  let ?rest = "comma_separated (map (show_chunk henc) (c' # cs)) @ CHR ''}'' # r"
  define vc' where "vc' = vc + (if unsized (BlockChunk ss e) then 1 else 0)"
  have vc': "vc' \<le> 1" "vc' + length (filter unsized (c' # cs)) \<le> 1"
    using 3(5) by (auto simp: c vc'_def split: if_splits)
  have "p pos (show_espec henc e @ CHR '','' # ?rest) = POk e (pos + length (show_espec henc e)) (CHR '','' # ?rest)" for pos
    by (rule 3(3) [of ss]) (use 3(7) in \<open>auto simp: c follow_def\<close>)
  note chunk = parse_chunk_show [where p = p and henc = henc and e = e and r = "CHR '','' # ?rest", OF this vc'_def vc'(1)]
  have rest: "parse_chunks p n' vc' q ?rest =
      POk (c' # cs) (q + length (comma_separated (map (show_chunk henc) (c' # cs)))) (CHR ''}'' # r)" for q
    by (rule 3(2)) (use 3(3,6,7) vc'(2) in \<open>auto simp: c n\<close>)
  show ?case
    using chunk rest by (simp add: c n del: show_chunk.simps parse_chunks.simps)
qed simp

text \<open>
  The specifications that the text form can express: \<open>ZLib\<close> parameters need a level, numbers
  are in the ranges the parser accepts, and at most one chunk of a table has no size.
\<close>

fun wf_espec :: "espec \<Rightarrow> bool" and wf_chunk :: "block_chunk \<Rightarrow> bool" where
  "wf_espec ENone = True"
| "wf_espec (ZLib l v w) = wf_zlib l v w"
| "wf_espec (Encrypted key iv spec) \<longleftrightarrow>
     length key = 16 \<and> list_all is_alnum key \<and> 1 \<le> length iv \<and> length iv \<le> 8 \<and> wf_espec spec"
| "wf_espec (BlockTable chunks) \<longleftrightarrow>
     chunks \<noteq> [] \<and> length (filter unsized chunks) \<le> 1 \<and> list_all wf_chunk chunks"
| "wf_espec (BCPack n) = (case n of None \<Rightarrow> True | Some n \<Rightarrow> 1 \<le> n \<and> n \<le> 7)"
| "wf_espec (GDeflate l) = (case l of None \<Rightarrow> True | Some l \<Rightarrow> 1 \<le> l \<and> l \<le> 12)"
| "wf_chunk (BlockChunk _ spec) = wf_espec spec"

text \<open>What the parser relies on of the \<open>hex\<close> crate.\<close>

definition hex_inverse :: "(byte list \<Rightarrow> string) \<Rightarrow> (string \<Rightarrow> byte list option) \<Rightarrow> bool" where
  "hex_inverse henc hdec \<longleftrightarrow>
     (\<forall>bs. hdec (henc bs) = Some bs \<and> length (henc bs) = 2 * length bs \<and> list_all is_hexdigit (henc bs))"

lemma parse_bcpack_show:
  "wf_espec (BCPack n) \<Longrightarrow> follow r \<Longrightarrow>
   parse_bcpack pos (show_espec henc (BCPack n) @ r) = POk (BCPack n) (pos + length (show_espec henc (BCPack n))) r"
  using u8_bound by (cases n; cases r)
    (auto simp: parse_bcpack_def follow_def parse_number_dec byte_small word_le_nat_alt leD not_le less_le_trans)

lemma parse_gdeflate_show:
  "wf_espec (GDeflate n) \<Longrightarrow> follow r \<Longrightarrow>
   parse_gdeflate pos (show_espec henc (GDeflate n) @ r) = POk (GDeflate n) (pos + length (show_espec henc (GDeflate n))) r"
  using u8_bound by (cases n; cases r)
    (auto simp: parse_gdeflate_def follow_def parse_number_dec byte_small word_le_nat_alt leD not_le less_le_trans)

lemma parse_hex_until_henc:
  assumes "hex_inverse henc hdec" "lo \<le> length iv" "length iv \<le> hi"
  shows "parse_hex_until hdec (CHR '','') lo hi pos (henc iv @ CHR '','' # r) =
         POk iv (pos + length (henc iv)) (CHR '','' # r)"
proof -
  have hex: "list_all is_hexdigit (henc iv)" "length (henc iv) = 2 * length iv" "hdec (henc iv) = Some iv"
    using assms(1) by (auto simp: hex_inverse_def)
  have "\<not> is_hexdigit (CHR '','')" by code_simp
  then have "list_all (\<lambda>c. c \<noteq> CHR '','') (henc iv)"
    using hex(1) by (auto simp: list_all_iff)
  note span = span_append [OF this, of "CHR '','' # r"]
  show ?thesis
    using assms hex by (simp add: parse_hex_until_def span)
qed

lemma parse_encrypted_show:
  assumes "hex_inverse henc hdec" "wf_espec (Encrypted key iv e)"
    and nested: "\<And>pos. p pos (show_espec henc e @ CHR ''}'' # r) = POk e (pos + length (show_espec henc e)) (CHR ''}'' # r)"
  shows "parse_encrypted hdec p pos (show_espec henc (Encrypted key iv e) @ r) =
         POk (Encrypted key iv e) (pos + length (show_espec henc (Encrypted key iv e))) r"
proof -
  have key: "list_all is_alnum key" "length key = 16" and iv: "1 \<le> length iv" "length iv \<le> 8"
    using assms(2) by auto
  have "parse_identifier q (key @ CHR '','' # x) = POk key (q + length key) (CHR '','' # x)" for q x
    using span_append [OF key(1), of "CHR '','' # x"] by (simp add: parse_identifier_def)
  then show ?thesis
    using parse_hex_until_henc [OF assms(1) iv] key(2) by (simp add: parse_encrypted_def nested)
qed

lemma show_table:
  "cs \<noteq> [] \<Longrightarrow> show_espec henc (BlockTable cs) =
     (case cs of [BlockChunk None e] \<Rightarrow> ''b:'' @ show_espec henc e
      | _ \<Rightarrow> ''b:{'' @ comma_separated (map (show_chunk henc) cs) @ ''}'')"
  by (auto split: list.split block_chunk.split option.split)

lemma show_table_b: "\<exists>s. show_espec henc (BlockTable cs) = CHR ''b'' # s"
  by (cases "cs = []") (auto simp: show_table split: list.split block_chunk.split option.split)

lemma show_espec_head: "\<exists>c s. show_espec henc e = c # s \<and> c \<in> set ''nzebcg''"
proof (cases e)
  case (BlockTable cs)
  then show ?thesis using show_table_b [of henc cs] by auto
next
  case (BCPack n)
  then show ?thesis by (cases n) auto
next
  case (GDeflate n)
  then show ?thesis by (cases n) auto
qed auto

lemma peek_espec [simp]:
  "\<not> peek_digit (show_espec henc e @ r)" "\<not> peek_is (CHR ''*'') (show_espec henc e @ r)"
  "\<not> peek_is (CHR ''{'') (show_espec henc e @ r)"
  using show_espec_head [of henc e] by auto

lemma parse_block_table_show:
  assumes wf: "wf_espec (BlockTable cs)" and "follow r"
    and len: "length (show_espec henc (BlockTable cs) @ r) \<le> k"
    and nested: "\<And>ss e pos r. BlockChunk ss e \<in> set cs \<Longrightarrow> follow r \<Longrightarrow> length (show_espec henc e) + length r < k \<Longrightarrow>
      p pos (show_espec henc e @ r) = POk e (pos + length (show_espec henc e)) r"
  shows "parse_block_table p pos (show_espec henc (BlockTable cs) @ r) =
         POk (BlockTable cs) (pos + length (show_espec henc (BlockTable cs))) r"
proof (cases "\<exists>e. cs = [BlockChunk None e]")
  case True
  then obtain e where cs: "cs = [BlockChunk None e]" by blast
  have "p q (show_espec henc e @ r) = POk e (q + length (show_espec henc e)) r" for q
    using len assms(2) by (intro nested [of None]) (auto simp: cs)
  then show ?thesis
    by (simp add: cs parse_block_table_def)
next
  case False
  let ?body = "comma_separated (map (show_chunk henc) cs)"
  have shape: "show_espec henc (BlockTable cs) = ''b:{'' @ ?body @ ''}''"
    using wf False by (subst show_table) (auto split: list.split block_chunk.split option.split)
  have "parse_chunks p (Suc (length (?body @ CHR ''}'' # r))) 0 q (?body @ CHR ''}'' # r) =
        POk cs (q + length ?body) (CHR ''}'' # r)" for q
    using wf len by (intro parse_chunks_show [where k = k] nested) (auto simp: shape)
  then show ?thesis
    by (simp add: shape parse_block_table_def del: show_espec.simps parse_chunks.simps)
qed

lemma parse_espec_show:
  assumes hex: "hex_inverse henc hdec"
  shows "wf_espec e \<Longrightarrow> follow r \<Longrightarrow> length (show_espec henc e @ r) < n \<Longrightarrow>
    parse_espec hdec n pos (show_espec henc e @ r) = POk e (pos + length (show_espec henc e)) r"
  and "wf_chunk c \<Longrightarrow> c = BlockChunk ss e \<Longrightarrow> follow r \<Longrightarrow> length (show_espec henc e @ r) < n \<Longrightarrow>
    parse_espec hdec n pos (show_espec henc e @ r) = POk e (pos + length (show_espec henc e)) r"
proof (induction e and c arbitrary: r n pos and r n pos ss e)
  case ENone
  then show ?case by (cases n) auto
next
  case (ZLib l v w)
  then obtain n' where "n = Suc n'" by (cases n) auto
  then show ?case using parse_zlib_show [of l v w r pos] ZLib by simp
next
  case (Encrypted key iv e)
  then obtain n' where n: "n = Suc n'" by (cases n) auto
  have "parse_espec hdec n' q (show_espec henc e @ CHR ''}'' # r) = POk e (q + length (show_espec henc e)) (CHR ''}'' # r)" for q
    using Encrypted by (intro Encrypted.IH) (auto simp: n follow_def)
  then show ?case
    using parse_encrypted_show [OF hex Encrypted.prems(1), of "parse_espec hdec n'" r pos] by (simp add: n)
next
  case (BlockTable cs)
  then obtain n' where n: "n = Suc n'" by (cases n) auto
  have "parse_espec hdec n' q (show_espec henc e @ s) = POk e (q + length (show_espec henc e)) s"
    if "BlockChunk ss e \<in> set cs" "follow s" "length (show_espec henc e) + length s < n'" for ss e q s
    using that BlockTable.prems(1) by (intro BlockTable.IH [of _ ss]) (auto simp: list_all_iff)
  note table = parse_block_table_show [OF BlockTable.prems(1,2) _ this, of n']
  obtain s where "show_espec henc (BlockTable cs) = CHR ''b'' # s"
    using show_table_b by blast
  with table BlockTable.prems(3) show ?case
    by (simp add: n del: show_espec.simps)
next
  case (BCPack b)
  then obtain n' where "n = Suc n'" by (cases n) auto
  then show ?case using parse_bcpack_show [of b r pos henc] BCPack by (cases b) simp_all
next
  case (GDeflate l)
  then obtain n' where "n = Suc n'" by (cases n) auto
  then show ?case using parse_gdeflate_show [of l r pos henc] GDeflate by (cases l) simp_all
next
  case (BlockChunk ss e)
  then show ?case by simp
qed

section \<open>What the parser returns\<close>

definition yields :: "('a \<Rightarrow> bool) \<Rightarrow> 'a presult \<Rightarrow> bool" where
  "yields P r \<longleftrightarrow> (case r of POk x _ _ \<Rightarrow> P x | _ \<Rightarrow> True)"

lemma yields_simps [simp]:
  "yields P (POk x pos s) \<longleftrightarrow> P x" "yields P (PErr e)" "yields P PPanic" "yields P PFuel"
  by (simp_all add: yields_def)

lemma yields_bind: "yields P r \<Longrightarrow> (\<And>x pos s. P x \<Longrightarrow> yields Q (f x pos s)) \<Longrightarrow> yields Q (pbind r f)"
  by (cases r) auto

lemma yields_any: "(\<And>x pos s. yields Q (f x pos s)) \<Longrightarrow> yields Q (pbind r f)"
  by (cases r) auto

lemmas yields_skip =
  yields_any [where r = "pconsume c pos s" for c pos s]
  yields_any [where r = "parse_number pos s" for pos s]
  yields_any [where r = "parse_zlib_variant pos s" for pos s]
  yields_any [where r = "parse_chunk_size vc pos s" for vc pos s]
  yields_any [where r = "parse_block_size_spec pos s" for pos s]
  yields_any [where r = "if b then pconsume c pos s else POk () pos' s'" for b c pos s pos' s']

text \<open>The ranges of a parsed specification; unlike \<^const>\<open>wf_espec\<close> they allow a variant without a level.\<close>

definition level_ok :: "byte \<Rightarrow> byte option \<Rightarrow> bool" where
  "level_ok hi l \<longleftrightarrow> (case l of None \<Rightarrow> True | Some n \<Rightarrow> 1 \<le> n \<and> n \<le> hi)"

definition bits_ok :: "byte option \<Rightarrow> bool" where
  "bits_ok w \<longleftrightarrow> (case w of None \<Rightarrow> True | Some n \<Rightarrow> 8 \<le> n \<and> n \<le> 15)"

fun in_range :: "espec \<Rightarrow> bool" and chunk_in_range :: "block_chunk \<Rightarrow> bool" where
  "in_range ENone = True"
| "in_range (ZLib l v w) \<longleftrightarrow> level_ok 9 l \<and> bits_ok w"
| "in_range (Encrypted key iv spec) \<longleftrightarrow>
     length key = 16 \<and> list_all is_alnum key \<and> 1 \<le> length iv \<and> length iv \<le> 8 \<and> in_range spec"
| "in_range (BlockTable chunks) \<longleftrightarrow>
     chunks \<noteq> [] \<and> length (filter unsized chunks) \<le> 1 \<and> list_all chunk_in_range chunks"
| "in_range (BCPack n) = level_ok 7 n"
| "in_range (GDeflate l) = level_ok 12 l"
| "chunk_in_range (BlockChunk _ spec) = in_range spec"

lemma byte_of_nat_le: "n < 256 \<Longrightarrow> (word_of_nat n \<le> (b :: byte)) = (n \<le> unat b)" "n < 256 \<Longrightarrow> ((b :: byte) \<le> word_of_nat n) = (unat b \<le> n)"
  by (simp_all add: word_le_nat_alt unat_of_nat)

lemma yields_level: "yields (level_ok 9) (parse_level b pos s)"
  by (auto simp: parse_level_def level_ok_def byte_of_nat_le intro!: yields_skip)

lemma yields_bits: "yields (\<lambda>w. bits_ok (Some w)) (parse_window_bits pos s)"
  by (auto simp: parse_window_bits_def bits_ok_def byte_of_nat_le intro!: yields_skip)

lemma bits_ok_None [simp]: "bits_ok None"
  by (simp add: bits_ok_def)

lemma yields_params: "yields (\<lambda>x. bits_ok (snd x)) (if b then parse_zlib_params pos s else POk (None, None) pos s)"
  unfolding parse_zlib_params_def
  by (auto intro!: yields_skip yields_bind [OF yields_bits])

lemma yields_zlib: "yields in_range (parse_zlib pos s)"
  unfolding parse_zlib_def Let_def case_prod_beta
  by (auto simp: level_ok_def intro!: yields_skip yields_bind [OF yields_level] yields_bind [OF yields_params])

lemma yields_bcpack: "yields in_range (parse_bcpack pos s)"
  by (auto simp: parse_bcpack_def level_ok_def byte_of_nat_le intro!: yields_skip)

lemma yields_gdeflate: "yields in_range (parse_gdeflate pos s)"
  by (auto simp: parse_gdeflate_def level_ok_def byte_of_nat_le intro!: yields_skip)

lemma yields_identifier: "yields (list_all is_alnum) (parse_identifier pos s)"
  by (auto simp: parse_identifier_def Let_def list_all_iff dest: set_takeWhileD)

lemma yields_hex:
  assumes "\<And>h bs. hdec h = Some bs \<Longrightarrow> 2 * length bs = length h"
  shows "yields (\<lambda>iv. lo \<le> length iv \<and> length iv \<le> hi) (parse_hex_until hdec c lo hi pos s)"
  using assms [of "takeWhile (\<lambda>x. x \<noteq> c) s"] by (auto simp: parse_hex_until_def Let_def split: option.split)

lemma yields_encrypted:
  assumes "\<And>h bs. hdec h = Some bs \<Longrightarrow> 2 * length bs = length h"
    and "\<And>pos s. yields in_range (p pos s)"
  shows "yields in_range (parse_encrypted hdec p pos s)"
  unfolding parse_encrypted_def
  by (auto intro!: yields_skip yields_bind [OF yields_identifier] yields_bind [OF yields_hex [OF assms(1)]]
        yields_bind [OF assms(2)])

lemma yields_chunk_size:
  "vc \<le> 1 \<Longrightarrow> yields (\<lambda>(ss, vc'). vc' \<le> 1 \<and> vc + (if ss = None then 1 else 0) \<le> vc') (parse_chunk_size vc pos s)"
  unfolding parse_chunk_size_def
  by (auto intro!: yields_skip yields_any [where r = "parse_count pos s" for pos s])

lemma yields_chunks:
  assumes p: "\<And>pos s. yields in_range (p pos s)"
  shows "vc \<le> 1 \<Longrightarrow>
    yields (\<lambda>cs. cs \<noteq> [] \<and> vc + length (filter unsized cs) \<le> 1 \<and> list_all chunk_in_range cs) (parse_chunks p n vc pos s)"
proof (induction n arbitrary: vc pos s)
  case (Suc n)
  show ?case
    unfolding parse_chunks.simps case_prod_beta
    by (rule yields_bind [OF yields_chunk_size [OF Suc.prems]], rule yields_any, rule yields_bind [OF p])
       (auto simp del: length_0_conv intro!: yields_skip yields_bind [OF Suc.IH])
qed simp

lemma yields_block_table:
  assumes p: "\<And>pos s. yields in_range (p pos s)"
  shows "yields in_range (parse_block_table p pos s)"
proof -
  have single: "yields in_range (pbind (p pos s) (\<lambda>spec pos s. POk (BlockTable [BlockChunk ss spec]) pos s))" for pos s ss
    by (rule yields_bind [OF p]) simp
  have braces: "yields in_range (pbind (parse_chunks p n 0 pos s) (\<lambda>chunks pos s.
      pbind (pconsume (CHR ''}'') pos s) (\<lambda>_ pos s. POk (BlockTable chunks) pos s)))" for n pos s
    by (rule yields_bind [OF yields_chunks [OF p]], simp, rule yields_any) simp
  have "yields in_range (if b then (if c then pbind r (\<lambda>size_spec pos s. pbind (pconsume (CHR ''='') pos s) (\<lambda>_ pos s.
          pbind (p pos s) (\<lambda>spec pos s. POk (BlockTable [BlockChunk size_spec spec]) pos s)))
        else pbind (p pos s) (\<lambda>spec pos s. POk (BlockTable [BlockChunk None spec]) pos s))
      else pbind r' (\<lambda>_ pos s. pbind (parse_chunks p (Suc (length s)) 0 pos s) (\<lambda>chunks pos s.
        pbind (pconsume (CHR ''}'') pos s) (\<lambda>_ pos s. POk (BlockTable chunks) pos s))))" for b c r r' pos s
    by (simp only: yields_any single braces split: if_split) simp
  then show ?thesis
    unfolding parse_block_table_def by (intro yields_any)
qed

lemma yields_espec:
  assumes "\<And>h bs. hdec h = Some bs \<Longrightarrow> 2 * length bs = length h"
  shows "yields in_range (parse_espec hdec n pos s)"
proof (induction n arbitrary: pos s)
  case (Suc n)
  show ?case
    using yields_encrypted [of hdec, OF assms Suc.IH] yields_block_table [OF Suc.IH] yields_zlib yields_bcpack yields_gdeflate
    by (auto intro!: yields_skip)
qed simp

text \<open>A concrete pair of hex functions: the standard pairwise decoder.\<close>

fun hex_pairs :: "string \<Rightarrow> byte list option" where
  "hex_pairs [] = Some []"
| "hex_pairs [c] = None"
| "hex_pairs (c # d # cs) =
     (case (hex_value c, hex_value d, hex_pairs cs) of
        (Some x, Some y, Some bs) \<Rightarrow> Some (word_of_nat (16 * x + y) # bs)
      | _ \<Rightarrow> None)"

lemma hex_pairs_length: "hex_pairs h = Some bs \<Longrightarrow> 2 * length bs = length h"
  by (induction h arbitrary: bs rule: hex_pairs.induct) (auto split: option.splits)

lemma hex_inverse_pairs: "hex_inverse hex_lower hex_pairs"
proof -
  have nibbles: "unat b div 16 < 16" for b :: byte using u8_bound [of b] by simp
  have "hex_pairs (hex_lower bs) = Some bs \<and> list_all is_hexdigit (hex_lower bs)" for bs
  proof (induction bs)
    case (Cons b bs)
    have "word_of_nat (16 * (unat b div 16) + unat b mod 16) = b" by simp
    with Cons nibbles [of b] show ?case
      by (simp add: hex_lower_def hex_byte_def hex_value_digit is_hexdigit_def)
  qed (simp add: hex_lower_def)
  then show ?thesis by (simp add: hex_inverse_def)
qed

lemma espec_parse_show:
  assumes "hex_inverse henc hdec" "wf_espec e"
  shows "espec_parse hdec (show_espec henc e) = POk e (length (show_espec henc e)) []"
  using parse_espec_show(1) [OF assms, of "[]" "Suc (length (show_espec henc e))" 0] show_espec_head [of henc e]
  by (auto simp: espec_parse_def follow_def simp del: parse_espec.simps show_espec.simps)

section \<open>Properties\<close>


definition example_espec :: espec where
  "example_espec =
     BlockTable [BlockChunk (Some (BlockSizeSpec 1048576 (Some 3))) (ZLib (Some 9) (Some MPQ) (Some 15)),
       BlockChunk (Some (BlockSizeSpec 16384 None)) (Encrypted ''0123456789abcdef'' [1, 255] (BlockTable [BlockChunk None ENone])),
       BlockChunk None (BCPack (Some 7))]"


text \<open>
  C33. The recursive-descent parser ends on every input: the recursion depth and the number of chunks
  never exceed the number of characters, so \<open>parse\<close> always gives a specification, an error or
  the overflow panic of a block size.
\<close>

theorem espec_parse_terminates: "espec_parse hdec input \<noteq> PFuel"
proof -
  have "leaves (length input) (parse_espec hdec (Suc (length input)) 0 input)"
    by (rule leaves_espec) simp
  then show ?thesis
    by (cases "parse_espec hdec (Suc (length input)) 0 input") (auto simp: espec_parse_def simp del: parse_espec.simps)
qed



text \<open>
  Zlib parameters without a level are accepted but not printed back: \<open>z:{,8}\<close> parses to window
  bits with no level, whose \<open>Display\<close> text drops the comma, so that it reads back as that level, or
  as an invalid level above 9; a variant without a level prints a text that does not parse.
\<close>

theorem zlib_without_level_misprinted:
  assumes "8 \<le> wb" "wb \<le> 15"
  shows "espec_parse hdec (''z:{,'' @ dec (unat wb) @ ''}'') = POk (ZLib None None (Some wb)) (length (dec (unat wb)) + 5) []
    \<and> espec_parse hdec (show_espec henc (ZLib None None (Some wb))) =
      (if wb \<le> 9 then POk (ZLib (Some wb) None None) (length (dec (unat wb)) + 4) [] else PErr (InvalidLevel wb))
    \<and> espec_parse hdec (show_espec henc (ZLib None (Some v) None)) = PErr (UnexpectedChar (CHR ''}'') 3)"
proof (intro conjI)
  have wb: "8 \<le> unat wb" "unat wb \<le> 15" "unat wb < 256" using assms u8_bound [of wb] by (simp_all add: word_le_nat_alt)
  show "espec_parse hdec (''z:{,'' @ dec (unat wb) @ ''}'') = POk (ZLib None None (Some wb)) (length (dec (unat wb)) + 5) []"
    using assms by (simp add: espec_parse_def parse_zlib_def parse_level_def parse_zlib_params_def parse_window_bits_dec Let_def)
  show "espec_parse hdec (show_espec henc (ZLib None None (Some wb))) =
      (if wb \<le> 9 then POk (ZLib (Some wb) None None) (length (dec (unat wb)) + 4) [] else PErr (InvalidLevel wb))"
    using wb by (simp add: espec_parse_def parse_zlib_def parse_level_def parse_zlib_params_def parse_number_dec byte_small
        word_le_nat_alt Let_def)
  show "espec_parse hdec (show_espec henc (ZLib None (Some v) None)) = PErr (UnexpectedChar (CHR ''}'') 3)"
    by (cases v) (simp_all add: espec_parse_def parse_zlib_def parse_level_def parse_zlib_params_def pconsume_def
        is_digit_def Let_def)
qed

theorem zlib_without_level_misprinted_witness:
  "espec_parse hex_pairs ''z:{,8}'' = POk (ZLib None None (Some 8)) 6 []
   \<and> espec_parse hex_pairs (show_espec hex_lower (ZLib None None (Some 8))) = POk (ZLib (Some 8) None None) 5 []"
proof -
  have "dec 8 = ''8''" by code_simp
  then show ?thesis
    using zlib_without_level_misprinted [of 8 hex_pairs hex_lower MPQ] by simp
qed

end
