(* ===== verification/Outcome.thy ===== *)
theory Outcome
  imports Prelude
begin

text \<open>
  The result of a fallible operation that may also panic, and readers of binary data: functions
  from the bytes that are left to a result with the bytes that are left after it. The locale
  \<open>stream_codec\<close> is the contract of a variable-width record, a writer whose output the reader
  takes off the front of any input; \<open>read_many\<close> is the counted table of such records.
\<close>

section \<open>Results\<close>

datatype ('e, 'a) outcome = Ret 'a | Fail 'e | Panic

definition obind :: "('e, 'a) outcome \<Rightarrow> ('a \<Rightarrow> ('e, 'b) outcome) \<Rightarrow> ('e, 'b) outcome" where
  "obind r f = (case r of Ret x \<Rightarrow> f x | Fail e \<Rightarrow> Fail e | Panic \<Rightarrow> Panic)"

fun omap :: "('a \<Rightarrow> ('e, 'b) outcome) \<Rightarrow> 'a list \<Rightarrow> ('e, 'b list) outcome" where
  "omap f [] = Ret []"
| "omap f (x # xs) = obind (f x) (\<lambda>y. obind (omap f xs) (\<lambda>ys. Ret (y # ys)))"

section \<open>Readers\<close>

type_synonym ('e, 'a) reader = "byte list \<Rightarrow> ('e, 'a \<times> byte list) outcome"

definition rbind :: "('e, 'a \<times> byte list) outcome \<Rightarrow> ('a \<Rightarrow> ('e, 'b) reader) \<Rightarrow> ('e, 'b \<times> byte list) outcome" where
  "rbind r f = obind r (\<lambda>(x, s). f x s)"

text \<open>\<open>Read::read_exact\<close>: the end of the input is an error.\<close>

definition read_exact :: "'e \<Rightarrow> nat \<Rightarrow> ('e, byte list) reader" where
  "read_exact eof n s = (if n \<le> length s then Ret (take n s, drop n s) else Fail eof)"

fun read_many :: "nat \<Rightarrow> ('e, 'a) reader \<Rightarrow> ('e, 'a list) reader" where
  "read_many 0 rd s = Ret ([], s)"
| "read_many (Suc n) rd s = rbind (rd s) (\<lambda>x s. rbind (read_many n rd s) (\<lambda>xs s. Ret (x # xs, s)))"

section \<open>Laws\<close>

lemma obind_simps [simp]: "obind (Ret x) f = f x" "obind (Fail e) f = Fail e" "obind Panic f = Panic"
  by (simp_all add: obind_def)

lemma rbind_simps [simp]: "rbind (Ret (x, s)) f = f x s" "rbind (Fail e) f = Fail e" "rbind Panic f = Panic"
  by (simp_all add: rbind_def)

lemma obind_Ret: "obind r f = Ret y \<longleftrightarrow> (\<exists>x. r = Ret x \<and> f x = Ret y)"
  by (cases r) simp_all

lemma rbind_Ret: "rbind r f = Ret y \<longleftrightarrow> (\<exists>x s. r = Ret (x, s) \<and> f x s = Ret y)"
  by (cases r) (auto simp: rbind_def)

lemma obind_Panic: "obind r f = Panic \<longleftrightarrow> r = Panic \<or> (\<exists>x. r = Ret x \<and> f x = Panic)"
  by (cases r) simp_all

lemma rbind_Panic: "rbind r f = Panic \<longleftrightarrow> r = Panic \<or> (\<exists>x s. r = Ret (x, s) \<and> f x s = Panic)"
  by (cases r) (auto simp: rbind_def)

lemma obind_cong [fundef_cong]:
  "r = r' \<Longrightarrow> (\<And>x. r' = Ret x \<Longrightarrow> f x = g x) \<Longrightarrow> obind r f = obind r' g"
  by (cases r') simp_all

lemma omap_cong [fundef_cong]:
  "xs = ys \<Longrightarrow> (\<And>x. x \<in> set ys \<Longrightarrow> f x = g x) \<Longrightarrow> omap f xs = omap g ys"
  by (induction ys arbitrary: xs) auto

lemma omap_Ret: "(\<And>x. x \<in> set xs \<Longrightarrow> f x = Ret (g x)) \<Longrightarrow> omap f xs = Ret (map g xs)"
  by (induction xs) auto

lemma omap_append: "omap f (xs @ ys) = obind (omap f xs) (\<lambda>as. obind (omap f ys) (\<lambda>bs. Ret (as @ bs)))"
proof (induction xs)
  case Nil
  show ?case by (cases "omap f ys") simp_all
next
  case (Cons x xs)
  then show ?case
    by (cases "f x"; cases "omap f xs"; cases "omap f ys") simp_all
qed

lemma omap_length: "omap f xs = Ret ys \<Longrightarrow> length ys = length xs"
  by (induction xs arbitrary: ys) (auto simp: obind_Ret)

lemma omap_list_all2: "omap f xs = Ret ys \<longleftrightarrow> list_all2 (\<lambda>x y. f x = Ret y) xs ys"
proof (induction xs arbitrary: ys)
  case (Cons x xs)
  then show ?case by (cases ys) (auto simp: obind_Ret)
qed auto

lemma read_exact_append [simp]: "length xs = n \<Longrightarrow> read_exact eof n (xs @ s) = Ret (xs, s)"
  by (simp add: read_exact_def)

lemma read_exact_Ret: "read_exact eof n s = Ret (x, s') \<longleftrightarrow> s = x @ s' \<and> length x = n"
  by (auto simp: read_exact_def)

lemma read_exact_no_Panic [simp]: "read_exact eof n s \<noteq> Panic"
  by (simp add: read_exact_def)

lemma read_many_no_Panic: "(\<And>s. rd s \<noteq> Panic) \<Longrightarrow> read_many n rd s \<noteq> Panic"
  by (induction n arbitrary: s) (auto simp: rbind_Panic)

lemma read_many_shrinks:
  assumes "\<And>s x s'. rd s = Ret (x, s') \<Longrightarrow> length s' \<le> length s"
  shows "read_many n rd s = Ret (xs, s') \<Longrightarrow> length s' \<le> length s"
proof (induction n arbitrary: s xs)
  case (Suc n)
  then obtain x t ys where "rd s = Ret (x, t)" "read_many n rd t = Ret (ys, s')"
    by (auto simp: rbind_Ret)
  then show ?case
    using assms [of s x t] Suc.IH [of t ys] by simp
qed simp

locale stream_codec =
  fixes wf :: "'a \<Rightarrow> bool"
    and wr :: "'a \<Rightarrow> byte list"
    and rd :: "('e, 'a) reader"
  assumes read_write: "wf x \<Longrightarrow> rd (wr x @ s) = Ret (x, s)"
begin

lemma read_many_write:
  "list_all wf xs \<Longrightarrow> read_many (length xs) rd (concat (map wr xs) @ s) = Ret (xs, s)"
  by (induction xs) (simp_all add: read_write)

lemma write_inj: "wf x \<Longrightarrow> wf y \<Longrightarrow> wr x @ s = wr y @ t \<Longrightarrow> x = y \<and> s = t"
  by (metis read_write outcome.inject(1) prod.inject)

end

end
