(* ===== verification/Lz4_Frame.thy ===== *)
theory Lz4_Frame
  imports Outcome
begin

text \<open>
  The framing of LZ4 chunks in \<open>cascette-formats/src/blte/compression.rs\<close>: a ten-byte header and
  raw LZ4 blocks one after the other, whose extents the decoder finds by walking their
  token streams. The block codec (crate \<open>lz4_flex\<close>) and the zlib codec (crate \<open>flate2\<close>)
  are arguments. Positions \<open>src_pos + ip\<close> of the code are here the bytes that are left.
\<close>

section \<open>Model\<close>

text \<open>
  The external codecs. \<open>zlib_reads\<close> gives what the successive reads of a decoder return and
  whether the stream then ends or fails; the message texts of errors are left out.
\<close>

record codecs =
  zlib_encode :: "byte list \<Rightarrow> byte list option"
  zlib_reads :: "byte list \<Rightarrow> byte list list \<times> bool"
  lz4_compress :: "byte list \<Rightarrow> byte list"
  lz4_compress_with_dict :: "byte list \<Rightarrow> byte list \<Rightarrow> byte list"
  lz4_decompress_with_dict :: "byte list \<Rightarrow> nat \<Rightarrow> byte list \<Rightarrow> byte list option"

definition LZ4_DEFAULT_BLOCK_SIZE :: nat where "LZ4_DEFAULT_BLOCK_SIZE = 0x4000"
definition LZ4_DICT_WINDOW :: nat where "LZ4_DICT_WINDOW = 64 * 1024"
definition LZ4_HEADER_SIZE :: nat where "LZ4_HEADER_SIZE = 10"
definition MAX_DECOMPRESSION_SIZE :: nat where "MAX_DECOMPRESSION_SIZE = 1024 * 1024 * 1024"

text \<open>The last 64 KiB of the output so far, on both sides.\<close>

definition window :: "byte list \<Rightarrow> byte list" where
  "window xs = drop (length xs - LZ4_DICT_WINDOW) xs"

function lz4_blocks :: "codecs \<Rightarrow> byte list \<Rightarrow> byte list \<Rightarrow> byte list" where
  "lz4_blocks c dict_tail data =
     (if data = [] then []
      else let n = min (length data) LZ4_DEFAULT_BLOCK_SIZE;
               input = take n data;
               block = (if dict_tail = [] then lz4_compress c input else lz4_compress_with_dict c input dict_tail)
           in block @ lz4_blocks c (window (dict_tail @ input)) (drop n data))"
  by pat_completeness auto
termination
  by (relation "measure (\<lambda>(c, d, xs). length xs)") (auto simp: LZ4_DEFAULT_BLOCK_SIZE_def)

definition compress_lz4 :: "codecs \<Rightarrow> byte list \<Rightarrow> byte list" where
  "compress_lz4 c data =
     (let blocks = lz4_blocks c [] data in
      [1] @ to_be 4 (word_of_nat (length blocks) :: u32) @ to_be 4 (word_of_nat (length data) :: u32) @ [14] @ blocks)"

text \<open>The extension bytes of a length: all bytes up to the first that is not 255.\<close>

fun ext_len :: "nat \<Rightarrow> byte list \<Rightarrow> (nat \<times> byte list) option" where
  "ext_len n [] = None"
| "ext_len n (b # s) = (if b \<noteq> 255 then Some (n + unat b, s) else ext_len (n + unat b) s)"

definition token_len :: "nat \<Rightarrow> byte list \<Rightarrow> (nat \<times> byte list) option" where
  "token_len nibble s = (if nibble = 15 then ext_len 15 s else Some (nibble, s))"

lemma ext_len_shorter: "ext_len n s = Some (m, s') \<Longrightarrow> length s' < length s"
  by (induction n s rule: ext_len.induct) (auto split: if_splits)

lemma token_len_shorter: "token_len n s = Some (m, s') \<Longrightarrow> length s' \<le> length s"
  by (auto simp: token_len_def split: if_splits dest: ext_len_shorter)

text \<open>The walk over the tokens of one block; the bytes after the block, \<open>None\<close> on every error.\<close>

function walk_block :: "nat \<Rightarrow> nat \<Rightarrow> byte list \<Rightarrow> byte list option" where
  "walk_block cap out [] = None"
| "walk_block cap out (token # s) =
     (case token_len (unat (drop_bit 4 token)) s of
        None \<Rightarrow> None
      | Some (lit_len, s1) \<Rightarrow>
          if length s1 < lit_len then None
          else if out + lit_len > cap then None
          else if out + lit_len = cap \<or> drop lit_len s1 = [] then Some (drop lit_len s1)
          else if length (drop lit_len s1) < 2 then None
          else (case token_len (unat (token AND 0x0F)) (drop 2 (drop lit_len s1)) of
                  None \<Rightarrow> None
                | Some (match_len, s2) \<Rightarrow>
                    if out + lit_len + match_len + 4 > cap then None
                    else walk_block cap (out + lit_len + match_len + 4) s2))"
  by pat_completeness auto
termination
  by (relation "measure (\<lambda>(cap, out, s). length s)") (auto dest!: token_len_shorter)

lemma walk_block_shorter: "walk_block cap out s = Some s' \<Longrightarrow> length s' < length s"
proof (induction cap out s rule: walk_block.induct)
  case (2 cap out token s)
  obtain lit s1 where lit: "token_len (unat (drop_bit 4 token)) s = Some (lit, s1)"
    using 2(2) by (auto split: option.splits)
  note s1 = token_len_shorter [OF lit]
  show ?case
  proof (cases "out + lit = cap \<or> drop lit s1 = []")
    case True
    then have "s' = drop lit s1" using 2(2) lit by (auto split: if_splits)
    then show ?thesis using s1 by simp
  next
    case False
    then obtain m s2 where m: "token_len (unat (token AND 0x0F)) (drop 2 (drop lit s1)) = Some (m, s2)"
      "walk_block cap (out + lit + m + 4) s2 = Some s'" "\<not> length (drop lit s1) < 2" "\<not> length s1 < lit"
      "\<not> out + lit > cap" "\<not> out + lit + m + 4 > cap"
      using 2(2) lit by (auto split: option.splits if_splits)
    have "length s' < length s2"
      by (rule 2(1) [OF lit refl m(4,5) False m(3,1) refl m(6,2)])
    then show ?thesis using token_len_shorter [OF m(1)] s1 by simp
  qed
qed simp

text \<open>The loop over the blocks; \<open>None\<close> is the error of any of its checks.\<close>

function lz4_unblock :: "codecs \<Rightarrow> nat \<Rightarrow> nat \<Rightarrow> byte list \<Rightarrow> byte list \<Rightarrow> byte list option" where
  "lz4_unblock c tot block_size output s =
     (if length output < tot
      then let cap = min (tot - length output) block_size in
           case walk_block cap 0 s of
             None \<Rightarrow> None
           | Some s' \<Rightarrow>
               (case lz4_decompress_with_dict c (take (length s - length s') s) cap (window output) of
                  None \<Rightarrow> None
                | Some decoded \<Rightarrow>
                    if length decoded \<noteq> cap then None
                    else lz4_unblock c tot block_size (output @ decoded) s')
      else if s \<noteq> [] then None else Some output)"
  by pat_completeness auto
termination
  by (relation "measure (\<lambda>(c, tot, bs, output, s). length s)") (auto dest: walk_block_shorter)

definition decompress_lz4_bnl :: "codecs \<Rightarrow> byte list \<Rightarrow> byte list option" where
  "decompress_lz4_bnl c data =
     (if length data < LZ4_HEADER_SIZE then None
      else if data ! 0 \<noteq> 1 then None
      else let compressed_totalal = unat (from_be (slice 1 5 data) :: u32);
               decompressed_totalal = unat (from_be (slice 5 9 data) :: u32);
               exponent = unat (data ! 9) in
           if exponent \<ge> 32 then None
           else let block_size = (2 :: nat) ^ exponent in
           if block_size \<le> 0x400 \<or> block_size > 0x10000 then None
           else if decompressed_totalal > MAX_DECOMPRESSION_SIZE then None
           else if compressed_totalal + LZ4_HEADER_SIZE \<noteq> length data then None
           else lz4_unblock c decompressed_totalal block_size [] (drop LZ4_HEADER_SIZE data))"

declare lz4_blocks.simps [simp del] lz4_unblock.simps [simp del]

section \<open>The LZ4 block format\<close>

text \<open>
  What the framing relies on of the block codec is the documented block format: sequences of
  literals and a match, each behind a token with two four-bit lengths that extension bytes
  continue, and last a sequence that is literals only.
\<close>

definition nibble :: "nat \<Rightarrow> nat" where "nibble n = min n 15"

definition len_ext :: "nat \<Rightarrow> byte list" where
  "len_ext n = (if n < 15 then [] else replicate ((n - 15) div 255) 255 @ [word_of_nat ((n - 15) mod 255)])"

definition lz4_token :: "nat \<Rightarrow> nat \<Rightarrow> byte" where
  "lz4_token hi lo = word_of_nat (16 * hi + lo)"

datatype lz4_seq = Lz4Seq "byte list" "byte list" nat

fun seq_bytes :: "lz4_seq \<Rightarrow> byte list" where
  "seq_bytes (Lz4Seq lits offset m) =
     lz4_token (nibble (length lits)) (nibble (m - 4)) # len_ext (length lits) @ lits @ offset @ len_ext (m - 4)"

definition last_bytes :: "nat \<Rightarrow> byte list \<Rightarrow> byte list" where
  "last_bytes lo lits = lz4_token (nibble (length lits)) lo # len_ext (length lits) @ lits"

fun seq_ok :: "lz4_seq \<Rightarrow> bool" where
  "seq_ok (Lz4Seq lits offset m) \<longleftrightarrow> length offset = 2 \<and> 4 \<le> m"

fun seq_out :: "lz4_seq \<Rightarrow> nat" where
  "seq_out (Lz4Seq lits offset m) = length lits + m"

definition is_lz4_block :: "byte list \<Rightarrow> nat \<Rightarrow> bool" where
  "is_lz4_block block n \<longleftrightarrow>
     (\<exists>seqs lo lits. lo < 16 \<and> list_all seq_ok seqs \<and> block = concat (map seq_bytes seqs) @ last_bytes lo lits
        \<and> n = sum_list (map seq_out seqs) + length lits)"

definition lz4_ok :: "codecs \<Rightarrow> bool" where
  "lz4_ok c \<longleftrightarrow>
     (\<forall>input dict. input \<noteq> [] \<longrightarrow>
        (let block = (if dict = [] then lz4_compress c input else lz4_compress_with_dict c input dict) in
         is_lz4_block block (length input) \<and> lz4_decompress_with_dict c block (length input) dict = Some input
         \<and> length block \<le> length input + length input div 255 + 16))"

lemma lz4_okD:
  fixes dict
  assumes "lz4_ok c" "input \<noteq> []"
  defines "block \<equiv> (if dict = [] then lz4_compress c input else lz4_compress_with_dict c input dict)"
  shows "is_lz4_block block (length input)" "lz4_decompress_with_dict c block (length input) dict = Some input"
    "length block \<le> length input + length input div 255 + 16"
  using assms(1,2) unfolding lz4_ok_def Let_def block_def by blast+

lemma token_nibbles:
  assumes "a < 16" "b < 16"
  shows "unat (drop_bit 4 (lz4_token a b)) = a" "unat (lz4_token a b AND 0x0F) = b"
proof -
  have "list_all (\<lambda>a. list_all (\<lambda>b. unat (drop_bit 4 (lz4_token a b)) = a \<and> unat (lz4_token a b AND 0x0F) = b) [0..<16]) [0..<16]"
    by code_simp
  then show "unat (drop_bit 4 (lz4_token a b)) = a" "unat (lz4_token a b AND 0x0F) = b"
    using assms by (simp_all add: list_all_iff)
qed

lemma nibble_less: "nibble n < 16"
  by (simp add: nibble_def)

lemma unat_255 [simp]: "unat (255 :: byte) = 255"
  by code_simp

lemma ext_len_replicate: "ext_len n (replicate k 255 @ s) = ext_len (n + 255 * k) s"
  by (induction k arbitrary: n) (simp_all add: add.assoc del: unsigned_numeral)

lemma token_len_ext: "token_len (nibble n) (len_ext n @ s) = Some (n, s)"
proof (cases "n < 15")
  case False
  let ?b = "word_of_nat ((n - 15) mod 255) :: byte"
  have less: "(n - 15) mod 255 < 255" by simp
  then have b: "unat ?b = (n - 15) mod 255" by (subst unat_of_nat) simp
  then have "?b \<noteq> 255" using less by auto
  then have "token_len (nibble n) (len_ext n @ s) = Some (15 + 255 * ((n - 15) div 255) + (n - 15) mod 255, s)"
    using False b by (simp add: token_len_def nibble_def len_ext_def ext_len_replicate)
  also have "15 + 255 * ((n - 15) div 255) + (n - 15) mod 255 = n"
    using False mult_div_mod_eq [of 255 "n - 15"] by linarith
  finally show ?thesis .
qed (simp add: token_len_def nibble_def len_ext_def)

lemma walk_block_seqs:
  assumes "list_all seq_ok seqs" "lo < 16" "out + sum_list (map seq_out seqs) + length lits = cap"
  shows "walk_block cap out (concat (map seq_bytes seqs) @ last_bytes lo lits @ rest) = Some rest"
  using assms
proof (induction seqs arbitrary: out)
  case Nil
  then show ?case
    by (simp add: last_bytes_def token_nibbles nibble_less token_len_ext)
next
  case (Cons q seqs)
  obtain ls off m where q: "q = Lz4Seq ls off m" by (cases q)
  have off: "length off = 2" "4 \<le> m" using Cons.prems q by auto
  let ?tail = "concat (map seq_bytes seqs) @ last_bytes lo lits @ rest"
  have IH: "walk_block cap (out + length ls + (m - 4) + 4) ?tail = Some rest"
    using Cons.prems q off by (intro Cons.IH) auto
  have out: "out + length ls < cap" "\<not> out + length ls + (m - 4) + 4 > cap"
    using Cons.prems q off by auto
  from off(1) have "drop 2 (off @ x) = x" "off \<noteq> []" for x by auto
  then show ?case
    using out off IH unfolding q
    by (simp add: token_nibbles nibble_less token_len_ext)
qed

lemma walk_lz4_block: "is_lz4_block block cap \<Longrightarrow> walk_block cap 0 (block @ rest) = Some rest"
  unfolding is_lz4_block_def by (auto intro!: walk_block_seqs)

section \<open>Compressing and decompressing\<close>

lemma window_rev: "window xs = rev (take LZ4_DICT_WINDOW (rev xs))"
  by (simp add: window_def take_rev)

lemma window_window: "window (window xs @ ys) = window (xs @ ys)"
  by (simp add: window_rev take_append min_def)

lemma window_Nil_iff: "window xs = [] \<longleftrightarrow> xs = []"
  by (simp add: window_rev LZ4_DICT_WINDOW_def)

lemma lz4_unblock_blocks:
  assumes "lz4_ok c" "dict = window out" "tot = length out + length data"
  shows "lz4_unblock c tot LZ4_DEFAULT_BLOCK_SIZE out (lz4_blocks c dict data) = Some (out @ data)"
  using assms
proof (induction c dict data arbitrary: out rule: lz4_blocks.induct)
  case (1 c dict data)
  show ?case
  proof (cases "data = []")
    case True
    with 1 show ?thesis by (simp add: lz4_blocks.simps lz4_unblock.simps)
  next
    case False
    define n where "n = min (length data) LZ4_DEFAULT_BLOCK_SIZE"
    define input where "input = take n data"
    define block where "block = (if dict = [] then lz4_compress c input else lz4_compress_with_dict c input dict)"
    define rest where "rest = lz4_blocks c (window (dict @ input)) (drop n data)"
    have input: "input \<noteq> []" "length input = n"
      using False by (simp_all add: input_def n_def LZ4_DEFAULT_BLOCK_SIZE_def)
    have blocks: "lz4_blocks c dict data = block @ rest"
      using False by (subst lz4_blocks.simps) (simp add: Let_def block_def rest_def input_def n_def)
    have codec: "is_lz4_block block n" "lz4_decompress_with_dict c block n dict = Some input"
      using lz4_okD [OF 1(2) input(1)] input(2) by (auto simp: block_def)
    have cap: "min (tot - length out) LZ4_DEFAULT_BLOCK_SIZE = n" "length out < tot"
      using 1(4) False by (simp_all add: n_def)
    have "lz4_unblock c tot LZ4_DEFAULT_BLOCK_SIZE (out @ input) rest = Some ((out @ input) @ drop n data)"
      unfolding rest_def input_def n_def
      by (rule 1(1)) (use False 1(2-4) in \<open>auto simp: window_window input_def n_def\<close>)
    moreover have "input @ drop n data = data" by (simp add: input_def)
    ultimately show ?thesis
      unfolding blocks
      using walk_lz4_block [OF codec(1), of rest] codec(2) [unfolded 1(3)] cap input
      by (subst lz4_unblock.simps) simp
  qed
qed

lemma length_lz4_blocks:
  assumes "lz4_ok c"
  shows "length (lz4_blocks c dict data) \<le> 18 * length data"
  using assms
proof (induction c dict data rule: lz4_blocks.induct)
  case (1 c dict data)
  show ?case
  proof (cases "data = []")
    case False
    define n where "n = min (length data) LZ4_DEFAULT_BLOCK_SIZE"
    define input where "input = take n data"
    define block where "block = (if dict = [] then lz4_compress c input else lz4_compress_with_dict c input dict)"
    have n: "input \<noteq> []" "length input = n" "0 < n" "n \<le> length data"
      using False by (simp_all add: input_def n_def LZ4_DEFAULT_BLOCK_SIZE_def)
    have blocks: "lz4_blocks c dict data = block @ lz4_blocks c (window (dict @ input)) (drop n data)"
      using False by (subst lz4_blocks.simps) (simp add: Let_def block_def input_def n_def)
    have "length block \<le> n + n div 255 + 16"
      using lz4_okD(3) [OF 1(2) n(1)] n(2) by (auto simp: block_def)
    also have "\<dots> \<le> 18 * n" using n(3) div_le_dividend [of n 255] by linarith
    finally have "length block \<le> 18 * n" .
    moreover have "length (lz4_blocks c (window (dict @ input)) (drop n data)) \<le> 18 * length (drop n data)"
      unfolding input_def n_def by (rule 1(1)) (use False 1(2) in auto)
    ultimately show ?thesis
      using n(4) unfolding blocks by simp
  qed (simp add: lz4_blocks.simps)
qed

lemma decompress_compress_lz4:
  assumes "lz4_ok c" "length data \<le> 16 * 1024 * 1024"
  shows "decompress_lz4_bnl c (compress_lz4 c data) = Some data"
proof -
  define blocks where "blocks = lz4_blocks c [] data"
  have len: "length blocks \<le> 18 * length data"
    unfolding blocks_def by (rule length_lz4_blocks [OF assms(1)])
  let ?b = "word_of_nat (length blocks) :: u32" and ?d = "word_of_nat (length data) :: u32"
  have unat: "unat ?b = length blocks" "unat ?d = length data"
    using len assms(2) by (simp_all add: unat_of_nat)
  have data: "compress_lz4 c data = [1] @ to_be 4 ?b @ to_be 4 ?d @ [14] @ blocks"
    by (simp add: compress_lz4_def Let_def blocks_def)
  let ?z = "compress_lz4 c data"
  have fields: "slice 1 5 ?z = to_be 4 ?b" "slice 5 9 ?z = to_be 4 ?d" "drop 10 ?z = blocks"
    "length ?z = length blocks + 10" "?z ! 0 = 1" "?z ! 9 = 14"
    unfolding data by (simp_all add: slice_def nth_append)
  have "lz4_unblock c (length data) LZ4_DEFAULT_BLOCK_SIZE [] blocks = Some ([] @ data)"
    unfolding blocks_def by (rule lz4_unblock_blocks) (simp_all add: assms window_def)
  then show ?thesis
    using assms(2) fields unat
    by (simp add: decompress_lz4_bnl_def LZ4_HEADER_SIZE_def Let_def MAX_DECOMPRESSION_SIZE_def LZ4_DEFAULT_BLOCK_SIZE_def)
qed

lemma length_lz4_unblock: "lz4_unblock c tot bs out s = Some r \<Longrightarrow> length out \<le> tot \<Longrightarrow> length r = tot"
proof (induction c tot bs out s rule: lz4_unblock.induct)
  case (1 c tot bs out s)
  then show ?case
    by (subst (asm) (2) lz4_unblock.simps) (auto simp: Let_def split: if_splits option.splits)
qed

end
