(* ===== verification/Stream_Cipher.thy ===== *)
theory Stream_Cipher
  imports Prelude
begin

text \<open>
  The contract of the two stream ciphers: a state that yields one keystream byte at a time,
  and an operation that combines a message with the keystream, byte by byte. Encrypting and
  decrypting are this one operation.
\<close>

locale stream_cipher =
  fixes next_byte :: "'s \<Rightarrow> byte \<times> 's"
    and apply_stream :: "'s \<Rightarrow> byte list \<Rightarrow> byte list \<times> 's"
  assumes apply_Nil: "apply_stream s [] = ([], s)"
    and apply_Cons: "apply_stream s (x # xs) =
          (case next_byte s of (k, s') \<Rightarrow> case apply_stream s' xs of (ys, s'') \<Rightarrow> ((x XOR k) # ys, s''))"
begin

lemma length_apply [simp]: "length (fst (apply_stream s xs)) = length xs"
  by (induction xs arbitrary: s) (auto simp: apply_Nil apply_Cons case_prod_beta)

text \<open>Applying the same keystream again gives the message and the same final state.\<close>

lemma apply_involution:
  "apply_stream s (fst (apply_stream s xs)) = (xs, snd (apply_stream s xs))"
proof (induction xs arbitrary: s)
  case (Cons x xs)
  obtain k s' where next_s: "next_byte s = (k, s')" by fastforce
  obtain ys s'' where rest: "apply_stream s' xs = (ys, s'')" by fastforce
  have "apply_stream s' ys = (xs, s'')"
    using Cons.IH [of s'] rest by simp
  moreover have "(x XOR k) XOR k = x"
    by (simp add: xor.assoc)
  ultimately show ?case
    by (simp add: apply_Cons next_s rest)
qed (simp add: apply_Nil)

text \<open>A message may be cut into pieces: the state carries over.\<close>

lemma apply_append:
  "apply_stream s (xs @ ys) =
     (fst (apply_stream s xs) @ fst (apply_stream (snd (apply_stream s xs)) ys),
      snd (apply_stream (snd (apply_stream s xs)) ys))"
  by (induction xs arbitrary: s) (auto simp: apply_Nil apply_Cons split: prod.split)

text \<open>The keystream as a list, and the message combined with it.\<close>

primrec keystream :: "nat \<Rightarrow> 's \<Rightarrow> byte list" where
  "keystream 0 s = []"
| "keystream (Suc n) s = (case next_byte s of (k, s') \<Rightarrow> k # keystream n s')"

lemma apply_keystream_map2: "fst (apply_stream s xs) = map2 (XOR) xs (keystream (length xs) s)"
  by (induction xs arbitrary: s) (auto simp: apply_Nil apply_Cons case_prod_beta)

end

end
