(* ===== verification/Arc4.thy ===== *)
theory Arc4
  imports Stream_Cipher "HOL-Library.Multiset"
begin

text \<open>
  The ARC4 cipher of \<open>cascette-crypto/src/arc4.rs\<close>: key scheduling, keystream generation and
  encryption, with the S-box as a list of 256 bytes.
\<close>

section \<open>Model\<close>

record arc4_cipher =
  a4_s :: "byte list"
  a4_i :: byte
  a4_j :: byte

datatype arc4_error = InvalidKeyLength nat

definition swap :: "'a list \<Rightarrow> nat \<Rightarrow> nat \<Rightarrow> 'a list" where
  "swap xs i j = xs[i := xs ! j, j := xs ! i]"

text \<open>The key-scheduling loop over \<open>i\<close> in \<open>0..256\<close>.\<close>

fun key_schedule :: "byte list \<Rightarrow> nat list \<Rightarrow> byte \<Rightarrow> byte list \<Rightarrow> byte list" where
  "key_schedule key [] j s = s"
| "key_schedule key (i # is) j s =
     (let j' = j + s ! i + key ! (i mod length key)
      in key_schedule key is j' (swap s i (unat j')))"

definition arc4_new :: "byte list \<Rightarrow> arc4_error + arc4_cipher" where
  "arc4_new key =
     (if key = [] \<or> length key > 256 then Inl (InvalidKeyLength (length key))
      else Inr \<lparr>a4_s = key_schedule key [0..<256] 0 (map word_of_nat [0..<256]), a4_i = 0, a4_j = 0\<rparr>)"

definition next_keystream_byte :: "arc4_cipher \<Rightarrow> byte \<times> arc4_cipher" where
  "next_keystream_byte c =
     (let i = a4_i c + 1;
          j = a4_j c + a4_s c ! unat i;
          s = swap (a4_s c) (unat i) (unat j);
          k = s ! unat i + s ! unat j
      in (s ! unat k, \<lparr>a4_s = s, a4_i = i, a4_j = j\<rparr>))"

fun arc4_encrypt :: "arc4_cipher \<Rightarrow> byte list \<Rightarrow> byte list \<times> arc4_cipher" where
  "arc4_encrypt c [] = ([], c)"
| "arc4_encrypt c (b # data) =
     (case next_keystream_byte c of
        (k, c') \<Rightarrow> (case arc4_encrypt c' data of (out, c'') \<Rightarrow> ((b XOR k) # out, c'')))"

definition arc4_decrypt :: "arc4_cipher \<Rightarrow> byte list \<Rightarrow> byte list \<times> arc4_cipher" where
  "arc4_decrypt c data = arc4_encrypt c data"

text \<open>\<open>apply_keystream\<close> walks the buffer in place, position by position.\<close>

fun arc4_apply_at :: "arc4_cipher \<Rightarrow> nat list \<Rightarrow> byte list \<Rightarrow> byte list \<times> arc4_cipher" where
  "arc4_apply_at c [] data = (data, c)"
| "arc4_apply_at c (p # ps) data =
     (case next_keystream_byte c of (k, c') \<Rightarrow> arc4_apply_at c' ps (data[p := data ! p XOR k]))"

definition arc4_apply_keystream :: "arc4_cipher \<Rightarrow> byte list \<Rightarrow> byte list \<times> arc4_cipher" where
  "arc4_apply_keystream c data = arc4_apply_at c [0..<length data] data"

section \<open>The S-box stays a permutation\<close>

definition arc4_inv :: "arc4_cipher \<Rightarrow> bool" where
  "arc4_inv c \<longleftrightarrow> mset (a4_s c) = mset (map word_of_nat [0..<256])"

lemma length_swap [simp]: "length (swap xs i j) = length xs"
  by (simp add: swap_def)

lemma mset_swap_eq: "i < length xs \<Longrightarrow> j < length xs \<Longrightarrow> mset (swap xs i j) = mset xs"
  unfolding swap_def by (rule mset_swap)

lemma key_schedule_mset:
  "length s = 256 \<Longrightarrow> \<forall>i\<in>set is. i < 256 \<Longrightarrow> mset (key_schedule key is j s) = mset s"
  by (induction key "is" j s rule: key_schedule.induct)
     (simp_all add: Let_def mset_swap_eq u8_bound)

lemma arc4_inv_length: "arc4_inv c \<Longrightarrow> length (a4_s c) = 256"
  by (metis arc4_inv_def size_mset length_map length_upt diff_zero)

lemma arc4_inv_new: "arc4_new key = Inr c \<Longrightarrow> arc4_inv c"
  by (auto simp: arc4_new_def arc4_inv_def key_schedule_mset split: if_splits)

lemma arc4_inv_next: "arc4_inv c \<Longrightarrow> next_keystream_byte c = (k, c') \<Longrightarrow> arc4_inv c'"
  using arc4_inv_length [of c]
  by (auto simp: next_keystream_byte_def arc4_inv_def Let_def mset_swap_eq u8_bound)

lemma arc4_inv_encrypt: "arc4_inv c \<Longrightarrow> arc4_inv (snd (arc4_encrypt c data))"
  by (induction c data rule: arc4_encrypt.induct) (auto split: prod.split dest: arc4_inv_next)

interpretation arc4: stream_cipher next_keystream_byte arc4_encrypt
  by unfold_locales (simp_all split: prod.split)

lemma arc4_apply_at_eq:
  "arc4_apply_at c [length xs..<length xs + length ys] (xs @ ys) =
     (xs @ fst (arc4_encrypt c ys), snd (arc4_encrypt c ys))"
proof (induction ys arbitrary: c xs)
  case (Cons y ys)
  obtain k c' where k: "next_keystream_byte c = (k, c')" by fastforce
  have "[length xs..<length xs + length (y # ys)] =
      length xs # [length (xs @ [y XOR k])..<length (xs @ [y XOR k]) + length ys]"
    by (simp add: upt_conv_Cons del: upt_Suc)
  then show ?case
    using Cons [of c' "xs @ [y XOR k]"] k by (simp split: prod.split)
qed simp

lemma arc4_inverse:
  "fst (arc4_decrypt c (fst (arc4_encrypt c data))) = data" "length (fst (arc4_encrypt c data)) = length data"
  using arc4.apply_involution [of c data] by (simp_all add: arc4_decrypt_def)



end
