(* ===== verification/Salsa20.thy ===== *)
theory Salsa20
  imports Stream_Cipher
begin

text \<open>
  The Salsa20 variant of \<open>cascette-crypto/src/salsa20.rs\<close>: sixteen-byte keys, a four- or
  eight-byte IV combined with the block index, a 64-byte keystream buffer and a 64-bit block
  counter in two state words.
\<close>

section \<open>Model\<close>

record salsa20_cipher =
  sa_state :: "u32 list"
  sa_keystream :: "byte list"
  sa_pos :: nat

datatype crypto_error = InvalidIvSize nat nat

definition quarter_round :: "nat \<Rightarrow> nat \<Rightarrow> nat \<Rightarrow> nat \<Rightarrow> u32 list \<Rightarrow> u32 list" where
  "quarter_round a b c d s =
     (let s = s[b := s ! b XOR word_rotl 7 (s ! a + s ! d)];
          s = s[c := s ! c XOR word_rotl 9 (s ! b + s ! a)];
          s = s[d := s ! d XOR word_rotl 13 (s ! c + s ! b)]
      in s[a := s ! a XOR word_rotl 18 (s ! d + s ! c)])"

definition double_round :: "u32 list \<Rightarrow> u32 list" where
  "double_round s =
     (let s = quarter_round 0 4 8 12 s;
          s = quarter_round 5 9 13 1 s;
          s = quarter_round 10 14 2 6 s;
          s = quarter_round 15 3 7 11 s;
          s = quarter_round 0 1 2 3 s;
          s = quarter_round 5 6 7 4 s;
          s = quarter_round 10 11 8 9 s
      in quarter_round 15 12 13 14 s)"

definition generate_keystream :: "salsa20_cipher \<Rightarrow> salsa20_cipher" where
  "generate_keystream c =
     (let working = (double_round ^^ 10) (sa_state c);
          working = map2 (+) working (sa_state c);
          s = (sa_state c)[8 := sa_state c ! 8 + 1];
          s = (if s ! 8 = 0 then s[9 := s ! 9 + 1] else s)
      in \<lparr>sa_state = s, sa_keystream = concat (map (to_le 4) working), sa_pos = 0\<rparr>)"

definition salsa20_init :: "byte list \<Rightarrow> byte list \<Rightarrow> nat \<Rightarrow> u32 list" where
  "salsa20_init key iv block_index =
     (let extended_iv = put_slice 0 iv (replicate 8 0);
          block_bytes = to_le 4 (word_of_nat block_index :: u32);
          extended_iv = map2 (XOR) (take 4 extended_iv) block_bytes @ drop 4 extended_iv;
          k = (\<lambda>i. from_le (slice (4 * i) (4 * i + 4) key)) in
      [0x61707865, k 0, k 1, k 2, k 3, 0x3120646e,
       from_le (slice 0 4 extended_iv), from_le (slice 4 8 extended_iv), 0, 0, 0x79622d36,
       k 0, k 1, k 2, k 3, 0x6b206574])"

definition salsa20_new :: "byte list \<Rightarrow> byte list \<Rightarrow> nat \<Rightarrow> crypto_error + salsa20_cipher" where
  "salsa20_new key iv block_index =
     (if length iv \<noteq> 4 \<and> length iv \<noteq> 8 then Inl (InvalidIvSize 4 (length iv))
      else Inr (generate_keystream
                  \<lparr>sa_state = salsa20_init key iv block_index, sa_keystream = replicate 64 0, sa_pos = 64\<rparr>))"

definition salsa20_next :: "salsa20_cipher \<Rightarrow> byte \<times> salsa20_cipher" where
  "salsa20_next c =
     (let c = (if sa_pos c \<ge> 64 then generate_keystream c else c)
      in (sa_keystream c ! sa_pos c, c\<lparr>sa_pos := sa_pos c + 1\<rparr>))"

fun salsa20_apply_keystream :: "salsa20_cipher \<Rightarrow> byte list \<Rightarrow> byte list \<times> salsa20_cipher" where
  "salsa20_apply_keystream c [] = ([], c)"
| "salsa20_apply_keystream c (b # data) =
     (case salsa20_next c of
        (k, c') \<Rightarrow> (case salsa20_apply_keystream c' data of (out, c'') \<Rightarrow> ((b XOR k) # out, c'')))"

definition decrypt_salsa20 :: "byte list \<Rightarrow> byte list \<Rightarrow> byte list \<Rightarrow> nat \<Rightarrow> crypto_error + byte list" where
  "decrypt_salsa20 data key iv block_index =
     (case salsa20_new key iv block_index of
        Inl e \<Rightarrow> Inl e
      | Inr c \<Rightarrow> Inr (fst (salsa20_apply_keystream c data)))"

definition encrypt_salsa20 :: "byte list \<Rightarrow> byte list \<Rightarrow> byte list \<Rightarrow> nat \<Rightarrow> crypto_error + byte list" where
  "encrypt_salsa20 data key iv block_index = decrypt_salsa20 data key iv block_index"

section \<open>The keystream by position\<close>

interpretation salsa20: stream_cipher salsa20_next salsa20_apply_keystream
  by unfold_locales (simp_all split: prod.split)

text \<open>
  The reference: byte \<open>n\<close> of the keystream is byte \<open>n mod 64\<close> of the Salsa20 block with the
  64-bit counter \<open>n div 64\<close>, whatever was read before.
\<close>

definition with_counter :: "u32 list \<Rightarrow> nat \<Rightarrow> u32 list" where
  "with_counter s n = s[8 := word_of_nat n, 9 := word_of_nat (n div 2 ^ 32)]"

definition salsa20_block :: "u32 list \<Rightarrow> nat \<Rightarrow> byte list" where
  "salsa20_block s n =
     (let s = with_counter s n in concat (map (to_le 4) (map2 (+) ((double_round ^^ 10) s) s)))"

definition keystream_at :: "u32 list \<Rightarrow> nat \<Rightarrow> byte" where
  "keystream_at s n = salsa20_block s (n div 64) ! (n mod 64)"

lemma counter_high:
  "(word_of_nat (Suc n div 2 ^ 32) :: u32) =
     (if (word_of_nat n + 1 :: u32) = 0 then word_of_nat (n div 2 ^ 32) + 1 else word_of_nat (n div 2 ^ 32))"
proof -
  have "(word_of_nat n + 1 :: u32) = word_of_nat (Suc n)"
    by (simp add: add.commute)
  moreover have "(word_of_nat (Suc n) :: u32) = 0 \<longleftrightarrow> Suc n mod 2 ^ 32 = 0"
    using word_of_nat_eq_0_iff [where ?'a = 32, of "Suc n"] by (simp add: dvd_eq_mod_eq_0)
  ultimately show ?thesis
    by (simp add: div_Suc add.commute)
qed

text \<open>A cipher that has given out \<open>n\<close> bytes of the keystream of \<open>s\<close>.\<close>

definition salsa20_at :: "u32 list \<Rightarrow> nat \<Rightarrow> salsa20_cipher \<Rightarrow> bool" where
  "salsa20_at s n c \<longleftrightarrow> length s = 16 \<and> sa_pos c \<le> 64 \<and>
     (\<exists>g. sa_state c = with_counter s (Suc g) \<and> sa_keystream c = salsa20_block s g \<and> n = 64 * g + sa_pos c)"

lemma generate_keystream_counter:
  assumes "length s = 16" "sa_state c = with_counter s g"
  shows "generate_keystream c =
           \<lparr>sa_state = with_counter s (Suc g), sa_keystream = salsa20_block s g, sa_pos = 0\<rparr>"
  using assms counter_high [of g]
  by (simp add: generate_keystream_def with_counter_def salsa20_block_def Let_def list_update_swap
        add.commute)

lemma salsa20_next_at:
  assumes "salsa20_at s n c"
  shows "fst (salsa20_next c) = keystream_at s n \<and> salsa20_at s (Suc n) (snd (salsa20_next c))"
proof -
  obtain g where g: "sa_state c = with_counter s (Suc g)" "sa_keystream c = salsa20_block s g"
    "n = 64 * g + sa_pos c" and len: "length s = 16" and pos: "sa_pos c \<le> 64"
    using assms by (auto simp: salsa20_at_def)
  show ?thesis
  proof (cases "sa_pos c = 64")
    case True
    then have n: "n = 64 * Suc g" using g by simp
    show ?thesis
      using True generate_keystream_counter [OF len g(1)] len
      by (auto simp: salsa20_next_def Let_def keystream_at_def salsa20_at_def n)
  next
    case False
    then have "n div 64 = g" "n mod 64 = sa_pos c"
      using g(3) pos by (simp_all add: div_nat_eqI)
    with False show ?thesis
      using g pos len by (auto simp: salsa20_next_def Let_def keystream_at_def salsa20_at_def)
  qed
qed

lemma salsa20_keystream:
  "salsa20_at s n c \<Longrightarrow> salsa20.keystream k c = map (keystream_at s) [n..<n + k]"
proof (induction k arbitrary: n c)
  case (Suc k)
  obtain b c' where b: "salsa20_next c = (b, c')" by fastforce
  have "b = keystream_at s n" "salsa20_at s (Suc n) c'"
    using salsa20_next_at [OF Suc.prems] b by simp_all
  with Suc.IH [of "Suc n" c'] show ?case
    by (simp add: b upt_conv_Cons del: upt_Suc)
qed simp

lemma length_salsa20_init [simp]: "length (salsa20_init key iv block_index) = 16"
  by (simp add: salsa20_init_def Let_def)

lemma salsa20_new_at:
  assumes "salsa20_new key iv block_index = Inr c"
  shows "salsa20_at (salsa20_init key iv block_index) 0 c"
proof -
  let ?s = "salsa20_init key iv block_index"
  have "?s = with_counter ?s 0"
    by (simp add: with_counter_def salsa20_init_def Let_def)
  then show ?thesis
    using assms generate_keystream_counter [of ?s _ 0]
    by (auto simp: salsa20_new_def salsa20_at_def split: if_splits)
qed

lemma salsa20_inverse:
  assumes "length iv = 4 \<or> length iv = 8"
  shows "\<exists>out. encrypt_salsa20 data key iv block_index = Inr out \<and> length out = length data
    \<and> decrypt_salsa20 out key iv block_index = Inr data"
  using assms salsa20.apply_involution
  by (auto simp: decrypt_salsa20_def encrypt_salsa20_def salsa20_new_def)

text \<open>Different block indices below \<open>2^32\<close> start from different states.\<close>

lemma xor_left_inj: "(x :: byte) XOR y = x XOR z \<Longrightarrow> y = z"
proof -
  assume "x XOR y = x XOR z"
  then have "x XOR (x XOR y) = x XOR (x XOR z)" by simp
  then show ?thesis by (simp flip: xor.assoc)
qed

lemma map2_xor_inj:
  "length ys = length xs \<Longrightarrow> length zs = length xs \<Longrightarrow> map2 (XOR) xs ys = map2 (XOR) xs (zs :: byte list) \<Longrightarrow> ys = zs"
proof (induction xs arbitrary: ys zs)
  case (Cons x xs)
  then obtain y ys' z zs' where "ys = y # ys'" "zs = z # zs'" by (auto simp: length_Suc_conv)
  with Cons show ?case by (auto dest: xor_left_inj)
qed simp

lemma salsa20_init_index:
  assumes "length iv = 4" "i < 2 ^ 32" "j < 2 ^ 32" "salsa20_init key iv i = salsa20_init key iv j"
  shows "i = j"
proof -
  let ?b = "\<lambda>i. to_le 4 (word_of_nat i :: u32)"
  have nonce: "salsa20_init key iv i ! 6 = from_le (map2 (XOR) iv (?b i))" for i
    using assms(1) by (simp add: salsa20_init_def Let_def put_slice_def)
  have bytes: "to_le 4 (from_le (map2 (XOR) iv (?b i)) :: u32) = map2 (XOR) iv (?b i)" for i
    using assms(1) by (simp add: to_le_from_le)
  have "(from_le (map2 (XOR) iv (?b i)) :: u32) = from_le (map2 (XOR) iv (?b j))"
    using nonce [of i] nonce [of j] assms(4) by simp
  then have "to_le 4 (from_le (map2 (XOR) iv (?b i)) :: u32) = to_le 4 (from_le (map2 (XOR) iv (?b j)) :: u32)"
    by (rule arg_cong)
  then have "map2 (XOR) iv (?b i) = map2 (XOR) iv (?b j)"
    by (simp only: bytes)
  then have "?b i = ?b j"
    by (rule map2_xor_inj [rotated 2]) (simp_all add: assms(1))
  then have "(from_le (?b i) :: u32) = from_le (?b j)" by (rule arg_cong)
  then have "(word_of_nat i :: u32) = word_of_nat j" by simp
  then have "unat (word_of_nat i :: u32) = unat (word_of_nat j :: u32)" by simp
  then show ?thesis
    using assms(2,3) by (simp add: unat_of_nat)
qed

text \<open>
  C35. Salsa20: with an IV of four or eight bytes the output is the message combined with the
  keystream of the reference, in which byte \<open>n\<close> comes from the block with counter \<open>n div 64\<close>, for
  messages of any length, past the point where the low counter word wraps; and encrypting twice
  gives the message back. Any other IV length is refused.
\<close>

theorem salsa20_keystream_by_position:
  "decrypt_salsa20 data key iv block_index =
     (if length iv = 4 \<or> length iv = 8
      then Inr (map2 (XOR) data (map (keystream_at (salsa20_init key iv block_index)) [0..<length data]))
      else Inl (InvalidIvSize 4 (length iv)))
   \<and> (case encrypt_salsa20 data key iv block_index of
        Inl e \<Rightarrow> True
      | Inr out \<Rightarrow> decrypt_salsa20 out key iv block_index = Inr data)"
proof (cases "salsa20_new key iv block_index")
  case (Inl e)
  then show ?thesis
    by (auto simp: decrypt_salsa20_def encrypt_salsa20_def salsa20_new_def split: if_splits)
next
  case (Inr c)
  have "salsa20.keystream (length data) c = map (keystream_at (salsa20_init key iv block_index)) [0..<length data]"
    using salsa20_keystream [OF salsa20_new_at [OF Inr]] by simp
  moreover have "length iv = 4 \<or> length iv = 8"
    using Inr by (simp add: salsa20_new_def split: if_splits)
  ultimately show ?thesis
    using Inr salsa20.apply_involution [of c data]
    by (simp add: decrypt_salsa20_def encrypt_salsa20_def salsa20.apply_keystream_map2)
qed

end
