(* ===== verification/Blte.thy ===== *)
theory Blte
  imports Lz4_Frame Arc4 Salsa20 Espec
begin

text \<open>
  The BLTE container of \<open>cascette-formats/src/blte\<close>: chunk modes and chunk data (\<open>chunk.rs\<close>), the
  header with its chunk table (\<open>header.rs\<close>), compression, encryption and frames
  (\<open>compression.rs\<close>, \<open>encryption.rs\<close>) and whole files (\<open>mod.rs\<close>). MD5 and the block codecs are
  arguments, and so is the key store, a function from key names to keys. A fallible
  operation gives an \<open>outcome\<close>; reading the flags byte of a chunk table may panic.
\<close>

section \<open>Model: chunks\<close>

datatype compression_mode = ModeNone | ModeZLib | ModeLZ4 | ModeEncrypted | ModeFrame

fun mode_as_byte :: "compression_mode \<Rightarrow> byte" where
  "mode_as_byte ModeNone = 0x4E"
| "mode_as_byte ModeZLib = 0x5A"
| "mode_as_byte ModeLZ4 = 0x34"
| "mode_as_byte ModeEncrypted = 0x45"
| "mode_as_byte ModeFrame = 0x46"

definition mode_from_byte :: "byte \<Rightarrow> compression_mode option" where
  "mode_from_byte b =
     (if b = 0x4E then Some ModeNone
      else if b = 0x5A then Some ModeZLib
      else if b = 0x34 then Some ModeLZ4
      else if b = 0x45 then Some ModeEncrypted
      else if b = 0x46 then Some ModeFrame
      else None)"

text \<open>The mode that \<open>ESpec::blte_compression_mode\<close> gives for an encoding specification.\<close>

fun blte_compression_mode :: "espec \<Rightarrow> compression_mode option" where
  "blte_compression_mode ENone = Some ModeNone"
| "blte_compression_mode (ZLib _ variant _) = (case variant of Some LZ4HC \<Rightarrow> Some ModeLZ4 | _ \<Rightarrow> Some ModeZLib)"
| "blte_compression_mode (BCPack _) = None"
| "blte_compression_mode (GDeflate _) = None"
| "blte_compression_mode (Encrypted _ _ _) = None"
| "blte_compression_mode (BlockTable _) = None"

text \<open>
  The errors that this code raises; an unexpected end of the input is the I/O error of
  \<open>read_exact\<close>, and the texts of compression errors are left out.
\<close>

datatype blte_error =
    InvalidMagic "byte list"
  | InvalidChunkCount u32
  | EmptyChunk
  | InvalidChunkSize nat nat nat
  | UnknownCompressionMode byte
  | CompressionError
  | InvalidIvLen byte
  | RecursionLimitExceeded nat
  | NestedEncryption
  | SingleChunkEncrypted
  | EndOfInput

record chunk_data =
  cd_mode :: compression_mode
  cd_data :: "byte list"
  cd_decompressed_size :: "nat option"

text \<open>The loop that drains a zlib decoder under the size limit.\<close>

fun zlib_drain :: "byte list \<Rightarrow> byte list list \<Rightarrow> bool \<Rightarrow> (blte_error, byte list) outcome" where
  "zlib_drain decompressed [] ok = (if ok then Ret decompressed else Fail CompressionError)"
| "zlib_drain decompressed (r # rs) ok =
     (if r = [] then Ret decompressed
      else if length decompressed + length r > MAX_DECOMPRESSION_SIZE then Fail CompressionError
      else zlib_drain (decompressed @ r) rs ok)"

definition compress_chunk :: "codecs \<Rightarrow> byte list \<Rightarrow> compression_mode \<Rightarrow> (blte_error, byte list) outcome" where
  "compress_chunk c data mode =
     (case mode of
        ModeNone \<Rightarrow> Ret data
      | ModeZLib \<Rightarrow> (case zlib_encode c data of None \<Rightarrow> Fail CompressionError | Some z \<Rightarrow> Ret z)
      | ModeLZ4 \<Rightarrow> Ret (compress_lz4 c data)
      | ModeEncrypted \<Rightarrow> Fail CompressionError
      | ModeFrame \<Rightarrow> Fail CompressionError)"

definition chunk_new :: "codecs \<Rightarrow> byte list \<Rightarrow> compression_mode \<Rightarrow> (blte_error, chunk_data) outcome" where
  "chunk_new c data mode =
     (if mode = ModeNone
      then Ret \<lparr>cd_mode = mode, cd_data = data, cd_decompressed_size = Some (length data)\<rparr>
      else obind (compress_chunk c data mode) (\<lambda>z.
             Ret \<lparr>cd_mode = mode, cd_data = z, cd_decompressed_size = Some (length data)\<rparr>))"

definition from_compressed :: "compression_mode \<Rightarrow> byte list \<Rightarrow> nat option \<Rightarrow> chunk_data" where
  "from_compressed mode data sz = \<lparr>cd_mode = mode, cd_data = data, cd_decompressed_size = sz\<rparr>"

definition compressed_data :: "chunk_data \<Rightarrow> byte list" where
  "compressed_data ch = mode_as_byte (cd_mode ch) # cd_data ch"

definition compressed_size :: "chunk_data \<Rightarrow> nat" where
  "compressed_size ch = 1 + length (cd_data ch)"

definition decompressed_size :: "chunk_data \<Rightarrow> nat" where
  "decompressed_size ch = (case cd_decompressed_size ch of Some n \<Rightarrow> n | None \<Rightarrow> length (cd_data ch))"

definition verify_checksum :: "(byte list \<Rightarrow> byte list) \<Rightarrow> chunk_data \<Rightarrow> byte list \<Rightarrow> bool" where
  "verify_checksum md5 ch checksum \<longleftrightarrow> checksum = replicate 16 0 \<or> md5 (compressed_data ch) = checksum"

text \<open>\<open>ChunkData::read_options\<close> for a chunk of the given compressed size.\<close>

definition read_chunk :: "nat \<Rightarrow> (blte_error, chunk_data) reader" where
  "read_chunk n s =
     (if n = 0 then Fail EmptyChunk
      else rbind (read_exact EndOfInput 1 s) (\<lambda>m s.
             case mode_from_byte (hd m) of
               None \<Rightarrow> Fail (UnknownCompressionMode (hd m))
             | Some mode \<Rightarrow>
                 rbind (read_exact EndOfInput (n - 1) s) (\<lambda>data s.
                   Ret (\<lparr>cd_mode = mode, cd_data = data, cd_decompressed_size = None\<rparr>, s))))"

definition write_chunk :: "chunk_data \<Rightarrow> byte list" where
  "write_chunk ch = [mode_as_byte (cd_mode ch)] @ cd_data ch"

section \<open>Model: header\<close>

definition BLTE_MAGIC :: "byte list" where "BLTE_MAGIC = [0x42, 0x4C, 0x54, 0x45]"

datatype header_flags = Standard | Extended

fun flags_byte :: "header_flags \<Rightarrow> byte" where
  "flags_byte Standard = 0x0F"
| "flags_byte Extended = 0x10"

definition flags_from_byte :: "byte \<Rightarrow> header_flags option" where
  "flags_from_byte b = (if b = 0x0F then Some Standard else if b = 0x10 then Some Extended else None)"

fun chunk_info_size :: "header_flags \<Rightarrow> nat" where
  "chunk_info_size Standard = 24"
| "chunk_info_size Extended = 40"

record chunk_info =
  ci_compressed_size :: u32
  ci_decompressed_size :: u32
  ci_checksum :: "byte list"
  ci_decompressed_checksum :: "byte list option"

record extended_header =
  eh_flags :: header_flags
  eh_chunk_count :: u32
  eh_chunk_infos :: "chunk_info list"

record blte_header =
  bh_magic :: "byte list"
  bh_header_size :: u32
  bh_extended :: "extended_header option"

definition read_chunk_info :: "header_flags \<Rightarrow> (blte_error, chunk_info) reader" where
  "read_chunk_info flags s =
     rbind (read_exact EndOfInput 4 s) (\<lambda>cs s.
     rbind (read_exact EndOfInput 4 s) (\<lambda>ds s.
     rbind (read_exact EndOfInput 16 s) (\<lambda>checksum s.
     rbind (if flags = Extended then rbind (read_exact EndOfInput 16 s) (\<lambda>d s. Ret (Some d, s)) else Ret (None, s))
       (\<lambda>dchecksum s.
       Ret (\<lparr>ci_compressed_size = from_be cs, ci_decompressed_size = from_be ds, ci_checksum = checksum,
             ci_decompressed_checksum = dchecksum\<rparr>, s)))))"

definition write_chunk_info :: "header_flags \<Rightarrow> chunk_info \<Rightarrow> byte list" where
  "write_chunk_info flags i =
     to_be 4 (ci_compressed_size i) @ to_be 4 (ci_decompressed_size i) @ ci_checksum i
     @ (if flags = Extended
        then (case ci_decompressed_checksum i of Some d \<Rightarrow> d | None \<Rightarrow> replicate 16 0) else [])"

text \<open>The derived reader of the chunk table; an unknown flags byte is a panic.\<close>

definition read_extended :: "(blte_error, extended_header) reader" where
  "read_extended s =
     rbind (read_exact EndOfInput 1 s) (\<lambda>f s.
       case flags_from_byte (hd f) of
         None \<Rightarrow> Panic
       | Some flags \<Rightarrow>
           rbind (read_exact EndOfInput 3 s) (\<lambda>n s.
             let count = from_be ([0] @ n) :: u32 in
             rbind (read_many (unat count) (read_chunk_info flags) s) (\<lambda>infos s.
               Ret (\<lparr>eh_flags = flags, eh_chunk_count = count, eh_chunk_infos = infos\<rparr>, s))))"

definition write_extended :: "extended_header \<Rightarrow> byte list" where
  "write_extended h =
     [flags_byte (eh_flags h)]
     @ [ucast (drop_bit 16 (eh_chunk_count h)), ucast (drop_bit 8 (eh_chunk_count h)), ucast (eh_chunk_count h)]
     @ concat (map (write_chunk_info (eh_flags h)) (eh_chunk_infos h))"

definition read_header :: "(blte_error, blte_header) reader" where
  "read_header s =
     rbind (read_exact EndOfInput 4 s) (\<lambda>magic s.
       if magic \<noteq> BLTE_MAGIC then Fail (InvalidMagic magic)
       else rbind (read_exact EndOfInput 4 s) (\<lambda>n s.
         let header_size = from_be n :: u32 in
         rbind (if header_size > 0 then rbind (read_extended s) (\<lambda>h s. Ret (Some h, s)) else Ret (None, s))
           (\<lambda>ext s.
           Ret (\<lparr>bh_magic = magic, bh_header_size = header_size, bh_extended = ext\<rparr>, s))))"

definition write_header :: "blte_header \<Rightarrow> byte list" where
  "write_header h =
     bh_magic h @ to_be 4 (bh_header_size h)
     @ (case bh_extended h of Some e \<Rightarrow> write_extended e | None \<Rightarrow> [])"

definition header_single_chunk :: blte_header where
  "header_single_chunk = \<lparr>bh_magic = BLTE_MAGIC, bh_header_size = 0, bh_extended = None\<rparr>"

definition is_single_chunk :: "blte_header \<Rightarrow> bool" where
  "is_single_chunk h \<longleftrightarrow> bh_header_size h = 0"

definition chunk_count :: "blte_header \<Rightarrow> nat" where
  "chunk_count h = (case bh_extended h of Some e \<Rightarrow> unat (eh_chunk_count e) | None \<Rightarrow> 1)"

definition data_offset :: "blte_header \<Rightarrow> nat" where
  "data_offset h = (if is_single_chunk h then 8 else unat (bh_header_size h))"

section \<open>Model: files\<close>

record blte_file =
  bf_header :: blte_header
  bf_chunks :: "chunk_data list"

text \<open>The chunks of the table, one after the other.\<close>

fun read_chunks :: "chunk_info list \<Rightarrow> (blte_error, chunk_data list) reader" where
  "read_chunks [] s = Ret ([], s)"
| "read_chunks (i # infos) s =
     rbind (read_chunk (unat (ci_compressed_size i)) s) (\<lambda>ch s.
     rbind (read_chunks infos s) (\<lambda>chs s. Ret (ch # chs, s)))"

definition blte_parse :: "byte list \<Rightarrow> (blte_error, blte_file) outcome" where
  "blte_parse data =
     obind (read_header data) (\<lambda>(h, s).
     obind (if is_single_chunk h
            then (if length s > 0 then rbind (read_chunk (length s) s) (\<lambda>ch s. Ret ([ch], s)) else Ret ([], s))
            else (case bh_extended h of
                    Some e \<Rightarrow> read_chunks (eh_chunk_infos e) s
                  | None \<Rightarrow> Ret ([], s))) (\<lambda>(chunks, s).
       Ret \<lparr>bf_header = h, bf_chunks = chunks\<rparr>))"

definition blte_bytes :: "blte_file \<Rightarrow> byte list" where
  "blte_bytes f = write_header (bf_header f) @ concat (map write_chunk (bf_chunks f))"

section \<open>Model: decompression\<close>

definition MAX_FRAME_DEPTH :: nat where "MAX_FRAME_DEPTH = 1"

text \<open>Every parse error of an inner container becomes a compression error.\<close>

definition parse_frame :: "byte list \<Rightarrow> (blte_error, blte_file) outcome" where
  "parse_frame data = (case blte_parse data of Ret f \<Rightarrow> Ret f | Fail e \<Rightarrow> Fail CompressionError | Panic \<Rightarrow> Panic)"

function decompress_chunk_recursive ::
  "codecs \<Rightarrow> byte list \<Rightarrow> compression_mode \<Rightarrow> nat \<Rightarrow> (blte_error, byte list) outcome" where
  "decompress_chunk_recursive c data mode depth =
     (case mode of
        ModeNone \<Rightarrow> Ret data
      | ModeZLib \<Rightarrow> zlib_drain [] (fst (zlib_reads c data)) (snd (zlib_reads c data))
      | ModeLZ4 \<Rightarrow> (case decompress_lz4_bnl c data of None \<Rightarrow> Fail CompressionError | Some d \<Rightarrow> Ret d)
      | ModeEncrypted \<Rightarrow> Fail CompressionError
      | ModeFrame \<Rightarrow>
          if depth \<ge> MAX_FRAME_DEPTH then Fail (RecursionLimitExceeded MAX_FRAME_DEPTH)
          else obind (parse_frame data) (\<lambda>inner.
               obind (omap (\<lambda>ch. decompress_chunk_recursive c (cd_data ch) (cd_mode ch) (depth + 1)) (bf_chunks inner))
                 (\<lambda>ds. Ret (concat ds))))"
  by pat_completeness auto
termination
  by (relation "measure (\<lambda>(c, data, mode, depth). MAX_FRAME_DEPTH - depth)") auto

declare decompress_chunk_recursive.simps [simp del]

definition decompress_chunk :: "codecs \<Rightarrow> byte list \<Rightarrow> compression_mode \<Rightarrow> (blte_error, byte list) outcome" where
  "decompress_chunk c data mode = decompress_chunk_recursive c data mode 0"

definition chunk_decompress :: "codecs \<Rightarrow> chunk_data \<Rightarrow> (blte_error, byte list) outcome" where
  "chunk_decompress c ch = decompress_chunk c (cd_data ch) (cd_mode ch)"

definition blte_decompress :: "codecs \<Rightarrow> blte_file \<Rightarrow> (blte_error, byte list) outcome" where
  "blte_decompress c f = obind (omap (chunk_decompress c) (bf_chunks f)) (\<lambda>ds. Ret (concat ds))"

section \<open>Model: building the chunk table\<close>

definition from_chunk_data :: "(byte list \<Rightarrow> byte list) \<Rightarrow> chunk_data \<Rightarrow> chunk_info" where
  "from_chunk_data md5 ch =
     \<lparr>ci_compressed_size = word_of_nat (length (compressed_data ch)),
      ci_decompressed_size = word_of_nat (decompressed_size ch),
      ci_checksum = md5 (compressed_data ch), ci_decompressed_checksum = None\<rparr>"

definition from_chunk_data_extended ::
  "codecs \<Rightarrow> (byte list \<Rightarrow> byte list) \<Rightarrow> chunk_data \<Rightarrow> (blte_error, chunk_info) outcome" where
  "from_chunk_data_extended c md5 ch =
     (let info = (\<lambda>d. \<lparr>ci_compressed_size = word_of_nat (length (compressed_data ch)),
            ci_decompressed_size = word_of_nat (decompressed_size ch),
            ci_checksum = md5 (compressed_data ch), ci_decompressed_checksum = Some (md5 d)\<rparr>) in
      case chunk_decompress c ch of
        Ret d \<Rightarrow> Ret (info d)
      | Fail e \<Rightarrow> Ret (info (compressed_data ch))
      | Panic \<Rightarrow> Panic)"

definition multi_chunk_with_flags ::
  "codecs \<Rightarrow> (byte list \<Rightarrow> byte list) \<Rightarrow> chunk_data list \<Rightarrow> header_flags \<Rightarrow> (blte_error, blte_header) outcome" where
  "multi_chunk_with_flags c md5 chunks flags =
     (if chunks = [] then Fail (InvalidChunkCount 0)
      else if length chunks > 0xFFFFFF then Fail (InvalidChunkCount (word_of_nat (length chunks)))
      else obind (if flags = Extended then omap (from_chunk_data_extended c md5) chunks
                  else Ret (map (from_chunk_data md5) chunks)) (\<lambda>infos.
             Ret \<lparr>bh_magic = BLTE_MAGIC,
                  bh_header_size = word_of_nat (12 + length chunks * chunk_info_size flags),
                  bh_extended = Some \<lparr>eh_flags = flags, eh_chunk_count = word_of_nat (length chunks),
                                      eh_chunk_infos = infos\<rparr>\<rparr>))"

section \<open>Model: encryption\<close>

record encryption_spec =
  es_key_name :: u64
  es_iv :: "byte list"
  es_type :: byte

definition encrypt_chunk_with_key ::
  "byte list \<Rightarrow> encryption_spec \<Rightarrow> byte list \<Rightarrow> nat \<Rightarrow> (blte_error, byte list) outcome" where
  "encrypt_chunk_with_key data spec key block_index =
     obind (if es_type spec = 0x53
            then (case encrypt_salsa20 data key (es_iv spec) block_index of
                    Inl e \<Rightarrow> Fail CompressionError | Inr d \<Rightarrow> Ret d)
            else if es_type spec = 0x41
            then (case arc4_new key of Inl e \<Rightarrow> Fail CompressionError | Inr cipher \<Rightarrow> Ret (fst (arc4_encrypt cipher data)))
            else Fail CompressionError) (\<lambda>encrypted.
       Ret ([8] @ to_le 8 (es_key_name spec) @ [4] @ es_iv spec @ [es_type spec] @ encrypted))"

text \<open>The key store answers with an error, no key, or a key of 16 bytes.\<close>

type_synonym key_store = "u64 \<Rightarrow> unit + byte list option"

definition decrypt_payload ::
  "byte \<Rightarrow> byte list \<Rightarrow> byte list \<Rightarrow> byte list \<Rightarrow> nat \<Rightarrow> (blte_error, byte list) outcome" where
  "decrypt_payload encryption_type encrypted key iv block_index =
     (if encryption_type = 0x53
      then (case decrypt_salsa20 encrypted key iv block_index of Inl e \<Rightarrow> Fail CompressionError | Inr d \<Rightarrow> Ret d)
      else if encryption_type = 0x41
      then (case arc4_new key of Inl e \<Rightarrow> Fail CompressionError | Inr cipher \<Rightarrow> Ret (fst (arc4_decrypt cipher encrypted)))
      else Fail CompressionError)"

definition open_payload :: "codecs \<Rightarrow> byte list \<Rightarrow> (blte_error, byte list) outcome" where
  "open_payload c decrypted =
     (if decrypted = [] then Ret decrypted
      else case mode_from_byte (hd decrypted) of
             None \<Rightarrow> Ret decrypted
           | Some mode \<Rightarrow>
               if mode = ModeEncrypted then Fail NestedEncryption else decompress_chunk c (tl decrypted) mode)"

definition decrypt_chunk_with_keys ::
  "codecs \<Rightarrow> byte list \<Rightarrow> key_store \<Rightarrow> nat \<Rightarrow> (blte_error, byte list) outcome" where
  "decrypt_chunk_with_keys c data keys block_index =
     (if length data < 17 then Fail CompressionError
      else if data ! 0 \<noteq> 8 then Fail CompressionError
      else case keys (from_le (slice 1 9 data)) of
             Inl _ \<Rightarrow> Fail CompressionError
           | Inr None \<Rightarrow> Fail CompressionError
           | Inr (Some key) \<Rightarrow>
               let iv_size = data ! 9; iv_len = unat iv_size in
               if iv_size \<noteq> 4 \<and> iv_size \<noteq> 8 then Fail (InvalidIvLen iv_size)
               else if length data < 10 + iv_len then Fail CompressionError
               else if length data < 10 + iv_len + 1 then Fail CompressionError
               else obind (decrypt_payload (data ! (10 + iv_len)) (drop (11 + iv_len) data) key
                             (slice 10 (10 + iv_len) data) block_index) (open_payload c))"

section \<open>A container inside a container is smaller\<close>

definition data_size :: "blte_file \<Rightarrow> nat" where
  "data_size f = sum_list (map (\<lambda>ch. length (cd_data ch)) (bf_chunks f))"

lemma read_chunk_size: "read_chunk n s = Ret (ch, s') \<Longrightarrow> length (cd_data ch) + 1 + length s' = length s"
  by (auto simp: read_chunk_def rbind_Ret read_exact_Ret split: if_splits option.splits)

lemma read_chunks_size:
  "read_chunks infos s = Ret (chs, s') \<Longrightarrow> sum_list (map (\<lambda>ch. length (cd_data ch)) chs) + length s' \<le> length s"
proof (induction infos arbitrary: s chs)
  case (Cons i infos)
  then obtain ch t chs' where "read_chunk (unat (ci_compressed_size i)) s = Ret (ch, t)"
    "read_chunks infos t = Ret (chs', s')" "chs = ch # chs'"
    by (auto simp: rbind_Ret)
  then show ?case
    using read_chunk_size [of "unat (ci_compressed_size i)" s ch t] Cons.IH [of t chs'] by simp
qed simp

lemma read_chunk_info_size: "read_chunk_info flags s = Ret (i, s') \<Longrightarrow> length s' \<le> length s"
  by (auto simp: read_chunk_info_def rbind_Ret read_exact_Ret split: if_splits)

lemma read_extended_size: "read_extended s = Ret (e, s') \<Longrightarrow> length s' \<le> length s"
  using read_many_shrinks [where rd = "read_chunk_info flags" for flags, OF read_chunk_info_size]
  by (fastforce simp: read_extended_def rbind_Ret read_exact_Ret Let_def split: option.splits)

lemma read_header_size: "read_header s = Ret (h, s') \<Longrightarrow> length s' + 8 \<le> length s"
  by (auto simp: read_header_def rbind_Ret read_exact_Ret Let_def split: if_splits dest!: read_extended_size)

lemma blte_parse_size: "blte_parse data = Ret f \<Longrightarrow> data_size f < length data"
proof -
  assume "blte_parse data = Ret f"
  then obtain h s chunks s' where h: "read_header data = Ret (h, s)" and f: "bf_chunks f = chunks"
    and chunks: "(if is_single_chunk h
       then (if length s > 0 then rbind (read_chunk (length s) s) (\<lambda>ch s. Ret ([ch], s)) else Ret ([], s))
       else (case bh_extended h of Some e \<Rightarrow> read_chunks (eh_chunk_infos e) s | None \<Rightarrow> Ret ([], s))) = Ret (chunks, s')"
    by (auto simp: blte_parse_def obind_Ret)
  have "sum_list (map (\<lambda>ch. length (cd_data ch)) chunks) \<le> length s"
    using chunks by (auto simp: rbind_Ret split: if_splits option.splits dest!: read_chunk_size read_chunks_size)
  then show ?thesis
    using read_header_size [OF h] f by (simp add: data_size_def)
qed

lemma chunk_in_data_size: "ch \<in> set (bf_chunks f) \<Longrightarrow> length (cd_data ch) \<le> data_size f"
  unfolding data_size_def by (rule member_le_sum_list) auto

section \<open>Model: decompression with keys\<close>

text \<open>
  \<open>decompress_with_keys\<close> recurses into frames without a depth limit; it ends because an inner
  container is smaller than the chunk that holds it.
\<close>

function decompress_with_keys :: "codecs \<Rightarrow> key_store \<Rightarrow> blte_file \<Rightarrow> (blte_error, byte list) outcome" where
  "decompress_with_keys c keys f =
     (if is_single_chunk (bf_header f) \<and> bf_chunks f \<noteq> [] \<and> cd_mode (hd (bf_chunks f)) = ModeEncrypted
      then Fail SingleChunkEncrypted
      else obind (omap (\<lambda>(i, ch).
                    if cd_mode ch = ModeEncrypted then decrypt_chunk_with_keys c (cd_data ch) keys i
                    else if cd_mode ch = ModeFrame
                    then obind (parse_frame (cd_data ch)) (\<lambda>inner. decompress_with_keys c keys inner)
                    else chunk_decompress c ch) (List.enumerate 0 (bf_chunks f)))
             (\<lambda>ds. Ret (concat ds)))"
  by pat_completeness auto
termination
proof (relation "measure (\<lambda>(c, keys, f). data_size f)")
  fix c :: codecs and keys :: key_store and f inner :: blte_file and p i ch
  assume "p \<in> set (List.enumerate 0 (bf_chunks f))" "(i, ch) = p" "parse_frame (cd_data ch) = Ret inner"
  then have "ch \<in> set (bf_chunks f)" "blte_parse (cd_data ch) = Ret inner"
    by (auto simp: parse_frame_def enumerate_eq_zip dest: set_zip_rightD split: outcome.splits)
  then show "((c, keys, inner), c, keys, f) \<in> measure (\<lambda>(c, keys, f). data_size f)"
    using chunk_in_data_size [of ch f] blte_parse_size [of "cd_data ch" inner] by simp
qed simp

declare decompress_with_keys.simps [simp del]

end
