(* ===== verification/Blte_Builder.thy ===== *)
theory Blte_Builder
  imports Blte
begin

text \<open>
  Building BLTE containers: \<open>BlteBuilder\<close> of \<open>cascette-formats/src/blte/builder.rs\<close> and the
  constructors of \<open>BlteFile\<close> in \<open>mod.rs\<close>. The loop that cuts data into chunks does not end when the
  chunk size is zero, so it is a partial function whose value is then \<open>None\<close>.
\<close>

section \<open>Model\<close>

definition MIN_CHUNK_SIZE :: nat where "MIN_CHUNK_SIZE = 1024"
definition MAX_CHUNK_SIZE :: nat where "MAX_CHUNK_SIZE = 16 * 1024 * 1024"
definition DEFAULT_CHUNK_SIZE :: nat where "DEFAULT_CHUNK_SIZE = 256 * 1024"

record blte_builder =
  bb_chunks :: "chunk_data list"
  bb_default_mode :: compression_mode
  bb_chunk_size :: nat
  bb_encryption :: "(encryption_spec \<times> byte list) option"

definition builder_new :: blte_builder where
  "builder_new =
     \<lparr>bb_chunks = [], bb_default_mode = ModeNone, bb_chunk_size = DEFAULT_CHUNK_SIZE, bb_encryption = None\<rparr>"

definition with_compression :: "blte_builder \<Rightarrow> compression_mode \<Rightarrow> blte_builder" where
  "with_compression b mode = b\<lparr>bb_default_mode := mode\<rparr>"

definition with_chunk_size :: "blte_builder \<Rightarrow> nat \<Rightarrow> (blte_error, blte_builder) outcome" where
  "with_chunk_size b n =
     (if \<not> (MIN_CHUNK_SIZE \<le> n \<and> n \<le> MAX_CHUNK_SIZE)
      then Fail (InvalidChunkSize n MIN_CHUNK_SIZE MAX_CHUNK_SIZE)
      else Ret (b\<lparr>bb_chunk_size := n\<rparr>))"

definition with_chunk_size_unchecked :: "blte_builder \<Rightarrow> nat \<Rightarrow> blte_builder" where
  "with_chunk_size_unchecked b n = b\<lparr>bb_chunk_size := n\<rparr>"

definition with_encryption :: "blte_builder \<Rightarrow> encryption_spec \<Rightarrow> byte list \<Rightarrow> blte_builder" where
  "with_encryption b spec key = b\<lparr>bb_encryption := Some (spec, key)\<rparr>"

definition without_encryption :: "blte_builder \<Rightarrow> blte_builder" where
  "without_encryption b = b\<lparr>bb_encryption := None\<rparr>"

definition add_chunk :: "blte_builder \<Rightarrow> chunk_data \<Rightarrow> blte_builder" where
  "add_chunk b ch = b\<lparr>bb_chunks := bb_chunks b @ [ch]\<rparr>"

definition build_inner_payload :: "codecs \<Rightarrow> blte_builder \<Rightarrow> byte list \<Rightarrow> (blte_error, byte list) outcome" where
  "build_inner_payload c b data =
     (let inner_mode = (if bb_default_mode b \<noteq> ModeNone \<and> bb_default_mode b \<noteq> ModeEncrypted
                        then bb_default_mode b else ModeNone) in
      if inner_mode = ModeNone then Ret (mode_as_byte ModeNone # data)
      else obind (compress_chunk c data inner_mode) (\<lambda>z. Ret (mode_as_byte inner_mode # z)))"

definition create_encrypted_chunk_with_params ::
  "codecs \<Rightarrow> blte_builder \<Rightarrow> byte list \<Rightarrow> encryption_spec \<Rightarrow> byte list \<Rightarrow> nat \<Rightarrow> (blte_error, chunk_data) outcome" where
  "create_encrypted_chunk_with_params c b data spec key block_index =
     obind (build_inner_payload c b data) (\<lambda>inner.
     obind (encrypt_chunk_with_key inner spec key block_index) (\<lambda>encrypted.
       Ret (from_compressed ModeEncrypted encrypted (Some (length inner)))))"

definition create_encrypted_chunk ::
  "codecs \<Rightarrow> blte_builder \<Rightarrow> byte list \<Rightarrow> nat \<Rightarrow> (blte_error, chunk_data) outcome" where
  "create_encrypted_chunk c b data block_index =
     (case bb_encryption b of
        None \<Rightarrow> Fail CompressionError
      | Some (spec, key) \<Rightarrow> create_encrypted_chunk_with_params c b data spec key block_index)"

text \<open>The loop over the pieces of the data, from a first chunk index on.\<close>

partial_function (option) chunk_loop ::
  "(byte list \<Rightarrow> nat \<Rightarrow> (blte_error, chunk_data) outcome) \<Rightarrow> nat \<Rightarrow> byte list \<Rightarrow> nat \<Rightarrow> chunk_data list
   \<Rightarrow> (blte_error, chunk_data list) outcome option" where
  "chunk_loop mk_chunk n data chunk_index chunks =
     (if data = [] then Some (Ret chunks)
      else (case mk_chunk (take n data) chunk_index of
              Ret ch \<Rightarrow> chunk_loop mk_chunk n (drop n data) (chunk_index + 1) (chunks @ [ch])
            | Fail e \<Rightarrow> Some (Fail e)
            | Panic \<Rightarrow> Some Panic))"

text \<open>The two ways of adding data differ in the chunk index they start from.\<close>

definition add_pieces ::
  "(byte list \<Rightarrow> nat \<Rightarrow> (blte_error, chunk_data) outcome) \<Rightarrow> nat \<Rightarrow> blte_builder \<Rightarrow> byte list
   \<Rightarrow> (blte_error, blte_builder) outcome option" where
  "add_pieces mk_chunk first b data =
     (if length data \<le> bb_chunk_size b
      then Some (obind (mk_chunk data first) (\<lambda>ch. Ret (add_chunk b ch)))
      else map_option (\<lambda>r. obind r (\<lambda>chunks. Ret (b\<lparr>bb_chunks := chunks\<rparr>)))
             (chunk_loop mk_chunk (bb_chunk_size b) data first (bb_chunks b)))"

definition add_data :: "codecs \<Rightarrow> blte_builder \<Rightarrow> byte list \<Rightarrow> (blte_error, blte_builder) outcome option" where
  "add_data c b data =
     add_pieces (\<lambda>piece i. if bb_encryption b \<noteq> None then create_encrypted_chunk c b piece i
                          else chunk_new c piece (bb_default_mode b)) 0 b data"

definition add_encrypted_data ::
  "codecs \<Rightarrow> blte_builder \<Rightarrow> byte list \<Rightarrow> encryption_spec \<Rightarrow> byte list \<Rightarrow> nat \<Rightarrow> (blte_error, blte_builder) outcome" where
  "add_encrypted_data c b data spec key block_index =
     obind (create_encrypted_chunk_with_params c b data spec key block_index) (\<lambda>ch. Ret (add_chunk b ch))"

definition add_mixed_data ::
  "codecs \<Rightarrow> blte_builder \<Rightarrow> byte list \<Rightarrow> (encryption_spec \<times> byte list) option \<Rightarrow> (blte_error, blte_builder) outcome option" where
  "add_mixed_data c b data encryption =
     add_pieces (\<lambda>piece i. case encryption of
                            Some (spec, key) \<Rightarrow> create_encrypted_chunk_with_params c b piece spec key i
                          | None \<Rightarrow> chunk_new c piece (bb_default_mode b)) (length (bb_chunks b)) b data"

definition builder_build ::
  "codecs \<Rightarrow> (byte list \<Rightarrow> byte list) \<Rightarrow> blte_builder \<Rightarrow> (blte_error, blte_file) outcome" where
  "builder_build c md5 b =
     (if bb_chunks b = [] then Fail (InvalidChunkCount 0)
      else if length (bb_chunks b) = 1 \<and> \<not> list_ex (\<lambda>ch. cd_mode ch = ModeEncrypted) (bb_chunks b)
      then Ret \<lparr>bf_header = header_single_chunk, bf_chunks = bb_chunks b\<rparr>
      else obind (multi_chunk_with_flags c md5 (bb_chunks b) Standard) (\<lambda>h.
             Ret \<lparr>bf_header = h, bf_chunks = bb_chunks b\<rparr>))"

section \<open>Model: the constructors of \<open>BlteFile\<close>\<close>

definition file_single_chunk :: "codecs \<Rightarrow> byte list \<Rightarrow> compression_mode \<Rightarrow> (blte_error, blte_file) outcome" where
  "file_single_chunk c data mode =
     obind (chunk_new c data mode) (\<lambda>ch. Ret \<lparr>bf_header = header_single_chunk, bf_chunks = [ch]\<rparr>)"

definition file_multi_chunk ::
  "codecs \<Rightarrow> (byte list \<Rightarrow> byte list) \<Rightarrow> chunk_data list \<Rightarrow> (blte_error, blte_file) outcome" where
  "file_multi_chunk c md5 chunks =
     obind (multi_chunk_with_flags c md5 chunks Standard) (\<lambda>h. Ret \<lparr>bf_header = h, bf_chunks = chunks\<rparr>)"

definition file_compress ::
  "codecs \<Rightarrow> (byte list \<Rightarrow> byte list) \<Rightarrow> byte list \<Rightarrow> nat \<Rightarrow> compression_mode \<Rightarrow> (blte_error, blte_file) outcome option" where
  "file_compress c md5 data n mode =
     (if length data \<le> n then Some (file_single_chunk c data mode)
      else map_option (\<lambda>r. obind r (file_multi_chunk c md5))
             (chunk_loop (\<lambda>piece i. chunk_new c piece mode) n data 0 []))"

section \<open>The loop over the pieces\<close>

fun pieces :: "nat \<Rightarrow> nat \<Rightarrow> byte list \<Rightarrow> byte list list" where
  "pieces 0 n data = []"
| "pieces (Suc k) n data = (if data = [] then [] else take n data # pieces k n (drop n data))"

lemma concat_pieces: "0 < n \<Longrightarrow> length data \<le> k \<Longrightarrow> concat (pieces k n data) = data"
proof (induction k arbitrary: data)
  case (Suc k)
  then have "length (drop n data) \<le> k" by auto
  with Suc show ?case by simp
qed simp

lemma pieces_bound: "0 < n \<Longrightarrow> p \<in> set (pieces k n data) \<Longrightarrow> p \<noteq> [] \<and> length p \<le> n"
  by (induction k arbitrary: data) (auto split: if_splits)

lemma length_pieces: "0 < n \<Longrightarrow> length (pieces k n data) \<le> length data div n + 1"
proof (induction k arbitrary: data)
  case (Suc k)
  have tail: "length (pieces k n (drop n data)) \<le> length data div n" if "data \<noteq> []"
  proof (cases "length data < n")
    case True
    then show ?thesis by (cases k) simp_all
  next
    case False
    then have "length data div n = Suc ((length data - n) div n)"
      using Suc.prems by (simp add: le_div_geq)
    then show ?thesis using Suc.IH [OF Suc.prems, of "drop n data"] by simp
  qed
  then show ?case by simp
qed simp

text \<open>With a positive chunk size the loop ends and makes one chunk of every piece, in order.\<close>

lemma chunk_loop_pieces:
  assumes "0 < n"
  shows "length data \<le> k \<Longrightarrow> chunk_loop mk_chunk n data i chunks =
    Some (obind (omap (\<lambda>(i, p). mk_chunk p i) (List.enumerate i (pieces k n data))) (\<lambda>chs. Ret (chunks @ chs)))"
proof (induction k arbitrary: data i chunks)
  case 0
  then show ?case by (subst chunk_loop.simps) simp
next
  case (Suc k)
  show ?case
  proof (cases "data = []")
    case False
    have "length (drop n data) \<le> k" using Suc.prems assms False by auto
    note IH = Suc.IH [OF this]
    let ?rest = "omap (\<lambda>(i, p). mk_chunk p i) (List.enumerate (Suc i) (pieces k n (drop n data)))"
    show ?thesis
      using False
      by (subst chunk_loop.simps, cases "mk_chunk (take n data) i"; cases ?rest) (simp_all add: IH)
  qed (subst chunk_loop.simps, simp)
qed

text \<open>With chunk size zero the loop makes empty chunks for ever, unless making one fails.\<close>

lemma chunk_loop_zero_diverges:
  assumes "\<And>i. \<exists>ch. mk_chunk [] i = Ret ch"
  shows "chunk_loop mk n data i chunks = Some r \<Longrightarrow> \<not> (n = 0 \<and> mk = mk_chunk \<and> data \<noteq> [])"
proof (erule chunk_loop.raw_induct
    [where P = "\<lambda>mk n data i chunks r. \<not> (n = 0 \<and> mk = mk_chunk \<and> data \<noteq> [])", rotated])
  fix loop mk n data i chunks r
  assume IH: "\<And>mk n data i chunks r. loop mk n data i chunks = Some r \<Longrightarrow> \<not> (n = 0 \<and> mk = mk_chunk \<and> data \<noteq> [])"
    and r: "(if data = [] then Some (Ret chunks)
        else case mk (take n data) i of Ret ch \<Rightarrow> loop mk n (drop n data) (i + 1) (chunks @ [ch])
             | Fail e \<Rightarrow> Some (Fail e) | Panic \<Rightarrow> Some Panic) = Some r"
  obtain ch where "mk_chunk [] i = Ret ch" using assms by blast
  with r IH [of mk n data "i + 1" "chunks @ [ch]" r] show "\<not> (n = 0 \<and> mk = mk_chunk \<and> data \<noteq> [])"
    by (cases "n = 0") (auto split: if_splits)
qed

lemma chunk_loop_zero:
  "data \<noteq> [] \<Longrightarrow> (\<And>i. \<exists>ch. mk_chunk [] i = Ret ch) \<Longrightarrow> chunk_loop mk_chunk 0 data i chunks = None"
  using chunk_loop_zero_diverges [of mk_chunk mk_chunk 0 data i chunks]
  by (cases "chunk_loop mk_chunk 0 data i chunks") auto

end
