(* ===== verification/Blte_Props.thy ===== *)
theory Blte_Props
  imports Blte_Builder
begin

text \<open>
  The BLTE container end to end: the byte image of a built container parses back, and what the
  builder compressed and encrypted comes out of \<open>decompress_with_keys\<close>.
\<close>

section \<open>Byte images\<close>

lemma mode_round_trip [simp]: "mode_from_byte (mode_as_byte m) = Some m"
  by (cases m) (simp_all add: mode_from_byte_def)

lemma flags_round_trip [simp]: "flags_from_byte (flags_byte f) = Some f"
  by (cases f) (simp_all add: flags_from_byte_def)

definition wf_info :: "header_flags \<Rightarrow> chunk_info \<Rightarrow> bool" where
  "wf_info flags i \<longleftrightarrow> length (ci_checksum i) = 16 \<and>
     (case flags of Standard \<Rightarrow> ci_decompressed_checksum i = None
      | Extended \<Rightarrow> (\<exists>d. ci_decompressed_checksum i = Some d \<and> length d = 16))"

interpretation info: stream_codec "wf_info flags" "write_chunk_info flags" "read_chunk_info flags" for flags
  by unfold_locales (cases flags; auto simp: wf_info_def write_chunk_info_def read_chunk_info_def)

lemma length_write_chunk_info: "wf_info flags i \<Longrightarrow> length (write_chunk_info flags i) = chunk_info_size flags"
  by (cases flags) (auto simp: wf_info_def write_chunk_info_def)

text \<open>The chunk that reading gives back: its original size is not stored.\<close>

definition strip :: "chunk_data \<Rightarrow> chunk_data" where
  "strip ch = ch\<lparr>cd_decompressed_size := None\<rparr>"

lemma read_write_chunk: "n = compressed_size ch \<Longrightarrow> read_chunk n (write_chunk ch @ s) = Ret (strip ch, s)"
  by (simp add: read_chunk_def write_chunk_def compressed_size_def strip_def read_exact_def)

lemma read_write_chunks:
  "list_all2 (\<lambda>i ch. unat (ci_compressed_size i) = compressed_size ch) infos chs \<Longrightarrow>
   read_chunks infos (concat (map write_chunk chs) @ s) = Ret (map strip chs, s)"
  by (induction infos chs rule: list_all2_induct) (simp_all add: read_write_chunk)

lemma count_bytes:
  fixes w :: u32
  assumes "w < 2 ^ 24"
  shows "from_be [0, ucast (drop_bit 16 w), ucast (drop_bit 8 w), ucast w] = w"
proof -
  have "drop_bit 24 w = 0"
    by (rule bit_word_eqI) (use bit_less_pow [OF assms] in \<open>auto simp: bit_drop_bit_eq\<close>)
  then have "[0, ucast (drop_bit 16 w), ucast (drop_bit 8 w), ucast w] = to_be 4 w"
    by (simp add: to_be_def to_le_def upt_rec numeral_eq_Suc)
  then show ?thesis by simp
qed

definition wf_extended :: "extended_header \<Rightarrow> bool" where
  "wf_extended e \<longleftrightarrow> eh_chunk_count e < 2 ^ 24 \<and> unat (eh_chunk_count e) = length (eh_chunk_infos e)
     \<and> list_all (wf_info (eh_flags e)) (eh_chunk_infos e)"

lemma read_write_extended: "wf_extended e \<Longrightarrow> read_extended (write_extended e @ s) = Ret (e, s)"
  using info.read_many_write [of "eh_flags e" "eh_chunk_infos e" s] count_bytes [of "eh_chunk_count e"]
  by (simp add: wf_extended_def read_extended_def write_extended_def read_exact_def Let_def)

lemma length_info_table:
  "list_all (wf_info flags) is \<Longrightarrow> length (concat (map (write_chunk_info flags) is)) = length is * chunk_info_size flags"
  by (induction "is") (auto simp: length_write_chunk_info)

lemma length_write_extended:
  "wf_extended e \<Longrightarrow> length (write_extended e) = 4 + length (eh_chunk_infos e) * chunk_info_size (eh_flags e)"
  by (simp add: wf_extended_def write_extended_def length_info_table)

text \<open>A container whose header describes its chunks.\<close>

definition wf_file :: "blte_file \<Rightarrow> bool" where
  "wf_file f \<longleftrightarrow>
     bf_header f = header_single_chunk \<and> length (bf_chunks f) = 1
   \<or> (\<exists>e. bh_magic (bf_header f) = BLTE_MAGIC \<and> bh_header_size (bf_header f) \<noteq> 0 \<and> bh_extended (bf_header f) = Some e
        \<and> wf_extended e
        \<and> list_all2 (\<lambda>i ch. unat (ci_compressed_size i) = compressed_size ch) (eh_chunk_infos e) (bf_chunks f))"

lemma read_write_header_single:
  "read_header (write_header header_single_chunk @ s) = Ret (header_single_chunk, s)"
proof -
  have "write_header header_single_chunk @ s = BLTE_MAGIC @ to_be 4 (0 :: u32) @ s"
    by (simp add: write_header_def header_single_chunk_def)
  moreover have "length BLTE_MAGIC = 4" by (simp add: BLTE_MAGIC_def)
  ultimately show ?thesis
    by (simp add: read_header_def header_single_chunk_def)
qed

lemma read_write_header_multi:
  assumes "bh_magic h = BLTE_MAGIC" "bh_header_size h \<noteq> 0" "bh_extended h = Some e" "wf_extended e"
  shows "read_header (write_header h @ s) = Ret (h, s)"
proof -
  have "write_header h @ s = BLTE_MAGIC @ to_be 4 (bh_header_size h) @ write_extended e @ s"
    using assms by (simp add: write_header_def)
  moreover have "length BLTE_MAGIC = 4" by (simp add: BLTE_MAGIC_def)
  moreover have "bh_header_size h > 0" using assms(2) by (simp add: word_gt_0)
  ultimately show ?thesis
    using assms by (simp add: read_header_def read_write_extended)
qed

lemma blte_parse_bytes:
  assumes "wf_file f"
  shows "blte_parse (blte_bytes f) = Ret (f\<lparr>bf_chunks := map strip (bf_chunks f)\<rparr>)"
proof (cases "is_single_chunk (bf_header f)")
  case True
  then obtain ch where f: "bf_header f = header_single_chunk" "bf_chunks f = [ch]"
    using assms by (auto simp: wf_file_def is_single_chunk_def length_Suc_conv)
  have "length (write_chunk ch) = compressed_size ch" "0 < compressed_size ch" "write_chunk ch \<noteq> []"
    by (simp_all add: write_chunk_def compressed_size_def)
  then show ?thesis
    using read_write_chunk [of "compressed_size ch" ch "[]"] read_write_header_single [of "write_chunk ch"]
    by (simp add: blte_parse_def blte_bytes_def f True [unfolded f])
next
  case False
  then obtain e where h: "bh_magic (bf_header f) = BLTE_MAGIC" "bh_header_size (bf_header f) \<noteq> 0"
      "bh_extended (bf_header f) = Some e" "wf_extended e"
    and chunks: "list_all2 (\<lambda>i ch. unat (ci_compressed_size i) = compressed_size ch) (eh_chunk_infos e) (bf_chunks f)"
    using assms by (auto simp: wf_file_def is_single_chunk_def header_single_chunk_def)
  show ?thesis
    using False read_write_header_multi [OF h, of "concat (map write_chunk (bf_chunks f))"]
      read_write_chunks [OF chunks, of "[]"] h(3)
    by (simp add: blte_parse_def blte_bytes_def)
qed

text \<open>The headers the code builds describe their chunks, if every chunk is shorter than 4 GiB.\<close>

definition info_of :: "header_flags \<Rightarrow> chunk_info \<Rightarrow> chunk_data \<Rightarrow> bool" where
  "info_of flags i ch \<longleftrightarrow> wf_info flags i \<and> unat (ci_compressed_size i) = compressed_size ch"

lemma compressed_size_word: "compressed_size ch < 2 ^ 32 \<Longrightarrow>
    unat (word_of_nat (length (compressed_data ch)) :: u32) = compressed_size ch"
proof -
  assume "compressed_size ch < 2 ^ 32"
  moreover have "length (compressed_data ch) = compressed_size ch"
    by (simp add: compressed_data_def compressed_size_def)
  ultimately show ?thesis by (simp only: unat_of_nat) simp
qed

lemma extended_info:
  assumes "from_chunk_data_extended c md5 ch = Ret i" "\<And>x. length (md5 x) = 16" "compressed_size ch < 2 ^ 32"
  shows "info_of Extended i ch"
  using assms
  by (auto simp: from_chunk_data_extended_def Let_def info_of_def wf_info_def compressed_size_word split: outcome.splits)

lemma infos_describe:
  assumes "(if flags = Extended then omap (from_chunk_data_extended c md5) chunks
        else Ret (map (from_chunk_data md5) chunks)) = Ret infos"
    and "\<And>x. length (md5 x) = 16" "\<forall>ch\<in>set chunks. compressed_size ch < 2 ^ 32"
  shows "list_all2 (info_of flags) infos chunks"
proof (cases flags)
  case Standard
  then show ?thesis
    using assms by (auto simp: list_all2_map1 list_all2_same info_of_def wf_info_def from_chunk_data_def compressed_size_word)
next
  case Extended
  then have "list_all2 (\<lambda>ch i. from_chunk_data_extended c md5 ch = Ret i) chunks infos"
    using assms(1) by (simp add: omap_list_all2)
  then have "list_all2 (\<lambda>ch i. info_of flags i ch) chunks infos"
    using assms(2,3) Extended by (auto simp: list_all2_conv_all_nth intro!: extended_info)
  then show ?thesis by (simp add: list_all2_conv_all_nth)
qed

lemma multi_chunk_wf:
  assumes "multi_chunk_with_flags c md5 chunks flags = Ret h" "\<And>x. length (md5 x) = 16"
    and "\<forall>ch\<in>set chunks. compressed_size ch < 2 ^ 32"
  shows "wf_file \<lparr>bf_header = h, bf_chunks = chunks\<rparr> \<and> data_offset h = length (write_header h)
    \<and> chunk_count h = length chunks \<and> \<not> is_single_chunk h"
proof -
  let ?n = "length chunks"
  obtain infos where infos: "(if flags = Extended then omap (from_chunk_data_extended c md5) chunks
        else Ret (map (from_chunk_data md5) chunks)) = Ret infos"
    and n: "chunks \<noteq> []" "?n \<le> 0xFFFFFF"
    and h: "h = \<lparr>bh_magic = BLTE_MAGIC, bh_header_size = word_of_nat (12 + ?n * chunk_info_size flags),
        bh_extended = Some \<lparr>eh_flags = flags, eh_chunk_count = word_of_nat ?n, eh_chunk_infos = infos\<rparr>\<rparr>"
    using assms(1) by (auto simp: multi_chunk_with_flags_def obind_Ret split: if_splits)
  note described = infos_describe [OF infos assms(2,3)]
  have len: "length infos = ?n" using described by (rule list_all2_lengthD)
  have count: "unat (word_of_nat ?n :: u32) = ?n"
    using n by (simp add: unat_of_nat)
  have "(word_of_nat ?n :: u32) < 2 ^ 24"
    using n count by (simp add: word_less_nat_alt)
  moreover have "list_all (wf_info flags) infos"
    using described by (auto simp: list_all2_conv_all_nth list_all_length info_of_def)
  ultimately have wf: "wf_extended \<lparr>eh_flags = flags, eh_chunk_count = word_of_nat ?n, eh_chunk_infos = infos\<rparr>"
    using len count by (simp add: wf_extended_def)
  have "12 + ?n * chunk_info_size flags < 2 ^ 32"
    using n by (cases flags) simp_all
  then have sz: "unat (word_of_nat (12 + ?n * chunk_info_size flags) :: u32) = 12 + ?n * chunk_info_size flags"
    by (simp only: unat_of_nat) simp
  then have "(word_of_nat (12 + ?n * chunk_info_size flags) :: u32) \<noteq> 0" by fastforce
  moreover have "list_all2 (\<lambda>i ch. unat (ci_compressed_size i) = compressed_size ch) infos chunks"
    using described by (rule list_all2_mono) (simp add: info_of_def)
  moreover have "length BLTE_MAGIC = 4" by (simp add: BLTE_MAGIC_def)
  ultimately show ?thesis
    using sz wf count length_write_extended [OF wf] len
    by (simp add: wf_file_def h data_offset_def is_single_chunk_def write_header_def chunk_count_def)
qed

section \<open>What a chunk opens to\<close>

text \<open>What the container relies on of the zlib codec, and the size it may add.\<close>

definition zlib_ok :: "codecs \<Rightarrow> bool" where
  "zlib_ok c \<longleftrightarrow>
     (\<forall>data. \<exists>z. zlib_encode c data = Some z \<and> z \<noteq> [] \<and> length z \<le> 2 * length data + 13
        \<and> concat (fst (zlib_reads c z)) = data \<and> [] \<notin> set (fst (zlib_reads c z)) \<and> snd (zlib_reads c z))"

definition plain_mode :: "compression_mode \<Rightarrow> bool" where
  "plain_mode m \<longleftrightarrow> m = ModeNone \<or> m = ModeZLib \<or> m = ModeLZ4"

lemma zlib_drain_concat:
  "[] \<notin> set rs \<Longrightarrow> length acc + length (concat rs) \<le> MAX_DECOMPRESSION_SIZE \<Longrightarrow>
   zlib_drain acc rs True = Ret (acc @ concat rs)"
  by (induction rs arbitrary: acc) auto

lemma decompress_chunk_plain:
  "decompress_chunk c data ModeNone = Ret data"
  "decompress_chunk c data ModeZLib = zlib_drain [] (fst (zlib_reads c data)) (snd (zlib_reads c data))"
  "decompress_chunk c data ModeLZ4 = (case decompress_lz4_bnl c data of None \<Rightarrow> Fail CompressionError | Some d \<Rightarrow> Ret d)"
  by (simp_all add: decompress_chunk_def decompress_chunk_recursive.simps)

lemma compress_chunk_opens:
  assumes "lz4_ok c" "zlib_ok c" "plain_mode m" "length data \<le> MAX_CHUNK_SIZE"
  shows "\<exists>z. compress_chunk c data m = Ret z \<and> decompress_chunk c z m = Ret data \<and> length z \<le> 18 * MAX_CHUNK_SIZE + 10
    \<and> (data \<noteq> [] \<longrightarrow> z \<noteq> [])"
proof -
  consider "m = ModeNone" | "m = ModeZLib" | "m = ModeLZ4" using assms(3) by (auto simp: plain_mode_def)
  then show ?thesis
  proof cases
    case 1
    then show ?thesis using assms(4) by (simp add: compress_chunk_def decompress_chunk_plain)
  next
    case 2
    obtain z where z: "zlib_encode c data = Some z" "z \<noteq> []" "length z \<le> 2 * length data + 13"
      "concat (fst (zlib_reads c z)) = data" "[] \<notin> set (fst (zlib_reads c z))" "snd (zlib_reads c z)"
      using assms(2) unfolding zlib_ok_def by blast
    then show ?thesis
      using 2 assms(4) zlib_drain_concat [OF z(5), of "[]"]
      by (simp add: compress_chunk_def decompress_chunk_plain MAX_DECOMPRESSION_SIZE_def MAX_CHUNK_SIZE_def)
  next
    case 3
    have "length (compress_lz4 c data) \<le> 18 * length data + 10"
      using length_lz4_blocks [OF assms(1), of "[]" data] by (simp add: compress_lz4_def Let_def)
    then show ?thesis
      using 3 assms(4) decompress_compress_lz4 [OF assms(1), of data]
      by (simp add: compress_chunk_def decompress_chunk_plain MAX_CHUNK_SIZE_def compress_lz4_def Let_def)
  qed
qed

text \<open>One chunk as \<^const>\<open>decompress_with_keys\<close> opens it at its position.\<close>

definition open_chunk :: "codecs \<Rightarrow> key_store \<Rightarrow> nat \<times> chunk_data \<Rightarrow> (blte_error, byte list) outcome" where
  "open_chunk c keys = (\<lambda>(i, ch).
     if cd_mode ch = ModeEncrypted then decrypt_chunk_with_keys c (cd_data ch) keys i
     else if cd_mode ch = ModeFrame
     then obind (parse_frame (cd_data ch)) (\<lambda>inner. decompress_with_keys c keys inner)
     else chunk_decompress c ch)"

lemma open_chunk_strip: "open_chunk c keys (i, strip ch) = open_chunk c keys (i, ch)"
  by (simp add: open_chunk_def strip_def chunk_decompress_def)

definition opens_to :: "codecs \<Rightarrow> key_store \<Rightarrow> nat \<Rightarrow> byte list \<Rightarrow> chunk_data \<Rightarrow> bool" where
  "opens_to c keys i data ch \<longleftrightarrow> open_chunk c keys (i, ch) = Ret data \<and> compressed_size ch < 2 ^ 32"

lemma chunk_new_opens:
  assumes "lz4_ok c" "zlib_ok c" "plain_mode m" "length data \<le> MAX_CHUNK_SIZE"
  shows "\<exists>ch. chunk_new c data m = Ret ch \<and> opens_to c keys i data ch"
proof -
  obtain z where z: "compress_chunk c data m = Ret z" "decompress_chunk c z m = Ret data" "length z \<le> 18 * MAX_CHUNK_SIZE + 10"
    using compress_chunk_opens [OF assms] by metis
  then have "chunk_new c data m = Ret \<lparr>cd_mode = m, cd_data = z, cd_decompressed_size = Some (length data)\<rparr>"
    by (auto simp: chunk_new_def compress_chunk_def)
  then show ?thesis
    using z assms(3)
    by (auto simp: opens_to_def open_chunk_def chunk_decompress_def compressed_size_def MAX_CHUNK_SIZE_def plain_mode_def)
qed

section \<open>Encrypted chunks\<close>

text \<open>A specification whose key the store has.\<close>

definition key_ok :: "key_store \<Rightarrow> encryption_spec \<times> byte list \<Rightarrow> bool" where
  "key_ok keys = (\<lambda>(spec, key). keys (es_key_name spec) = Inr (Some key) \<and> length key = 16
     \<and> length (es_iv spec) = 4 \<and> (es_type spec = 0x53 \<or> es_type spec = 0x41))"

lemma encrypt_payload:
  assumes "key_ok keys (spec, key)"
  shows "\<exists>z. encrypt_chunk_with_key data spec key i =
      Ret ([8] @ to_le 8 (es_key_name spec) @ [4] @ es_iv spec @ [es_type spec] @ z)
    \<and> length z = length data \<and> decrypt_payload (es_type spec) z key (es_iv spec) i = Ret data"
proof (cases "es_type spec = 0x53")
  case True
  obtain out where "encrypt_salsa20 data key (es_iv spec) i = Inr out" "length out = length data"
    "decrypt_salsa20 out key (es_iv spec) i = Inr data"
    using salsa20_inverse [of "es_iv spec" data key i] assms by (auto simp: key_ok_def)
  with True show ?thesis
    by (simp add: encrypt_chunk_with_key_def decrypt_payload_def)
next
  case False
  have "es_type spec = 0x41" using assms False by (auto simp: key_ok_def)
  moreover have "key \<noteq> []" "\<not> length key > 256" using assms by (auto simp: key_ok_def)
  then obtain cipher where "arc4_new key = Inr cipher" by (simp add: arc4_new_def)
  ultimately show ?thesis
    using arc4_inverse by (simp add: encrypt_chunk_with_key_def decrypt_payload_def)
qed

lemma decrypt_encrypt_chunk:
  assumes "key_ok keys (spec, key)" "2 \<le> length data"
  shows "\<exists>z. encrypt_chunk_with_key data spec key i = Ret z \<and> length z = length data + 15
    \<and> decrypt_chunk_with_keys c z keys i = open_payload c data"
proof -
  obtain e where e: "encrypt_chunk_with_key data spec key i =
      Ret ([8] @ to_le 8 (es_key_name spec) @ [4] @ es_iv spec @ [es_type spec] @ e)"
    "length e = length data" "decrypt_payload (es_type spec) e key (es_iv spec) i = Ret data"
    using encrypt_payload [OF assms(1)] by blast
  have spec: "length (es_iv spec) = 4" "keys (es_key_name spec) = Inr (Some key)"
    using assms(1) by (simp_all add: key_ok_def)
  define z where "z = [8] @ to_le 8 (es_key_name spec) @ [4] @ es_iv spec @ [es_type spec] @ e"
  have fields: "slice 1 9 z = to_le 8 (es_key_name spec)" "slice 10 14 z = es_iv spec" "z ! 0 = 8" "z ! 9 = 4"
    "z ! 14 = es_type spec" "drop 15 z = e" "length z = length e + 15"
    unfolding z_def using spec(1) by (simp_all add: slice_def nth_append)
  then have "decrypt_chunk_with_keys c z keys i = open_payload c data"
    using assms(2) e(2,3) spec(2) by (simp add: decrypt_chunk_with_keys_def)
  then show ?thesis using e(1,2) fields(7) by (auto simp: z_def)
qed

lemma create_encrypted_opens:
  assumes "lz4_ok c" "zlib_ok c" "plain_mode (bb_default_mode b)" "length data \<le> MAX_CHUNK_SIZE"
    and "key_ok keys (spec, key)" "data \<noteq> []"
  shows "\<exists>ch. create_encrypted_chunk_with_params c b data spec key i = Ret ch \<and> cd_mode ch = ModeEncrypted
    \<and> opens_to c keys i data ch"
proof -
  let ?m = "bb_default_mode b"
  obtain z where z: "compress_chunk c data ?m = Ret z" "decompress_chunk c z ?m = Ret data"
    "length z \<le> 18 * MAX_CHUNK_SIZE + 10" "z \<noteq> []"
    using compress_chunk_opens [OF assms(1-4)] assms(6) by metis
  have inner: "build_inner_payload c b data = Ret (mode_as_byte ?m # z)"
    using z(1) assms(3) by (auto simp: build_inner_payload_def Let_def plain_mode_def compress_chunk_def)
  have opened: "open_payload c (mode_as_byte ?m # z) = Ret data"
    using z(2) assms(3) by (auto simp: open_payload_def plain_mode_def)
  have "2 \<le> length (mode_as_byte ?m # z)" using z(4) by (cases z) auto
  from decrypt_encrypt_chunk [OF assms(5) this, of i c] obtain e where
    e: "encrypt_chunk_with_key (mode_as_byte ?m # z) spec key i = Ret e" "length e = length z + 16"
      "decrypt_chunk_with_keys c e keys i = Ret data"
    using opened by auto
  then show ?thesis
    using inner z(3)
    by (simp add: create_encrypted_chunk_with_params_def from_compressed_def opens_to_def open_chunk_def
        compressed_size_def MAX_CHUNK_SIZE_def)
qed

section \<open>The builder\<close>

text \<open>The data a builder holds: what its chunks open to, each at its own position.\<close>

definition holds :: "codecs \<Rightarrow> key_store \<Rightarrow> blte_builder \<Rightarrow> byte list \<Rightarrow> bool" where
  "holds c keys b data \<longleftrightarrow>
     (\<exists>ds. omap (open_chunk c keys) (List.enumerate 0 (bb_chunks b)) = Ret ds \<and> concat ds = data)
     \<and> (\<forall>ch\<in>set (bb_chunks b). compressed_size ch < 2 ^ 32)"

lemma make_chunks:
  assumes "\<And>i p. p \<in> set ps \<Longrightarrow> \<exists>ch. mk_chunk p i = Ret ch \<and> opens_to c keys i p ch"
  shows "\<exists>chs. omap (\<lambda>(i, p). mk_chunk p i) (List.enumerate n ps) = Ret chs
    \<and> omap (open_chunk c keys) (List.enumerate n chs) = Ret ps \<and> (\<forall>ch\<in>set chs. compressed_size ch < 2 ^ 32)"
  using assms
proof (induction ps arbitrary: n)
  case (Cons p ps)
  obtain ch where ch: "mk_chunk p n = Ret ch" "opens_to c keys n p ch"
    using Cons.prems [of p n] by auto
  obtain chs where "omap (\<lambda>(i, p). mk_chunk p i) (List.enumerate (Suc n) ps) = Ret chs"
    "omap (open_chunk c keys) (List.enumerate (Suc n) chs) = Ret ps" "\<forall>ch\<in>set chs. compressed_size ch < 2 ^ 32"
    using Cons.IH [of "Suc n"] Cons.prems by auto
  with ch show ?case
    by (intro exI [of _ "ch # chs"]) (simp add: opens_to_def)
qed simp

lemma holds_append:
  assumes "holds c keys b d" "omap (open_chunk c keys) (List.enumerate (length (bb_chunks b)) chs) = Ret ps"
    "\<forall>ch\<in>set chs. compressed_size ch < 2 ^ 32"
  shows "holds c keys (b\<lparr>bb_chunks := bb_chunks b @ chs\<rparr>) (d @ concat ps)"
proof -
  obtain ds where ds: "omap (open_chunk c keys) (List.enumerate 0 (bb_chunks b)) = Ret ds" "concat ds = d"
    using assms(1) by (auto simp: holds_def)
  then have "omap (open_chunk c keys) (List.enumerate 0 (bb_chunks b @ chs)) = Ret (ds @ ps)"
    using assms(2) by (simp add: enumerate_append_eq omap_append)
  then show ?thesis
    using assms(1,3) ds(2) by (auto simp: holds_def)
qed

lemma add_pieces_holds:
  assumes mk: "\<And>i p. length p \<le> bb_chunk_size b \<Longrightarrow> (p = data \<or> p \<noteq> []) \<Longrightarrow>
      \<exists>ch. mk_chunk p i = Ret ch \<and> opens_to c keys i p ch"
    and "holds c keys b d" "0 < bb_chunk_size b"
  shows "\<exists>chs. add_pieces mk_chunk (length (bb_chunks b)) b data = Some (Ret (b\<lparr>bb_chunks := bb_chunks b @ chs\<rparr>))
    \<and> chs \<noteq> [] \<and> length chs \<le> length data div bb_chunk_size b + 1
    \<and> holds c keys (b\<lparr>bb_chunks := bb_chunks b @ chs\<rparr>) (d @ data)"
proof (cases "length data \<le> bb_chunk_size b")
  case True
  obtain ch where ch: "mk_chunk data (length (bb_chunks b)) = Ret ch" "opens_to c keys (length (bb_chunks b)) data ch"
    using mk [OF True, of "length (bb_chunks b)"] by blast
  have "holds c keys (b\<lparr>bb_chunks := bb_chunks b @ [ch]\<rparr>) (d @ concat [data])"
    using ch(2) by (intro holds_append [OF assms(2)]) (auto simp: opens_to_def)
  then show ?thesis
    using ch(1) True by (intro exI [of _ "[ch]"]) (simp add: add_pieces_def add_chunk_def)
next
  case False
  let ?ps = "pieces (length data) (bb_chunk_size b) data"
  have ps: "concat ?ps = data" by (rule concat_pieces [OF assms(3) order_refl])
  have "\<exists>ch. mk_chunk p i = Ret ch \<and> opens_to c keys i p ch" if "p \<in> set ?ps" for i p
    using pieces_bound [OF assms(3) that] by (intro mk) auto
  from make_chunks [of ?ps mk_chunk c keys "length (bb_chunks b)", OF this] obtain chs where
    chs: "omap (\<lambda>(i, p). mk_chunk p i) (List.enumerate (length (bb_chunks b)) ?ps) = Ret chs"
      "omap (open_chunk c keys) (List.enumerate (length (bb_chunks b)) chs) = Ret ?ps"
      "\<forall>ch\<in>set chs. compressed_size ch < 2 ^ 32"
    by blast
  have "holds c keys (b\<lparr>bb_chunks := bb_chunks b @ chs\<rparr>) (d @ data)"
    using holds_append [OF assms(2) chs(2,3)] ps by simp
  moreover have "chs \<noteq> []" using chs(2) ps False by auto
  moreover have "length chs \<le> length data div bb_chunk_size b + 1"
    using omap_length [OF chs(1)] length_pieces [OF assms(3), of "length data" data] by simp
  ultimately show ?thesis
    using False chunk_loop_pieces [OF assms(3) order_refl, of mk_chunk data "length (bb_chunks b)" "bb_chunks b"] chs(1)
    by (intro exI [of _ chs]) (simp add: add_pieces_def)
qed

text \<open>A sequence of \<open>add_mixed_data\<close> calls, and a bound for the number of chunks it makes.\<close>

fun add_all ::
  "codecs \<Rightarrow> blte_builder \<Rightarrow> (byte list \<times> (encryption_spec \<times> byte list) option) list
   \<Rightarrow> (blte_error, blte_builder) outcome option" where
  "add_all c b [] = Some (Ret b)"
| "add_all c b ((data, encryption) # items) =
     (case add_mixed_data c b data encryption of
        Some (Ret b') \<Rightarrow> add_all c b' items
      | r \<Rightarrow> r)"

definition chunk_bound :: "nat \<Rightarrow> (byte list \<times> 'b) list \<Rightarrow> nat" where
  "chunk_bound n items = sum_list (map (\<lambda>(data, _). length data div n + 1) items)"

definition item_ok :: "key_store \<Rightarrow> byte list \<times> (encryption_spec \<times> byte list) option \<Rightarrow> bool" where
  "item_ok keys = (\<lambda>(data, encryption). case encryption of None \<Rightarrow> True | Some e \<Rightarrow> data \<noteq> [] \<and> key_ok keys e)"

lemma add_mixed_data_holds:
  assumes "lz4_ok c" "zlib_ok c" "plain_mode (bb_default_mode b)" "0 < bb_chunk_size b" "bb_chunk_size b \<le> MAX_CHUNK_SIZE"
    and "item_ok keys (data, encryption)" "holds c keys b d"
  shows "\<exists>chs. add_mixed_data c b data encryption = Some (Ret (b\<lparr>bb_chunks := bb_chunks b @ chs\<rparr>))
    \<and> chs \<noteq> [] \<and> length chs \<le> length data div bb_chunk_size b + 1
    \<and> holds c keys (b\<lparr>bb_chunks := bb_chunks b @ chs\<rparr>) (d @ data)"
  unfolding add_mixed_data_def
proof (rule add_pieces_holds [OF _ assms(7,4)])
  fix i p
  assume p: "length p \<le> bb_chunk_size b" "p = data \<or> p \<noteq> []"
  then have "length p \<le> MAX_CHUNK_SIZE" using assms(5) by simp
  note facts = assms(1,2,3) this
  show "\<exists>ch. (case encryption of Some (spec, key) \<Rightarrow> create_encrypted_chunk_with_params c b p spec key i
      | None \<Rightarrow> chunk_new c p (bb_default_mode b)) = Ret ch \<and> opens_to c keys i p ch"
  proof (cases encryption)
    case None
    then show ?thesis using chunk_new_opens [OF facts] by simp
  next
    case (Some e)
    then have "key_ok keys (fst e, snd e)" "p \<noteq> []" using assms(6) p(2) by (auto simp: item_ok_def)
    then show ?thesis using Some create_encrypted_opens [OF facts] by (cases e) fastforce
  qed
qed

lemma add_all_holds:
  assumes "lz4_ok c" "zlib_ok c"
  shows "plain_mode (bb_default_mode b) \<Longrightarrow> 0 < bb_chunk_size b \<Longrightarrow> bb_chunk_size b \<le> MAX_CHUNK_SIZE \<Longrightarrow>
    list_all (item_ok keys) items \<Longrightarrow> holds c keys b d \<Longrightarrow>
    \<exists>b'. add_all c b items = Some (Ret b') \<and> holds c keys b' (d @ concat (map fst items))
      \<and> (bb_chunks b \<noteq> [] \<or> items \<noteq> [] \<longrightarrow> bb_chunks b' \<noteq> [])
      \<and> length (bb_chunks b') \<le> length (bb_chunks b) + chunk_bound (bb_chunk_size b) items"
proof (induction items arbitrary: b d)
  case (Cons item items)
  obtain data encryption where item: "item = (data, encryption)" by fastforce
  obtain chs where chs: "add_mixed_data c b data encryption = Some (Ret (b\<lparr>bb_chunks := bb_chunks b @ chs\<rparr>))"
    "chs \<noteq> []" "length chs \<le> length data div bb_chunk_size b + 1"
    "holds c keys (b\<lparr>bb_chunks := bb_chunks b @ chs\<rparr>) (d @ data)"
    using add_mixed_data_holds [OF assms Cons.prems(1-3) _ Cons.prems(5), of data encryption] Cons.prems(4) item by auto
  from Cons.IH [of "b\<lparr>bb_chunks := bb_chunks b @ chs\<rparr>" "d @ data"] chs Cons.prems show ?case
    by (fastforce simp: item chunk_bound_def)
qed (simp add: chunk_bound_def)

lemma enumerate_strip: "omap (open_chunk c keys) (List.enumerate n (map strip chs)) = omap (open_chunk c keys) (List.enumerate n chs)"
  by (induction chs arbitrary: n) (simp_all add: open_chunk_strip)

lemma decompress_with_keys_open:
  "decompress_with_keys c keys f =
     (if is_single_chunk (bf_header f) \<and> bf_chunks f \<noteq> [] \<and> cd_mode (hd (bf_chunks f)) = ModeEncrypted
      then Fail SingleChunkEncrypted
      else obind (omap (open_chunk c keys) (List.enumerate 0 (bf_chunks f))) (\<lambda>ds. Ret (concat ds)))"
  by (subst decompress_with_keys.simps) (simp add: open_chunk_def)

lemma build_holds:
  assumes "holds c keys b d" "bb_chunks b \<noteq> []" "length (bb_chunks b) \<le> 0xFFFFFF" "\<And>x. length (md5 x) = 16"
  shows "\<exists>f. builder_build c md5 b = Ret f \<and> wf_file f
    \<and> decompress_with_keys c keys (f\<lparr>bf_chunks := map strip (bf_chunks f)\<rparr>) = Ret d"
proof -
  obtain ds where ds: "omap (open_chunk c keys) (List.enumerate 0 (map strip (bb_chunks b))) = Ret ds" "concat ds = d"
    and sz: "\<forall>ch\<in>set (bb_chunks b). compressed_size ch < 2 ^ 32"
    using assms(1) by (auto simp: holds_def enumerate_strip)
  show ?thesis
  proof (cases "length (bb_chunks b) = 1 \<and> \<not> list_ex (\<lambda>ch. cd_mode ch = ModeEncrypted) (bb_chunks b)")
    case True
    moreover have "cd_mode (hd (map strip (bb_chunks b))) \<noteq> ModeEncrypted"
      using True by (cases "bb_chunks b") (auto simp: strip_def)
    ultimately show ?thesis
      using assms(2) ds by (simp add: builder_build_def wf_file_def decompress_with_keys_open)
  next
    case False
    obtain h where h: "multi_chunk_with_flags c md5 (bb_chunks b) Standard = Ret h"
      using assms(2,3) by (simp add: multi_chunk_with_flags_def)
    have wf: "wf_file \<lparr>bf_header = h, bf_chunks = bb_chunks b\<rparr>"
      using multi_chunk_wf [OF h assms(4) sz] by simp
    have "\<not> is_single_chunk h" using multi_chunk_wf [OF h assms(4) sz] by simp
    then show ?thesis
      using False h wf ds assms(2) by (auto simp: builder_build_def decompress_with_keys_open)
  qed
qed

section \<open>A codec that stores\<close>

text \<open>
  A concrete instance of the external codecs, within the LZ4 format and the zlib contract:
  literal-only blocks, and zlib streams that are a marker and the data.
\<close>

definition stored_block :: "byte list \<Rightarrow> byte list" where
  "stored_block input = last_bytes 0 input"

definition unstore_block :: "byte list \<Rightarrow> byte list option" where
  "unstore_block block =
     (case block of [] \<Rightarrow> None
      | token # s \<Rightarrow> (case token_len (unat (drop_bit 4 token)) s of None \<Rightarrow> None | Some (n, rest) \<Rightarrow> Some (take n rest)))"

definition storing_codecs :: codecs where
  "storing_codecs =
     \<lparr>zlib_encode = (\<lambda>data. Some (0x78 # data)), zlib_reads = (\<lambda>z. (if tl z = [] then [] else [tl z], True)),
      lz4_compress = stored_block, lz4_compress_with_dict = (\<lambda>input dict. stored_block input),
      lz4_decompress_with_dict = (\<lambda>block n dict. unstore_block block)\<rparr>"

lemma zlib_ok_storing: "zlib_ok storing_codecs"
  by (auto simp: zlib_ok_def storing_codecs_def)

lemma lz4_ok_storing: "lz4_ok storing_codecs"
proof -
  have "is_lz4_block (stored_block x) (length x)" for x
    unfolding is_lz4_block_def stored_block_def
    by (intro exI [of _ "[]"] exI [of _ "0 :: nat"] exI [of _ x]) simp
  moreover have "unstore_block (stored_block x) = Some x" for x
    by (simp add: unstore_block_def stored_block_def last_bytes_def token_nibbles nibble_less token_len_ext)
  moreover have "length (stored_block x) \<le> length x + length x div 255 + 16" for x
    using div_le_mono [of "length x - 15" "length x" 255] by (simp add: stored_block_def last_bytes_def len_ext_def)
  ultimately show ?thesis
    by (simp add: lz4_ok_def storing_codecs_def Let_def)
qed

definition zero_md5 :: "byte list \<Rightarrow> byte list" where
  "zero_md5 x = replicate 16 0"

definition example_spec :: encryption_spec where
  "example_spec = \<lparr>es_key_name = 1, es_iv = [1, 2, 3, 4], es_type = 0x53\<rparr>"

definition example_keys :: key_store where
  "example_keys k = (if k = 1 then Inr (Some (replicate 16 7)) else Inr None)"

lemma example_key_ok: "key_ok example_keys (example_spec, replicate 16 7)"
  by (simp add: key_ok_def example_keys_def example_spec_def)

section \<open>Limits and panics\<close>

lemma zlib_drain_bound:
  "zlib_drain acc rs ok = Ret d \<Longrightarrow> length acc \<le> MAX_DECOMPRESSION_SIZE \<Longrightarrow> length d \<le> MAX_DECOMPRESSION_SIZE"
  by (induction acc rs ok rule: zlib_drain.induct) (auto split: if_splits)

lemma decompress_lz4_bound: "decompress_lz4_bnl c data = Some d \<Longrightarrow> length d \<le> MAX_DECOMPRESSION_SIZE"
  by (auto simp: decompress_lz4_bnl_def Let_def split: if_splits dest!: length_lz4_unblock)

lemma read_chunk_info_no_Panic: "read_chunk_info flags s \<noteq> Panic"
  by (auto simp: read_chunk_info_def rbind_Panic)

lemma read_chunk_no_Panic: "read_chunk n s \<noteq> Panic"
  by (auto simp: read_chunk_def rbind_Panic split: option.split)

lemma read_chunks_no_Panic: "read_chunks infos s \<noteq> Panic"
  by (induction infos arbitrary: s) (auto simp: rbind_Panic read_chunk_no_Panic)

lemma read_extended_Panic: "read_extended s = Panic \<longleftrightarrow> s \<noteq> [] \<and> flags_from_byte (hd s) = None"
proof -
  have "read_extended s = Panic \<longleftrightarrow> (\<exists>f s'. read_exact EndOfInput 1 s = Ret (f, s') \<and> flags_from_byte (hd f) = None)"
    using read_many_no_Panic [OF read_chunk_info_no_Panic]
    by (auto simp: read_extended_def rbind_Panic Let_def split: option.splits)
  also have "\<dots> \<longleftrightarrow> s \<noteq> [] \<and> flags_from_byte (hd s) = None"
    by (cases s) (auto simp: read_exact_def)
  finally show ?thesis .
qed

lemma read_header_Panic:
  "read_header s = Panic \<longleftrightarrow>
     (\<exists>n b rest. s = BLTE_MAGIC @ to_be 4 (n :: u32) @ [b] @ rest \<and> n \<noteq> 0 \<and> flags_from_byte b = None)" (is "_ \<longleftrightarrow> ?bad")
proof
  assume "read_header s = Panic"
  then obtain z t where z: "s = BLTE_MAGIC @ z @ t" "length z = 4" "(from_be z :: u32) > 0" "read_extended t = Panic"
    by (auto simp: read_header_def rbind_Panic read_exact_Ret Let_def split: if_splits)
  moreover have "z = to_be 4 (from_be z :: u32)" using z(2) by (simp add: to_be_from_be)
  ultimately show ?bad
    by (cases t) (fastforce simp: read_extended_Panic word_gt_0)+
next
  assume ?bad
  then obtain n b rest where s: "s = BLTE_MAGIC @ to_be 4 (n :: u32) @ [b] @ rest" "n \<noteq> 0" "flags_from_byte b = None"
    by blast
  moreover have "read_extended (b # rest) = Panic" using s(3) by (simp add: read_extended_Panic)
  moreover have "length BLTE_MAGIC = 4" by (simp add: BLTE_MAGIC_def)
  ultimately show "read_header s = Panic"
    by (simp add: read_header_def word_gt_0)
qed

section \<open>Frames\<close>

text \<open>A container whose single chunk is another container.\<close>

definition frame_of :: "blte_file \<Rightarrow> blte_file" where
  "frame_of f = \<lparr>bf_header = header_single_chunk, bf_chunks = [from_compressed ModeFrame (blte_bytes f) None]\<rparr>"

lemma wf_frame_of [simp]: "wf_file (frame_of f)"
  by (simp add: wf_file_def frame_of_def)

lemma decompress_strip:
  "decompress_with_keys c keys (f\<lparr>bf_chunks := map strip (bf_chunks f)\<rparr>) = decompress_with_keys c keys f"
proof -
  have "cd_mode (hd (map strip (bf_chunks f))) = cd_mode (hd (bf_chunks f))" if "bf_chunks f \<noteq> []"
    using that by (cases "bf_chunks f") (simp_all add: strip_def)
  then show ?thesis
    by (auto simp: decompress_with_keys_open enumerate_strip)
qed

lemma decompress_frame_of: "wf_file f \<Longrightarrow> decompress_with_keys c keys (frame_of f) = decompress_with_keys c keys f"
  using decompress_strip [of c keys f]
  by (subst decompress_with_keys_open)
     (simp add: frame_of_def from_compressed_def open_chunk_def parse_frame_def blte_parse_bytes obind_def split: outcome.split)

lemma wf_frames: "wf_file f \<Longrightarrow> wf_file ((frame_of ^^ n) f)"
  by (cases n) simp_all

section \<open>Properties\<close>

text \<open>
  C12. A BLTE container end to end: data added to a builder in any number of calls, each in the clear
  or encrypted with Salsa20 or ARC4 under a key of the key store, cut into chunks of any size
  up to 16 MiB and stored, deflated or LZ4-framed, is added without error; and the container
  built from it, written out, parsed and decompressed with the keys, gives exactly the data
  that was added, as long as it cannot exceed 0xFFFFFF chunks. Encrypted data must not be empty.
\<close>

theorem blte_end_to_end:
  assumes "lz4_ok c" "zlib_ok c" "\<And>x. length (md5 x) = 16"
    and "bb_chunks b = []" "plain_mode (bb_default_mode b)" "0 < bb_chunk_size b" "bb_chunk_size b \<le> MAX_CHUNK_SIZE"
    and "items \<noteq> []" "list_all (item_ok keys) items" "chunk_bound (bb_chunk_size b) items \<le> 0xFFFFFF"
  shows "\<exists>b' f f'. add_all c b items = Some (Ret b') \<and> builder_build c md5 b' = Ret f
    \<and> blte_parse (blte_bytes f) = Ret f' \<and> decompress_with_keys c keys f' = Ret (concat (map fst items))"
proof -
  have "holds c keys b []" using assms(4) by (simp add: holds_def)
  from add_all_holds [OF assms(1,2,5,6,7,9) this] assms(4,8,10) obtain b' where
    b': "add_all c b items = Some (Ret b')" "holds c keys b' (concat (map fst items))" "bb_chunks b' \<noteq> []"
      "length (bb_chunks b') \<le> 0xFFFFFF"
    by fastforce
  from build_holds [where ?md5.0 = md5, OF b'(2-4) assms(3)] obtain f where
    "builder_build c md5 b' = Ret f" "wf_file f"
    "decompress_with_keys c keys (f\<lparr>bf_chunks := map strip (bf_chunks f)\<rparr>) = Ret (concat (map fst items))"
    by blast
  then show ?thesis
    using b'(1) blte_parse_bytes by blast
qed

theorem blte_end_to_end_witness:
  "\<exists>b' f f'. add_all storing_codecs (with_compression builder_new ModeLZ4)
       [([1, 2, 3], None), ([4, 5], Some (example_spec, replicate 16 7))] = Some (Ret b')
    \<and> builder_build storing_codecs zero_md5 b' = Ret f
    \<and> blte_parse (blte_bytes f) = Ret f' \<and> decompress_with_keys storing_codecs example_keys f' = Ret [1, 2, 3, 4, 5]"
  using blte_end_to_end [of storing_codecs zero_md5 "with_compression builder_new ModeLZ4"
      "[([1, 2, 3], None), ([4, 5], Some (example_spec, replicate 16 7))]" example_keys]
  by (simp add: lz4_ok_storing zlib_ok_storing zero_md5_def with_compression_def builder_new_def plain_mode_def
      DEFAULT_CHUNK_SIZE_def MAX_CHUNK_SIZE_def item_ok_def example_key_ok chunk_bound_def)

text \<open>
  C29. The chunk table, in its 24-byte and its 40-byte form: a container with a table the code built
  parses back to the same header and the same chunks, whatever the chunks hold, and the
  recorded header size is the offset at which the chunk data starts. Every chunk must be
  shorter than 4 GiB.
\<close>

theorem blte_table_round_trip:
  assumes "multi_chunk_with_flags c md5 chunks flags = Ret h" "\<And>x. length (md5 x) = 16"
    and "\<forall>ch\<in>set chunks. compressed_size ch < 2 ^ 32"
  shows "blte_parse (blte_bytes \<lparr>bf_header = h, bf_chunks = chunks\<rparr>) =
      Ret \<lparr>bf_header = h, bf_chunks = map (\<lambda>ch. ch\<lparr>cd_decompressed_size := None\<rparr>) chunks\<rparr>
    \<and> data_offset h = length (write_header h) \<and> chunk_count h = length chunks"
proof -
  note wf = multi_chunk_wf [OF assms]
  then show ?thesis
    using blte_parse_bytes [of "\<lparr>bf_header = h, bf_chunks = chunks\<rparr>"] by (simp add: strip_def [abs_def])
qed

theorem blte_table_round_trip_witness:
  "\<exists>h. multi_chunk_with_flags storing_codecs zero_md5 [from_compressed ModeNone [1, 2] (Some 2)] Extended = Ret h
     \<and> blte_parse (blte_bytes \<lparr>bf_header = h, bf_chunks = [from_compressed ModeNone [1, 2] (Some 2)]\<rparr>) =
         Ret \<lparr>bf_header = h, bf_chunks = [from_compressed ModeNone [1, 2] None]\<rparr>
     \<and> data_offset h = length (write_header h)"
proof -
  let ?ch = "from_compressed ModeNone [1, 2] (Some 2)"
  obtain h where h: "multi_chunk_with_flags storing_codecs zero_md5 [?ch] Extended = Ret h"
    by (simp add: multi_chunk_with_flags_def from_chunk_data_extended_def from_compressed_def chunk_decompress_def
        decompress_chunk_plain Let_def)
  have "\<forall>ch\<in>set [?ch]. compressed_size ch < 2 ^ 32"
    by (simp add: compressed_size_def from_compressed_def)
  from blte_table_round_trip [OF h _ this] show ?thesis
    using h by (auto simp: zero_md5_def from_compressed_def)
qed

text \<open>
  C30. Decompression bombs: whatever a chunk holds and whatever the external decoders return, a zlib or
  LZ4 chunk never decompresses to more than 1 GiB, and a stored chunk to nothing but itself.
\<close>

theorem decompress_chunk_bounded:
  assumes "decompress_chunk c data mode = Ret d" "mode \<noteq> ModeFrame"
  shows "mode \<noteq> ModeEncrypted \<and> (if mode = ModeNone then d = data else length d \<le> MAX_DECOMPRESSION_SIZE)"
proof -
  have "decompress_chunk c data ModeEncrypted = Fail CompressionError"
    by (simp add: decompress_chunk_def decompress_chunk_recursive.simps)
  then show ?thesis
    using assms
    by (cases mode) (auto simp: decompress_chunk_plain split: option.splits dest: zlib_drain_bound decompress_lz4_bound)
qed

theorem decompress_chunk_bounded_witness:
  "decompress_chunk storing_codecs [0x78, 5, 6] ModeZLib = Ret [5, 6] \<and> length [5 :: byte, 6] \<le> MAX_DECOMPRESSION_SIZE"
proof -
  have d: "decompress_chunk storing_codecs [0x78, 5, 6] ModeZLib = Ret [5, 6]"
    by (simp add: decompress_chunk_plain storing_codecs_def MAX_DECOMPRESSION_SIZE_def)
  show ?thesis using decompress_chunk_bounded [OF d] d by auto
qed

text \<open>
  C31. Parsing a container panics exactly on a multi-chunk header whose flags byte is neither 0x0F nor
  0x10; every other malformed input is an error value.
\<close>

theorem blte_parse_panics_iff:
  "blte_parse data = Panic \<longleftrightarrow>
     (\<exists>n b rest. data = BLTE_MAGIC @ to_be 4 (n :: u32) @ [b] @ rest \<and> n \<noteq> 0 \<and> flags_from_byte b = None)"
proof -
  have "blte_parse data = Panic \<longleftrightarrow> read_header data = Panic"
    using read_chunk_no_Panic read_chunks_no_Panic
    by (auto simp: blte_parse_def obind_Panic rbind_Panic split: option.split)
  then show ?thesis by (simp only: read_header_Panic)
qed

text \<open>
  An empty piece of data encrypted without compression cannot be read back: the builder accepts it,
  but its chunk is sixteen bytes, and decryption refuses it as too short under every key
  store and at every position.
\<close>

theorem empty_encrypted_chunk_unreadable:
  assumes "key_ok keys (spec, key)" "bb_default_mode b = ModeNone"
  shows "\<exists>ch. add_mixed_data c b [] (Some (spec, key)) = Some (Ret (add_chunk b ch)) \<and> cd_mode ch = ModeEncrypted
    \<and> decrypt_chunk_with_keys c' (cd_data ch) keys' i = Fail CompressionError"
proof -
  obtain z where z: "encrypt_chunk_with_key [0x4E] spec key (length (bb_chunks b)) =
      Ret ([8] @ to_le 8 (es_key_name spec) @ [4] @ es_iv spec @ [es_type spec] @ z)" "length z = 1"
    using encrypt_payload [OF assms(1), of "[0x4E]" "length (bb_chunks b)"] by auto
  have "length (es_iv spec) = 4" using assms(1) by (simp add: key_ok_def)
  with z show ?thesis
    using assms(2)
    by (intro exI [of _ "from_compressed ModeEncrypted
          ([8] @ to_le 8 (es_key_name spec) @ [4] @ es_iv spec @ [es_type spec] @ z) (Some 1)"])
       (simp add: add_mixed_data_def add_pieces_def create_encrypted_chunk_with_params_def build_inner_payload_def
        from_compressed_def decrypt_chunk_with_keys_def)
qed

theorem empty_encrypted_chunk_unreadable_witness:
  "\<exists>ch. add_mixed_data storing_codecs builder_new [] (Some (example_spec, replicate 16 7)) = Some (Ret (add_chunk builder_new ch))
    \<and> decrypt_chunk_with_keys storing_codecs (cd_data ch) example_keys 0 = Fail CompressionError"
proof -
  have "bb_default_mode builder_new = ModeNone" by (simp add: builder_new_def)
  from empty_encrypted_chunk_unreadable [OF example_key_ok this, of storing_codecs storing_codecs example_keys 0]
  show ?thesis by blast
qed

text \<open>
  \<open>add_data\<close> encrypts the chunks of every call with block indices that start again from zero, while
  reading takes the position in the container: after earlier chunks a Salsa20 chunk is
  encrypted from another cipher state than the one that decrypts it.
\<close>

theorem add_data_restarts_block_index:
  assumes "lz4_ok c" "zlib_ok c" "plain_mode (bb_default_mode b)" "key_ok keys (spec, key)" "bb_encryption b = Some (spec, key)"
    and "data \<noteq> []" "length data \<le> bb_chunk_size b" "bb_chunk_size b \<le> MAX_CHUNK_SIZE"
    and "0 < length (bb_chunks b)" "length (bb_chunks b) < 2 ^ 32"
  shows "\<exists>ch. add_data c b data = Some (Ret (add_chunk b ch)) \<and> decrypt_chunk_with_keys c (cd_data ch) keys 0 = Ret data
    \<and> salsa20_init key (es_iv spec) 0 \<noteq> salsa20_init key (es_iv spec) (length (bb_chunks b))"
proof -
  have "length data \<le> MAX_CHUNK_SIZE" using assms(7,8) by simp
  from create_encrypted_opens [OF assms(1-3) this assms(4,6), of 0] obtain ch where
    "create_encrypted_chunk_with_params c b data spec key 0 = Ret ch" "cd_mode ch = ModeEncrypted" "opens_to c keys 0 data ch"
    by blast
  moreover have "length (es_iv spec) = 4" using assms(4) by (simp add: key_ok_def)
  ultimately show ?thesis
    using assms(5,7,9,10) salsa20_init_index [of "es_iv spec" 0 "length (bb_chunks b)" key]
    by (auto simp: add_data_def add_pieces_def create_encrypted_chunk_def opens_to_def open_chunk_def)
qed

theorem add_data_restarts_block_index_witness:
  "\<exists>ch. add_data storing_codecs (add_chunk (with_encryption builder_new example_spec (replicate 16 7)) (from_compressed ModeNone [1] None)) [5]
       = Some (Ret (add_chunk (add_chunk (with_encryption builder_new example_spec (replicate 16 7)) (from_compressed ModeNone [1] None)) ch))
     \<and> decrypt_chunk_with_keys storing_codecs (cd_data ch) example_keys 0 = Ret [5]
     \<and> salsa20_init (replicate 16 7) [1, 2, 3, 4] 0 \<noteq> salsa20_init (replicate 16 7) [1, 2, 3, 4] 1"
proof -
  let ?b = "add_chunk (with_encryption builder_new example_spec (replicate 16 7)) (from_compressed ModeNone [1] None)"
  have "plain_mode (bb_default_mode ?b)" "bb_encryption ?b = Some (example_spec, replicate 16 7)"
    "length [5 :: byte] \<le> bb_chunk_size ?b" "bb_chunk_size ?b \<le> MAX_CHUNK_SIZE" "length (bb_chunks ?b) = 1"
    by (simp_all add: add_chunk_def with_encryption_def builder_new_def plain_mode_def DEFAULT_CHUNK_SIZE_def MAX_CHUNK_SIZE_def)
  then show ?thesis
    using add_data_restarts_block_index [OF lz4_ok_storing zlib_ok_storing _ example_key_ok, of ?b "[5]"]
    by (auto simp: example_spec_def)
qed

text \<open>
  \<open>BlteFile::compress\<close> returns exactly when the chunk size is positive, the data is empty, or making
  an empty chunk fails: with chunk size zero and data it adds empty chunks for ever.
\<close>

theorem file_compress_returns_iff:
  "(\<exists>r. file_compress c md5 data n mode = Some r) \<longleftrightarrow> 0 < n \<or> data = [] \<or> (\<forall>ch. chunk_new c [] mode \<noteq> Ret ch)"
proof (cases "n = 0 \<and> data \<noteq> []")
  case True
  show ?thesis
  proof (cases "chunk_new c [] mode")
    case (Ret ch)
    then have "chunk_loop (\<lambda>piece i. chunk_new c piece mode) 0 data 0 [] = None"
      using True by (intro chunk_loop_zero) auto
    with True Ret show ?thesis by (simp add: file_compress_def)
  qed (use True in \<open>auto simp: file_compress_def chunk_loop.simps [of _ 0 data]\<close>)
next
  case False
  then show ?thesis
    using chunk_loop_pieces [of n data "length data" "\<lambda>piece i. chunk_new c piece mode" 0 "[]"]
    by (auto simp: file_compress_def)
qed

text \<open>
  The limit on nested frames holds only without keys: \<open>decompress\<close> refuses a container framed twice,
  while \<open>decompress_with_keys\<close> opens any number of frames, one recursive call for each.
\<close>

theorem frames_unlimited_with_keys:
  assumes "wf_file f"
  shows "decompress_with_keys c keys ((frame_of ^^ n) f) = decompress_with_keys c keys f
    \<and> blte_decompress c (frame_of (frame_of ((frame_of ^^ n) f))) = Fail (RecursionLimitExceeded MAX_FRAME_DEPTH)"
proof -
  have "decompress_with_keys c keys ((frame_of ^^ n) f) = decompress_with_keys c keys f"
    using assms by (induction n) (simp_all add: decompress_frame_of wf_frames)
  moreover have "blte_decompress c (frame_of (frame_of g)) = Fail (RecursionLimitExceeded MAX_FRAME_DEPTH)" for g
  proof -
    have "blte_parse (blte_bytes (frame_of g)) = Ret (frame_of g)"
      using blte_parse_bytes [OF wf_frame_of, of g] by (simp add: frame_of_def strip_def from_compressed_def)
    moreover have "bf_chunks (frame_of h) = [\<lparr>cd_mode = ModeFrame, cd_data = blte_bytes h, cd_decompressed_size = None\<rparr>]" for h
      by (simp add: frame_of_def from_compressed_def)
    ultimately show ?thesis
      by (simp add: blte_decompress_def chunk_decompress_def decompress_chunk_def
          decompress_chunk_recursive.simps [of c "blte_bytes g"]
          decompress_chunk_recursive.simps [of c "blte_bytes (frame_of g)"] parse_frame_def MAX_FRAME_DEPTH_def)
  qed
  ultimately show ?thesis by simp
qed

theorem frames_unlimited_with_keys_witness:
  "decompress_with_keys storing_codecs example_keys ((frame_of ^^ 5) \<lparr>bf_header = header_single_chunk, bf_chunks = [from_compressed ModeNone [1, 2] None]\<rparr>)
     = Ret [1, 2]
   \<and> blte_decompress storing_codecs (frame_of (frame_of ((frame_of ^^ 5) \<lparr>bf_header = header_single_chunk, bf_chunks = [from_compressed ModeNone [1, 2] None]\<rparr>)))
     = Fail (RecursionLimitExceeded 1)"
proof -
  let ?f = "\<lparr>bf_header = header_single_chunk, bf_chunks = [from_compressed ModeNone [1, 2] None]\<rparr>"
  have "wf_file ?f" by (simp add: wf_file_def)
  note frames = frames_unlimited_with_keys [OF this, of storing_codecs example_keys 5]
  have "decompress_with_keys storing_codecs example_keys ?f = Ret [1, 2]"
    by (subst decompress_with_keys_open)
       (simp add: open_chunk_def chunk_decompress_def decompress_chunk_plain from_compressed_def)
  with frames show ?thesis by (simp add: MAX_FRAME_DEPTH_def)
qed

end
