(* ===== verification/Agent_Models.thy ===== *)
theory Agent_Models
  imports Prelude
begin

text \<open>
  The state machines of the agent: operations (\<open>cascette-agent/src/models/operation.rs\<close>) and products
  (\<open>models/product.rs\<close>). The clock and the fresh identifiers are arguments; JSON values and
  progress records are carried along and never inspected, so a string stands for them.
\<close>

section \<open>Model: operations\<close>

type_synonym json = string
type_synonym timestamp = nat

datatype operation_type = Install | UpdateOp | Repair | VerifyOp | Uninstall | Backfill | Extract

datatype operation_state = Queued | Initializing | Downloading | Verifying | Complete | Failed | Cancelled

datatype priority = Low | NormalPriority | High

fun show_type :: "operation_type \<Rightarrow> string" where
  "show_type Install = ''install''"
| "show_type UpdateOp = ''update''"
| "show_type Repair = ''repair''"
| "show_type VerifyOp = ''verify''"
| "show_type Uninstall = ''uninstall''"
| "show_type Backfill = ''backfill''"
| "show_type Extract = ''extract''"

fun show_state :: "operation_state \<Rightarrow> string" where
  "show_state Queued = ''queued''"
| "show_state Initializing = ''initializing''"
| "show_state Downloading = ''downloading''"
| "show_state Verifying = ''verifying''"
| "show_state Complete = ''complete''"
| "show_state Failed = ''failed''"
| "show_state Cancelled = ''cancelled''"

fun show_priority :: "priority \<Rightarrow> string" where
  "show_priority Low = ''low''"
| "show_priority NormalPriority = ''normal''"
| "show_priority High = ''high''"

definition from_agent_priority :: "u32 \<Rightarrow> priority" where
  "from_agent_priority value = (if value \<ge> 900 then High else if value \<ge> 500 then NormalPriority else Low)"

definition can_transition_to :: "operation_state \<Rightarrow> operation_state \<Rightarrow> bool" where
  "can_transition_to s t \<longleftrightarrow>
     s = Queued \<and> (t = Initializing \<or> t = Cancelled)
   \<or> (s = Initializing \<or> s = Verifying) \<and> t = Downloading
   \<or> s = Downloading \<and> (t = Verifying \<or> t = Queued \<or> t = Cancelled \<or> t = Failed)
   \<or> s = Verifying \<and> (t = Complete \<or> t = Queued \<or> t = Cancelled \<or> t = Failed)
   \<or> s = Initializing \<and> (t = Queued \<or> t = Cancelled \<or> t = Failed)"

definition is_terminal :: "operation_state \<Rightarrow> bool" where
  "is_terminal s \<longleftrightarrow> s = Complete \<or> s = Failed \<or> s = Cancelled"

definition is_active :: "operation_state \<Rightarrow> bool" where
  "is_active s \<longleftrightarrow> s = Queued \<or> s = Initializing \<or> s = Downloading \<or> s = Verifying"

record error_info =
  ei_code :: string
  ei_message :: string
  ei_details :: "json option"

datatype agent_error =
    InvalidTransition string string
  | OperationNotFound string
  | ProductNotFound string
  | ActiveOperationExists string string
  | Schema
  | Database

record operation =
  op_id :: string
  op_product :: string
  op_type :: operation_type
  op_state :: operation_state
  op_priority :: priority
  op_parameters :: "json option"
  op_metadata :: "json option"
  op_progress :: "json option"
  op_error :: "error_info option"
  op_created :: timestamp
  op_updated :: timestamp
  op_started :: "timestamp option"
  op_completed :: "timestamp option"

definition operation_new ::
  "string \<Rightarrow> timestamp \<Rightarrow> string \<Rightarrow> operation_type \<Rightarrow> priority \<Rightarrow> json option \<Rightarrow> operation" where
  "operation_new uuid now product ty prio params =
     \<lparr>op_id = uuid, op_product = product, op_type = ty, op_state = Queued, op_priority = prio,
      op_parameters = params, op_metadata = None, op_progress = None, op_error = None,
      op_created = now, op_updated = now, op_started = None, op_completed = None\<rparr>"

definition transition_to :: "timestamp \<Rightarrow> operation \<Rightarrow> operation_state \<Rightarrow> agent_error + operation" where
  "transition_to now op new_state =
     (if \<not> can_transition_to (op_state op) new_state
      then Inl (InvalidTransition (show_state (op_state op)) (show_state new_state))
      else let op1 = op\<lparr>op_state := new_state, op_updated := now\<rparr> in
           Inr (if new_state = Initializing \<and> op_started op = None then op1\<lparr>op_started := Some now\<rparr>
                else if new_state = Complete \<or> new_state = Failed \<or> new_state = Cancelled
                then op1\<lparr>op_completed := Some now\<rparr>
                else op1))"

text \<open>\<open>fail\<close> stores the error before it tries the transition; the operation after the call.\<close>

definition fail :: "timestamp \<Rightarrow> operation \<Rightarrow> error_info \<Rightarrow> (agent_error + unit) \<times> operation" where
  "fail now op e =
     (let op1 = op\<lparr>op_error := Some e\<rparr> in
      case transition_to now op1 Failed of
        Inl err \<Rightarrow> (Inl err, op1)
      | Inr op2 \<Rightarrow> (Inr (), op2))"

definition update_progress :: "timestamp \<Rightarrow> operation \<Rightarrow> json \<Rightarrow> operation" where
  "update_progress now op progress = op\<lparr>op_progress := Some progress, op_updated := now\<rparr>"

section \<open>Model: products\<close>

datatype product_status =
    Available | Installing | Installed | Updating | Repairing | ProductVerifying | Uninstalling | Corrupted

fun show_status :: "product_status \<Rightarrow> string" where
  "show_status Available = ''available''"
| "show_status Installing = ''installing''"
| "show_status Installed = ''installed''"
| "show_status Updating = ''updating''"
| "show_status Repairing = ''repairing''"
| "show_status ProductVerifying = ''verifying''"
| "show_status Uninstalling = ''uninstalling''"
| "show_status Corrupted = ''corrupted''"

definition status_can_transition_to :: "product_status \<Rightarrow> product_status \<Rightarrow> bool" where
  "status_can_transition_to s t \<longleftrightarrow>
     s = Available \<and> t = Installing
   \<or> s \<in> {Installing, Updating, Repairing, ProductVerifying, Uninstalling} \<and> t = Installed
   \<or> s \<in> {Installing, Uninstalling} \<and> t = Available
   \<or> s = Installed \<and> t \<in> {Updating, Repairing, ProductVerifying, Uninstalling}
   \<or> s \<in> {ProductVerifying, Repairing} \<and> t = Corrupted
   \<or> s = Corrupted \<and> t \<in> {Repairing, Uninstalling}"

definition is_busy :: "product_status \<Rightarrow> bool" where
  "is_busy s \<longleftrightarrow> s \<in> {Installing, Updating, Repairing, ProductVerifying, Uninstalling}"

definition is_installed :: "product_status \<Rightarrow> bool" where
  "is_installed s \<longleftrightarrow> s \<in> {Installed, Updating, Repairing, ProductVerifying, Corrupted}"

record product =
  pr_code :: string
  pr_status :: product_status
  pr_updated :: timestamp

definition product_transition_to :: "timestamp \<Rightarrow> product \<Rightarrow> product_status \<Rightarrow> agent_error + product" where
  "product_transition_to now p new_status =
     (if \<not> status_can_transition_to (pr_status p) new_status
      then Inl (InvalidTransition (show_status (pr_status p)) (show_status new_status))
      else Inr (p\<lparr>pr_status := new_status, pr_updated := now\<rparr>))"

section \<open>The life of an operation\<close>

text \<open>What the code can do to an operation between its creation and its end.\<close>

inductive op_step :: "operation \<Rightarrow> operation \<Rightarrow> bool" where
  transition: "transition_to now op s = Inr op' \<Longrightarrow> op_step op op'"
| failing: "fail now op e = (r, op') \<Longrightarrow> op_step op op'"
| progress: "op_step op (update_progress now op p)"

inductive_cases op_stepE: "op_step op op'"

inductive op_reachable :: "operation \<Rightarrow> bool" where
  start: "op_reachable (operation_new uuid now product ty prio params)"
| step: "op_reachable op \<Longrightarrow> op_step op op' \<Longrightarrow> op_reachable op'"

text \<open>
  The invariant of an operation: it has an end time exactly in a terminal state, and a start
  time unless it is queued or was cancelled.
\<close>

definition op_inv :: "operation \<Rightarrow> bool" where
  "op_inv op \<longleftrightarrow> (op_completed op \<noteq> None \<longleftrightarrow> is_terminal (op_state op))
     \<and> (op_state op \<notin> {Queued, Cancelled} \<longrightarrow> op_started op \<noteq> None)"

lemma terminal_final: "is_terminal s \<Longrightarrow> \<not> can_transition_to s t"
  by (auto simp: is_terminal_def can_transition_to_def)

lemma active_iff_not_terminal: "is_active s \<longleftrightarrow> \<not> is_terminal s"
  by (cases s) (auto simp: is_active_def is_terminal_def)

lemma transition_inv: "op_inv op \<Longrightarrow> transition_to now op s = Inr op' \<Longrightarrow> op_inv op'"
  by (cases "op_state op"; cases s)
     (auto simp: transition_to_def can_transition_to_def op_inv_def is_terminal_def Let_def split: if_splits)

lemma fail_inv: "op_inv op \<Longrightarrow> fail now op e = (r, op') \<Longrightarrow> op_inv op'"
proof -
  assume inv: "op_inv op" and f: "fail now op e = (r, op')"
  have inv1: "op_inv (op\<lparr>op_error := Some e\<rparr>)" using inv by (simp add: op_inv_def)
  show ?thesis
    using f inv1 transition_inv [OF inv1] by (auto simp: fail_def Let_def split: sum.splits)
qed

lemma update_progress_inv: "op_inv op \<Longrightarrow> op_inv (update_progress now op p)"
  by (simp add: update_progress_def op_inv_def)

lemma operation_new_inv: "op_inv (operation_new uuid now product ty prio params)"
  by (simp add: operation_new_def op_inv_def is_terminal_def)

lemma op_step_inv: "op_step op op' \<Longrightarrow> op_inv op \<Longrightarrow> op_inv op'"
  by (elim op_stepE) (auto intro: transition_inv fail_inv update_progress_inv)

lemma op_reachable_inv: "op_reachable op \<Longrightarrow> op_inv op"
  by (induction rule: op_reachable.induct) (auto intro: op_step_inv operation_new_inv)

lemma op_step_terminal: "op_step op op' \<Longrightarrow> is_terminal (op_state op) \<Longrightarrow>
    op_state op' = op_state op \<and> op_completed op' = op_completed op"
  by (elim op_stepE)
     (auto simp: transition_to_def fail_def terminal_final update_progress_def Let_def split: if_splits)

lemma op_steps_terminal: "op_step\<^sup>*\<^sup>* op op' \<Longrightarrow> is_terminal (op_state op) \<Longrightarrow>
    op_state op' = op_state op \<and> op_completed op' = op_completed op"
  by (induction rule: rtranclp_induct) (use op_step_terminal in fastforce)+

section \<open>Properties\<close>


definition example_op :: operation where
  "example_op = operation_new ''1'' 5 ''wow'' Install NormalPriority None"


end
