(* ===== verification/Agent_Queue.thy ===== *)
theory Agent_Queue
  imports Agent_Models
begin

text \<open>
  The operation queue of the agent (\<open>cascette-agent/src/state/queue.rs\<close>) and the recovery at start-up
  (\<open>state/db.rs\<close>): the tables as lists of rows with text columns, and every SQL statement of the
  code as a function on them. Rows that a statement leaves unordered keep the order of
  insertion. The clock is an argument; JSON columns hold their values.
\<close>

section \<open>Model: rows\<close>

record op_row =
  row_id :: string
  row_product :: string
  row_type :: string
  row_state :: string
  row_priority :: string
  row_parameters :: "json option"
  row_metadata :: "json option"
  row_progress :: "json option"
  row_error :: "error_info option"
  row_created :: timestamp
  row_updated :: timestamp
  row_started :: "timestamp option"
  row_completed :: "timestamp option"

record agent_db =
  db_products :: "product list"
  db_operations :: "op_row list"

definition parse_operation_type :: "string \<Rightarrow> agent_error + operation_type" where
  "parse_operation_type s =
     (if s = ''install'' then Inr Install
      else if s = ''update'' then Inr UpdateOp
      else if s = ''repair'' then Inr Repair
      else if s = ''verify'' then Inr VerifyOp
      else if s = ''uninstall'' then Inr Uninstall
      else if s = ''backfill'' then Inr Backfill
      else Inl Schema)"

definition parse_operation_state :: "string \<Rightarrow> agent_error + operation_state" where
  "parse_operation_state s =
     (if s = ''queued'' then Inr Queued
      else if s = ''initializing'' then Inr Initializing
      else if s = ''downloading'' then Inr Downloading
      else if s = ''verifying'' then Inr Verifying
      else if s = ''complete'' then Inr Complete
      else if s = ''failed'' then Inr Failed
      else if s = ''cancelled'' then Inr Cancelled
      else Inl Schema)"

definition parse_priority :: "string \<Rightarrow> agent_error + priority" where
  "parse_priority s =
     (if s = ''low'' then Inr Low
      else if s = ''normal'' then Inr NormalPriority
      else if s = ''high'' then Inr High
      else Inl Schema)"

definition row_to_operation :: "op_row \<Rightarrow> agent_error + operation" where
  "row_to_operation r =
     (case parse_operation_type (row_type r) of Inl e \<Rightarrow> Inl e | Inr ty \<Rightarrow>
      case parse_operation_state (row_state r) of Inl e \<Rightarrow> Inl e | Inr st \<Rightarrow>
      case parse_priority (row_priority r) of Inl e \<Rightarrow> Inl e | Inr prio \<Rightarrow>
        Inr \<lparr>op_id = row_id r, op_product = row_product r, op_type = ty, op_state = st, op_priority = prio,
             op_parameters = row_parameters r, op_metadata = row_metadata r, op_progress = row_progress r,
             op_error = row_error r, op_created = row_created r, op_updated = row_updated r,
             op_started = row_started r, op_completed = row_completed r\<rparr>)"

text \<open>The rows of a query result, read one after the other; the first bad row ends it.\<close>

fun rows_to_operations :: "op_row list \<Rightarrow> agent_error + operation list" where
  "rows_to_operations [] = Inr []"
| "rows_to_operations (r # rs) =
     (case row_to_operation r of Inl e \<Rightarrow> Inl e | Inr op \<Rightarrow>
      case rows_to_operations rs of Inl e \<Rightarrow> Inl e | Inr ops \<Rightarrow> Inr (op # ops))"

section \<open>Model: the queue\<close>

definition finished :: "string \<Rightarrow> bool" where
  "finished s \<longleftrightarrow> s = ''complete'' \<or> s = ''failed'' \<or> s = ''cancelled''"

definition find_active_for_product :: "agent_db \<Rightarrow> string \<Rightarrow> agent_error + operation option" where
  "find_active_for_product db product =
     (case rev (sort_key row_created (filter (\<lambda>r. row_product r = product \<and> \<not> finished (row_state r)) (db_operations db))) of
        [] \<Rightarrow> Inr None
      | r # _ \<Rightarrow> (case row_to_operation r of Inl e \<Rightarrow> Inl e | Inr op \<Rightarrow> Inr (Some op)))"

definition new_row :: "timestamp \<Rightarrow> operation \<Rightarrow> op_row" where
  "new_row now op =
     \<lparr>row_id = op_id op, row_product = op_product op, row_type = show_type (op_type op),
      row_state = show_state (op_state op), row_priority = show_priority (op_priority op),
      row_parameters = op_parameters op, row_metadata = op_metadata op, row_progress = op_progress op,
      row_error = op_error op, row_created = now, row_updated = now,
      row_started = op_started op, row_completed = op_completed op\<rparr>"

text \<open>The table refuses a used identifier and an unknown product.\<close>

definition insert_op :: "timestamp \<Rightarrow> agent_db \<Rightarrow> operation \<Rightarrow> (agent_error + unit) \<times> agent_db" where
  "insert_op now db op =
     (case find_active_for_product db (op_product op) of
        Inl e \<Rightarrow> (Inl e, db)
      | Inr (Some active) \<Rightarrow> (Inl (ActiveOperationExists (op_product op) (show_type (op_type active))), db)
      | Inr None \<Rightarrow>
          if op_id op \<in> row_id ` set (db_operations db) \<or> op_product op \<notin> pr_code ` set (db_products db)
          then (Inl Database, db)
          else (Inr (), db\<lparr>db_operations := db_operations db @ [new_row now op]\<rparr>))"

definition get_op :: "agent_db \<Rightarrow> string \<Rightarrow> agent_error + operation" where
  "get_op db i =
     (case filter (\<lambda>r. row_id r = i) (db_operations db) of
        [] \<Rightarrow> Inl (OperationNotFound i)
      | r # _ \<Rightarrow> row_to_operation r)"

definition priority_rank :: "string \<Rightarrow> nat" where
  "priority_rank p = (if p = ''high'' then 0 else if p = ''normal'' then 1 else 2)"

definition queued_rows :: "agent_db \<Rightarrow> op_row list" where
  "queued_rows db =
     sort_key (\<lambda>r. priority_rank (row_priority r))
       (sort_key row_created (filter (\<lambda>r. row_state r = ''queued'') (db_operations db)))"

definition get_queued :: "agent_db \<Rightarrow> agent_error + operation list" where
  "get_queued db = rows_to_operations (queued_rows db)"

definition update_row :: "timestamp \<Rightarrow> operation \<Rightarrow> op_row \<Rightarrow> op_row" where
  "update_row now op r =
     (if row_id r = op_id op
      then r\<lparr>row_state := show_state (op_state op), row_priority := show_priority (op_priority op),
             row_progress := op_progress op, row_error := op_error op, row_metadata := op_metadata op,
             row_updated := now, row_started := op_started op, row_completed := op_completed op\<rparr>
      else r)"

definition update_op :: "timestamp \<Rightarrow> agent_db \<Rightarrow> operation \<Rightarrow> agent_db" where
  "update_op now db op = db\<lparr>db_operations := map (update_row now op) (db_operations db)\<rparr>"

definition list_for_product :: "agent_db \<Rightarrow> string \<Rightarrow> agent_error + operation list" where
  "list_for_product db product =
     rows_to_operations (rev (sort_key row_created (filter (\<lambda>r. row_product r = product) (db_operations db))))"

text \<open>A missing end time compares as neither smaller nor greater.\<close>

definition expired :: "timestamp \<Rightarrow> op_row \<Rightarrow> bool" where
  "expired cutoff r \<longleftrightarrow>
     finished (row_state r) \<and> (case row_completed r of None \<Rightarrow> False | Some t \<Rightarrow> t < cutoff)"

definition cleanup_old :: "timestamp \<Rightarrow> agent_db \<Rightarrow> nat \<times> agent_db" where
  "cleanup_old cutoff db =
     (length (filter (expired cutoff) (db_operations db)),
      db\<lparr>db_operations := filter (\<lambda>r. \<not> expired cutoff r) (db_operations db)\<rparr>)"

section \<open>Model: recovery at start-up\<close>

text \<open>
  The recovery writes \<open>updated_at\<close> in a text form that the code does not read back (it takes the time
  of reading instead); here the column holds the time of the recovery. Nothing below depends on it.
\<close>

definition reset_row :: "timestamp \<Rightarrow> op_row \<Rightarrow> op_row" where
  "reset_row now r =
     (if row_state r \<in> {''initializing'', ''downloading'', ''verifying''}
      then r\<lparr>row_state := ''queued'', row_updated := now\<rparr> else r)"

definition reset_product :: "timestamp \<Rightarrow> product \<Rightarrow> product" where
  "reset_product now p =
     (if pr_status p = Installing then p\<lparr>pr_status := Available, pr_updated := now\<rparr>
      else if pr_status p = Updating then p\<lparr>pr_status := Installed, pr_updated := now\<rparr>
      else p)"

definition reset_inflight_operations :: "timestamp \<Rightarrow> agent_db \<Rightarrow> agent_db" where
  "reset_inflight_operations now db =
     db\<lparr>db_operations := map (reset_row now) (db_operations db), db_products := map (reset_product now) (db_products db)\<rparr>"

text \<open>The status in which the executor of each operation type puts the product first.\<close>

fun working_status :: "operation_type \<Rightarrow> product_status option" where
  "working_status Install = Some Installing"
| "working_status Backfill = Some Installing"
| "working_status UpdateOp = Some Updating"
| "working_status Repair = Some Repairing"
| "working_status VerifyOp = Some ProductVerifying"
| "working_status Uninstall = Some Uninstalling"
| "working_status Extract = None"

section \<open>Reading back what was written\<close>

lemma parse_type_show: "parse_operation_type (show_type ty) = (if ty = Extract then Inl Schema else Inr ty)"
  by (cases ty) (simp_all add: parse_operation_type_def)

lemma parse_state_show [simp]: "parse_operation_state (show_state st) = Inr st"
  by (cases st) (simp_all add: parse_operation_state_def)

lemma parse_priority_show [simp]: "parse_priority (show_priority p) = Inr p"
  by (cases p) (simp_all add: parse_priority_def)

lemma finished_show: "finished (show_state st) \<longleftrightarrow> is_terminal st"
  by (cases st) (simp_all add: finished_def is_terminal_def)

lemma show_state_inj: "show_state s = show_state t \<longleftrightarrow> s = t"
  by (metis parse_state_show sum.inject(2))

lemma show_type_inj: "show_type s = show_type t \<longleftrightarrow> s = t"
  by (cases s; cases t) simp_all

text \<open>A row whose text columns are those of some operation.\<close>

definition row_ok :: "op_row \<Rightarrow> bool" where
  "row_ok r \<longleftrightarrow> row_type r \<in> range show_type \<and> row_state r \<in> range show_state \<and> row_priority r \<in> range show_priority"

lemma row_to_operation_ok:
  "row_ok r \<Longrightarrow> (if row_type r = ''extract'' then row_to_operation r = Inl Schema
     else (\<exists>op. row_to_operation r = Inr op \<and> op_id op = row_id r \<and> op_product op = row_product r
                \<and> show_state (op_state op) = row_state r \<and> show_priority (op_priority op) = row_priority r))"
proof -
  assume "row_ok r"
  then obtain ty st p where r: "row_type r = show_type ty" "row_state r = show_state st" "row_priority r = show_priority p"
    by (auto simp: row_ok_def)
  have "row_type r = ''extract'' \<longleftrightarrow> ty = Extract"
    using r(1) show_type_inj [of ty Extract] by simp
  moreover have "parse_operation_type (row_type r) = (if ty = Extract then Inl Schema else Inr ty)"
    using r(1) parse_type_show by metis
  ultimately show ?thesis
    using r(2,3) by (simp add: row_to_operation_def)
qed

lemma rows_to_operations_ok:
  "list_all row_ok rs \<Longrightarrow>
   (if \<exists>r\<in>set rs. row_type r = ''extract'' then rows_to_operations rs = Inl Schema
    else \<exists>ops. rows_to_operations rs = Inr ops \<and> map op_id ops = map row_id rs)"
proof (induction rs)
  case (Cons r rs)
  then have "row_ok r" and IH: "if \<exists>r\<in>set rs. row_type r = ''extract'' then rows_to_operations rs = Inl Schema
      else \<exists>ops. rows_to_operations rs = Inr ops \<and> map op_id ops = map row_id rs" by simp_all
  from row_to_operation_ok [OF this(1)] IH show ?case
    by (cases "row_type r = ''extract''"; cases "\<exists>r\<in>set rs. row_type r = ''extract''") auto
qed simp

section \<open>One active operation for a product\<close>

text \<open>
  What the code does to the database, one complete call after the other: inserting, an update of
  an operation that was read and changed by a step of its life, cleaning up, restarting.
\<close>

inductive db_step :: "agent_db \<Rightarrow> agent_db \<Rightarrow> bool" where
  inserting: "insert_op now db op = (r, db') \<Longrightarrow> db_step db db'"
| updating: "get_op db i = Inr op \<Longrightarrow> op_step op op' \<Longrightarrow> db_step db (update_op now db op')"
| cleaning: "cleanup_old cutoff db = (n, db') \<Longrightarrow> db_step db db'"
| restarting: "db_step db (reset_inflight_operations now db)"

inductive_cases db_stepE: "db_step db db'"

inductive db_reachable :: "agent_db \<Rightarrow> bool" where
  fresh: "db_operations db = [] \<Longrightarrow> db_reachable db"
| next_db: "db_reachable db \<Longrightarrow> db_step db db' \<Longrightarrow> db_reachable db'"

definition active_rows :: "agent_db \<Rightarrow> string \<Rightarrow> op_row list" where
  "active_rows db product = filter (\<lambda>r. row_product r = product \<and> \<not> finished (row_state r)) (db_operations db)"

definition db_inv :: "agent_db \<Rightarrow> bool" where
  "db_inv db \<longleftrightarrow> (\<forall>p. length (active_rows db p) \<le> 1) \<and> distinct (map row_id (db_operations db))
     \<and> list_all row_ok (db_operations db)"

lemma find_active_None: "find_active_for_product db p = Inr None \<longleftrightarrow> active_rows db p = []"
  by (auto simp: find_active_for_product_def active_rows_def split: list.splits sum.splits)
     (metis rev_is_Nil_conv set_empty set_sort list.distinct(1))+

lemma row_ok_new: "row_ok (new_row now op)"
  by (simp add: row_ok_def new_row_def)

lemma insert_inv: "db_inv db \<Longrightarrow> insert_op now db op = (r, db') \<Longrightarrow> db_inv db'"
proof -
  assume inv: "db_inv db" and ins: "insert_op now db op = (r, db')"
  show ?thesis
  proof (cases "db' = db")
    case False
    then have none: "active_rows db (op_product op) = []" and fresh: "op_id op \<notin> row_id ` set (db_operations db)"
      and db': "db' = db\<lparr>db_operations := db_operations db @ [new_row now op]\<rparr>"
      using ins by (auto simp: insert_op_def simp flip: find_active_None split: sum.splits option.splits if_splits)
    have "length (active_rows db' p) \<le> 1" for p
      using inv none by (cases "p = op_product op") (auto simp: db' active_rows_def db_inv_def new_row_def)
    then show ?thesis
      using inv fresh by (auto simp: db_inv_def db' row_ok_new) (auto simp: new_row_def)
  qed (use inv in simp)
qed

text \<open>Replacing rows one by one keeps the invariant, if no finished row becomes active again.\<close>

lemma map_rows_inv:
  assumes "db_inv db"
    and "\<And>r. r \<in> set (db_operations db) \<Longrightarrow> row_id (f r) = row_id r \<and> row_product (f r) = row_product r
      \<and> row_ok (f r) \<and> (finished (row_state r) \<longrightarrow> finished (row_state (f r)))"
  shows "db_inv (db\<lparr>db_operations := map f (db_operations db)\<rparr>)"
proof -
  have "length (filter (\<lambda>r. row_product r = p \<and> \<not> finished (row_state r)) (map f rs)) \<le>
        length (filter (\<lambda>r. row_product r = p \<and> \<not> finished (row_state r)) rs)"
    if "set rs \<subseteq> set (db_operations db)" for rs p
    using that assms(2) by (induction rs) auto
  then have "length (active_rows (db\<lparr>db_operations := map f (db_operations db)\<rparr>) p) \<le> length (active_rows db p)" for p
    by (simp add: active_rows_def)
  moreover have "map row_id (map f (db_operations db)) = map row_id (db_operations db)"
    using assms(2) by simp
  ultimately show ?thesis
    using assms by (auto simp: db_inv_def list_all_iff intro: order_trans simp del: map_map)
qed

lemma get_op_row:
  assumes "db_inv db" "get_op db i = Inr op" "r \<in> set (db_operations db)" "row_id r = i"
  shows "row_to_operation r = Inr op"
proof -
  obtain r' rs where rs: "filter (\<lambda>r. row_id r = i) (db_operations db) = r' # rs" "row_to_operation r' = Inr op"
    using assms(2) by (auto simp: get_op_def split: list.splits)
  then have "r' \<in> set (filter (\<lambda>r. row_id r = i) (db_operations db))" by simp
  then have "r' \<in> set (db_operations db)" "row_id r' = i" by simp_all
  then have "r' = r"
    using assms(1,3,4) by (metis db_inv_def distinct_map inj_onD)
  with rs show ?thesis by simp
qed

lemma row_to_operation_fields:
  "row_to_operation r = Inr op \<Longrightarrow> row_ok r \<Longrightarrow> op_id op = row_id r \<and> row_state r = show_state (op_state op)"
  using row_to_operation_ok [of r] by (auto split: if_splits)

lemma op_step_id: "op_step op op' \<Longrightarrow> op_id op' = op_id op"
  by (elim op_stepE) (auto simp: transition_to_def fail_def update_progress_def Let_def split: if_splits sum.splits)

lemma update_inv:
  assumes "db_inv db" "get_op db i = Inr op" "op_step op op'"
  shows "db_inv (update_op now db op')"
  unfolding update_op_def
proof (rule map_rows_inv [OF assms(1)])
  fix r
  assume r: "r \<in> set (db_operations db)"
  then have ok: "row_ok r" using assms(1) by (simp add: db_inv_def list_all_iff)
  have "finished (row_state (update_row now op' r))" if "row_id r = op_id op'" "finished (row_state r)"
  proof -
    have "\<exists>r'\<in>set (db_operations db). row_id r' = i \<and> row_to_operation r' = Inr op"
      using assms(2) get_op_row [OF assms(1,2)] by (auto simp: get_op_def filter_eq_Cons_iff split: list.splits)
    then have "op_id op = i"
      using assms(1) row_to_operation_fields by (metis db_inv_def list_all_iff)
    then have "row_to_operation r = Inr op"
      using that(1) op_step_id [OF assms(3)] by (intro get_op_row [OF assms(1,2) r]) simp
    then have "is_terminal (op_state op)"
      using that(2) row_to_operation_fields [OF _ ok] by (simp flip: finished_show)
    then show ?thesis
      using op_step_terminal [OF assms(3)] that(1) by (simp add: update_row_def finished_show)
  qed
  then show "row_id (update_row now op' r) = row_id r \<and> row_product (update_row now op' r) = row_product r
      \<and> row_ok (update_row now op' r) \<and> (finished (row_state r) \<longrightarrow> finished (row_state (update_row now op' r)))"
    using ok by (auto simp: update_row_def row_ok_def)
qed

lemma cleanup_inv: "db_inv db \<Longrightarrow> cleanup_old cutoff db = (n, db') \<Longrightarrow> db_inv db'"
proof -
  assume inv: "db_inv db" and db': "cleanup_old cutoff db = (n, db')"
  have "active_rows db' p = active_rows db p" for p
    using db' by (auto simp: cleanup_old_def active_rows_def expired_def intro: filter_cong)
  then show ?thesis
    using inv db' by (auto simp: db_inv_def cleanup_old_def list_all_iff intro: distinct_map_filter)
qed

lemma reset_inv: "db_inv db \<Longrightarrow> db_inv (reset_inflight_operations now db)"
proof -
  assume inv: "db_inv db"
  have queued: "''queued'' \<in> range show_state" by (metis rangeI show_state.simps(1))
  have "db_inv (db\<lparr>db_operations := map (reset_row now) (db_operations db)\<rparr>)"
    using inv queued by (intro map_rows_inv [OF inv]) (auto simp: reset_row_def row_ok_def finished_def db_inv_def list_all_iff)
  then show ?thesis
    by (simp add: reset_inflight_operations_def db_inv_def active_rows_def)
qed

lemma db_reachable_inv: "db_reachable db \<Longrightarrow> db_inv db"
proof (induction rule: db_reachable.induct)
  case (next_db db db')
  from next_db(2) show ?case
    by (cases rule: db_step.cases) (use next_db.IH in \<open>auto intro: insert_inv update_inv cleanup_inv reset_inv\<close>)
qed (simp add: db_inv_def active_rows_def)

lemma get_queued_spec:
  assumes "db_inv db"
  shows "if \<exists>r\<in>set (db_operations db). row_state r = ''queued'' \<and> row_type r = ''extract'' then get_queued db = Inl Schema
    else \<exists>ops. get_queued db = Inr ops \<and> map op_id ops = map row_id (queued_rows db)"
proof -
  have members: "set (queued_rows db) = {r \<in> set (db_operations db). row_state r = ''queued''}"
    by (simp add: queued_rows_def)
  have "list_all row_ok (queued_rows db)"
    using assms members by (auto simp: db_inv_def list_all_iff)
  from rows_to_operations_ok [OF this] show ?thesis
    by (simp add: get_queued_def members Bex_def conj_assoc)
qed

section \<open>Properties\<close>


definition example_db :: agent_db where
  "example_db = \<lparr>db_products = [\<lparr>pr_code = ''wow'', pr_status = Installed, pr_updated = 1\<rparr>], db_operations = []\<rparr>"

definition example_extract :: operation where
  "example_extract = operation_new ''1'' 5 ''wow'' Extract High None"

lemma example_insert:
  "insert_op 5 example_db example_extract = (Inr (), example_db\<lparr>db_operations := [new_row 5 example_extract]\<rparr>)"
  by (simp add: insert_op_def find_active_for_product_def example_db_def example_extract_def operation_new_def)

lemma example_reachable: "db_reachable (example_db\<lparr>db_operations := [new_row 5 example_extract]\<rparr>)"
proof -
  have "db_reachable example_db" by (simp add: db_reachable.fresh example_db_def)
  then show ?thesis using db_step.inserting [OF example_insert] by (rule db_reachable.next_db)
qed


text \<open>
  A queued extract operation stops the whole queue: the queue can be read exactly when no
  operation of that type is queued (its type name is written but not accepted back), and
  then it lists all queued operations; while one is queued nothing can be fetched for
  execution, the operation itself cannot be read, and its product takes no new operation.
\<close>

theorem extract_blocks_queue:
  assumes "db_reachable db"
  shows "(if \<exists>r\<in>set (db_operations db). row_state r = ''queued'' \<and> row_type r = ''extract''
          then get_queued db = Inl Schema
          else \<exists>ops. get_queued db = Inr ops \<and> map op_id ops = map row_id (queued_rows db))
    \<and> (insert_op now db op = (Inr (), db') \<and> op_type op = Extract \<and> op_state op = Queued \<longrightarrow>
         get_queued db' = Inl Schema \<and> get_op db' (op_id op) = Inl Schema
         \<and> (op_product op2 = op_product op \<longrightarrow> insert_op later db' op2 = (Inl Schema, db')))"
proof -
  note queue = get_queued_spec
  have inv: "db_inv db" by (rule db_reachable_inv [OF assms])
  have blocked: "get_queued db' = Inl Schema \<and> get_op db' (op_id op) = Inl Schema
      \<and> (op_product op2 = op_product op \<longrightarrow> insert_op later db' op2 = (Inl Schema, db'))"
    if ins: "insert_op now db op = (Inr (), db')" and op: "op_type op = Extract" "op_state op = Queued"
  proof -
    let ?r = "new_row now op"
    have none: "active_rows db (op_product op) = []" and fresh: "op_id op \<notin> row_id ` set (db_operations db)"
      and db': "db_operations db' = db_operations db @ [?r]"
      using ins by (auto simp: insert_op_def simp flip: find_active_None split: sum.splits option.splits if_splits)
    have r: "row_to_operation ?r = Inl Schema" "row_state ?r = ''queued''" "row_type ?r = ''extract''"
      "row_product ?r = op_product op" "row_id ?r = op_id op"
      using op row_to_operation_ok [OF row_ok_new, of now op] by (simp_all add: new_row_def)
    have "filter (\<lambda>r. row_product r = op_product op \<and> \<not> finished (row_state r)) (db_operations db') = [?r]"
      using none r by (simp add: db' active_rows_def finished_def)
    then have "find_active_for_product db' (op_product op) = Inl Schema"
      using r(1) by (simp add: find_active_for_product_def)
    moreover have "filter (\<lambda>r. row_id r = op_id op) (db_operations db') = [?r]"
      using fresh r(5) by (force simp: db' filter_empty_conv)
    ultimately show ?thesis
      using queue [OF insert_inv [OF inv ins]] r by (auto simp: db' get_op_def insert_op_def)
  qed
  show ?thesis using queue [OF inv] blocked by blast
qed

theorem extract_blocks_queue_witness:
  "get_queued (example_db\<lparr>db_operations := [new_row 5 example_extract]\<rparr>) = Inl Schema"
proof -
  have "db_reachable example_db" by (simp add: db_reachable.fresh example_db_def)
  moreover have "op_type example_extract = Extract" "op_state example_extract = Queued"
    by (simp_all add: example_extract_def operation_new_def)
  ultimately show ?thesis
    using extract_blocks_queue [of example_db 5 example_extract "example_db\<lparr>db_operations := [new_row 5 example_extract]\<rparr>" undefined undefined]
      example_insert by blast
qed

text \<open>
  C39. Recovery after a restart: a product that an interrupted operation left in its working status can
  enter that status again, so that the requeued operation can run, exactly for installs,
  backfills and updates. A product caught while repairing, verifying or uninstalling keeps its
  status over any number of restarts and refuses the requeued operation.
\<close>

theorem restart_recovers_iff:
  assumes "working_status ty = Some st" "pr_status p = st"
  shows "(\<exists>p'. product_transition_to now ((reset_product t ^^ Suc n) p) st = Inr p') \<longleftrightarrow> ty \<in> {Install, Backfill, UpdateOp}"
proof -
  have "pr_status ((reset_product t ^^ Suc n) p) =
      (if st = Installing then Available else if st = Updating then Installed else st)"
    using assms(2) by (induction n) (simp_all add: reset_product_def)
  then show ?thesis
    using assms(1)
    by (cases ty) (auto simp: product_transition_to_def status_can_transition_to_def simp del: funpow.simps)
qed

theorem restart_recovers_iff_witness:
  "(\<nexists>p'. product_transition_to 9 ((reset_product 8 ^^ Suc 2) \<lparr>pr_code = ''wow'', pr_status = Repairing, pr_updated = 1\<rparr>) Repairing = Inr p')
   \<and> (\<exists>p'. product_transition_to 9 ((reset_product 8 ^^ Suc 2) \<lparr>pr_code = ''wow'', pr_status = Updating, pr_updated = 1\<rparr>) Updating = Inr p')"
  using restart_recovers_iff [of Repair Repairing "\<lparr>pr_code = ''wow'', pr_status = Repairing, pr_updated = 1\<rparr>" 9 2 8]
    restart_recovers_iff [of UpdateOp Updating "\<lparr>pr_code = ''wow'', pr_status = Updating, pr_updated = 1\<rparr>" 9 2 8]
  by (simp del: funpow.simps)

end
