(* ===== verification/Agent_Runner.thy ===== *)
theory Agent_Runner
  imports Agent_Queue
begin

text \<open>
  The background runner (\<open>cascette-agent/src/executor/runner.rs\<close>): a pass over the queue that hands
  every fetched operation to a task while permits last, and the life of a task. A task owns
  its copy of the operation. Tasks, handlers and passes interleave between their
  accesses to the database; the executor of a running task is left open: it may change its copy by any
  step of an operation's life or attach metadata, write it back, and return.
\<close>

section \<open>Model\<close>

datatype task = Spawned operation | Running operation

record runner =
  rn_db :: agent_db
  rn_permits :: nat
  rn_tasks :: "task list"

definition runner_start :: "agent_db \<Rightarrow> nat \<Rightarrow> runner" where
  "runner_start db max_concurrent = \<lparr>rn_db = db, rn_permits = max_concurrent, rn_tasks = []\<rparr>"

fun spawn_queued :: "operation list \<Rightarrow> runner \<Rightarrow> runner" where
  "spawn_queued [] rn = rn"
| "spawn_queued (op # ops) rn =
     (if rn_permits rn = 0 then rn
      else spawn_queued ops (rn\<lparr>rn_permits := rn_permits rn - 1, rn_tasks := rn_tasks rn @ [Spawned op]\<rparr>))"

definition process_queue :: "runner \<Rightarrow> runner" where
  "process_queue rn =
     (case get_queued (rn_db rn) of
        Inl e \<Rightarrow> rn
      | Inr queued \<Rightarrow> spawn_queued queued rn)"

text \<open>The end of task \<open>i\<close>: its permit is dropped with it.\<close>

definition task_end :: "nat \<Rightarrow> runner \<Rightarrow> runner" where
  "task_end i rn = rn\<lparr>rn_permits := rn_permits rn + 1, rn_tasks := take i (rn_tasks rn) @ drop (Suc i) (rn_tasks rn)\<rparr>"

definition task_start :: "timestamp \<Rightarrow> nat \<Rightarrow> operation \<Rightarrow> runner \<Rightarrow> runner" where
  "task_start now i op rn =
     (case transition_to now op Initializing of
        Inl e \<Rightarrow> task_end i rn
      | Inr op' \<Rightarrow> rn\<lparr>rn_db := update_op now (rn_db rn) op', rn_tasks := (rn_tasks rn)[i := Running op']\<rparr>)"

text \<open>The executor returned; on an error the operation is failed and written back.\<close>

definition task_result :: "timestamp \<Rightarrow> nat \<Rightarrow> operation \<Rightarrow> string option \<Rightarrow> runner \<Rightarrow> runner" where
  "task_result now i op result rn =
     (case result of
        None \<Rightarrow> task_end i rn
      | Some message \<Rightarrow>
          let (r, op') = fail now op \<lparr>ei_code = ''execution_error'', ei_message = message, ei_details = None\<rparr> in
          task_end i (rn\<lparr>rn_db := update_op now (rn_db rn) op'\<rparr>))"

inductive rn_step :: "runner \<Rightarrow> runner \<Rightarrow> bool" where
  pass: "rn_step rn (process_queue rn)"
| start: "i < length (rn_tasks rn) \<Longrightarrow> rn_tasks rn ! i = Spawned op \<Longrightarrow> rn_step rn (task_start now i op rn)"
| work: "i < length (rn_tasks rn) \<Longrightarrow> rn_tasks rn ! i = Running op \<Longrightarrow>
    op_step op op' \<or> op' = op\<lparr>op_metadata := meta\<rparr> \<Longrightarrow>
    rn_step rn (rn\<lparr>rn_db := update_op now (rn_db rn) op', rn_tasks := (rn_tasks rn)[i := Running op']\<rparr>)"
| result: "i < length (rn_tasks rn) \<Longrightarrow> rn_tasks rn ! i = Running op \<Longrightarrow> rn_step rn (task_result now i op res rn)"
| handler: "insert_op now (rn_db rn) op = (r, db') \<Longrightarrow> rn_step rn (rn\<lparr>rn_db := db'\<rparr>)"

inductive_cases rn_stepE: "rn_step rn rn'"

section \<open>Permits\<close>

text \<open>Every permit is free or held by one task.\<close>

definition permits_inv :: "nat \<Rightarrow> runner \<Rightarrow> bool" where
  "permits_inv n rn \<longleftrightarrow> rn_permits rn + length (rn_tasks rn) = n"

lemma spawn_queued_eq:
  "spawn_queued ops rn = rn\<lparr>rn_permits := rn_permits rn - length ops,
     rn_tasks := rn_tasks rn @ map Spawned (take (rn_permits rn) ops)\<rparr>"
proof (induction ops rn rule: spawn_queued.induct)
  case (2 op ops rn)
  then show ?case by (cases "rn_permits rn") simp_all
qed simp

lemma spawn_queued_permits: "permits_inv n rn \<Longrightarrow> permits_inv n (spawn_queued ops rn)"
  by (auto simp: permits_inv_def spawn_queued_eq min_def)

lemma task_end_permits: "i < length (rn_tasks rn) \<Longrightarrow> permits_inv n rn \<Longrightarrow> permits_inv n (task_end i rn)"
  by (simp add: permits_inv_def task_end_def)

lemma rn_step_permits: "rn_step rn rn' \<Longrightarrow> permits_inv n rn \<Longrightarrow> permits_inv n rn'"
proof (elim rn_stepE)
  assume "permits_inv n rn" "rn' = process_queue rn"
  then show ?thesis by (simp add: process_queue_def spawn_queued_permits split: sum.split)
next
  fix i op now
  assume "permits_inv n rn" "rn' = task_start now i op rn" "i < length (rn_tasks rn)"
  then show ?thesis
    using task_end_permits [of i rn n] by (auto simp: task_start_def split: sum.split) (simp add: permits_inv_def)
next
  fix i op now res
  assume inv: "permits_inv n rn" and i: "i < length (rn_tasks rn)" and "rn' = task_result now i op res rn"
  moreover have "permits_inv n (task_end i (rn\<lparr>rn_db := db\<rparr>))" for db
    using inv i by (intro task_end_permits) (simp_all add: permits_inv_def)
  ultimately show ?thesis
    using task_end_permits [OF i inv] by (simp add: task_result_def split: option.split prod.split)
qed (auto simp: permits_inv_def)

lemma rn_steps_permits: "rn_step\<^sup>*\<^sup>* rn rn' \<Longrightarrow> permits_inv n rn \<Longrightarrow> permits_inv n rn'"
  by (induction rule: rtranclp_induct) (auto intro: rn_step_permits)

section \<open>Dispatching twice\<close>

lemma queued_head:
  assumes "db_inv db" "get_queued db = Inr (op # ops)"
  obtains r where "r \<in> set (db_operations db)" "row_id r = op_id op" "row_product r = op_product op"
    "row_state r = ''queued''" "op_state op = Queued"
proof -
  obtain r rs where rs: "queued_rows db = r # rs" "row_to_operation r = Inr op"
    using assms(2) by (auto simp: get_queued_def split: sum.splits elim!: rows_to_operations.elims)
  then have "r \<in> set (queued_rows db)" by simp
  then have r: "r \<in> set (db_operations db)" "row_state r = ''queued''" by (simp_all add: queued_rows_def)
  then have "row_ok r" using assms(1) by (simp add: db_inv_def list_all_iff)
  with rs(2) r show ?thesis
    using row_to_operation_fields [of r op] by (intro that [of r])
      (auto simp: row_to_operation_def parse_operation_state_def split: sum.splits if_splits)
qed

lemma update_row_keeps [simp]: "row_id (update_row t op r) = row_id r" "row_product (update_row t op r) = row_product r"
  by (simp_all add: update_row_def)

lemma update_row_overwrites: "op_id op' = op_id op \<Longrightarrow> update_row t' op' (update_row t op r) = update_row t' op' r"
  by (simp add: update_row_def)

lemma update_op_overwrites: "op_id op' = op_id op \<Longrightarrow> update_op t' (update_op t db op) op' = update_op t' db op'"
  by (simp add: update_op_def update_row_overwrites)

text \<open>Once its only active row is finished, a product takes a new operation.\<close>

lemma insert_after_finish:
  assumes inv: "db_inv db" and r: "r \<in> set (db_operations db)" "row_id r = op_id op" "\<not> finished (row_state r)"
    and terminal: "is_terminal (op_state op)"
    and new: "op_product op2 = row_product r" "op_id op2 \<notin> row_id ` set (db_operations db)" "row_product r \<in> pr_code ` set (db_products db)"
  shows "insert_op now (update_op t db op) op2 =
    (Inr (), update_op t db op\<lparr>db_operations := map (update_row t op) (db_operations db) @ [new_row now op2]\<rparr>)"
proof -
  have only: "r' = r" if "r' \<in> set (db_operations db)" "row_product r' = row_product r" "\<not> finished (row_state r')" for r'
  proof -
    have "r' \<in> set (active_rows db (row_product r))" "r \<in> set (active_rows db (row_product r))"
      using that r by (simp_all add: active_rows_def)
    moreover have "length (active_rows db (row_product r)) \<le> 1" using inv by (simp add: db_inv_def)
    ultimately show ?thesis by (cases "active_rows db (row_product r)") auto
  qed
  have "finished (row_state (update_row t op r'))"
    if "r' \<in> set (db_operations db)" "row_product (update_row t op r') = row_product r" for r'
    using that only [of r'] terminal r(2) by (auto simp: update_row_def finished_show split: if_splits)
  then have "active_rows (update_op t db op) (op_product op2) = []"
    by (auto simp: active_rows_def update_op_def filter_empty_conv new(1))
  moreover have "row_id ` set (map (update_row t op) (db_operations db)) = row_id ` set (db_operations db)"
    by (simp add: image_image)
  ultimately show ?thesis
    using new by (simp add: insert_op_def update_op_def flip: find_active_None)
qed

lemma start_queued:
  "op_state op = Queued \<Longrightarrow> \<exists>op'. transition_to now op Initializing = Inr op' \<and> op_id op' = op_id op \<and> op_state op' = Initializing"
  by (simp add: transition_to_def can_transition_to_def Let_def)

text \<open>The two tasks of one operation: the first fails, the second starts from its old copy.\<close>

lemma first_task_fails:
  assumes "op_state op = Queued" "rn_tasks rn = Spawned op # ts"
  shows "\<exists>op'. rn_step\<^sup>*\<^sup>* rn (rn\<lparr>rn_db := update_op 0 (rn_db rn) op', rn_permits := rn_permits rn + 1, rn_tasks := ts\<rparr>)
    \<and> op_id op' = op_id op \<and> is_terminal (op_state op')"
proof -
  obtain op1 where op1: "transition_to 0 op Initializing = Inr op1" "op_id op1 = op_id op" "op_state op1 = Initializing"
    using start_queued [OF assms(1)] by blast
  let ?e = "\<lparr>ei_code = ''execution_error'', ei_message = [], ei_details = None\<rparr>"
  obtain op2 where op2: "fail 0 op1 ?e = (Inr (), op2)" "op_id op2 = op_id op1" "is_terminal (op_state op2)"
    using op1(3) by (auto simp: fail_def transition_to_def can_transition_to_def is_terminal_def Let_def)
  let ?rn1 = "rn\<lparr>rn_db := update_op 0 (rn_db rn) op1, rn_tasks := Running op1 # ts\<rparr>"
  have "rn_step rn ?rn1"
    using rn_step.start [of 0 rn op 0] op1(1) assms(2) by (simp add: task_start_def)
  moreover have "rn_step ?rn1 (rn\<lparr>rn_db := update_op 0 (rn_db rn) op2, rn_permits := rn_permits rn + 1, rn_tasks := ts\<rparr>)"
    using rn_step.result [of 0 ?rn1 op1 0 "Some []"] op2
    by (simp add: task_result_def task_end_def update_op_overwrites)
  ultimately show ?thesis
    using op1(2) op2(2,3) by (intro exI [of _ op2]) (simp add: rtranclp.rtrancl_into_rtrancl r_into_rtranclp)
qed

lemma second_task_revives:
  assumes "op_state op = Queued" "i < length (rn_tasks rn)" "rn_tasks rn ! i = Spawned op"
    and "rn_db rn = update_op t db op'\<lparr>db_operations := map (update_row t op') (db_operations db) @ [new_row now op2]\<rparr>"
    and "op_id op' = op_id op" "op_id op2 \<noteq> op_id op" "op_state op2 = Queued" "op_product op2 = op_product op"
    and "r \<in> set (db_operations db)" "row_id r = op_id op" "row_product r = op_product op"
  shows "\<exists>rn'. rn_step rn rn' \<and> 2 \<le> length (active_rows (rn_db rn') (op_product op))"
proof -
  obtain op1 where op1: "transition_to 0 op Initializing = Inr op1" "op_id op1 = op_id op" "op_state op1 = Initializing"
    using start_queued [OF assms(1)] by blast
  let ?rn = "task_start 0 i op rn"
  have db: "db_operations (rn_db ?rn) = map (update_row 0 op1) (db_operations db) @ [new_row now op2]"
    using assms(4-6) op1 by (simp add: task_start_def update_op_def update_row_overwrites) (simp add: update_row_def new_row_def)
  define A where "A = filter (\<lambda>r. row_product r = op_product op \<and> \<not> finished (row_state r)) (map (update_row 0 op1) (db_operations db))"
  have "\<not> finished (row_state (update_row 0 op1 r))"
    using assms(10) op1(2,3) by (simp add: update_row_def finished_def)
  then have "update_row 0 op1 r \<in> set A"
    using assms(9,11) by (simp add: A_def)
  moreover have "active_rows (rn_db ?rn) (op_product op) = A @ [new_row now op2]"
    using assms(7,8) by (simp add: active_rows_def db A_def) (simp add: new_row_def finished_def)
  ultimately have "2 \<le> length (active_rows (rn_db ?rn) (op_product op))"
    by (cases A) simp_all
  then show ?thesis using rn_step.start [OF assms(2,3)] by blast
qed

section \<open>Properties\<close>

text \<open>
  C26. The concurrency limit: in every interleaving of passes over the queue, tasks and handlers the
  free permits and the tasks add up to \<open>max_concurrent\<close>; and a pass over a readable queue starts
  tasks for exactly the first queued operations, in the order of the queue, as many as permits are free.
\<close>

theorem runner_respects_limit:
  assumes "rn_step\<^sup>*\<^sup>* (runner_start db max_concurrent) rn"
  shows "rn_permits rn + length (rn_tasks rn) = max_concurrent
    \<and> (get_queued (rn_db rn) = Inr queued \<longrightarrow>
         rn_tasks (process_queue rn) = rn_tasks rn @ map Spawned (take (max_concurrent - length (rn_tasks rn)) queued)
         \<and> rn_db (process_queue rn) = rn_db rn)"
proof -
  have "permits_inv max_concurrent (runner_start db max_concurrent)" by (simp add: permits_inv_def runner_start_def)
  then have "rn_permits rn + length (rn_tasks rn) = max_concurrent"
    using rn_steps_permits [OF assms] by (simp add: permits_inv_def)
  then show ?thesis by (auto simp: process_queue_def spawn_queued_eq)
qed

definition example_install :: operation where
  "example_install = operation_new ''2'' 5 ''wow'' Install NormalPriority None"

definition example_queue :: agent_db where
  "example_queue = example_db\<lparr>db_operations := [new_row 5 example_install]\<rparr>"

lemma example_queue_inserted: "insert_op 5 example_db example_install = (Inr (), example_queue)"
  by (simp add: insert_op_def find_active_for_product_def example_db_def example_install_def operation_new_def example_queue_def)

lemma example_queue_reachable: "db_reachable example_queue"
proof -
  have "db_reachable example_db" by (simp add: db_reachable.fresh example_db_def)
  then show ?thesis using db_step.inserting [OF example_queue_inserted] by (rule db_reachable.next_db)
qed

lemma example_queue_read: "get_queued example_queue = Inr [example_install]"
  by code_simp

theorem runner_respects_limit_witness:
  "rn_permits (process_queue (runner_start example_queue 2)) + length (rn_tasks (process_queue (runner_start example_queue 2))) = 2"
  using runner_respects_limit [of example_queue 2 "process_queue (runner_start example_queue 2)"] rn_step.pass
  by blast

text \<open>
  C40. An operation can be dispatched twice: a pass leaves the operations it hands out in the queue, so that a
  second pass that comes before the first task has written its start hands the same operation out again. From
  every reachable database with a readable queue that is shorter than the limit, the
  runner can so reach a database in which the product of the first queued operation has two active operations.
\<close>

theorem runner_dispatches_twice:
  assumes "db_reachable db" "get_queued db = Inr (op # ops)" "length (op # ops) < max_concurrent"
    and "op_product op \<in> pr_code ` set (db_products db)"
  shows "\<exists>rn. rn_step\<^sup>*\<^sup>* (runner_start db max_concurrent) rn \<and> 2 \<le> length (active_rows (rn_db rn) (op_product op))"
proof -
  have inv: "db_inv db" by (rule db_reachable_inv [OF assms(1)])
  obtain r where r: "r \<in> set (db_operations db)" "row_id r = op_id op" "row_product r = op_product op"
      "row_state r = ''queued''" "op_state op = Queued"
    by (rule queued_head [OF inv assms(2)])
  let ?n = "max_concurrent"
  let ?start = "runner_start db ?n"
  define rn where "rn = process_queue (process_queue ?start)"
  define ts where "ts = map Spawned ops @ Spawned op # map Spawned (take (?n - length (op # ops) - 1) ops)"
  have rn: "rn_db rn = db" "rn_tasks rn = Spawned op # ts"
    using assms(2,3) by (simp_all add: rn_def ts_def process_queue_def spawn_queued_eq runner_start_def take_Cons')
  have "rn_step\<^sup>*\<^sup>* ?start rn"
    unfolding rn_def by (meson rn_step.pass rtranclp.rtrancl_refl rtranclp.rtrancl_into_rtrancl)
  moreover obtain op' where op': "rn_step\<^sup>*\<^sup>* rn (rn\<lparr>rn_db := update_op 0 db op', rn_permits := rn_permits rn + 1, rn_tasks := ts\<rparr>)"
      "op_id op' = op_id op" "is_terminal (op_state op')"
    using first_task_fails [OF r(5) rn(2), unfolded rn(1)] by blast
  moreover obtain j where j: "j \<notin> row_id ` set (db_operations db)"
    using ex_new_if_finite [OF infinite_UNIV_listI, of "row_id ` set (db_operations db)"] by auto
  define op2 where "op2 = operation_new j 0 (op_product op) Install High None"
  have op2: "op_id op2 = j" "op_state op2 = Queued" "op_product op2 = op_product op" "j \<noteq> op_id op"
    using j imageI [OF r(1), of row_id] r(2) by (auto simp: op2_def operation_new_def)
  let ?db = "update_op 0 db op'\<lparr>db_operations := map (update_row 0 op') (db_operations db) @ [new_row 0 op2]\<rparr>"
  let ?rn1 = "rn\<lparr>rn_db := update_op 0 db op', rn_permits := rn_permits rn + 1, rn_tasks := ts\<rparr>"
  let ?rn = "?rn1\<lparr>rn_db := ?db\<rparr>"
  have "insert_op 0 (update_op 0 db op') op2 = (Inr (), ?db)"
    using r op' op2 j assms(4) by (intro insert_after_finish [OF inv, of r]) (simp_all add: finished_def)
  then have "rn_step ?rn1 ?rn" by (intro rn_step.handler) simp
  moreover have "\<exists>rn'. rn_step ?rn rn' \<and> 2 \<le> length (active_rows (rn_db rn') (op_product op))"
    using r op2 op'(2)
    by (intro second_task_revives [where i = "length ops" and t = 0 and db = db and op' = op' and now = 0 and ?op2.0 = op2 and r = r]) (simp_all add: ts_def nth_append)
  ultimately show ?thesis by (meson rtranclp_trans rtranclp.rtrancl_into_rtrancl)
qed

theorem runner_dispatches_twice_witness:
  "\<exists>rn. rn_step\<^sup>*\<^sup>* (runner_start example_queue 2) rn \<and> 2 \<le> length (active_rows (rn_db rn) ''wow'')"
proof -
  have "op_product example_install = ''wow''" "op_product example_install \<in> pr_code ` set (db_products example_queue)"
    by (simp_all add: example_install_def operation_new_def example_queue_def example_db_def)
  then show ?thesis
    using runner_dispatches_twice [OF example_queue_reachable example_queue_read, of 2] by simp
qed

end
