(* ===== verification/Zbsdiff.thy ===== *)
theory Zbsdiff
  imports Outcome
begin

text \<open>
  ZBSDIFF1 patches (\<open>cascette-formats/src/zbsdiff\<close>): the control block and its sign-magnitude integers, the
  header, applying a patch in memory and as a stream over the old file, and the builders that need
  no search. A signed 64-bit value is an integer, a \<open>usize\<close> a natural number whose overflow is a
  panic. A cursor is the list of the bytes it has left. The zlib functions are parameters:
  \<open>zc\<close> compresses, \<open>zd\<close> decompresses, \<open>None\<close> is an error of the library.
\<close>

unbundle bit_operations_syntax

section \<open>Model: control block\<close>

datatype zbsdiff_error =
    InvalidSignature
  | InvalidSize string int
  | SizeTooLarge int
  | SizeMismatch nat nat
  | CompressionError
  | DecompressionError
  | BinaryFormatError
  | CorruptPatch
  | InvalidControlEntry nat
  | ApplicationFailed
  | InsufficientData nat nat
  | EmptyControlBlock

type_synonym 'a zbs = "(zbsdiff_error, 'a) outcome"

definition usize_end :: nat where
  "usize_end = 2 ^ 64"

definition offtin :: "byte list \<Rightarrow> int" where
  "offtin buf =
     (let magnitude = sint (from_le (take 7 buf @ [buf ! 7 AND 0x7F]) :: u64) in
      if buf ! 7 AND 0x80 \<noteq> 0 then - magnitude else magnitude)"

text \<open>The smallest value has no magnitude: its negation overflows.\<close>

definition offtout :: "int \<Rightarrow> byte list zbs" where
  "offtout v =
     (if v = - (2 ^ 63) then Panic
      else let buf = to_le 8 (word_of_int \<bar>v\<bar> :: u64) in
           Ret (if v < 0 then buf[7 := buf ! 7 OR 0x80] else buf))"

definition compress_zlib :: "(byte list \<Rightarrow> byte list option) \<Rightarrow> byte list \<Rightarrow> byte list zbs" where
  "compress_zlib zc data = (case zc data of None \<Rightarrow> Fail CompressionError | Some z \<Rightarrow> Ret z)"

definition decompress_zlib :: "(byte list \<Rightarrow> byte list option) \<Rightarrow> byte list \<Rightarrow> byte list zbs" where
  "decompress_zlib zd data = (case zd data of None \<Rightarrow> Fail DecompressionError | Some d \<Rightarrow> Ret d)"

record control_entry =
  ce_diff :: int
  ce_extra :: int
  ce_seek :: int

definition control_entry_new :: "int \<Rightarrow> int \<Rightarrow> int \<Rightarrow> control_entry" where
  "control_entry_new d e s = \<lparr>ce_diff = d, ce_extra = e, ce_seek = s\<rparr>"

definition MAX_OP_SIZE :: int where
  "MAX_OP_SIZE = 10000000"

definition entry_validate :: "control_entry \<Rightarrow> unit zbs" where
  "entry_validate c =
     (if ce_diff c < 0 then Fail ApplicationFailed
      else if ce_extra c < 0 then Fail ApplicationFailed
      else if ce_diff c > MAX_OP_SIZE then Fail ApplicationFailed
      else if ce_extra c > MAX_OP_SIZE then Fail ApplicationFailed
      else Ret ())"

definition output_bytes :: "control_entry \<Rightarrow> int" where
  "output_bytes c = ce_diff c + ce_extra c"

fun validate_entries :: "nat \<Rightarrow> control_entry list \<Rightarrow> unit zbs" where
  "validate_entries i [] = Ret ()"
| "validate_entries i (c # cs) =
     (case entry_validate c of
        Ret _ \<Rightarrow> validate_entries (i + 1) cs
      | Fail _ \<Rightarrow> Fail (InvalidControlEntry i)
      | Panic \<Rightarrow> Panic)"

definition block_validate :: "control_entry list \<Rightarrow> unit zbs" where
  "block_validate cs = (if cs = [] then Fail EmptyControlBlock else validate_entries 0 cs)"

definition with_entries :: "control_entry list \<Rightarrow> control_entry list zbs" where
  "with_entries cs = obind (block_validate cs) (\<lambda>_. Ret cs)"

definition add_entry :: "control_entry list \<Rightarrow> control_entry \<Rightarrow> control_entry list zbs" where
  "add_entry cs c = obind (entry_validate c) (\<lambda>_. Ret (cs @ [c]))"

definition total_output_size :: "control_entry list \<Rightarrow> int" where
  "total_output_size cs = sum_list (map output_bytes cs)"

function read_entries :: "byte list \<Rightarrow> control_entry list \<Rightarrow> control_entry list zbs" where
  "read_entries s entries =
     (if s = [] then Ret entries
      else if length s < 24 then Fail CorruptPatch
      else let entry = control_entry_new (offtin (take 8 s)) (offtin (take 8 (drop 8 s))) (offtin (take 8 (drop 16 s))) in
           obind (entry_validate entry) (\<lambda>_. read_entries (drop 24 s) (entries @ [entry])))"
  by pat_completeness auto
termination by (relation "measure (length \<circ> fst)") auto

declare read_entries.simps [simp del]

definition from_compressed :: "(byte list \<Rightarrow> byte list option) \<Rightarrow> byte list \<Rightarrow> control_entry list zbs" where
  "from_compressed zd data =
     obind (decompress_zlib zd data) (\<lambda>decompressed.
     obind (read_entries decompressed []) (\<lambda>entries.
       if entries = [] then Fail EmptyControlBlock else Ret entries))"

fun write_entries :: "control_entry list \<Rightarrow> byte list zbs" where
  "write_entries [] = Ret []"
| "write_entries (c # cs) =
     obind (offtout (ce_diff c)) (\<lambda>d.
     obind (offtout (ce_extra c)) (\<lambda>e.
     obind (offtout (ce_seek c)) (\<lambda>s.
     obind (write_entries cs) (\<lambda>rest. Ret (d @ e @ s @ rest)))))"

definition to_compressed :: "(byte list \<Rightarrow> byte list option) \<Rightarrow> control_entry list \<Rightarrow> byte list zbs" where
  "to_compressed zc cs = obind (write_entries cs) (compress_zlib zc)"

section \<open>Model: header\<close>

definition ZBSDIFF1_SIGNATURE :: u64 where
  "ZBSDIFF1_SIGNATURE = from_le [0x5A, 0x42, 0x53, 0x44, 0x49, 0x46, 0x46, 0x31]"

record zbsdiff_header =
  signature :: u64
  control_size :: int
  diff_size :: int
  output_size :: int

definition MAX_SIZE :: int where
  "MAX_SIZE = 1000000000"

definition header_validate :: "zbsdiff_header \<Rightarrow> unit zbs" where
  "header_validate h =
     (if signature h \<noteq> ZBSDIFF1_SIGNATURE then Fail InvalidSignature
      else if control_size h < 0 then Fail (InvalidSize ''control_size'' (control_size h))
      else if diff_size h < 0 then Fail (InvalidSize ''diff_size'' (diff_size h))
      else if output_size h < 0 then Fail (InvalidSize ''output_size'' (output_size h))
      else if control_size h > MAX_SIZE then Fail (SizeTooLarge (control_size h))
      else if diff_size h > MAX_SIZE then Fail (SizeTooLarge (diff_size h))
      else if output_size h > MAX_SIZE then Fail (SizeTooLarge (output_size h))
      else if control_size h + diff_size h \<ge> 2 ^ 63 then Fail (SizeTooLarge (2 ^ 63 - 1))
      else if control_size h + diff_size h > MAX_SIZE then Fail (SizeTooLarge (control_size h + diff_size h))
      else Ret ())"

definition header_new :: "int \<Rightarrow> int \<Rightarrow> int \<Rightarrow> zbsdiff_header zbs" where
  "header_new c d n =
     (let h = \<lparr>signature = ZBSDIFF1_SIGNATURE, control_size = c, diff_size = d, output_size = n\<rparr> in
      obind (header_validate h) (\<lambda>_. Ret h))"

text \<open>The derived reader checks the signature as soon as it has read it.\<close>

definition read_i64 :: "(zbsdiff_error, int) reader" where
  "read_i64 s = rbind (read_exact BinaryFormatError 8 s) (\<lambda>b s. Ret (sint (from_le b :: u64), s))"

definition read_header :: "(zbsdiff_error, zbsdiff_header) reader" where
  "read_header s =
     rbind (read_exact BinaryFormatError 8 s) (\<lambda>b s.
       if from_le b \<noteq> ZBSDIFF1_SIGNATURE then Fail CorruptPatch
       else rbind (read_i64 s) (\<lambda>c s. rbind (read_i64 s) (\<lambda>d s. rbind (read_i64 s) (\<lambda>n s.
              Ret (\<lparr>signature = from_le b, control_size = c, diff_size = d, output_size = n\<rparr>, s)))))"

definition write_header :: "zbsdiff_header \<Rightarrow> byte list" where
  "write_header h =
     to_le 8 (signature h) @ to_le 8 (word_of_int (control_size h) :: u64)
     @ to_le 8 (word_of_int (diff_size h) :: u64) @ to_le 8 (word_of_int (output_size h) :: u64)"

definition minimum_patch_size :: "zbsdiff_header \<Rightarrow> nat" where
  "minimum_patch_size h = 32 + nat (control_size h) + nat (diff_size h)"

definition parse_from_patch :: "byte list \<Rightarrow> zbsdiff_header zbs" where
  "parse_from_patch patch =
     (if length patch < 32 then Fail (InsufficientData 32 (length patch))
      else obind (read_header patch) (\<lambda>(h, _). obind (header_validate h) (\<lambda>_. Ret h)))"

record zbs_diff =
  zd_header :: zbsdiff_header
  zd_control :: "byte list"
  zd_diff :: "byte list"
  zd_extra :: "byte list"

definition zbs_parse :: "byte list \<Rightarrow> zbs_diff zbs" where
  "zbs_parse patch =
     obind (read_header patch) (\<lambda>(h, s).
     obind (header_validate h) (\<lambda>_.
     obind (read_exact CompressionError (nat (control_size h)) s) (\<lambda>(control, s).
     obind (read_exact CompressionError (nat (diff_size h)) s) (\<lambda>(diff, extra).
       Ret \<lparr>zd_header = h, zd_control = control, zd_diff = diff, zd_extra = extra\<rparr>))))"

definition zbs_build :: "zbs_diff \<Rightarrow> byte list" where
  "zbs_build z = write_header (zd_header z) @ zd_control z @ zd_diff z @ zd_extra z"

section \<open>Model: applying a patch in memory\<close>

definition read_old_byte_at :: "byte list \<Rightarrow> nat \<Rightarrow> byte" where
  "read_old_byte_at old pos = (if pos < length old then old ! pos else 0)"

definition apply_diff_byte :: "byte \<Rightarrow> byte \<Rightarrow> byte" where
  "apply_diff_byte old_byte diff_byte = old_byte + diff_byte"

text \<open>The loops over the bytes of an entry: the count, the bytes left, the position, the output.\<close>

fun diff_bytes :: "byte list \<Rightarrow> nat \<Rightarrow> byte list \<Rightarrow> nat \<Rightarrow> byte list \<Rightarrow> (byte list \<times> nat \<times> byte list) zbs" where
  "diff_bytes old 0 ds pos out = Ret (ds, pos, out)"
| "diff_bytes old (Suc n) [] pos out = Fail (InsufficientData (Suc n) 0)"
| "diff_bytes old (Suc n) (d # ds) pos out =
     (if pos + 1 \<ge> usize_end then Panic
      else diff_bytes old n ds (pos + 1) (out @ [apply_diff_byte (read_old_byte_at old pos) d]))"

fun extra_bytes :: "nat \<Rightarrow> byte list \<Rightarrow> byte list \<Rightarrow> (byte list \<times> byte list) zbs" where
  "extra_bytes 0 es out = Ret (es, out)"
| "extra_bytes (Suc n) [] out = Fail (InsufficientData (Suc n) 0)"
| "extra_bytes (Suc n) (e # es) out = extra_bytes n es (out @ [e])"

definition seek_old :: "nat \<Rightarrow> int \<Rightarrow> nat zbs" where
  "seek_old pos offset =
     (if offset = - (2 ^ 63) then Panic
      else if offset < 0 then Ret (pos - nat (- offset))
      else Ret (min (pos + nat offset) (usize_end - 1)))"

record patch_state =
  ps_diff :: "byte list"
  ps_extra :: "byte list"
  ps_pos :: nat
  ps_out :: "byte list"

definition apply_entry :: "byte list \<Rightarrow> control_entry \<Rightarrow> patch_state \<Rightarrow> patch_state zbs" where
  "apply_entry old c st =
     obind (diff_bytes old (nat (ce_diff c)) (ps_diff st) (ps_pos st) (ps_out st)) (\<lambda>(ds, pos, out).
     obind (extra_bytes (nat (ce_extra c)) (ps_extra st) out) (\<lambda>(es, out).
     obind (if ce_seek c \<noteq> 0 then seek_old pos (ce_seek c) else Ret pos) (\<lambda>pos.
       Ret \<lparr>ps_diff = ds, ps_extra = es, ps_pos = pos, ps_out = out\<rparr>)))"

fun apply_entries :: "byte list \<Rightarrow> control_entry list \<Rightarrow> patch_state \<Rightarrow> patch_state zbs" where
  "apply_entries old [] st = Ret st"
| "apply_entries old (c # cs) st = obind (apply_entry old c st) (apply_entries old cs)"

definition patch_start :: "byte list \<Rightarrow> byte list \<Rightarrow> patch_state" where
  "patch_start diff extra = \<lparr>ps_diff = diff, ps_extra = extra, ps_pos = 0, ps_out = []\<rparr>"

definition apply_patch_with_data ::
  "byte list \<Rightarrow> control_entry list \<Rightarrow> byte list \<Rightarrow> byte list \<Rightarrow> nat \<Rightarrow> byte list zbs" where
  "apply_patch_with_data old control diff extra expected =
     obind (apply_entries old control (patch_start diff extra)) (\<lambda>st.
       if length (ps_out st) \<noteq> expected then Fail (SizeMismatch expected (length (ps_out st)))
       else Ret (ps_out st))"

definition apply_patch_memory :: "(byte list \<Rightarrow> byte list option) \<Rightarrow> byte list \<Rightarrow> byte list \<Rightarrow> byte list zbs" where
  "apply_patch_memory zd old patch =
     obind (read_header patch) (\<lambda>(h, s).
     obind (header_validate h) (\<lambda>_.
     obind (read_exact CompressionError (nat (control_size h)) s) (\<lambda>(control, s).
     obind (read_exact CompressionError (nat (diff_size h)) s) (\<lambda>(diff, extra).
     obind (from_compressed zd control) (\<lambda>control_block.
     obind (decompress_zlib zd diff) (\<lambda>diff_data.
     obind (decompress_zlib zd extra) (\<lambda>extra_data.
       apply_patch_with_data old control_block diff_data extra_data (nat (output_size h)))))))))"

definition zbs_apply :: "(byte list \<Rightarrow> byte list option) \<Rightarrow> zbs_diff \<Rightarrow> byte list \<Rightarrow> byte list zbs" where
  "zbs_apply zd z old = apply_patch_memory zd old (zbs_build z)"

section \<open>Model: applying a patch to a file\<close>

text \<open>
  The streaming patcher reads the old file, here its content, in chunks of the buffer size. Its loops end
  only for a positive size, so they are partial functions; \<open>None\<close> is not returning.
\<close>

record zbsdiff_patcher =
  old_file :: "byte list"
  output_capacity :: nat
  buffer_size :: nat

definition patcher_new :: "byte list \<Rightarrow> nat \<Rightarrow> zbsdiff_patcher" where
  "patcher_new old n = \<lparr>old_file = old, output_capacity = n, buffer_size = 8192\<rparr>"

definition with_buffer_size :: "nat \<Rightarrow> zbsdiff_patcher \<Rightarrow> zbsdiff_patcher" where
  "with_buffer_size n p = p\<lparr>buffer_size := max n 1024\<rparr>"

definition read_old_chunk :: "zbsdiff_patcher \<Rightarrow> nat \<Rightarrow> nat \<Rightarrow> byte list" where
  "read_old_chunk p pos n =
     (if pos < length (old_file p)
      then let available = min (length (old_file p) - pos) n in
           take available (drop pos (old_file p)) @ replicate (n - available) 0
      else replicate n 0)"

partial_function (option) apply_diff_block ::
  "zbsdiff_patcher \<Rightarrow> nat \<Rightarrow> byte list \<Rightarrow> nat \<Rightarrow> byte list \<Rightarrow> (byte list \<times> nat \<times> byte list) zbs option" where
  "apply_diff_block p remaining ds pos out =
     (if remaining = 0 then Some (Ret (ds, pos, out))
      else let chunk_size = min remaining (buffer_size p) in
           case read_exact CompressionError chunk_size ds of
             Ret (diff_chunk, ds) \<Rightarrow>
               let old_chunk = read_old_chunk p pos chunk_size in
               if pos + chunk_size \<ge> usize_end then Some Panic
               else apply_diff_block p (remaining - chunk_size) ds (pos + chunk_size)
                      (out @ map (\<lambda>(d, b). apply_diff_byte b d) (zip diff_chunk old_chunk))
           | Fail e \<Rightarrow> Some (Fail e)
           | Panic \<Rightarrow> Some Panic)"

partial_function (option) copy_extra_block ::
  "zbsdiff_patcher \<Rightarrow> nat \<Rightarrow> byte list \<Rightarrow> byte list \<Rightarrow> (byte list \<times> byte list) zbs option" where
  "copy_extra_block p remaining es out =
     (if remaining = 0 then Some (Ret (es, out))
      else let chunk_size = min remaining (buffer_size p) in
           case read_exact CompressionError chunk_size es of
             Ret (chunk, es) \<Rightarrow> copy_extra_block p (remaining - chunk_size) es (out @ chunk)
           | Fail e \<Rightarrow> Some (Fail e)
           | Panic \<Rightarrow> Some Panic)"

text \<open>A negative size becomes a huge one when it is cast.\<close>

definition as_usize :: "int \<Rightarrow> nat" where
  "as_usize v = nat (v mod 2 ^ 64)"

definition stream_entry :: "zbsdiff_patcher \<Rightarrow> control_entry \<Rightarrow> patch_state \<Rightarrow> patch_state zbs option" where
  "stream_entry p c st =
     Option.bind (apply_diff_block p (as_usize (ce_diff c)) (ps_diff st) (ps_pos st) (ps_out st)) (\<lambda>r. case r of
       Fail e \<Rightarrow> Some (Fail e) | Panic \<Rightarrow> Some Panic | Ret (ds, pos, out) \<Rightarrow>
     Option.bind (copy_extra_block p (as_usize (ce_extra c)) (ps_extra st) out) (\<lambda>r. case r of
       Fail e \<Rightarrow> Some (Fail e) | Panic \<Rightarrow> Some Panic | Ret (es, out) \<Rightarrow>
     Some (obind (if ce_seek c \<noteq> 0 then seek_old pos (ce_seek c) else Ret pos) (\<lambda>pos.
       Ret \<lparr>ps_diff = ds, ps_extra = es, ps_pos = pos, ps_out = out\<rparr>))))"

fun stream_entries :: "zbsdiff_patcher \<Rightarrow> control_entry list \<Rightarrow> patch_state \<Rightarrow> patch_state zbs option" where
  "stream_entries p [] st = Some (Ret st)"
| "stream_entries p (c # cs) st =
     Option.bind (stream_entry p c st) (\<lambda>r. case r of
       Fail e \<Rightarrow> Some (Fail e) | Panic \<Rightarrow> Some Panic | Ret st \<Rightarrow> stream_entries p cs st)"

definition apply_patch ::
  "zbsdiff_patcher \<Rightarrow> control_entry list \<Rightarrow> byte list \<Rightarrow> byte list \<Rightarrow> byte list zbs option" where
  "apply_patch p control diff extra =
     Option.bind (stream_entries p control (patch_start diff extra)) (\<lambda>r. Some (obind r (\<lambda>st.
       if length (ps_out st) \<noteq> output_capacity p
       then Fail (SizeMismatch (output_capacity p) (length (ps_out st)))
       else Ret (ps_out st))))"

definition apply_patch_from_data ::
  "(byte list \<Rightarrow> byte list option) \<Rightarrow> zbsdiff_patcher \<Rightarrow> byte list \<Rightarrow> byte list zbs option" where
  "apply_patch_from_data zd p patch =
     (case obind (read_header patch) (\<lambda>(h, s).
           obind (header_validate h) (\<lambda>_.
           obind (read_exact CompressionError (nat (control_size h)) s) (\<lambda>(control, s).
           obind (read_exact CompressionError (nat (diff_size h)) s) (\<lambda>(diff, extra).
           obind (from_compressed zd control) (\<lambda>control_block.
           obind (decompress_zlib zd diff) (\<lambda>diff_data.
           obind (decompress_zlib zd extra) (\<lambda>extra_data.
             Ret (control_block, diff_data, extra_data)))))))) of
        Ret (control_block, diff_data, extra_data) \<Rightarrow> apply_patch p control_block diff_data extra_data
      | Fail e \<Rightarrow> Some (Fail e)
      | Panic \<Rightarrow> Some Panic)"

end
