(* ===== verification/Bsdiff.thy ===== *)
theory Bsdiff
  imports Zbsdiff
begin

text \<open>
  Creating ZBSDIFF1 patches (\<open>cascette-formats/src/zbsdiff/suffix.rs\<close> and \<open>builder.rs\<close>): the search in the
  suffix array, the scan that splits the new data into differences and extra bytes, and the three builders. In the
  scan \<open>None\<close> is a panic (an index out of range or an unsigned subtraction below zero). The suffix
  array comes from a library and is a parameter.
\<close>

section \<open>Model: search\<close>

definition matchlen :: "byte list \<Rightarrow> byte list \<Rightarrow> nat" where
  "matchlen a b = length (takeWhile (\<lambda>(x, y). x = y) (zip a b))"

definition suffix_at :: "byte list \<Rightarrow> nat \<Rightarrow> byte list option" where
  "suffix_at xs i = (if i \<le> length xs then Some (drop i xs) else None)"

function search_loop :: "nat list \<Rightarrow> byte list \<Rightarrow> byte list \<Rightarrow> nat \<Rightarrow> nat \<Rightarrow> (nat \<times> nat) option" where
  "search_loop sa old new_data st en =
     (if en < st then None
      else if en - st > 1 then
        let pivot = st + (en - st) div 2 in
        Option.bind (idx sa pivot) (\<lambda>pivot_pos.
        Option.bind (suffix_at old pivot_pos) (\<lambda>suffix.
          let pivot_len = matchlen suffix new_data in
          if pivot_len = length new_data
             \<or> pivot_pos + pivot_len < length old \<and> old ! (pivot_pos + pivot_len) < new_data ! pivot_len
          then search_loop sa old new_data pivot en
          else search_loop sa old new_data st pivot))
      else Some (st, en))"
  by pat_completeness auto
termination by (relation "measure (\<lambda>(sa, old, nw, st, en). en - st)") auto

declare search_loop.simps [simp del]

definition search :: "nat list \<Rightarrow> byte list \<Rightarrow> byte list \<Rightarrow> (nat \<times> nat) option" where
  "search sa old new_data =
     (if sa = [] \<or> new_data = [] then Some (0, 0)
      else Option.bind (search_loop sa old new_data 0 (length sa - 1)) (\<lambda>(st, en).
        Option.bind (idx sa st) (\<lambda>start_pos.
        Option.bind (idx sa en) (\<lambda>end_pos.
        Option.bind (suffix_at old start_pos) (\<lambda>start_suffix.
        Option.bind (suffix_at old end_pos) (\<lambda>end_suffix.
          let start_len = matchlen start_suffix new_data; end_len = matchlen end_suffix new_data in
          Some (if start_len > end_len then (start_pos, start_len) else (end_pos, end_len))))))))"

section \<open>Model: scan\<close>

text \<open>
  Whether byte \<open>k\<close> of the new data matches the old data at the previous offset. A negative index
  becomes a huge one when it is cast, so that it is not below the size.
\<close>

definition drift_match :: "byte list \<Rightarrow> byte list \<Rightarrow> int \<Rightarrow> nat \<Rightarrow> bool option" where
  "drift_match old nw lastoffset k =
     (let i = int k + lastoffset in
      if 0 \<le> i \<and> nat i < length old
      then Option.bind (idx nw k) (\<lambda>y. Some (old ! nat i = y))
      else Some False)"

function score_loop :: "byte list \<Rightarrow> byte list \<Rightarrow> int \<Rightarrow> nat \<Rightarrow> nat \<Rightarrow> nat \<Rightarrow> (nat \<times> nat) option" where
  "score_loop old nw lastoffset limit scsc oldscore =
     (if scsc < limit
      then Option.bind (drift_match old nw lastoffset scsc) (\<lambda>m.
             score_loop old nw lastoffset limit (scsc + 1) (if m then oldscore + 1 else oldscore))
      else Some (scsc, oldscore))"
  by pat_completeness auto
termination by (relation "measure (\<lambda>(old, nw, lo, limit, scsc, sc). limit - scsc)") auto

declare score_loop.simps [simp del]

text \<open>The inner loop: from a position on, the first match worth an entry; \<open>len\<close>, \<open>pos\<close> and the score there.\<close>

function scan_loop ::
  "nat list \<Rightarrow> byte list \<Rightarrow> byte list \<Rightarrow> int \<Rightarrow> nat \<Rightarrow> nat \<Rightarrow> nat \<Rightarrow> nat \<Rightarrow> nat \<Rightarrow> (nat \<times> nat \<times> nat \<times> nat) option" where
  "scan_loop sa old nw lastoffset scan len pos oldscore scsc =
     (if scan < length nw then
        Option.bind (search sa old (drop scan nw)) (\<lambda>(pos, len).
        Option.bind (score_loop old nw lastoffset (scan + len) scsc oldscore) (\<lambda>(scsc, oldscore).
          if len = oldscore \<and> len \<noteq> 0 \<or> len > oldscore + 8 then Some (scan, len, pos, oldscore)
          else Option.bind (drift_match old nw lastoffset scan) (\<lambda>m.
                 if m \<and> oldscore = 0 then None
                 else scan_loop sa old nw lastoffset (scan + 1) len pos (if m then oldscore - 1 else oldscore) scsc)))
      else Some (scan, len, pos, oldscore))"
  by pat_completeness auto
termination by (relation "measure (\<lambda>(sa, old, nw, lo, scan, len, pos, sc, scsc). length nw - scan)") auto

declare scan_loop.simps [simp del]

function forward_extension ::
  "byte list \<Rightarrow> byte list \<Rightarrow> nat \<Rightarrow> nat \<Rightarrow> nat \<Rightarrow> nat \<Rightarrow> int \<Rightarrow> int \<Rightarrow> nat \<Rightarrow> nat option" where
  "forward_extension old nw lastscan lastpos scan i s sf lenf =
     (if lastscan + i < scan \<and> lastpos + i < length old then
        Option.bind (idx nw (lastscan + i)) (\<lambda>y.
          let s = (if old ! (lastpos + i) = y then s + 1 else s); i = i + 1 in
          if s * 2 - int i > sf * 2 - int lenf
          then forward_extension old nw lastscan lastpos scan i s s i
          else forward_extension old nw lastscan lastpos scan i s sf lenf)
      else Some lenf)"
  by pat_completeness auto
termination by (relation "measure (\<lambda>(old, nw, lastscan, lastpos, scan, i, s, sf, lenf). scan - (lastscan + i))") auto

declare forward_extension.simps [simp del]

function backward_extension ::
  "byte list \<Rightarrow> byte list \<Rightarrow> nat \<Rightarrow> nat \<Rightarrow> nat \<Rightarrow> nat \<Rightarrow> int \<Rightarrow> int \<Rightarrow> nat \<Rightarrow> nat option" where
  "backward_extension old nw lastscan pos scan i s sb lenb =
     (if scan \<ge> lastscan + i \<and> pos \<ge> i then
        Option.bind (idx old (pos - i)) (\<lambda>x.
        Option.bind (idx nw (scan - i)) (\<lambda>y.
          let s = (if x = y then s + 1 else s) in
          if s * 2 - int i > sb * 2 - int lenb
          then backward_extension old nw lastscan pos scan (i + 1) s s i
          else backward_extension old nw lastscan pos scan (i + 1) s sb lenb))
      else Some lenb)"
  by pat_completeness auto
termination by (relation "measure (\<lambda>(old, nw, lastscan, pos, scan, i, s, sb, lenb). Suc pos - i)") auto

declare backward_extension.simps [simp del]

text \<open>How much of an overlap goes to the forward part: \<open>a\<close> and \<open>b\<close> are where the two parts start in it.\<close>

fun overlap_split ::
  "byte list \<Rightarrow> byte list \<Rightarrow> nat \<Rightarrow> nat \<Rightarrow> nat \<Rightarrow> nat \<Rightarrow> nat list \<Rightarrow> int \<Rightarrow> int \<Rightarrow> nat \<Rightarrow> nat option" where
  "overlap_split old nw na oa nb ob [] s ss lens = Some lens"
| "overlap_split old nw na oa nb ob (i # is) s ss lens =
     Option.bind (idx nw (na + i)) (\<lambda>x. Option.bind (idx old (oa + i)) (\<lambda>y.
     Option.bind (idx nw (nb + i)) (\<lambda>u. Option.bind (idx old (ob + i)) (\<lambda>v.
       let s = (if x = y then s + 1 else s); s = (if u = v then s - 1 else s) in
       if s > ss then overlap_split old nw na oa nb ob is s s (i + 1)
       else overlap_split old nw na oa nb ob is s ss lens))))"

definition extension :: "byte list \<Rightarrow> byte list \<Rightarrow> nat \<Rightarrow> nat \<Rightarrow> nat \<Rightarrow> nat \<Rightarrow> (nat \<times> nat) option" where
  "extension old nw scan pos lastscan lastpos =
     Option.bind (forward_extension old nw lastscan lastpos scan 0 0 0 0) (\<lambda>lenf.
     Option.bind (if scan < length nw then backward_extension old nw lastscan pos scan 1 0 0 0 else Some 0) (\<lambda>lenb.
       if scan < lenb then None
       else if lastscan + lenf > scan - lenb then
         let overlap = lastscan + lenf - (scan - lenb) in
         if lastpos + lenf < overlap \<or> pos < lenb then None
         else Option.bind (overlap_split old nw (lastscan + lenf - overlap) (lastpos + lenf - overlap)
                             (scan - lenb) (pos - lenb) [0..<overlap] 0 0 0) (\<lambda>lens.
                if lenf + lens < overlap \<or> lenb < lens then None
                else Some (lenf + lens - overlap, lenb - lens))
       else Some (lenf, lenb)))"

fun collect_diff :: "byte list \<Rightarrow> byte list \<Rightarrow> nat \<Rightarrow> nat \<Rightarrow> nat list \<Rightarrow> byte list option" where
  "collect_diff old nw lastscan lastpos [] = Some []"
| "collect_diff old nw lastscan lastpos (i # is) =
     Option.bind (idx nw (lastscan + i)) (\<lambda>x.
     Option.bind (idx old (lastpos + i)) (\<lambda>y.
     Option.bind (collect_diff old nw lastscan lastpos is) (\<lambda>ds. Some ((x - y) # ds))))"

record diff_state =
  ds_scan :: nat
  ds_len :: nat
  ds_pos :: nat
  ds_lastscan :: nat
  ds_lastpos :: nat
  ds_lastoffset :: int
  ds_control :: "control_entry list"
  ds_diff :: "byte list"
  ds_extra :: "byte list"

definition emit_entry :: "byte list \<Rightarrow> byte list \<Rightarrow> diff_state \<Rightarrow> diff_state option" where
  "emit_entry old nw st =
     Option.bind (extension old nw (ds_scan st) (ds_pos st) (ds_lastscan st) (ds_lastpos st)) (\<lambda>(lenf, lenb).
     Option.bind (collect_diff old nw (ds_lastscan st) (ds_lastpos st) [0..<lenf]) (\<lambda>diff.
       let extra_start = ds_lastscan st + lenf; extra_end = ds_scan st - lenb in
       if ds_scan st < lenb \<or> extra_end < extra_start \<or> extra_end > length nw \<or> ds_pos st < lenb then None
       else Some (st\<lparr>
         ds_control := ds_control st @
           [control_entry_new (int lenf) (int (extra_end - extra_start))
              ((int (ds_pos st) - int lenb) - (int (ds_lastpos st) + int lenf))],
         ds_diff := ds_diff st @ diff,
         ds_extra := ds_extra st @ slice extra_start extra_end nw,
         ds_lastscan := ds_scan st - lenb,
         ds_lastpos := ds_pos st - lenb,
         ds_lastoffset := int (ds_pos st) - int (ds_scan st)\<rparr>)))"

lemma scan_loop_progress:
  "scan_loop sa old nw lo scan len pos sc scsc = Some (scan', len', pos', sc') \<Longrightarrow>
   scan \<le> scan' \<and> (scan' < length nw \<longrightarrow> 0 < len')"
proof (induction sa old nw lo scan len pos sc scsc rule: scan_loop.induct)
  case (1 sa old nw lo scan len pos sc scsc)
  show ?case
  proof (cases "scan < length nw")
    case True
    then obtain p l scsc1 sc1 where found: "search sa old (drop scan nw) = Some (p, l)"
      "score_loop old nw lo (scan + l) scsc sc = Some (scsc1, sc1)"
      using 1(2) by (subst (asm) scan_loop.simps) (auto split: Option.bind_splits)
    show ?thesis
    proof (cases "l = sc1 \<and> l \<noteq> 0 \<or> l > sc1 + 8")
      case False
      then obtain m where m: "drift_match old nw lo scan = Some m" "\<not> (m \<and> sc1 = 0)"
        "scan_loop sa old nw lo (scan + 1) l p (if m then sc1 - 1 else sc1) scsc1 = Some (scan', len', pos', sc')"
        using 1(2) True found by (subst (asm) scan_loop.simps) (auto split: Option.bind_splits if_splits)
      show ?thesis
        using 1(1) [OF True found(1) refl found(2) refl False m(1,2,3)] by simp
    qed (use 1(2) True found in \<open>subst (asm) scan_loop.simps, auto\<close>)
  qed (use 1(2) in \<open>subst (asm) scan_loop.simps, simp\<close>)
qed

lemma emit_entry_keeps: "emit_entry old nw st = Some st' \<Longrightarrow> ds_scan st' = ds_scan st \<and> ds_len st' = ds_len st \<and> ds_pos st' = ds_pos st"
  by (auto simp: emit_entry_def Let_def split: Option.bind_splits if_splits)

function diff_loop :: "nat list \<Rightarrow> byte list \<Rightarrow> byte list \<Rightarrow> diff_state \<Rightarrow> diff_state option" where
  "diff_loop sa old nw st =
     (if ds_scan st < length nw then
        let scan = ds_scan st + ds_len st in
        Option.bind (scan_loop sa old nw (ds_lastoffset st) scan (ds_len st) (ds_pos st) 0 scan)
          (\<lambda>(scan, len, pos, oldscore).
            let st = st\<lparr>ds_scan := scan, ds_len := len, ds_pos := pos\<rparr> in
            if len \<noteq> oldscore \<or> scan = length nw
            then Option.bind (emit_entry old nw st) (diff_loop sa old nw)
            else diff_loop sa old nw st)
      else Some st)"
  by pat_completeness auto

termination
proof (relation "measure (\<lambda>(sa, old, nw, st).
    if ds_scan st < length nw then length nw - ds_scan st + (if ds_len st = 0 then 1 else 0) else 0)", goal_cases)
  case (2 sa old nw st scan x a b c d e f st1 st2)
  then have "ds_scan st2 = a" "ds_len st2 = c"
    using emit_entry_keeps [OF 2(9)] by simp_all
  with 2 show ?case
    using scan_loop_progress [of sa old nw "ds_lastoffset st" scan "ds_len st" "ds_pos st" 0 scan a c e f] by auto
next
  case (3 sa old nw st scan x a b c d e f st1)
  then show ?case
    using scan_loop_progress [of sa old nw "ds_lastoffset st" scan "ds_len st" "ds_pos st" 0 scan a c e f] by auto
qed simp

declare diff_loop.simps [simp del]

text \<open>The library fills the suffix array of non-empty data only.\<close>

definition compute_diff :: "(byte list \<Rightarrow> nat list) \<Rightarrow> byte list \<Rightarrow> byte list \<Rightarrow> diff_state option" where
  "compute_diff divsufsort old nw =
     diff_loop (if 0 < length old then divsufsort old else []) old nw
       \<lparr>ds_scan = 0, ds_len = 0, ds_pos = 0, ds_lastscan = 0, ds_lastpos = 0, ds_lastoffset = 0,
        ds_control = [], ds_diff = [], ds_extra = []\<rparr>"

section \<open>Model: builders\<close>

record zbsdiff_builder =
  old_data :: "byte list"
  new_data :: "byte list"
  max_diff_block_size :: nat

definition builder_new :: "byte list \<Rightarrow> byte list \<Rightarrow> zbsdiff_builder" where
  "builder_new old nw = \<lparr>old_data = old, new_data = nw, max_diff_block_size = 1024 * 1024\<rparr>"

definition with_max_diff_block_size :: "zbsdiff_builder \<Rightarrow> nat \<Rightarrow> zbsdiff_builder" where
  "with_max_diff_block_size b n = b\<lparr>max_diff_block_size := n\<rparr>"

definition build_patch_internal ::
  "(byte list \<Rightarrow> byte list option) \<Rightarrow> zbsdiff_builder \<Rightarrow> control_entry list \<Rightarrow> byte list \<Rightarrow> byte list \<Rightarrow> byte list zbs" where
  "build_patch_internal zc b control_block diff_data extra_data =
     obind (to_compressed zc control_block) (\<lambda>control_compressed.
     obind (compress_zlib zc diff_data) (\<lambda>diff_compressed.
     obind (compress_zlib zc extra_data) (\<lambda>extra_compressed.
       let header = \<lparr>signature = ZBSDIFF1_SIGNATURE, control_size = int (length control_compressed),
                     diff_size = int (length diff_compressed), output_size = int (length (new_data b))\<rparr> in
       obind (header_validate header) (\<lambda>_.
         Ret (write_header header @ control_compressed @ diff_compressed @ extra_compressed)))))"

definition build_simple_patch :: "(byte list \<Rightarrow> byte list option) \<Rightarrow> zbsdiff_builder \<Rightarrow> byte list zbs" where
  "build_simple_patch zc b =
     obind (with_entries [control_entry_new 0 (int (length (new_data b))) 0]) (\<lambda>control_block.
       build_patch_internal zc b control_block [] (new_data b))"

definition build_optimized_patch ::
  "(byte list \<Rightarrow> byte list option) \<Rightarrow> (byte list \<Rightarrow> nat list) \<Rightarrow> zbsdiff_builder \<Rightarrow> byte list zbs" where
  "build_optimized_patch zc divsufsort b =
     (case compute_diff divsufsort (old_data b) (new_data b) of
        None \<Rightarrow> Panic
      | Some result \<Rightarrow>
          if ds_control result = [] then build_simple_patch zc b
          else obind (with_entries (ds_control result)) (\<lambda>control_block.
                 build_patch_internal zc b control_block (ds_diff result) (ds_extra result)))"

definition build :: "(byte list \<Rightarrow> byte list option) \<Rightarrow> (byte list \<Rightarrow> nat list) \<Rightarrow> zbsdiff_builder \<Rightarrow> byte list zbs" where
  "build zc divsufsort b = build_optimized_patch zc divsufsort b"

text \<open>The length of the common prefix from two positions on, up to the maximal block size.\<close>

definition find_matching_chunk :: "zbsdiff_builder \<Rightarrow> nat \<Rightarrow> nat \<Rightarrow> nat" where
  "find_matching_chunk b old_pos new_pos =
     (let max_size = min (min (max_diff_block_size b) (length (old_data b) - old_pos)) (length (new_data b) - new_pos) in
      length (takeWhile (\<lambda>i. old_data b ! (old_pos + i) = new_data b ! (new_pos + i)) [0..<max_size]))"

definition find_extra_chunk_size :: "zbsdiff_builder \<Rightarrow> nat \<Rightarrow> nat" where
  "find_extra_chunk_size b new_pos = min (length (new_data b) - new_pos) 256"

function chunked_loop ::
  "zbsdiff_builder \<Rightarrow> nat \<Rightarrow> nat \<Rightarrow> control_entry list \<Rightarrow> byte list \<Rightarrow> byte list \<Rightarrow> control_entry list \<times> byte list \<times> byte list" where
  "chunked_loop b old_pos new_pos control diff extra =
     (if new_pos < length (new_data b) then
        let chunk_size = find_matching_chunk b old_pos new_pos in
        if chunk_size \<ge> 4 then
          chunked_loop b (old_pos + chunk_size) (new_pos + chunk_size)
            (control @ [control_entry_new (int chunk_size) 0 0])
            (diff @ map (\<lambda>i. new_data b ! (new_pos + i) - read_old_byte_at (old_data b) (old_pos + i)) [0..<chunk_size])
            extra
        else
          let extra_chunk_size = find_extra_chunk_size b new_pos in
          chunked_loop b old_pos (new_pos + extra_chunk_size)
            (control @ [control_entry_new 0 (int extra_chunk_size) (int old_pos)])
            diff (extra @ slice new_pos (new_pos + extra_chunk_size) (new_data b))
      else (control, diff, extra))"
  by pat_completeness auto
termination
  by (relation "measure (\<lambda>(b, old_pos, new_pos, c, d, e). length (new_data b) - new_pos)")
     (auto simp: find_extra_chunk_size_def)

declare chunked_loop.simps [simp del]

definition build_chunked_patch :: "(byte list \<Rightarrow> byte list option) \<Rightarrow> zbsdiff_builder \<Rightarrow> byte list zbs" where
  "build_chunked_patch zc b =
     (case chunked_loop b 0 0 [] [] [] of (control, diff, extra) \<Rightarrow>
        obind (with_entries control) (\<lambda>control_block. build_patch_internal zc b control_block diff extra))"

end
