(* ===== verification/Zbsdiff_Props.thy ===== *)
theory Zbsdiff_Props
  imports Zbsdiff
begin

text \<open>
  Facts about the ZBSDIFF1 format: what the control block and the header say is read back, the effect of an
  entry in closed form, and that the streaming patcher and the patcher in memory agree.
\<close>

section \<open>Numbers\<close>

lemma sign_bit: "bit (0x80 :: int) n \<longleftrightarrow> n = 7"
proof -
  have "(0x80 :: int) = 2 ^ 7" by simp
  then show ?thesis by (simp only: bit_exp_iff) simp
qed

lemma sint_of_int: "- (2 ^ 63) \<le> v \<Longrightarrow> v < 2 ^ 63 \<Longrightarrow> sint (word_of_int v :: u64) = v"
  by (simp add: sint_sbintrunc' signed_take_bit_int_eq_self)

lemma top_byte_small:
  assumes "(w :: u64) < 2 ^ 63"
  shows "(ucast (drop_bit 56 w) :: byte) AND 0x7F = ucast (drop_bit 56 w)"
    and "(ucast (drop_bit 56 w) :: byte) AND 0x80 = 0"
proof -
  have high: "\<not> bit w 63"
    using bit_less_pow [OF assms] by blast
  have "bit w (56 + n) \<Longrightarrow> n < 8 \<Longrightarrow> n < 7" for n
    using high by (cases "n = 7") auto
  then have "(ucast (drop_bit 56 w) :: byte) = take_bit 7 (ucast (drop_bit 56 w))"
    by (intro bit_word_eqI) (auto simp: bit_simps)
  then show "(ucast (drop_bit 56 w) :: byte) AND 0x7F = ucast (drop_bit 56 w)"
    by (simp add: take_bit_eq_mask mask_numeral)
  then show "(ucast (drop_bit 56 w) :: byte) AND 0x80 = 0"
    using high by (intro bit_word_eqI) (auto simp: bit_and_iff bit_ucast_iff bit_drop_bit_eq sign_bit)
qed

lemma to_le_8: "to_le 8 (w :: u64) = to_le 7 w @ [ucast (drop_bit 56 w)]"
  by (simp add: to_le_def upt_rec numeral_nat)

lemma sign_byte: "((b :: byte) OR 0x80) AND 0x7F = b AND 0x7F" "(b OR 0x80) AND 0x80 \<noteq> 0"
proof -
  have "(0x80 :: byte) AND 0x7F = 0" by simp
  then show "(b OR 0x80) AND 0x7F = b AND 0x7F"
    by (simp add: and.commute [of _ "0x7F"] bit.conj_disj_distrib)
  have "bit ((b OR 0x80) AND 0x80) 7" by (simp add: bit_and_iff bit_or_iff sign_bit)
  then show "(b OR 0x80) AND 0x80 \<noteq> 0" by (metis bit_0_eq bot_apply bot_bool_def)
qed

lemma offtin_offtout:
  assumes "\<bar>v\<bar> < 2 ^ 63"
  obtains buf where "offtout v = Ret buf" "length buf = 8" "offtin buf = v"
proof -
  define w where "w = (word_of_int \<bar>v\<bar> :: u64)"
  define buf where "buf = to_le 8 w"
  have w: "w < 2 ^ 63" and val: "sint w = \<bar>v\<bar>"
    using assms by (simp_all add: w_def word_less_def uint_word_of_int sint_of_int)
  have buf: "length buf = 8" "buf ! 7 = ucast (drop_bit 56 w)" "take 7 buf = to_le 7 w" "take 7 buf @ [buf ! 7] = buf"
    by (simp_all add: buf_def to_le_8 nth_append)
  have "from_le buf = w" by (simp add: buf_def)
  then have in_pos: "offtin buf = \<bar>v\<bar>" and in_neg: "offtin (buf[7 := buf ! 7 OR 0x80]) = - \<bar>v\<bar>"
    using top_byte_small [OF w] buf val by (simp_all add: offtin_def sign_byte Let_def)
  show ?thesis
    using assms in_pos in_neg buf(1)
    by (intro that [of "if v < 0 then buf[7 := buf ! 7 OR 0x80] else buf"])
       (auto simp: offtout_def w_def buf_def Let_def)
qed

section \<open>Control block and header are read back\<close>

definition entry_wf :: "control_entry \<Rightarrow> bool" where
  "entry_wf c \<longleftrightarrow> 0 \<le> ce_diff c \<and> ce_diff c \<le> MAX_OP_SIZE \<and> 0 \<le> ce_extra c \<and> ce_extra c \<le> MAX_OP_SIZE \<and> \<bar>ce_seek c\<bar> < 2 ^ 63"

lemma entry_wf_validate: "entry_wf c \<Longrightarrow> entry_validate c = Ret ()"
  by (simp add: entry_wf_def entry_validate_def)

lemma validate_entries_Ret: "validate_entries i cs = Ret () \<longleftrightarrow> (\<forall>c\<in>set cs. entry_validate c = Ret ())"
  by (induction cs arbitrary: i) (auto split: outcome.split)

lemma validate_entries_Fail: "validate_entries i cs = Fail e \<Longrightarrow> \<exists>j c. e = InvalidControlEntry j \<and> c \<in> set cs \<and> entry_validate c \<noteq> Ret ()"
  by (induction cs arbitrary: i) (simp, fastforce split: outcome.splits)

lemma entry_validate_Ret: "entry_validate c = Ret () \<longleftrightarrow>
    0 \<le> ce_diff c \<and> ce_diff c \<le> MAX_OP_SIZE \<and> 0 \<le> ce_extra c \<and> ce_extra c \<le> MAX_OP_SIZE"
  by (auto simp: entry_validate_def)

lemma entry_bytes:
  assumes "entry_wf c"
  obtains d e s where "offtout (ce_diff c) = Ret d" "offtout (ce_extra c) = Ret e" "offtout (ce_seek c) = Ret s"
    "length d = 8" "length e = 8" "length s = 8" "control_entry_new (offtin d) (offtin e) (offtin s) = c"
proof -
  have "\<bar>ce_diff c\<bar> < 2 ^ 63" "\<bar>ce_extra c\<bar> < 2 ^ 63" "\<bar>ce_seek c\<bar> < 2 ^ 63"
    using assms by (simp_all add: entry_wf_def MAX_OP_SIZE_def)
  then obtain d e s where "offtout (ce_diff c) = Ret d" "length d = 8" "offtin d = ce_diff c"
      "offtout (ce_extra c) = Ret e" "length e = 8" "offtin e = ce_extra c"
      "offtout (ce_seek c) = Ret s" "length s = 8" "offtin s = ce_seek c"
    by (metis offtin_offtout)
  then show ?thesis by (intro that [of d e s]) (simp_all add: control_entry_new_def)
qed

lemma entries_round_trip:
  "list_all entry_wf cs \<Longrightarrow> \<exists>bs. write_entries cs = Ret bs \<and> length bs = 24 * length cs \<and> (\<forall>acc. read_entries bs acc = Ret (acc @ cs))"
proof (induction cs)
  case Nil
  then show ?case by (simp add: read_entries.simps)
next
  case (Cons c cs)
  then obtain bs where bs: "write_entries cs = Ret bs" "length bs = 24 * length cs" "\<And>acc. read_entries bs acc = Ret (acc @ cs)"
    by auto
  obtain d e s where b: "offtout (ce_diff c) = Ret d" "offtout (ce_extra c) = Ret e" "offtout (ce_seek c) = Ret s"
      "length d = 8" "length e = 8" "length s = 8" "control_entry_new (offtin d) (offtin e) (offtin s) = c"
    using Cons.prems entry_bytes [of c] by auto
  have "read_entries (d @ e @ s @ bs) acc = Ret (acc @ c # cs)" for acc
    using b(4-7) Cons.prems by (subst read_entries.simps) (auto simp: bs(3) entry_wf_validate Let_def)
  then show ?case using b bs by simp
qed

definition header_wf :: "zbsdiff_header \<Rightarrow> bool" where
  "header_wf h \<longleftrightarrow> signature h = ZBSDIFF1_SIGNATURE
     \<and> (\<forall>v\<in>{control_size h, diff_size h, output_size h}. - (2 ^ 63) \<le> v \<and> v < 2 ^ 63)"

interpretation header_codec: stream_codec header_wf write_header read_header
  by unfold_locales (simp add: header_wf_def write_header_def read_header_def read_i64_def sint_of_int)

lemma header_validate_wf: "header_validate h = Ret () \<Longrightarrow> header_wf h"
  by (auto simp: header_validate_def header_wf_def MAX_SIZE_def split: if_splits)

text \<open>A patch put together from its parts is taken apart into them.\<close>

lemma apply_assembled:
  assumes "header_validate h = Ret ()" "control_size h = int (length c)" "diff_size h = int (length d)"
  shows "apply_patch_memory zd old (write_header h @ c @ d @ e) =
    obind (from_compressed zd c) (\<lambda>control_block. obind (decompress_zlib zd d) (\<lambda>diff_data.
    obind (decompress_zlib zd e) (\<lambda>extra_data.
      apply_patch_with_data old control_block diff_data extra_data (nat (output_size h)))))"
  using assms header_codec.read_write [OF header_validate_wf [OF assms(1)]] by (simp add: apply_patch_memory_def)

section \<open>An entry in closed form\<close>

definition diffed :: "byte list \<Rightarrow> nat \<Rightarrow> byte list \<Rightarrow> byte list" where
  "diffed old pos ds = map2 (\<lambda>d b. apply_diff_byte b d) ds (map (read_old_byte_at old) [pos..<pos + length ds])"

lemma diffed_simps [simp]: "diffed old pos [] = []"
  "diffed old pos (d # ds) = apply_diff_byte (read_old_byte_at old pos) d # diffed old (Suc pos) ds"
  by (simp_all add: diffed_def upt_rec)

lemma diffed_append: "diffed old pos (ds @ ds') = diffed old pos ds @ diffed old (pos + length ds) ds'"
  by (induction ds arbitrary: pos) simp_all

lemma length_diffed [simp]: "length (diffed old pos ds) = length ds"
  by (simp add: diffed_def)

lemma diff_bytes_Ret:
  "diff_bytes old n ds pos out = Ret r \<longleftrightarrow>
   n \<le> length ds \<and> (n = 0 \<or> pos + n < usize_end) \<and> r = (drop n ds, pos + n, out @ diffed old pos (take n ds))"
  by (induction old n ds pos out rule: diff_bytes.induct) auto

lemma extra_bytes_Ret: "extra_bytes n es out = Ret r \<longleftrightarrow> n \<le> length es \<and> r = (drop n es, out @ take n es)"
  by (induction n es out rule: extra_bytes.induct) auto

lemma read_old_chunk_eq: "read_old_chunk p pos n = map (read_old_byte_at (old_file p)) [pos..<pos + n]"
  by (rule nth_equalityI) (auto simp: read_old_chunk_def read_old_byte_at_def nth_append Let_def min_def)

lemma apply_diff_block_Ret:
  assumes "0 < buffer_size p"
  shows "\<exists>r. apply_diff_block p n ds pos out = Some r \<and> (\<forall>x. r = Ret x \<longleftrightarrow>
    n \<le> length ds \<and> (n = 0 \<or> pos + n < usize_end) \<and> x = (drop n ds, pos + n, out @ diffed (old_file p) pos (take n ds)))"
proof (induction n arbitrary: ds pos out rule: less_induct)
  case (less n)
  let ?k = "min n (buffer_size p)"
  show ?case
  proof (cases "n = 0 \<or> length ds < ?k \<or> pos + ?k \<ge> usize_end")
    case True
    then show ?thesis
      by (subst (1) apply_diff_block.simps) (auto simp: read_exact_def Let_def)
  next
    case False
    define k where "k = ?k"
    define out' where "out' = out @ diffed (old_file p) pos (take k ds)"
    have k: "n \<noteq> 0" "0 < k" "k \<le> n" "k \<le> length ds" "\<not> usize_end \<le> pos + k"
      using False assms by (auto simp: k_def)
    have out': "out @ map (\<lambda>(d, b). apply_diff_byte b d) (zip (take k ds) (read_old_chunk p pos k)) = out'"
      using k by (simp add: out'_def diffed_def read_old_chunk_eq min_absorb2)
    obtain r where r: "apply_diff_block p (n - k) (drop k ds) (pos + k) out' = Some r"
      "\<And>x. r = Ret x \<longleftrightarrow> n - k \<le> length (drop k ds) \<and> (n - k = 0 \<or> pos + k + (n - k) < usize_end)
        \<and> x = (drop (n - k) (drop k ds), pos + k + (n - k), out' @ diffed (old_file p) (pos + k) (take (n - k) (drop k ds)))"
      using less.IH [of "n - k" "drop k ds" "pos + k" out'] k by auto
    have step: "apply_diff_block p n ds pos out = apply_diff_block p (n - k) (drop k ds) (pos + k) out'"
      using k out' by (subst apply_diff_block.simps) (simp add: read_exact_def Let_def flip: k_def)
    have "take n ds = take k ds @ take (n - k) (drop k ds)"
      using k(3) by (metis le_add_diff_inverse take_add)
    then have "out' @ diffed (old_file p) (pos + k) (take (n - k) (drop k ds)) = out @ diffed (old_file p) pos (take n ds)"
      using k(4) by (simp add: out'_def diffed_append min_absorb2)
    then show ?thesis
      using k r step by (intro exI [of _ r]) (auto simp: le_diff_conv)
  qed
qed

lemma copy_extra_block_Ret:
  assumes "0 < buffer_size p"
  shows "\<exists>r. copy_extra_block p n es out = Some r \<and> (\<forall>x. r = Ret x \<longleftrightarrow> n \<le> length es \<and> x = (drop n es, out @ take n es))"
proof (induction n arbitrary: es out rule: less_induct)
  case (less n)
  let ?k = "min n (buffer_size p)"
  show ?case
  proof (cases "n = 0 \<or> length es < ?k")
    case True
    then show ?thesis
      by (subst (1) copy_extra_block.simps) (auto simp: read_exact_def Let_def)
  next
    case False
    then have k: "n \<noteq> 0" "?k \<le> length es" by auto
    obtain r where r: "copy_extra_block p (n - ?k) (drop ?k es) (out @ take ?k es) = Some r"
      "\<And>x. r = Ret x \<longleftrightarrow> n - ?k \<le> length (drop ?k es) \<and> x = (drop (n - ?k) (drop ?k es), (out @ take ?k es) @ take (n - ?k) (drop ?k es))"
      using less.IH [of "n - ?k" "drop ?k es" "out @ take ?k es"] k assms by auto
    moreover have "take n es = take ?k es @ take (n - ?k) (drop ?k es)"
      by (metis le_add_diff_inverse min.cobounded1 take_add)
    moreover have "copy_extra_block p n es out = Some r"
      using k r(1) by (subst copy_extra_block.simps) (simp add: read_exact_def Let_def)
    ultimately show ?thesis
      using k by (intro exI [of _ r]) auto
  qed
qed

section \<open>The two patchers agree\<close>

lemma as_usize_wf: "entry_validate c = Ret () \<Longrightarrow> as_usize (ce_diff c) = nat (ce_diff c) \<and> as_usize (ce_extra c) = nat (ce_extra c)"
  by (auto simp: entry_validate_Ret as_usize_def MAX_OP_SIZE_def)

lemma stream_entry_agrees:
  assumes "0 < buffer_size p" "entry_validate c = Ret ()"
  shows "\<exists>r. stream_entry p c st = Some r \<and> (\<forall>st'. r = Ret st' \<longleftrightarrow> apply_entry (old_file p) c st = Ret st')"
proof -
  obtain r where r: "apply_diff_block p (nat (ce_diff c)) (ps_diff st) (ps_pos st) (ps_out st) = Some r"
      "\<And>x. r = Ret x \<longleftrightarrow> diff_bytes (old_file p) (nat (ce_diff c)) (ps_diff st) (ps_pos st) (ps_out st) = Ret x"
    using apply_diff_block_Ret [OF assms(1)] unfolding diff_bytes_Ret by meson
  show ?thesis
  proof (cases r)
    case (Ret x)
    obtain ds pos out where x: "x = (ds, pos, out)" by (metis surj_pair)
    obtain q where q: "copy_extra_block p (nat (ce_extra c)) (ps_extra st) out = Some q"
        "\<And>y. q = Ret y \<longleftrightarrow> extra_bytes (nat (ce_extra c)) (ps_extra st) out = Ret y"
      using copy_extra_block_Ret [OF assms(1)] unfolding extra_bytes_Ret by meson
    have "diff_bytes (old_file p) (nat (ce_diff c)) (ps_diff st) (ps_pos st) (ps_out st) = Ret (ds, pos, out)"
      using r(2) [of x] Ret x by simp
    note diff = this r(1) [unfolded Ret x] as_usize_wf [OF assms(2)]
    show ?thesis
    proof (cases "\<exists>y. q = Ret y")
      case True
      then obtain es out' where y: "q = Ret (es, out')" "extra_bytes (nat (ce_extra c)) (ps_extra st) out = Ret (es, out')"
        using q(2) by (metis surj_pair)
      with diff q(1) show ?thesis by (simp add: stream_entry_def apply_entry_def)
    next
      case False
      then have "\<forall>y. extra_bytes (nat (ce_extra c)) (ps_extra st) out \<noteq> Ret y" using q(2) by metis
      with diff q(1) False show ?thesis
        by (cases q) (auto simp: stream_entry_def apply_entry_def obind_Ret)
    qed
  next
    case (Fail e)
    then have "\<forall>y. diff_bytes (old_file p) (nat (ce_diff c)) (ps_diff st) (ps_pos st) (ps_out st) \<noteq> Ret y"
      using r(2) by (metis outcome.distinct(1))
    with Fail r(1) as_usize_wf [OF assms(2)] show ?thesis by (auto simp: stream_entry_def apply_entry_def obind_Ret)
  next
    case Panic
    then have "\<forall>y. diff_bytes (old_file p) (nat (ce_diff c)) (ps_diff st) (ps_pos st) (ps_out st) \<noteq> Ret y"
      using r(2) by (metis outcome.distinct(3))
    with Panic r(1) as_usize_wf [OF assms(2)] show ?thesis by (auto simp: stream_entry_def apply_entry_def obind_Ret)
  qed
qed

lemma stream_entries_agree:
  assumes "0 < buffer_size p" "\<forall>c\<in>set cs. entry_validate c = Ret ()"
  shows "\<exists>r. stream_entries p cs st = Some r \<and> (\<forall>st'. r = Ret st' \<longleftrightarrow> apply_entries (old_file p) cs st = Ret st')"
  using assms(2)
proof (induction cs arbitrary: st)
  case (Cons c cs)
  then obtain r where r: "stream_entry p c st = Some r" "\<And>st'. r = Ret st' \<longleftrightarrow> apply_entry (old_file p) c st = Ret st'"
    using stream_entry_agrees [OF assms(1), of c st] by auto
  show ?case
  proof (cases r)
    case (Ret st1)
    then have "apply_entry (old_file p) c st = Ret st1" using r(2) by metis
    with Ret r(1) show ?thesis using Cons.IH [of st1] Cons.prems by simp
  next
    case (Fail e)
    then have "\<forall>st'. apply_entry (old_file p) c st \<noteq> Ret st'" using r(2) by (metis outcome.distinct(1))
    with Fail r(1) show ?thesis by (simp add: obind_Ret)
  next
    case Panic
    then have "\<forall>st'. apply_entry (old_file p) c st \<noteq> Ret st'" using r(2) by (metis outcome.distinct(3))
    with Panic r(1) show ?thesis by (simp add: obind_Ret)
  qed
qed simp

lemma read_entries_valid:
  "read_entries s acc = Ret cs \<Longrightarrow> \<forall>c\<in>set acc. entry_validate c = Ret () \<Longrightarrow> \<forall>c\<in>set cs. entry_validate c = Ret ()"
proof (induction s acc rule: read_entries.induct)
  case (1 s acc)
  note read = 1(2) [unfolded read_entries.simps [of s acc]]
  show ?case
  proof (cases "s = [] \<or> length s < 24")
    case True
    with read 1(3) show ?thesis by (auto split: if_splits)
  next
    case False
    with read 1(3) show ?thesis by (intro 1(1)) (auto simp: obind_Ret Let_def)
  qed
qed

lemma from_compressed_valid: "from_compressed zd z = Ret cs \<Longrightarrow> \<forall>c\<in>set cs. entry_validate c = Ret ()"
  by (auto simp: from_compressed_def obind_Ret split: if_splits dest: read_entries_valid)

lemma apply_patch_agrees:
  assumes "0 < buffer_size p" "\<forall>c\<in>set cs. entry_validate c = Ret ()"
  shows "\<exists>r. apply_patch p cs diff extra = Some r \<and>
    (\<forall>out. r = Ret out \<longleftrightarrow> apply_patch_with_data (old_file p) cs diff extra (output_capacity p) = Ret out)"
proof -
  obtain r where "stream_entries p cs (patch_start diff extra) = Some r"
    "\<forall>st'. r = Ret st' \<longleftrightarrow> apply_entries (old_file p) cs (patch_start diff extra) = Ret st'"
    using stream_entries_agree [OF assms] by blast
  then show ?thesis
    by (auto simp: apply_patch_def apply_patch_with_data_def obind_Ret)
qed

section \<open>Properties\<close>

text \<open>
  C28. Patching a file chunk by chunk is the same as patching in memory: for every patch, whatever the decompressor
  gives, and every buffer size, the streaming patcher that was given the output size of the patch header
  returns, and it returns the data that the patcher in memory returns, or an error if that one has no result.
\<close>

theorem streaming_patch_agrees:
  assumes "parse_from_patch patch = Ret h"
  shows "\<exists>r. apply_patch_from_data zd (with_buffer_size n (patcher_new old (nat (output_size h)))) patch = Some r
    \<and> (\<forall>out. r = Ret out \<longleftrightarrow> apply_patch_memory zd old patch = Ret out)"
proof -
  let ?p = "with_buffer_size n (patcher_new old (nat (output_size h)))"
  have p: "0 < buffer_size ?p" "old_file ?p = old" "output_capacity ?p = nat (output_size h)"
    by (simp_all add: with_buffer_size_def patcher_new_def)
  obtain s where h: "read_header patch = Ret (h, s)" "header_validate h = Ret ()"
    using assms by (auto simp: parse_from_patch_def obind_Ret split: if_splits)
  define parts where "parts = obind (read_exact CompressionError (nat (control_size h)) s) (\<lambda>(control, s).
     obind (read_exact CompressionError (nat (diff_size h)) s) (\<lambda>(diff, extra).
     obind (from_compressed zd control) (\<lambda>cs. obind (decompress_zlib zd diff) (\<lambda>d. obind (decompress_zlib zd extra) (\<lambda>e.
       Ret (cs, d, e))))))"
  have memory: "apply_patch_memory zd old patch =
      obind parts (\<lambda>(cs, d, e). apply_patch_with_data old cs d e (nat (output_size h)))"
    using h by (auto simp: apply_patch_memory_def parts_def obind_def split: outcome.split)
  have stream: "apply_patch_from_data zd ?p patch =
      (case parts of Ret (cs, d, e) \<Rightarrow> apply_patch ?p cs d e | Fail e \<Rightarrow> Some (Fail e) | Panic \<Rightarrow> Some Panic)"
    using h by (simp add: apply_patch_from_data_def parts_def)
  show ?thesis
  proof (cases parts)
    case (Ret x)
    then obtain cs d e where x: "parts = Ret (cs, d, e)" by (metis surj_pair)
    then have "\<forall>c\<in>set cs. entry_validate c = Ret ()"
      by (auto simp: parts_def obind_Ret dest: from_compressed_valid)
    then show ?thesis
      using apply_patch_agrees [OF p(1), of cs d e] p by (simp add: memory stream x)
  qed (simp_all add: memory stream)
qed

definition example_header :: zbsdiff_header where
  "example_header = \<lparr>signature = ZBSDIFF1_SIGNATURE, control_size = 24, diff_size = 2, output_size = 3\<rparr>"

definition example_control :: "byte list" where
  "example_control = [2, 0, 0, 0, 0, 0, 0, 0, 1, 0, 0, 0, 0, 0, 0, 0, 0, 0, 0, 0, 0, 0, 0, 0]"

definition example_patch :: "byte list" where
  "example_patch = write_header example_header @ example_control @ [1, 1] @ [9]"

lemma example_header_valid: "header_validate example_header = Ret ()"
  by (simp add: example_header_def header_validate_def MAX_SIZE_def)

lemma example_patch_parses: "parse_from_patch example_patch = Ret example_header"
  using header_codec.read_write [OF header_validate_wf [OF example_header_valid]] example_header_valid
  by (simp add: parse_from_patch_def example_patch_def write_header_def example_control_def)

lemma example_control_read: "from_compressed Some example_control = Ret [control_entry_new 2 1 0]"
proof -
  have "read_entries example_control [] = Ret [control_entry_new 2 1 0]"
    by (subst read_entries.simps) (simp add: example_control_def offtin_def control_entry_new_def
        entry_validate_def MAX_OP_SIZE_def read_entries.simps)
  then show ?thesis by (simp add: from_compressed_def decompress_zlib_def)
qed

lemma example_patch_applies: "apply_patch_memory Some [5, 6] example_patch = Ret [6, 7, 9]"
proof -
  have "apply_patch_with_data [5, 6] [control_entry_new 2 1 0] [1, 1] [9] 3 = Ret [6, 7, 9]"
  proof -
    have "diff_bytes [5, 6] 2 [1, 1] 0 [] = Ret ([], 2, [6, 7])"
      by (simp add: diff_bytes_Ret usize_end_def apply_diff_byte_def read_old_byte_at_def)
    then show ?thesis
      by (simp add: apply_patch_with_data_def patch_start_def apply_entry_def control_entry_new_def)
  qed
  moreover have "control_size example_header = int (length example_control)" "diff_size example_header = int (length [1 :: byte, 1])"
      "nat (output_size example_header) = 3"
    by (simp_all add: example_header_def example_control_def)
  ultimately show ?thesis
    using apply_assembled [OF example_header_valid, of example_control "[1, 1]" Some "[5, 6]" "[9]"] example_control_read
    by (simp add: example_patch_def decompress_zlib_def)
qed

theorem streaming_patch_agrees_witness:
  "apply_patch_from_data Some (with_buffer_size 0 (patcher_new [5, 6] 3)) example_patch = Some (Ret [6, 7, 9])"
proof -
  have "nat (output_size example_header) = 3" by (simp add: example_header_def)
  with streaming_patch_agrees [OF example_patch_parses, of Some 0 "[5, 6]"] obtain r
    where "apply_patch_from_data Some (with_buffer_size 0 (patcher_new [5, 6] 3)) example_patch = Some r"
      "\<forall>out. r = Ret out \<longleftrightarrow> apply_patch_memory Some [5, 6] example_patch = Ret out"
    by (simp only:) blast
  with example_patch_applies show ?thesis by metis
qed

end
