(* ===== verification/Bsdiff_Props.thy ===== *)
theory Bsdiff_Props
  imports Bsdiff Zbsdiff_Props
begin

text \<open>
  The patch builder is correct: the scan never panics, given a suffix array; what it has emitted so far
  always patches the old data into a prefix of the new data; and the patches that the builder
  assembles are read back and applied to the new data.
\<close>

section \<open>Search\<close>

text \<open>What the library promises: all positions, in the order of their suffixes.\<close>

definition is_suffix_array :: "byte list \<Rightarrow> nat list \<Rightarrow> bool" where
  "is_suffix_array old sa \<longleftrightarrow> distinct sa \<and> set sa = {0..<length old}
     \<and> sorted_wrt (\<lambda>i j. (drop i old, drop j old) \<in> lexord {(a, b). a < b}) sa"

lemma suffix_array_length: "is_suffix_array old sa \<Longrightarrow> length sa = length old"
  by (metis is_suffix_array_def card_atLeastLessThan diff_zero distinct_card)

lemma suffix_array_nth: "is_suffix_array old sa \<Longrightarrow> i < length sa \<Longrightarrow> sa ! i < length old"
  by (metis is_suffix_array_def atLeastLessThan_iff nth_mem)

lemma suffix_array_first_bytes:
  assumes "is_suffix_array old sa" "i \<le> j" "j < length sa"
  shows "old ! (sa ! i) \<le> old ! (sa ! j)"
proof (cases "i = j")
  case False
  then have "(drop (sa ! i) old, drop (sa ! j) old) \<in> lexord {(a, b). a < b}"
    using assms by (auto simp: is_suffix_array_def sorted_wrt_iff_nth_less)
  moreover have "drop (sa ! i) old = old ! (sa ! i) # drop (Suc (sa ! i)) old" "drop (sa ! j) old = old ! (sa ! j) # drop (Suc (sa ! j)) old"
    using suffix_array_nth [OF assms(1)] assms(2,3) by (simp_all add: Cons_nth_drop_Suc)
  ultimately show ?thesis by auto
qed simp

lemma matchlen_le: "matchlen a b \<le> length a" "matchlen a b \<le> length b"
  using length_takeWhile_le [of "\<lambda>(x, y). x = y" "zip a b"] by (simp_all add: matchlen_def)

lemma matchlen_0: "a \<noteq> [] \<Longrightarrow> b \<noteq> [] \<Longrightarrow> matchlen a b = 0 \<longleftrightarrow> hd a \<noteq> hd b"
  by (cases a; cases b) (simp_all add: matchlen_def)

lemma search_loop_ok:
  "is_suffix_array old sa \<Longrightarrow> nw \<noteq> [] \<Longrightarrow> st \<le> en \<Longrightarrow> en < length sa \<Longrightarrow>
   \<exists>st' en'. search_loop sa old nw st en = Some (st', en')
    \<and> st \<le> st' \<and> st' \<le> en' \<and> en' \<le> en \<and> en' \<le> st' + 1
    \<and> (st' = st \<or> old ! (sa ! st') \<le> hd nw) \<and> (en' = en \<or> hd nw \<le> old ! (sa ! en'))"
proof (induction sa old nw st en rule: search_loop.induct)
  case (1 sa old nw st en)
  show ?case
  proof (cases "en - st > 1")
    case True
    define pivot where "pivot = st + (en - st) div 2"
    define pos where "pos = sa ! pivot"
    define len where "len = matchlen (drop pos old) nw"
    define up where "up \<longleftrightarrow> len = length nw \<or> pos + len < length old \<and> old ! (pos + len) < nw ! len"
    have pivot: "st < pivot" "pivot < en" using True by (auto simp: pivot_def)
    have pos: "pos < length old" "idx sa pivot = Some pos" "suffix_at old pos = Some (drop pos old)"
      using pivot 1(3,6) suffix_array_nth [of old sa pivot] by (simp_all add: pos_def suffix_at_def)
    have step: "search_loop sa old nw st en = (if up then search_loop sa old nw pivot en else search_loop sa old nw st pivot)"
      using 1(5) True pos by (subst search_loop.simps) (simp add: Let_def up_def len_def flip: pivot_def)
    have first: "hd (drop pos old) = old ! pos" "drop pos old \<noteq> []" using pos(1) by (simp_all add: hd_drop_conv_nth)
    have "len \<noteq> 0 \<Longrightarrow> old ! pos = hd nw" "len = 0 \<Longrightarrow> hd nw = nw ! 0"
      using matchlen_0 [OF first(2) 1(4)] first(1) 1(4) by (auto simp: len_def hd_conv_nth)
    then have order: "up \<Longrightarrow> old ! pos \<le> hd nw" "\<not> up \<Longrightarrow> hd nw \<le> old ! pos"
      using 1(4) pos(1) by (cases "len = 0"; auto simp: up_def)+
    show ?thesis
    proof (cases up)
      case up: True
      obtain st' en' where "search_loop sa old nw pivot en = Some (st', en')"
        "pivot \<le> st'" "st' \<le> en'" "en' \<le> en" "en' \<le> st' + 1"
        "st' = pivot \<or> old ! (sa ! st') \<le> hd nw" "en' = en \<or> hd nw \<le> old ! (sa ! en')"
        using 1(1) [OF _ True pivot_def pos(2,3) len_def] up 1(3-6) pivot by (auto simp: up_def)
      with step up order(1) pivot show ?thesis by (auto simp: pos_def)
    next
      case down: False
      obtain st' en' where "search_loop sa old nw st pivot = Some (st', en')"
        "st \<le> st'" "st' \<le> en'" "en' \<le> pivot" "en' \<le> st' + 1"
        "st' = st \<or> old ! (sa ! st') \<le> hd nw" "en' = pivot \<or> hd nw \<le> old ! (sa ! en')"
        using 1(2) [OF _ True pivot_def pos(2,3) len_def] down 1(3-6) pivot by (auto simp: up_def)
      with step down order(2) pivot show ?thesis by (auto simp: pos_def)
    qed
  qed (use 1 in \<open>subst search_loop.simps, simp\<close>)
qed

lemma search_ok:
  assumes sa: "is_suffix_array old sa"
  shows "\<exists>p l. search sa old nw = Some (p, l) \<and> p + l \<le> length old \<and> l \<le> length nw
    \<and> (nw \<noteq> [] \<and> hd nw \<in> set old \<longrightarrow> 0 < l)"
proof (cases "sa = [] \<or> nw = []")
  case True
  then show ?thesis using sa suffix_array_length [OF sa] by (auto simp: search_def)
next
  case False
  define n where "n = length sa - 1"
  have n: "n < length sa" using False by (simp add: n_def)
  obtain st en where loop: "search_loop sa old nw 0 n = Some (st, en)" "st \<le> en" "en \<le> n" "en \<le> st + 1"
      "st = 0 \<or> old ! (sa ! st) \<le> hd nw" "en = n \<or> hd nw \<le> old ! (sa ! en)"
    using search_loop_ok [OF sa, of nw 0 n] False n by auto
  have ends: "sa ! st < length old" "sa ! en < length old" "idx sa st = Some (sa ! st)" "idx sa en = Some (sa ! en)"
    using suffix_array_nth [OF sa] loop(2,3) n by simp_all
  let ?s = "matchlen (drop (sa ! st) old) nw" and ?e = "matchlen (drop (sa ! en) old) nw"
  have result: "search sa old nw = Some (if ?s > ?e then (sa ! st, ?s) else (sa ! en, ?e))"
    using False loop(1) ends by (simp add: search_def suffix_at_def n_def Let_def)
  have "?s \<le> length old - sa ! st" "?e \<le> length old - sa ! en" "?s \<le> length nw" "?e \<le> length nw"
    using matchlen_le [of "drop (sa ! st) old" nw] matchlen_le [of "drop (sa ! en) old" nw] by simp_all
  moreover have "0 < ?s \<or> 0 < ?e" if "hd nw \<in> set old"
  proof -
    obtain k where k: "k < length old" "old ! k = hd nw" using \<open>hd nw \<in> set old\<close> by (auto simp: in_set_conv_nth)
    then obtain i where i: "i < length sa" "sa ! i = k"
      using sa by (metis is_suffix_array_def atLeastLessThan_iff in_set_conv_nth zero_le)
    have "old ! (sa ! st) = hd nw \<or> old ! (sa ! en) = hd nw"
    proof (cases "i \<le> st")
      case True
      then have "hd nw \<le> old ! (sa ! st)"
        using suffix_array_first_bytes [OF sa True] loop n i k by simp
      with loop(5) True i k show ?thesis by auto
    next
      case False
      then have "en \<le> i" using loop(4) by simp
      then have "old ! (sa ! en) \<le> hd nw"
        using suffix_array_first_bytes [OF sa, of en i] i k by simp
      with loop(6) \<open>en \<le> i\<close> i k n_def show ?thesis by (metis Suc_pred' dual_order.antisym less_Suc_eq_le length_greater_0_conv list.size(3) not_less_zero)
    qed
    then show ?thesis
      using matchlen_0 [of "drop (sa ! st) old" nw] matchlen_0 [of "drop (sa ! en) old" nw] False ends(1,2)
      by (auto simp: hd_drop_conv_nth)
  qed
  ultimately show ?thesis
    using result ends(1,2) by (auto split: if_splits)
qed

section \<open>Scan\<close>

definition drift :: "byte list \<Rightarrow> byte list \<Rightarrow> int \<Rightarrow> nat \<Rightarrow> bool" where
  "drift old nw lastoffset k \<longleftrightarrow> 0 \<le> int k + lastoffset \<and> nat (int k + lastoffset) < length old \<and> old ! nat (int k + lastoffset) = nw ! k"

lemma drift_match_eq: "k < length nw \<Longrightarrow> drift_match old nw lo k = Some (drift old nw lo k)"
  by (auto simp: drift_match_def drift_def Let_def)

lemma score_loop_eq:
  "limit \<le> length nw \<Longrightarrow>
   score_loop old nw lo limit scsc sc = Some (max scsc limit, sc + length (filter (drift old nw lo) [scsc..<limit]))"
proof (induction old nw lo limit scsc sc rule: score_loop.induct)
  case (1 old nw lo limit scsc sc)
  show ?case
  proof (cases "scsc < limit")
    case True
    then show ?thesis
      using 1 by (subst score_loop.simps) (auto simp: drift_match_eq upt_conv_Cons)
  qed (subst score_loop.simps, simp)
qed

lemma drift_in_old: "drift old nw lo k \<Longrightarrow> k < length nw \<Longrightarrow> hd (drop k nw) \<in> set old"
  by (auto simp: drift_def hd_drop_conv_nth) (metis nth_mem)

text \<open>The score is the number of drifting bytes that were counted and not yet passed.\<close>

definition scan_inv :: "byte list \<Rightarrow> byte list \<Rightarrow> int \<Rightarrow> nat \<Rightarrow> nat \<Rightarrow> nat \<Rightarrow> bool" where
  "scan_inv old nw lo scan sc scsc \<longleftrightarrow> scan \<le> length nw \<and> scsc \<le> length nw
     \<and> sc = length (filter (drift old nw lo) [scan..<scsc]) \<and> (\<forall>k. scsc \<le> k \<and> k < scan \<longrightarrow> \<not> drift old nw lo k)"

lemma scan_inv_score:
  assumes "scan_inv old nw lo scan sc scsc" "scan + l \<le> length nw"
  shows "scan_inv old nw lo scan (sc + length (filter (drift old nw lo) [scsc..<scan + l])) (max scsc (scan + l))"
proof (cases "scsc \<le> scan")
  case True
  then have "filter (drift old nw lo) [scsc..<scan] = []"
    using assms(1) by (auto simp: scan_inv_def filter_empty_conv)
  moreover have "[scsc..<scan + l] = [scsc..<scan] @ [scan..<scan + l]"
    using True upt_add_eq_append [of scsc scan l] by simp
  ultimately show ?thesis
    using assms True by (auto simp: scan_inv_def)
next
  case False
  show ?thesis
  proof (cases "scsc \<le> scan + l")
    case True
    then have "[scan..<scan + l] = [scan..<scsc] @ [scsc..<scan + l]"
      using False upt_add_eq_append [of scan scsc "scan + l - scsc"] by simp
    with True False assms show ?thesis by (auto simp: scan_inv_def max_def)
  qed (use False assms in \<open>auto simp: scan_inv_def max_def\<close>)
qed

lemma scan_inv_skip:
  assumes "scan_inv old nw lo scan sc scsc" "scan < length nw" "scan < scsc \<or> \<not> drift old nw lo scan"
  shows "drift old nw lo scan \<Longrightarrow> 0 < sc"
    and "scan_inv old nw lo (scan + 1) (if drift old nw lo scan then sc - 1 else sc) scsc"
proof -
  have "scan < scsc \<Longrightarrow> [scan..<scsc] = scan # [scan + 1..<scsc]" by (simp add: upt_conv_Cons)
  then show "drift old nw lo scan \<Longrightarrow> 0 < sc"
    and "scan_inv old nw lo (scan + 1) (if drift old nw lo scan then sc - 1 else sc) scsc"
    using assms by (cases "scan < scsc"; auto simp: scan_inv_def less_Suc_eq)+
qed

lemma scan_loop_ok:
  assumes sa: "is_suffix_array old sa"
  shows "scan_inv old nw lo scan sc scsc \<Longrightarrow> pos \<le> length old \<Longrightarrow>
    \<exists>scan' len' pos' sc'. scan_loop sa old nw lo scan len pos sc scsc = Some (scan', len', pos', sc')
      \<and> scan' \<le> length nw \<and> (scan' < length nw \<longrightarrow> scan' + len' \<le> length nw) \<and> pos' \<le> length old"
proof (induction "length nw - scan" arbitrary: scan len pos sc scsc rule: less_induct)
  case less
  show ?case
  proof (cases "scan < length nw")
    case False
    then show ?thesis using less.prems by (subst scan_loop.simps) (simp add: scan_inv_def)
  next
    case True
    obtain p l where found: "search sa old (drop scan nw) = Some (p, l)" "p + l \<le> length old" "l \<le> length nw - scan"
        "hd (drop scan nw) \<in> set old \<Longrightarrow> 0 < l"
      using search_ok [OF sa, of "drop scan nw"] True by auto
    define sc1 where "sc1 = sc + length (filter (drift old nw lo) [scsc..<scan + l])"
    define scsc1 where "scsc1 = max scsc (scan + l)"
    have score: "score_loop old nw lo (scan + l) scsc sc = Some (scsc1, sc1)"
      using found(3) True by (simp add: score_loop_eq sc1_def scsc1_def)
    have inv1: "scan_inv old nw lo scan sc1 scsc1"
      using scan_inv_score [OF less.prems(1), of l] found(3) True by (simp add: sc1_def scsc1_def)
    show ?thesis
    proof (cases "l = sc1 \<and> l \<noteq> 0 \<or> l > sc1 + 8")
      case stop: True
      then show ?thesis
        using True found score by (subst scan_loop.simps) auto
    next
      case go: False
      have "drift old nw lo scan \<Longrightarrow> scan < scsc1"
        using drift_in_old [OF _ True] found(4) by (force simp: scsc1_def)
      have skip: "drift old nw lo scan \<Longrightarrow> 0 < sc1" "scan_inv old nw lo (scan + 1) (if drift old nw lo scan then sc1 - 1 else sc1) scsc1"
        using scan_inv_skip [OF inv1 True] \<open>drift old nw lo scan \<Longrightarrow> scan < scsc1\<close> by blast+
      have "scan_loop sa old nw lo scan len pos sc scsc =
          scan_loop sa old nw lo (scan + 1) l p (if drift old nw lo scan then sc1 - 1 else sc1) scsc1"
        using True found(1) score go skip(1) by (subst scan_loop.simps) (auto simp: drift_match_eq)
      then show ?thesis
        using less.hyps [of "scan + 1" "if drift old nw lo scan then sc1 - 1 else sc1" scsc1 p l] True skip(2) found(2) by simp
    qed
  qed
qed

section \<open>Extensions\<close>

lemma forward_extension_ok:
  "scan \<le> length nw \<Longrightarrow> lastscan + i \<le> scan \<Longrightarrow> lastpos + i \<le> length old \<Longrightarrow> lenf \<le> i \<Longrightarrow>
   \<exists>lenf'. forward_extension old nw lastscan lastpos scan i s sf lenf = Some lenf' \<and> lastscan + lenf' \<le> scan \<and> lastpos + lenf' \<le> length old"
proof (induction old nw lastscan lastpos scan i s sf lenf rule: forward_extension.induct)
  case (1 old nw lastscan lastpos scan i s sf lenf)
  show ?case
  proof (cases "lastscan + i < scan \<and> lastpos + i < length old")
    case True
    then have "idx nw (lastscan + i) = Some (nw ! (lastscan + i))" using 1(3) by simp
    with True 1 show ?thesis by (subst forward_extension.simps) (simp add: Let_def)
  qed (use 1 in \<open>subst forward_extension.simps, auto\<close>)
qed

lemma backward_extension_ok:
  "scan \<le> length nw \<Longrightarrow> pos \<le> length old \<Longrightarrow> 1 \<le> i \<Longrightarrow> lastscan + lenb \<le> scan \<Longrightarrow> lenb \<le> pos \<Longrightarrow>
   \<exists>lenb'. backward_extension old nw lastscan pos scan i s sb lenb = Some lenb' \<and> lastscan + lenb' \<le> scan \<and> lenb' \<le> pos"
proof (induction old nw lastscan pos scan i s sb lenb rule: backward_extension.induct)
  case (1 old nw lastscan pos scan i s sb lenb)
  show ?case
  proof (cases "scan \<ge> lastscan + i \<and> pos \<ge> i")
    case True
    then have "idx old (pos - i) = Some (old ! (pos - i))" "idx nw (scan - i) = Some (nw ! (scan - i))" using 1(3-5) by (auto intro!: idx_in)
    with True 1 show ?thesis by (subst backward_extension.simps) (simp add: Let_def)
  qed (use 1 in \<open>subst backward_extension.simps, auto\<close>)
qed

lemma overlap_split_ok:
  "\<forall>i\<in>set is. i < n \<Longrightarrow> na + n \<le> length nw \<Longrightarrow> oa + n \<le> length old \<Longrightarrow> nb + n \<le> length nw \<Longrightarrow> ob + n \<le> length old \<Longrightarrow>
   lens \<le> n \<Longrightarrow> \<exists>lens'. overlap_split old nw na oa nb ob is s ss lens = Some lens' \<and> lens' \<le> n"
  by (induction old nw na oa nb ob "is" s ss lens rule: overlap_split.induct) (simp_all add: Let_def)

lemma extension_ok:
  assumes "scan \<le> length nw" "lastscan \<le> scan" "lastpos \<le> length old" "pos \<le> length old"
  shows "\<exists>lenf lenb. extension old nw scan pos lastscan lastpos = Some (lenf, lenb) \<and> lastscan + lenf + lenb \<le> scan
    \<and> lastpos + lenf \<le> length old \<and> lenb \<le> pos \<and> (scan = length nw \<longrightarrow> lenb = 0)"
proof -
  obtain lenf where f: "forward_extension old nw lastscan lastpos scan 0 0 0 0 = Some lenf"
      "lastscan + lenf \<le> scan" "lastpos + lenf \<le> length old"
    using forward_extension_ok [of scan nw lastscan 0 lastpos old 0 0 0] assms by auto
  obtain lenb where b: "(if scan < length nw then backward_extension old nw lastscan pos scan 1 0 0 0 else Some 0) = Some lenb"
      "lastscan + lenb \<le> scan" "lenb \<le> pos" "scan = length nw \<Longrightarrow> lenb = 0"
    using backward_extension_ok [of scan nw pos old 1 lastscan 0 0 0] assms by (cases "scan < length nw") auto
  show ?thesis
  proof (cases "lastscan + lenf > scan - lenb")
    case False
    then show ?thesis using f b by (simp add: extension_def)
  next
    case True
    define overlap where "overlap = lastscan + lenf - (scan - lenb)"
    have o: "overlap \<le> lenf" "overlap \<le> lenb" "lastscan + lenf - overlap = scan - lenb"
      using True f(2) b(2) by (auto simp: overlap_def)
    have "\<exists>lens. overlap_split old nw (lastscan + lenf - overlap) (lastpos + lenf - overlap) (scan - lenb) (pos - lenb)
        [0..<overlap] 0 0 0 = Some lens \<and> lens \<le> overlap"
      using o f(2,3) b(2,3) assms by (intro overlap_split_ok) auto
    then obtain lens where l: "overlap_split old nw (lastscan + lenf - overlap) (lastpos + lenf - overlap) (scan - lenb) (pos - lenb)
        [0..<overlap] 0 0 0 = Some lens" "lens \<le> overlap" by blast
    have "extension old nw scan pos lastscan lastpos = Some (lenf + lens - overlap, lenb - lens)"
      using True f b l o by (simp add: extension_def Let_def flip: overlap_def)
    then show ?thesis
      using f(2,3) b(2-4) l(2) o True by (auto simp: overlap_def)
  qed
qed

section \<open>What was emitted patches the old data\<close>

lemma take_slice: "i \<le> j \<Longrightarrow> take i xs @ slice i j xs = take j xs"
  by (metis le_add_diff_inverse slice_def take_add)

lemma collect_diff_eq:
  "\<forall>i\<in>set is. lastscan + i < length nw \<and> lastpos + i < length old \<Longrightarrow>
   collect_diff old nw lastscan lastpos is = Some (map (\<lambda>i. nw ! (lastscan + i) - old ! (lastpos + i)) is)"
  by (induction "is") simp_all

lemma diffed_collected:
  assumes "lastscan + n \<le> length nw" "lastpos + n \<le> length old"
  shows "diffed old lastpos (map (\<lambda>i. nw ! (lastscan + i) - old ! (lastpos + i)) [0..<n]) = slice lastscan (lastscan + n) nw"
  using assms by (intro nth_equalityI) (simp_all add: diffed_def slice_def apply_diff_byte_def read_old_byte_at_def)

lemma apply_entries_snoc: "apply_entries old (cs @ [c]) st = obind (apply_entries old cs st) (apply_entry old c)"
proof (induction cs arbitrary: st)
  case Nil
  show ?case by (cases "apply_entry old c st") simp_all
next
  case (Cons a cs)
  then show ?case by (cases "apply_entry old a st") simp_all
qed

definition emitted :: "byte list \<Rightarrow> byte list \<Rightarrow> diff_state \<Rightarrow> bool" where
  "emitted old nw st \<longleftrightarrow> (\<forall>ds es. apply_entries old (ds_control st) (patch_start (ds_diff st @ ds) (ds_extra st @ es)) =
     Ret \<lparr>ps_diff = ds, ps_extra = es, ps_pos = ds_lastpos st, ps_out = take (ds_lastscan st) nw\<rparr>)"

definition entry_fits :: "byte list \<Rightarrow> byte list \<Rightarrow> control_entry \<Rightarrow> bool" where
  "entry_fits old nw c \<longleftrightarrow> 0 \<le> ce_diff c \<and> ce_diff c \<le> int (length nw) \<and> 0 \<le> ce_extra c \<and> ce_extra c \<le> int (length nw)
     \<and> \<bar>ce_seek c\<bar> \<le> int (length old)"

lemma emit_entry_ok:
  assumes "ds_scan st \<le> length nw" "ds_lastscan st \<le> ds_scan st" "ds_lastpos st \<le> length old" "ds_pos st \<le> length old"
    and old: "length old < 2 ^ 31" and st: "emitted old nw st"
  shows "\<exists>st'. emit_entry old nw st = Some st' \<and> emitted old nw st' \<and> ds_lastscan st' \<le> ds_scan st \<and> ds_lastpos st' \<le> length old
    \<and> (ds_scan st = length nw \<longrightarrow> ds_lastscan st' = length nw) \<and> (\<exists>c. ds_control st' = ds_control st @ [c] \<and> entry_fits old nw c)
    \<and> length (ds_diff st') + ds_lastscan st \<le> length (ds_diff st) + ds_lastscan st'"
proof -
  obtain lenf lenb where ext: "extension old nw (ds_scan st) (ds_pos st) (ds_lastscan st) (ds_lastpos st) = Some (lenf, lenb)"
    and len: "ds_lastscan st + lenf + lenb \<le> ds_scan st" "ds_lastpos st + lenf \<le> length old" "lenb \<le> ds_pos st"
      "ds_scan st = length nw \<Longrightarrow> lenb = 0"
    using extension_ok [OF assms(1-4)] by blast
  define extra_start where "extra_start = ds_lastscan st + lenf"
  define extra_end where "extra_end = ds_scan st - lenb"
  define diff where "diff = map (\<lambda>i. nw ! (ds_lastscan st + i) - old ! (ds_lastpos st + i)) [0..<lenf]"
  define c where "c = control_entry_new (int lenf) (int (extra_end - extra_start)) ((int (ds_pos st) - int lenb) - (int (ds_lastpos st) + int lenf))"
  define st' where "st' = st\<lparr>ds_control := ds_control st @ [c], ds_diff := ds_diff st @ diff,
    ds_extra := ds_extra st @ slice extra_start extra_end nw, ds_lastscan := extra_end, ds_lastpos := ds_pos st - lenb,
    ds_lastoffset := int (ds_pos st) - int (ds_scan st)\<rparr>"
  have collect: "collect_diff old nw (ds_lastscan st) (ds_lastpos st) [0..<lenf] = Some diff"
    using len assms(1) by (simp add: collect_diff_eq diff_def)
  have range: "extra_start \<le> extra_end" "extra_end \<le> length nw" "lenb \<le> ds_scan st"
    using len assms(1) by (simp_all add: extra_start_def extra_end_def)
  then have "emit_entry old nw st = Some st'"
    using ext collect len by (simp add: emit_entry_def Let_def st'_def c_def extra_start_def extra_end_def)
  moreover have "entry_fits old nw c"
    using len assms by (auto simp: entry_fits_def c_def control_entry_new_def extra_start_def extra_end_def)
  moreover have "emitted old nw st'"
    unfolding emitted_def
  proof (intro allI)
    fix ds es
    let ?s = "\<lparr>ps_diff = diff @ ds, ps_extra = slice extra_start extra_end nw @ es, ps_pos = ds_lastpos st, ps_out = take (ds_lastscan st) nw\<rparr>"
    have before: "apply_entries old (ds_control st) (patch_start (ds_diff st @ diff @ ds) (ds_extra st @ slice extra_start extra_end nw @ es)) = Ret ?s"
      using st by (simp add: emitted_def)
    have out: "take (ds_lastscan st) nw @ slice (ds_lastscan st) extra_start nw @ slice extra_start extra_end nw = take extra_end nw"
      using range by (simp add: take_slice flip: append_assoc) (simp add: take_slice extra_start_def)
    have "apply_entry old c ?s = Ret \<lparr>ps_diff = ds, ps_extra = es, ps_pos = ds_pos st - lenb, ps_out = take extra_end nw\<rparr>"
    proof -
      have "diff_bytes old lenf (diff @ ds) (ds_lastpos st) (take (ds_lastscan st) nw)
          = Ret (ds, ds_lastpos st + lenf, take (ds_lastscan st) nw @ slice (ds_lastscan st) extra_start nw)"
        using len range old by (simp add: diff_bytes_Ret usize_end_def diff_def diffed_collected extra_start_def extra_end_def)
      moreover have "extra_bytes (extra_end - extra_start) (slice extra_start extra_end nw @ es) out = Ret (es, out @ slice extra_start extra_end nw)" for out
        using range by (simp add: extra_bytes_Ret)
      moreover have "(if ce_seek c \<noteq> 0 then seek_old (ds_lastpos st + lenf) (ce_seek c) else Ret (ds_lastpos st + lenf)) = Ret (ds_pos st - lenb)"
        using len old assms(4) by (auto simp: seek_old_def c_def control_entry_new_def usize_end_def)
      moreover have "nat (ce_diff c) = lenf" "nat (ce_extra c) = extra_end - extra_start"
        by (simp_all add: c_def control_entry_new_def)
      ultimately show ?thesis
        using out by (simp add: apply_entry_def)
    qed
    with before show "apply_entries old (ds_control st') (patch_start (ds_diff st' @ ds) (ds_extra st' @ es)) =
        Ret \<lparr>ps_diff = ds, ps_extra = es, ps_pos = ds_lastpos st', ps_out = take (ds_lastscan st') nw\<rparr>"
      by (simp add: st'_def apply_entries_snoc)
  qed
  ultimately show ?thesis
    using len assms by (intro exI [of _ st']) (auto simp: st'_def extra_end_def diff_def)
qed

section \<open>The outer loop\<close>

definition loop_inv :: "byte list \<Rightarrow> byte list \<Rightarrow> diff_state \<Rightarrow> bool" where
  "loop_inv old nw st \<longleftrightarrow> ds_scan st \<le> length nw \<and> (ds_scan st < length nw \<longrightarrow> ds_scan st + ds_len st \<le> length nw)
     \<and> ds_lastscan st \<le> ds_scan st \<and> ds_lastpos st \<le> length old \<and> ds_pos st \<le> length old
     \<and> emitted old nw st \<and> list_all (entry_fits old nw) (ds_control st)
     \<and> (ds_scan st = length nw \<longrightarrow> ds_lastscan st = length nw) \<and> length (ds_diff st) \<le> ds_lastscan st
     \<and> (if ds_scan st < length nw then length (ds_control st) \<le> ds_scan st + (if ds_len st = 0 then 0 else 1)
        else length (ds_control st) \<le> length nw + 1)"

lemma diff_loop_ok:
  assumes "length old < 2 ^ 31"
  shows "is_suffix_array old sa \<Longrightarrow> loop_inv old nw st \<Longrightarrow>
    \<exists>st'. diff_loop sa old nw st = Some st' \<and> loop_inv old nw st' \<and> ds_scan st' = length nw"
  using assms
proof (induction sa old nw st rule: diff_loop.induct)
  case (1 sa old nw st)
  note inv = 1(4) [unfolded loop_inv_def]
  show ?case
  proof (cases "ds_scan st < length nw")
    case False
    then show ?thesis using 1(4) inv by (subst diff_loop.simps) auto
  next
    case True
    define scan where "scan = ds_scan st + ds_len st"
    have "scan_inv old nw (ds_lastoffset st) scan 0 scan" "ds_pos st \<le> length old"
      using True inv by (auto simp: scan_inv_def scan_def)
    from scan_loop_ok [OF 1(3) this, of "ds_len st"] obtain scan' len' pos' sc'
      where loop: "scan_loop sa old nw (ds_lastoffset st) scan (ds_len st) (ds_pos st) 0 scan = Some (scan', len', pos', sc')"
        and bounds: "scan' \<le> length nw" "scan' < length nw \<Longrightarrow> scan' + len' \<le> length nw" "pos' \<le> length old" by blast
    have prog: "scan \<le> scan'" "scan' < length nw \<Longrightarrow> 0 < len'"
      using scan_loop_progress [OF loop] by simp_all
    define st1 where "st1 = st\<lparr>ds_scan := scan', ds_len := len', ds_pos := pos'\<rparr>"
    have st1: "emitted old nw st1" "ds_lastscan st1 \<le> scan'" using inv prog by (simp_all add: st1_def emitted_def scan_def)
    show ?thesis
    proof (cases "len' \<noteq> sc' \<or> scan' = length nw")
      case True
      obtain st2 c where emit: "emit_entry old nw st1 = Some st2" "emitted old nw st2" "ds_lastscan st2 \<le> scan'" "ds_lastpos st2 \<le> length old"
          "scan' = length nw \<Longrightarrow> ds_lastscan st2 = length nw" "ds_control st2 = ds_control st @ [c]" "entry_fits old nw c"
          "length (ds_diff st2) + ds_lastscan st \<le> length (ds_diff st) + ds_lastscan st2"
        using emit_entry_ok [of st1 nw old] st1 bounds inv 1(5) by (auto simp: st1_def)
      have "loop_inv old nw st2"
        using emit emit_entry_keeps [OF emit(1)] bounds prog inv \<open>ds_scan st < length nw\<close>
        by (auto simp: loop_inv_def st1_def scan_def split: if_splits)
      moreover have "diff_loop sa old nw st = diff_loop sa old nw st2"
        using True \<open>ds_scan st < length nw\<close> loop emit(1) by (subst diff_loop.simps) (simp add: Let_def st1_def flip: scan_def)
      ultimately show ?thesis
        using 1(1) [OF \<open>ds_scan st < length nw\<close> scan_def loop refl refl refl st1_def True emit(1)] 1(3,5) by simp
    next
      case False
      have "loop_inv old nw st1"
        using st1 bounds prog inv \<open>ds_scan st < length nw\<close> False by (auto simp: loop_inv_def st1_def scan_def split: if_splits)
      moreover have "diff_loop sa old nw st = diff_loop sa old nw st1"
        using False \<open>ds_scan st < length nw\<close> loop by (subst diff_loop.simps) (simp add: Let_def st1_def flip: scan_def)
      ultimately show ?thesis
        using 1(2) [OF \<open>ds_scan st < length nw\<close> scan_def loop refl refl refl st1_def False] 1(3,5) by simp
    qed
  qed
qed

lemma compute_diff_ok:
  assumes "is_suffix_array old (divsufsort old)" "length old < 2 ^ 31"
  shows "\<exists>st. compute_diff divsufsort old nw = Some st \<and> loop_inv old nw st \<and> ds_scan st = length nw"
proof -
  let ?st = "\<lparr>ds_scan = 0, ds_len = 0, ds_pos = 0, ds_lastscan = 0, ds_lastpos = 0, ds_lastoffset = 0,
        ds_control = [], ds_diff = [], ds_extra = []\<rparr>"
  have "is_suffix_array old (if 0 < length old then divsufsort old else [])"
  proof (cases "old = []")
    case True
    then show ?thesis by (simp add: is_suffix_array_def)
  qed (use assms(1) in simp)
  moreover have "loop_inv old nw ?st"
    by (simp add: loop_inv_def emitted_def patch_start_def)
  ultimately show ?thesis
    unfolding compute_diff_def by (rule diff_loop_ok [OF assms(2)])
qed

section \<open>Assembling a patch\<close>

definition zlib_lossless :: "(byte list \<Rightarrow> byte list option) \<Rightarrow> (byte list \<Rightarrow> byte list option) \<Rightarrow> bool" where
  "zlib_lossless zc zd \<longleftrightarrow> (\<forall>d. \<exists>z. zc d = Some z \<and> zd z = Some d)"

definition zlib_bound :: "(byte list \<Rightarrow> byte list option) \<Rightarrow> bool" where
  "zlib_bound zc \<longleftrightarrow> (\<forall>d z. zc d = Some z \<longrightarrow> length z \<le> 2 * length d + 1000)"

lemma zlib_losslessE:
  assumes "zlib_lossless zc zd"
  obtains z where "zc d = Some z" "zd z = Some d"
  using assms unfolding zlib_lossless_def by blast

lemma build_internal_apply:
  assumes z: "zlib_lossless zc zd" and cs: "cs \<noteq> []" "list_all entry_wf cs"
    and built: "build_patch_internal zc b cs diff extra = Ret patch"
  shows "apply_patch_memory zd old patch = apply_patch_with_data old cs diff extra (length (new_data b))"
proof -
  obtain bs where bs: "write_entries cs = Ret bs" "read_entries bs [] = Ret cs"
    using entries_round_trip [OF cs(2)] by auto
  obtain zb where zb: "zc bs = Some zb" "zd zb = Some bs" using zlib_losslessE [OF z] .
  obtain zdiff where zdiff: "zc diff = Some zdiff" "zd zdiff = Some diff" using zlib_losslessE [OF z] .
  obtain ze where ze: "zc extra = Some ze" "zd ze = Some extra" using zlib_losslessE [OF z] .
  note zs = zb zdiff ze
  define h where "h = \<lparr>signature = ZBSDIFF1_SIGNATURE, control_size = int (length zb),
      diff_size = int (length zdiff), output_size = int (length (new_data b))\<rparr>"
  have "header_validate h = Ret ()" "patch = write_header h @ zb @ zdiff @ ze"
    using built bs(1) zs(1,3,5)
    by (auto simp: build_patch_internal_def to_compressed_def compress_zlib_def obind_Ret Let_def h_def)
  then show ?thesis
    using zs(2,4,6) bs(2) cs(1) apply_assembled [of h zb zdiff zd old ze]
    by (simp add: h_def from_compressed_def decompress_zlib_def)
qed

lemma build_internal_returns:
  assumes z: "zlib_lossless zc zd" "zlib_bound zc" and cs: "list_all entry_wf cs"
    and small: "length cs \<le> 10000001" "length diff \<le> 10000000" "length (new_data b) \<le> 10000000"
  shows "\<exists>patch. build_patch_internal zc b cs diff extra = Ret patch"
proof -
  obtain bs where bs: "write_entries cs = Ret bs" "length bs = 24 * length cs"
    using entries_round_trip [OF cs] by auto
  obtain zb where zb: "zc bs = Some zb" using zlib_losslessE [OF z(1)] .
  obtain zdiff where zdiff: "zc diff = Some zdiff" using zlib_losslessE [OF z(1)] .
  obtain ze where ze: "zc extra = Some ze" using zlib_losslessE [OF z(1)] .
  note zs = zb zdiff ze
  have "length zb \<le> 2 * length bs + 1000" "length zdiff \<le> 2 * length diff + 1000"
    using z(2) zs by (simp_all add: zlib_bound_def)
  then show ?thesis
    using bs zs small
    by (simp add: build_patch_internal_def to_compressed_def compress_zlib_def Let_def header_validate_def MAX_SIZE_def)
qed

lemma build_internal_no_Panic:
  "list_all entry_wf cs \<Longrightarrow> build_patch_internal zc b cs diff extra \<noteq> Panic"
  using entries_round_trip [of cs]
  by (auto simp: build_patch_internal_def to_compressed_def compress_zlib_def obind_Panic Let_def header_validate_def
      split: option.splits if_splits)

lemma with_entries_Ret: "with_entries cs = Ret cs' \<longleftrightarrow> cs' = cs \<and> cs \<noteq> [] \<and> (\<forall>c\<in>set cs. entry_validate c = Ret ())"
  by (auto simp: with_entries_def block_validate_def obind_Ret validate_entries_Ret)

lemma with_entries_no_Panic: "with_entries cs \<noteq> Panic"
proof -
  have "validate_entries i cs \<noteq> Panic" for i
    by (induction cs arbitrary: i) (auto simp: entry_validate_def)
  then show ?thesis by (simp add: with_entries_def block_validate_def obind_Panic)
qed

lemma new_data_builder [simp]: "new_data (builder_new old nw) = nw"
  by (simp add: builder_new_def)

lemma entry_fits_wf:
  "entry_fits old nw c \<Longrightarrow> length old < 2 ^ 31 \<Longrightarrow> entry_validate c = Ret () \<Longrightarrow> entry_wf c"
  by (auto simp: entry_fits_def entry_wf_def entry_validate_Ret)

lemma simple_patch_entry:
  "with_entries [control_entry_new 0 (int n) 0] = Ret cs \<Longrightarrow> cs = [control_entry_new 0 (int n) 0] \<and> list_all entry_wf cs"
  by (auto simp: with_entries_Ret entry_validate_Ret entry_wf_def control_entry_new_def)

lemma simple_patch_round_trip:
  assumes "zlib_lossless zc zd" "build_simple_patch zc b = Ret patch"
  shows "apply_patch_memory zd old patch = Ret (new_data b)"
proof -
  let ?c = "control_entry_new 0 (int (length (new_data b))) 0"
  obtain cs where cs: "with_entries [?c] = Ret cs" "build_patch_internal zc b cs [] (new_data b) = Ret patch"
    using assms(2) by (auto simp: build_simple_patch_def obind_Ret)
  have "apply_patch_memory zd old patch = apply_patch_with_data old cs [] (new_data b) (length (new_data b))"
    using build_internal_apply [OF assms(1) _ _ cs(2)] simple_patch_entry [OF cs(1)] by auto
  moreover have "extra_bytes (length (new_data b)) (new_data b) [] = Ret ([], new_data b)"
    by (simp add: extra_bytes_Ret)
  ultimately show ?thesis
    using simple_patch_entry [OF cs(1)]
    by (simp add: apply_patch_with_data_def apply_entry_def patch_start_def control_entry_new_def)
qed

text \<open>What the builder makes of a finished scan.\<close>

lemma optimized_patch_of_scan:
  assumes "compute_diff divsufsort old nw = Some st" "loop_inv old nw st" "ds_scan st = length nw"
  shows "build zc divsufsort (builder_new old nw) =
    (if nw = [] then build_simple_patch zc (builder_new old nw)
     else obind (with_entries (ds_control st)) (\<lambda>cs. build_patch_internal zc (builder_new old nw) cs (ds_diff st) (ds_extra st)))"
    and "nw \<noteq> [] \<Longrightarrow> ds_control st \<noteq> []"
    and "apply_patch_with_data old (ds_control st) (ds_diff st) (ds_extra st) (length nw) = Ret nw"
proof -
  have applied: "apply_entries old (ds_control st) (patch_start (ds_diff st) (ds_extra st)) =
      Ret \<lparr>ps_diff = [], ps_extra = [], ps_pos = ds_lastpos st, ps_out = nw\<rparr>"
    using assms(2,3) unfolding loop_inv_def emitted_def by (metis append_Nil2 take_all_iff order_refl)
  then show "apply_patch_with_data old (ds_control st) (ds_diff st) (ds_extra st) (length nw) = Ret nw"
    by (simp add: apply_patch_with_data_def)
  show control: "nw \<noteq> [] \<Longrightarrow> ds_control st \<noteq> []"
    using applied by (auto simp: patch_start_def)
  have "nw = [] \<Longrightarrow> ds_control st = []"
    using assms(1) by (auto simp: compute_diff_def diff_loop.simps)
  with control assms(1) show "build zc divsufsort (builder_new old nw) =
    (if nw = [] then build_simple_patch zc (builder_new old nw)
     else obind (with_entries (ds_control st)) (\<lambda>cs. build_patch_internal zc (builder_new old nw) cs (ds_diff st) (ds_extra st)))"
    by (auto simp: build_def build_optimized_patch_def builder_new_def)
qed

section \<open>Properties\<close>

text \<open>
  C11. Patches work: for old data below 2 GiB, given a suffix array of it and a zlib that decompresses what it
  compressed, building a patch never panics, applying any patch that was built to the old data gives
  exactly the new data, and for new data of at most 10 MB (the limit of one control entry) building always
  succeeds, if compression at most doubles its input and adds 1000 bytes.
\<close>

theorem zbsdiff_round_trip:
  assumes z: "zlib_lossless zc zd" and sa: "is_suffix_array old (divsufsort old)" and old: "length old < 2 ^ 31"
  shows "build zc divsufsort (builder_new old nw) \<noteq> Panic
    \<and> (\<forall>patch. build zc divsufsort (builder_new old nw) = Ret patch \<longrightarrow> apply_patch_memory zd old patch = Ret nw)
    \<and> (zlib_bound zc \<and> length nw \<le> 10000000 \<longrightarrow> (\<exists>patch. build zc divsufsort (builder_new old nw) = Ret patch))"
proof -
  obtain st where st: "compute_diff divsufsort old nw = Some st" "loop_inv old nw st" "ds_scan st = length nw"
    using compute_diff_ok [of old divsufsort, OF sa old] by blast
  note built = optimized_patch_of_scan [OF st]
  let ?b = "builder_new old nw"
  note b = new_data_builder
  have fits: "list_all (entry_fits old nw) (ds_control st)" "length (ds_control st) \<le> length nw + 1" "length (ds_diff st) \<le> length nw"
    using st(2,3) by (auto simp: loop_inv_def)
  have wf: "list_all entry_wf cs" if "with_entries (ds_control st) = Ret cs" for cs
    using that fits(1) entry_fits_wf [OF _ old] by (auto simp: with_entries_Ret list_all_iff)
  have simple: "with_entries [control_entry_new 0 0 0] = Ret [control_entry_new 0 0 0]" "list_all entry_wf [control_entry_new 0 0 0]"
    by (simp_all add: with_entries_Ret entry_validate_Ret entry_wf_def control_entry_new_def MAX_OP_SIZE_def)
  have "build zc divsufsort ?b \<noteq> Panic"
    using simple build_internal_no_Panic wf with_entries_no_Panic
    by (auto simp: built(1) build_simple_patch_def b obind_Panic)
  moreover have "apply_patch_memory zd old patch = Ret nw" if "build zc divsufsort ?b = Ret patch" for patch
  proof (cases "nw = []")
    case True
    with built(1) that have "build_simple_patch zc ?b = Ret patch" by simp
    then show ?thesis using simple_patch_round_trip [OF z, of ?b patch old] by simp
  next
    case False
    with that obtain cs where cs: "with_entries (ds_control st) = Ret cs" "build_patch_internal zc ?b cs (ds_diff st) (ds_extra st) = Ret patch"
      by (auto simp: built(1) obind_Ret)
    then show ?thesis
      using build_internal_apply [OF z _ wf [OF cs(1)] cs(2), of old] built(3) by (auto simp: with_entries_Ret b)
  qed
  moreover have "\<exists>patch. build zc divsufsort ?b = Ret patch" if bound: "zlib_bound zc" and small: "length nw \<le> 10000000"
  proof (cases "nw = []")
    case True
    with built(1) have "build zc divsufsort ?b = build_simple_patch zc ?b" by simp
    then show ?thesis
      using True simple build_internal_returns [OF z bound simple(2), of "[]" ?b] by (simp add: build_simple_patch_def)
  next
    case False
    have "with_entries (ds_control st) = Ret (ds_control st)"
      using fits(1) small built(2) [OF False]
      by (auto simp: with_entries_Ret entry_validate_Ret list_all_iff entry_fits_def MAX_OP_SIZE_def)
    then show ?thesis
      using False build_internal_returns [OF z bound wf, of "ds_control st" "ds_diff st" ?b] fits small by (simp add: built(1) b)
  qed
  ultimately show ?thesis by blast
qed

theorem zbsdiff_round_trip_witness:
  "\<exists>patch. build Some (\<lambda>_. [1, 0]) (builder_new [2, 1] [1, 2, 1]) = Ret patch \<and> apply_patch_memory Some [2, 1] patch = Ret [1, 2, 1]"
proof -
  have "zlib_lossless Some Some" "zlib_bound Some" by (simp_all add: zlib_lossless_def zlib_bound_def)
  moreover have "is_suffix_array [2, 1] [1, 0]"
    by (auto simp: is_suffix_array_def)
  ultimately show ?thesis
    using zbsdiff_round_trip [of Some Some "[2, 1]" "\<lambda>_. [1, 0]" "[1, 2, 1]"] by auto
qed

section \<open>Defects of the other builders\<close>

text \<open>
  The chunked builder writes the absolute position where a relative offset is expected: after a
  difference and an extra block the patcher reads the old data from twice the position.
\<close>

definition example_old :: "byte list" where
  "example_old = [1, 1, 1, 1, 2, 2, 2, 2]"

definition example_new :: "byte list" where
  "example_new = [1, 1, 1, 1] @ replicate 256 9 @ [2, 2, 2, 2]"

abbreviation example_builder :: zbsdiff_builder where
  "example_builder \<equiv> builder_new example_old example_new"

lemma example_chunks:
  "find_matching_chunk example_builder 0 0 = 4"
  "find_matching_chunk example_builder 4 4 = 0"
  "find_matching_chunk example_builder 4 260 = 4"
  by (simp_all add: find_matching_chunk_def builder_new_def example_old_def example_new_def upt_rec nth_append)

lemma chunked_example:
  "chunked_loop example_builder 0 0 [] [] [] =
   ([control_entry_new 4 0 0, control_entry_new 0 256 4, control_entry_new 4 0 0], replicate 8 0, replicate 256 9)"
proof -
  have new: "length example_new = 264" "slice 4 260 example_new = replicate 256 9"
    "map ((!) example_new) [0, 1, 2, 3] = [1, 1, 1, 1]" "map ((!) example_new) [260, 261, 262, 263] = [2, 2, 2, 2]"
    by (simp_all add: example_new_def slice_def nth_append)
  have old: "map (read_old_byte_at example_old) [0, 1, 2, 3] = [1, 1, 1, 1]" "map (read_old_byte_at example_old) [4, 5, 6, 7] = [2, 2, 2, 2]"
    by (simp_all add: example_old_def read_old_byte_at_def)
  have "old_data example_builder = example_old" by (simp add: builder_new_def)
  then show ?thesis
    using new old
    by (simp add: chunked_loop.simps example_chunks find_extra_chunk_size_def Let_def upt_rec) (simp add: eval_nat_numeral)
qed

lemma chunked_patch_wrong:
  assumes "zlib_lossless zc zd" "build_chunked_patch zc example_builder = Ret patch"
  shows "apply_patch_memory zd example_old patch = Ret ([1, 1, 1, 1] @ replicate 256 9 @ [0, 0, 0, 0])"
proof -
  let ?cs = "[control_entry_new 4 0 0, control_entry_new 0 256 4, control_entry_new 4 0 0]"
  have wf: "list_all entry_wf ?cs" by (simp add: entry_wf_def control_entry_new_def MAX_OP_SIZE_def)
  then have "with_entries ?cs = Ret ?cs" by (simp add: with_entries_Ret entry_wf_validate)
  then have "build_patch_internal zc example_builder ?cs (replicate 8 0) (replicate 256 9) = Ret patch"
    using assms(2) by (simp add: build_chunked_patch_def chunked_example)
  then have "apply_patch_memory zd example_old patch = apply_patch_with_data example_old ?cs (replicate 8 0) (replicate 256 9) 264"
    using build_internal_apply [OF assms(1) _ wf] by (simp add: example_new_def)
  moreover have zeros: "replicate 8 (0 :: byte) = [0, 0, 0, 0, 0, 0, 0, 0]" "replicate 4 (0 :: byte) = [0, 0, 0, 0]"
    by (simp_all add: eval_nat_numeral)
  have "diff_bytes example_old 4 (replicate 8 0) 0 [] = Ret (replicate 4 0, 4, [1, 1, 1, 1])"
    by (simp add: zeros diff_bytes_Ret usize_end_def example_old_def apply_diff_byte_def read_old_byte_at_def)
  moreover have "extra_bytes 256 (replicate 256 9) out = Ret ([], out @ replicate 256 9)" for out
    by (simp add: extra_bytes_Ret)
  moreover have "diff_bytes example_old 4 (replicate 4 0) 8 out = Ret ([], 12, out @ [0, 0, 0, 0])" for out
    by (simp add: zeros diff_bytes_Ret usize_end_def example_old_def apply_diff_byte_def read_old_byte_at_def)
  ultimately show ?thesis
    by (simp add: apply_patch_with_data_def apply_entry_def patch_start_def control_entry_new_def seek_old_def usize_end_def)
qed

text \<open>No builder splits a block, so the limit of an entry is a limit of the data.\<close>

lemma simple_patch_limit:
  "length (new_data b) > 10000000 \<Longrightarrow> build_simple_patch zc b = Fail (InvalidControlEntry 0)"
  by (simp add: build_simple_patch_def with_entries_def block_validate_def entry_validate_def control_entry_new_def MAX_OP_SIZE_def)

end
