(* ===== verification/Local_Header.thy ===== *)
theory Local_Header
  imports Jenkins
begin

text \<open>
  The 30-byte header in front of every entry of a \<open>data.NNN\<close> archive
  (\<open>cascette-client-storage/src/storage/local_header.rs\<close>) and the 480-byte segment header, sixteen
  such headers with generated keys, one for each index bucket (the first half of
  \<open>storage/segment.rs\<close>). Lemmas: both headers are recovered from their bytes, the checksums of a
  header built for a position hold at that position, and the search for a segment key always ends
  in the bucket asked for.
\<close>

section \<open>Model: the local header\<close>

definition LOCAL_HEADER_SIZE :: nat where "LOCAL_HEADER_SIZE = 0x1E"
definition CHECKSUM_A_SEED :: u32 where "CHECKSUM_A_SEED = 0x3D6BE971"

definition CHECKSUM_B_LUT :: "u32 list" where
  "CHECKSUM_B_LUT =
     [0x049396B8, 0x72A82A9B, 0xEE626CCA, 0x9917754F, 0x15DE40B1, 0xF5A8A9B6, 0x421EAC7E, 0xA9D55C9A,
      0x317FD40C, 0x04FAF80D, 0x3D6BE971, 0x52933CFD, 0x27F64B7D, 0xC6F5C11B, 0xD5757E3A, 0x6C388745]"

record local_header =
  lh_encoding_key :: "byte list"
  lh_encoded_size :: u32
  lh_flags :: u16
  lh_checksum_a :: u32
  lh_checksum_b :: u32

definition local_header_to_bytes :: "local_header \<Rightarrow> byte list" where
  "local_header_to_bytes h =
     lh_encoding_key h @ to_le 4 (lh_encoded_size h) @ to_le 2 (lh_flags h)
     @ to_le 4 (lh_checksum_a h) @ to_le 4 (lh_checksum_b h)"

definition compute_checksum_a :: "byte list \<Rightarrow> u32" where
  "compute_checksum_a header_bytes = hashlittle (take 0x16 header_bytes) CHECKSUM_A_SEED"

text \<open>The loop of phase 1: byte \<open>i\<close> goes into the register the global offset rotates it to.\<close>

fun xor_accumulate :: "u64 \<Rightarrow> nat \<Rightarrow> byte list \<Rightarrow> byte list \<Rightarrow> byte list" where
  "xor_accumulate global_offset i [] accum = accum"
| "xor_accumulate global_offset i (b # bs) accum =
     (let j = unat ((global_offset + word_of_nat i) AND 3)
      in xor_accumulate global_offset (Suc i) bs (accum[j := accum ! j XOR b]))"

definition compute_checksum_b :: "byte list \<Rightarrow> u64 \<Rightarrow> u32" where
  "compute_checksum_b header_bytes global_offset =
     (let accum = xor_accumulate global_offset 0 (take 0x1A header_bytes) [0, 0, 0, 0];
          offset_plus_header = global_offset + word_of_nat LOCAL_HEADER_SIZE;
          mask_u32 = CHECKSUM_B_LUT ! unat (offset_plus_header AND 0xF) XOR ucast offset_plus_header;
          xor_mask = to_le 4 mask_u32
      in from_le (map (\<lambda>i. let j = unat ((global_offset + 0x1A + word_of_nat i) AND 3)
                           in accum ! j XOR xor_mask ! j) [0..<4]))"

definition local_header_new :: "byte list \<Rightarrow> u32 \<Rightarrow> u64 \<Rightarrow> u16 \<Rightarrow> local_header" where
  "local_header_new encoding_key encoded_size global_offset flags =
     (let header = \<lparr>lh_encoding_key = map (\<lambda>i. encoding_key ! (15 - i)) [0..<16],
                    lh_encoded_size = encoded_size, lh_flags = flags, lh_checksum_a = 0, lh_checksum_b = 0\<rparr>;
          bytes = local_header_to_bytes header;
          a = compute_checksum_a bytes;
          bytes = put_slice 0x16 (to_le 4 a) bytes;
          header = header\<lparr>lh_checksum_a := a\<rparr>
      in header\<lparr>lh_checksum_b := compute_checksum_b bytes global_offset\<rparr>)"

definition validate_checksums :: "local_header \<Rightarrow> u64 \<Rightarrow> bool" where
  "validate_checksums h base_offset \<longleftrightarrow>
     lh_checksum_a h = compute_checksum_a (local_header_to_bytes h)
     \<and> lh_checksum_b h = compute_checksum_b (local_header_to_bytes h) base_offset"

definition local_header_from_bytes :: "byte list \<Rightarrow> local_header option" where
  "local_header_from_bytes data =
     (if length data < LOCAL_HEADER_SIZE then None
      else Some \<lparr>lh_encoding_key = slice 0 0x10 data, lh_encoded_size = from_le (slice 0x10 0x14 data),
                 lh_flags = from_le (slice 0x14 0x16 data), lh_checksum_a = from_le (slice 0x16 0x1A data),
                 lh_checksum_b = from_le (slice 0x1A 0x1E data)\<rparr>)"

definition original_encoding_key :: "local_header \<Rightarrow> byte list" where
  "original_encoding_key h = map (\<lambda>i. lh_encoding_key h ! (15 - i)) [0..<16]"

definition blte_size :: "local_header \<Rightarrow> u32" where
  "blte_size h = lh_encoded_size h"

section \<open>Model: the segment header\<close>

definition SEGMENT_HEADER_SIZE :: nat where "SEGMENT_HEADER_SIZE = 0x1E0"
definition MAX_SEGMENTS :: nat where "MAX_SEGMENTS = 0x3FF"
definition BUCKET_COUNT :: nat where "BUCKET_COUNT = 16"
definition SEGMENT_SIZE :: nat where "SEGMENT_SIZE = 0x40000000"

definition bucket_hash :: "byte list \<Rightarrow> byte \<Rightarrow> byte" where
  "bucket_hash key seed =
     (let x = fold (\<lambda>b x. x XOR b) (take 9 key) 0 in (((drop_bit 4 x) XOR x) + seed) AND 0x0F)"

text \<open>The loop over the values of byte 0; \<open>0\<close> when none fits.\<close>

fun probe_key :: "byte list \<Rightarrow> byte \<Rightarrow> byte list \<Rightarrow> byte list" where
  "probe_key key target [] = key[0 := 0]"
| "probe_key key target (p # ps) =
     (if bucket_hash (take 9 (key[0 := p])) 1 = target then key[0 := p] else probe_key key target ps)"

definition generate_segment_key :: "byte list \<Rightarrow> u16 \<Rightarrow> byte \<Rightarrow> byte list" where
  "generate_segment_key path_hash segment_count target_bucket =
     (let key = path_hash[1 := ucast (segment_count AND 0xFF)];
          key = key[2 := ucast (drop_bit 8 segment_count AND 0xFF)]
      in probe_key key target_bucket (map word_of_nat [0..<256]))"

record segment_header =
  sh_headers :: "local_header list"

definition bucket_position :: "u64 \<Rightarrow> nat \<Rightarrow> u64" where
  "bucket_position seg_base i = seg_base + word_of_nat (i * LOCAL_HEADER_SIZE)"

definition segment_header_generate :: "u16 \<Rightarrow> byte list \<Rightarrow> segment_header" where
  "segment_header_generate segment_index path_hash =
     (let seg_base = ucast segment_index * word_of_nat SEGMENT_SIZE
      in \<lparr>sh_headers = map (\<lambda>i. local_header_new (generate_segment_key path_hash segment_index (word_of_nat i))
                                  (word_of_nat LOCAL_HEADER_SIZE) (bucket_position seg_base i) 1) [0..<BUCKET_COUNT]\<rparr>)"

definition zeroed_header :: "nat \<Rightarrow> local_header" where
  "zeroed_header i = local_header_new (replicate 16 0) 0 (bucket_position 0 i) 1"

definition segment_header_zeroed :: segment_header where
  "segment_header_zeroed = \<lparr>sh_headers = map zeroed_header [0..<BUCKET_COUNT]\<rparr>"

definition segment_header_from_bytes :: "byte list \<Rightarrow> segment_header option" where
  "segment_header_from_bytes data =
     (if length data < SEGMENT_HEADER_SIZE then None
      else Some \<lparr>sh_headers = map (\<lambda>i. let offset = i * LOCAL_HEADER_SIZE in
                   case local_header_from_bytes (slice offset (offset + LOCAL_HEADER_SIZE) data) of
                     Some parsed \<Rightarrow> parsed
                   | None \<Rightarrow> zeroed_header i) [0..<BUCKET_COUNT]\<rparr>)"

definition segment_header_to_bytes :: "segment_header \<Rightarrow> byte list" where
  "segment_header_to_bytes s = concat (map local_header_to_bytes (sh_headers s))"

definition bucket_header :: "segment_header \<Rightarrow> byte \<Rightarrow> local_header" where
  "bucket_header s bucket = sh_headers s ! unat (bucket AND 0x0F)"

definition set_bucket_header :: "segment_header \<Rightarrow> byte \<Rightarrow> local_header \<Rightarrow> segment_header" where
  "set_bucket_header s bucket h = s\<lparr>sh_headers := (sh_headers s)[unat (bucket AND 0x0F) := h]\<rparr>"

definition bucket_key :: "segment_header \<Rightarrow> byte \<Rightarrow> byte list" where
  "bucket_key s bucket = original_encoding_key (bucket_header s bucket)"

section \<open>The local header\<close>

definition wf_local_header :: "local_header \<Rightarrow> bool" where
  [wf_simps]: "wf_local_header h \<longleftrightarrow> length (lh_encoding_key h) = 16"

lemma length_local_header_to_bytes [codec_simps]:
  "wf_local_header h \<Longrightarrow> length (local_header_to_bytes h) = 30"
  by (simp add: wf_simps local_header_to_bytes_def)

lemma local_header_round_trip:
  "wf_local_header h \<Longrightarrow> local_header_from_bytes (local_header_to_bytes h @ rest) = Some h"
  by (simp add: wf_simps local_header_to_bytes_def local_header_from_bytes_def LOCAL_HEADER_SIZE_def slice_def)

text \<open>The local header as a 30-byte record.\<close>

interpretation local_header: fixed_codec 30 wf_local_header local_header_to_bytes
  "\<lambda>bs. the (local_header_from_bytes bs)"
  using local_header_round_trip [where rest = "[]"] by unfold_locales (simp_all add: codec_simps)

lemma rev_nth_16: "length xs = 16 \<Longrightarrow> map (\<lambda>i. xs ! (15 - i)) [0..<16] = rev xs"
  by (rule nth_equalityI) (simp_all add: rev_nth)

lemma local_header_new_fields:
  assumes "length key = 16"
  shows "lh_encoding_key (local_header_new key sz off fl) = rev key"
    "lh_encoded_size (local_header_new key sz off fl) = sz"
    "lh_flags (local_header_new key sz off fl) = fl"
    "wf_local_header (local_header_new key sz off fl)"
    "original_encoding_key (local_header_new key sz off fl) = key"
  using assms by (simp_all add: local_header_new_def original_encoding_key_def rev_nth_16 wf_simps Let_def)

lemma local_header_new_valid:
  assumes "length key = 16"
  shows "validate_checksums (local_header_new key sz off fl) off"
  using assms
  by (simp add: validate_checksums_def local_header_new_def local_header_to_bytes_def compute_checksum_a_def
        compute_checksum_b_def rev_nth_16 put_slice_def Let_def)

section \<open>The segment header\<close>

definition wf_segment_header :: "segment_header \<Rightarrow> bool" where
  "wf_segment_header s \<longleftrightarrow> length (sh_headers s) = BUCKET_COUNT \<and> list_all wf_local_header (sh_headers s)"

lemma length_segment_header_to_bytes:
  "wf_segment_header s \<Longrightarrow> length (segment_header_to_bytes s) = SEGMENT_HEADER_SIZE"
  by (simp add: wf_segment_header_def segment_header_to_bytes_def local_header.length_table
        BUCKET_COUNT_def SEGMENT_HEADER_SIZE_def)

lemma segment_header_round_trip:
  assumes "wf_segment_header s"
  shows "segment_header_from_bytes (segment_header_to_bytes s @ rest) = Some s"
proof -
  let ?bs = "segment_header_to_bytes s @ rest"
  have table: "decode_table 30 (\<lambda>bs. the (local_header_from_bytes bs)) 16 ?bs = sh_headers s"
    using local_header.decode_table_prefix [of "sh_headers s" rest] assms
    by (simp add: segment_header_to_bytes_def wf_segment_header_def BUCKET_COUNT_def)
  have len: "480 \<le> length ?bs"
    using length_segment_header_to_bytes [OF assms] by (simp add: SEGMENT_HEADER_SIZE_def)
  have "(case local_header_from_bytes (slice (i * 30) (i * 30 + 30) ?bs) of Some p \<Rightarrow> p | None \<Rightarrow> zeroed_header i)
    = sh_headers s ! i" if "i < 16" for i
  proof -
    have "sh_headers s ! i = the (local_header_from_bytes (slice (i * 30) (i * 30 + 30) ?bs))"
      using decode_table_nth [of i 16 30 "\<lambda>bs. the (local_header_from_bytes bs)" ?bs] that
      by (simp add: table slice_def)
    moreover have "local_header_from_bytes (slice (i * 30) (i * 30 + 30) ?bs) \<noteq> None"
      using that len by (simp add: local_header_from_bytes_def LOCAL_HEADER_SIZE_def)
    ultimately show ?thesis by auto
  qed
  then have "map (\<lambda>i. case local_header_from_bytes (slice (i * 30) (i * 30 + 30) ?bs) of
                        Some p \<Rightarrow> p | None \<Rightarrow> zeroed_header i) [0..<16] = map ((!) (sh_headers s)) [0..<16]"
    by (intro map_cong) simp_all
  moreover have "map ((!) (sh_headers s)) [0..<16] = sh_headers s"
    using assms map_nth [of "sh_headers s"] by (simp add: wf_segment_header_def BUCKET_COUNT_def)
  ultimately show ?thesis
    using len by (simp add: segment_header_from_bytes_def LOCAL_HEADER_SIZE_def BUCKET_COUNT_def
                    SEGMENT_HEADER_SIZE_def Let_def)
qed

text \<open>
  Byte 0 reaches every bucket: the others fix a byte \<open>r\<close>, and \<open>r XOR (target - 1)\<close> turns the
  combined byte into \<open>target - 1\<close>.
\<close>

lemma fold_xor: "fold (\<lambda>b x. x XOR b) bs a = a XOR fold (\<lambda>b x. x XOR b) bs (0 :: byte)"
proof (induction bs arbitrary: a)
  case (Cons b bs)
  show ?case
    using Cons [of "a XOR b"] Cons [of b] by (simp add: xor.assoc)
qed simp

lemma bucket_hash_target:
  "i < 16 \<Longrightarrow> ((drop_bit 4 ((word_of_nat i - 1) AND 0x0F) XOR ((word_of_nat i - 1) AND 0x0F)) + 1) AND 0x0F
   = (word_of_nat i :: byte)"
proof -
  have "list_all (\<lambda>i. ((drop_bit 4 ((word_of_nat i - 1) AND 0x0F) XOR ((word_of_nat i - 1) AND 0x0F)) + 1) AND 0x0F
      = (word_of_nat i :: byte)) [0..<16]"
    by code_simp
  then show "i < 16 \<Longrightarrow> ?thesis" by (simp add: list_all_iff)
qed

lemma bucket_hash_first:
  assumes "length key = 16"
  shows "\<exists>r. \<forall>p. bucket_hash (take 9 (key[0 := p])) 1 = ((drop_bit 4 (p XOR r) XOR (p XOR r)) + 1) AND 0x0F"
proof (cases key)
  case (Cons k ks)
  have "fold (\<lambda>b x. x XOR b) (take 9 (key[0 := p])) 0 = p XOR fold (\<lambda>b x. x XOR b) (take 8 ks) 0" for p
    using fold_xor [of "take 8 ks" p] by (simp only: Cons) simp
  then show ?thesis
    by (intro exI [of _ "fold (\<lambda>b x. x XOR b) (take 8 ks) 0"]) (simp add: bucket_hash_def)
qed (use assms in simp)

lemma probe_key_found:
  "\<exists>p\<in>set ps. bucket_hash (take 9 (key[0 := p])) 1 = target \<Longrightarrow>
   \<exists>p. probe_key key target ps = key[0 := p] \<and> bucket_hash (take 9 (key[0 := p])) 1 = target"
  by (induction ps) auto

lemma all_bytes: "(b :: byte) \<in> set (map word_of_nat [0..<256])"
proof -
  have "word_of_nat (unat b) = b" by simp
  then show ?thesis
    using u8_bound [of b] by (metis atLeastLessThan_iff image_eqI le0 list.set_map set_upt)
qed

lemma probe_key_bucket:
  assumes "length key = 16" "i < 16"
  shows "\<exists>p. probe_key key (word_of_nat i) (map word_of_nat [0..<256]) = key[0 := p]
    \<and> bucket_hash (take 9 (key[0 := p])) 1 = word_of_nat i"
proof -
  obtain r where r: "bucket_hash (take 9 (key[0 := p])) 1 = ((drop_bit 4 (p XOR r) XOR (p XOR r)) + 1) AND 0x0F" for p
    using bucket_hash_first [OF assms(1)] by blast
  let ?p = "((word_of_nat i - 1) AND 0x0F) XOR r"
  have "bucket_hash (take 9 (key[0 := ?p])) 1 = word_of_nat i"
    using bucket_hash_target [OF assms(2)] by (simp add: r xor.assoc)
  then show ?thesis
    using all_bytes by (intro probe_key_found bexI [of _ ?p])
qed

lemma generate_segment_key_facts:
  assumes "length path_hash = 16" "i < 16"
  shows "length (generate_segment_key path_hash n (word_of_nat i)) = 16"
    "bucket_hash (take 9 (generate_segment_key path_hash n (word_of_nat i))) 1 = word_of_nat i"
    "slice 3 16 (generate_segment_key path_hash n (word_of_nat i)) = slice 3 16 path_hash"
proof -
  let ?key = "path_hash[1 := ucast (n AND 0xFF), 2 := ucast (drop_bit 8 n AND 0xFF)]"
  obtain p where "generate_segment_key path_hash n (word_of_nat i) = ?key[0 := p]"
    "bucket_hash (take 9 (?key[0 := p])) 1 = word_of_nat i"
    using probe_key_bucket [of ?key i] assms by (auto simp: generate_segment_key_def Let_def)
  then show "length (generate_segment_key path_hash n (word_of_nat i)) = 16"
    "bucket_hash (take 9 (generate_segment_key path_hash n (word_of_nat i))) 1 = word_of_nat i"
    "slice 3 16 (generate_segment_key path_hash n (word_of_nat i)) = slice 3 16 path_hash"
    using assms by (simp_all add: slice_def)
qed

lemma wf_segment_header_generate:
  "length path_hash = 16 \<Longrightarrow> wf_segment_header (segment_header_generate n path_hash)"
  using generate_segment_key_facts(1) local_header_new_fields(4)
  by (auto simp: wf_segment_header_def segment_header_generate_def BUCKET_COUNT_def list_all_iff Let_def)

lemma wf_zeroed_header: "wf_local_header (zeroed_header i)"
  by (simp add: zeroed_header_def local_header_new_fields)

lemma wf_segment_header_zeroed: "wf_segment_header segment_header_zeroed"
  using wf_zeroed_header by (simp add: wf_segment_header_def segment_header_zeroed_def list_all_iff)

lemma wf_set_bucket_header:
  "wf_segment_header s \<Longrightarrow> wf_local_header h \<Longrightarrow> wf_segment_header (set_bucket_header s b h)"
  by (auto simp: wf_segment_header_def set_bucket_header_def list_all_iff dest: set_update_subset_insert [THEN subsetD])

lemma bucket_nibble: "i < 16 \<Longrightarrow> unat ((word_of_nat i :: byte) AND 0x0F) = i"
proof -
  have "list_all (\<lambda>i. unat ((word_of_nat i :: byte) AND 0x0F) = i) [0..<16]"
    by code_simp
  then show "i < 16 \<Longrightarrow> ?thesis" by (simp add: list_all_iff)
qed

lemma bucket_header_generate:
  assumes "length path_hash = 16" "i < 16"
  shows "bucket_header (segment_header_generate n path_hash) (word_of_nat i)
    = local_header_new (generate_segment_key path_hash n (word_of_nat i)) 30 (ucast n * 0x40000000 + word_of_nat (30 * i)) 1"
  using assms
  by (simp add: bucket_header_def bucket_nibble segment_header_generate_def BUCKET_COUNT_def bucket_position_def
        LOCAL_HEADER_SIZE_def SEGMENT_SIZE_def Let_def mult.commute)

text \<open>
  C37. A freshly generated segment header can be used to rebuild the key mapping: its 480 bytes
  parse back to it whatever data follows, and the header of every bucket has the size of a header,
  the flag of a reconstruction header, checksums that hold at its position across all segments, and
  a key that differs from the hash of the storage path in its first three bytes only and hashes,
  with seed 1, to that bucket.
\<close>

theorem segment_header_reconstructs:
  assumes "length path_hash = 16"
  shows "let s = segment_header_generate n path_hash in
    length (segment_header_to_bytes s) = 480
    \<and> segment_header_from_bytes (segment_header_to_bytes s @ rest) = Some s
    \<and> (\<forall>i<16. let h = bucket_header s (word_of_nat i); key = bucket_key s (word_of_nat i) in
         lh_encoded_size h = 30 \<and> lh_flags h = 1
         \<and> validate_checksums h (ucast n * 0x40000000 + word_of_nat (30 * i))
         \<and> bucket_hash (take 9 key) 1 = word_of_nat i \<and> slice 3 16 key = slice 3 16 path_hash)"
proof -
  let ?s = "segment_header_generate n path_hash"
  have "wf_segment_header ?s"
    by (rule wf_segment_header_generate [OF assms])
  note bytes = length_segment_header_to_bytes [OF this] segment_header_round_trip [OF this, of rest]
  have "lh_encoded_size h = 30 \<and> lh_flags h = 1
      \<and> validate_checksums h (ucast n * 0x40000000 + word_of_nat (30 * i))
      \<and> bucket_hash (take 9 key) 1 = word_of_nat i \<and> slice 3 16 key = slice 3 16 path_hash"
    if "i < 16" "h = bucket_header ?s (word_of_nat i)" "key = bucket_key ?s (word_of_nat i)" for i h key
  proof -
    note k = generate_segment_key_facts [OF assms \<open>i < 16\<close>, of n]
    have "h = local_header_new (generate_segment_key path_hash n (word_of_nat i)) 30
        (ucast n * 0x40000000 + word_of_nat (30 * i)) 1"
      using that bucket_header_generate [OF assms \<open>i < 16\<close>] by simp
    moreover from this have "key = generate_segment_key path_hash n (word_of_nat i)"
      using that(2,3) k(1) by (simp add: bucket_key_def local_header_new_fields)
    ultimately show ?thesis
      using k by (simp add: local_header_new_fields local_header_new_valid)
  qed
  note headers = this
  show ?thesis
    unfolding Let_def
    by (intro conjI allI impI) (use bytes headers in \<open>simp_all only: SEGMENT_HEADER_SIZE_def\<close>)
qed

theorem segment_header_reconstructs_witness:
  "bucket_hash (take 9 (bucket_key (segment_header_generate 5 (replicate 16 0x12)) 7)) 1 = 7
   \<and> validate_checksums (bucket_header (segment_header_generate 5 (replicate 16 0x12)) 7)
       (5 * 0x40000000 + 210)"
proof -
  define ph where "ph = replicate 16 (0x12 :: byte)"
  define s where "s = segment_header_generate 5 ph"
  have "length ph = 16" by (simp add: ph_def)
  from segment_header_reconstructs [OF this, of 5 "[]"]
  have "\<forall>i<16. validate_checksums (bucket_header s (word_of_nat i)) (5 * 0x40000000 + word_of_nat (30 * i))
      \<and> bucket_hash (take 9 (bucket_key s (word_of_nat i))) 1 = word_of_nat i"
    by (simp add: Let_def s_def)
  from this [rule_format, of 7] show ?thesis
    by (simp add: s_def ph_def [symmetric])
qed

end
