(* ===== verification/Free_List.thy ===== *)
theory Free_List
  imports Prelude
begin

text \<open>
  The free list of an archive segment, \<open>FreeSpan\<close> and \<open>FreeList\<close> of
  \<open>cascette-client-storage/src/storage/segment.rs\<close>: an insert that coalesces and a first-fit
  allocation. The interface \<open>free_space\<close> states what a free list promises in terms of the set of
  bytes that are free; the list implements it.
\<close>

section \<open>Model\<close>

text \<open>Offsets and lengths are \<open>u32\<close>; the addition the code does not saturate can panic.\<close>

definition U32_MAX :: nat where "U32_MAX = 2 ^ 32 - 1"

record free_span =
  fs_offset :: nat
  fs_length :: nat

definition span_end :: "free_span \<Rightarrow> nat" where
  "span_end s = min (fs_offset s + fs_length s) U32_MAX"

type_synonym free_list = "free_span list"

definition span_count :: "free_list \<Rightarrow> nat" where
  "span_count spans = length spans"

definition total_free :: "free_list \<Rightarrow> nat" where
  "total_free spans = sum_list (map fs_length spans)"

definition free_list_insert :: "nat \<Rightarrow> nat \<Rightarrow> free_list \<Rightarrow> free_list" where
  "free_list_insert offset len spans =
     (if len = 0 then spans
      else let new_end = min (offset + len) U32_MAX;
               pos = length (takeWhile (\<lambda>s. fs_offset s < offset) spans);
               merge_start = (if pos > 0 \<and> span_end (spans ! (pos - 1)) \<ge> offset then pos - 1 else pos);
               merge_end = pos + length (takeWhile (\<lambda>s. fs_offset s \<le> new_end) (drop pos spans))
           in if merge_start < merge_end
              then let combined_offset = min (fs_offset (spans ! merge_start)) offset;
                       combined_end = max (span_end (spans ! (merge_end - 1))) new_end
                   in take merge_start spans
                      @ [\<lparr>fs_offset = combined_offset, fs_length = combined_end - combined_offset\<rparr>]
                      @ drop merge_end spans
              else take pos spans @ [\<lparr>fs_offset = offset, fs_length = len\<rparr>] @ drop pos spans)"

fun free_list_allocate :: "nat \<Rightarrow> free_list \<Rightarrow> (nat option \<times> free_list) option" where
  "free_list_allocate n [] = Some (None, [])"
| "free_list_allocate n (s # spans) =
     (if fs_length s \<ge> n
      then if fs_length s = n then Some (Some (fs_offset s), spans)
           else if fs_offset s + n > U32_MAX then None
           else Some (Some (fs_offset s), s\<lparr>fs_offset := fs_offset s + n, fs_length := fs_length s - n\<rparr> # spans)
      else do {
        (r, spans') \<leftarrow> free_list_allocate n spans;
        Some (r, s # spans')
      })"

section \<open>The interface: a set of free bytes\<close>

text \<open>
  \<open>bytes\<close> is the set of free positions. Inserting a block adds it, allocating takes a block that was
  free, and an allocation is refused only if no free block of that size exists, however the blocks
  were returned.
\<close>

locale free_space =
  fixes limit :: nat
    and wf :: "'s \<Rightarrow> bool"
    and bytes :: "'s \<Rightarrow> nat set"
    and ins :: "nat \<Rightarrow> nat \<Rightarrow> 's \<Rightarrow> 's"
    and alloc :: "nat \<Rightarrow> 's \<Rightarrow> (nat option \<times> 's) option"
  assumes ins_wf: "wf s \<Longrightarrow> p + n \<le> limit \<Longrightarrow> wf (ins p n s)"
    and ins_bytes: "wf s \<Longrightarrow> p + n \<le> limit \<Longrightarrow> bytes (ins p n s) = bytes s \<union> {p..<p + n}"
    and alloc_total: "wf s \<Longrightarrow> alloc n s \<noteq> None"
    and alloc_wf: "wf s \<Longrightarrow> alloc n s = Some (r, s') \<Longrightarrow> wf s'"
    and alloc_block: "wf s \<Longrightarrow> alloc n s = Some (Some p, s') \<Longrightarrow> {p..<p + n} \<subseteq> bytes s"
    and alloc_bytes: "wf s \<Longrightarrow> alloc n s = Some (Some p, s') \<Longrightarrow> bytes s' = bytes s - {p..<p + n}"
    and alloc_refused: "wf s \<Longrightarrow> alloc n s = Some (None, s') \<Longrightarrow> s' = s"
    and alloc_complete: "wf s \<Longrightarrow> 0 < n \<Longrightarrow> {p..<p + n} \<subseteq> bytes s \<Longrightarrow> alloc n s \<noteq> Some (None, s')"
begin

lemma alloc_cases:
  assumes "wf s"
  obtains (found) p s' where "alloc n s = Some (Some p, s')" "wf s'" "{p..<p + n} \<subseteq> bytes s"
      "bytes s' = bytes s - {p..<p + n}"
    | (refused) "alloc n s = Some (None, s)"
proof -
  obtain r s' where a: "alloc n s = Some (r, s')"
    using alloc_total [OF assms, of n] by auto
  show thesis
  proof (cases r)
    case None
    then show thesis
      using a refused alloc_refused [OF assms] by auto
  next
    case (Some p)
    then show thesis
      using a found alloc_wf [OF assms] alloc_block [OF assms] alloc_bytes [OF assms] by auto
  qed
qed

lemma alloc_succeeds_iff:
  assumes "wf s" "0 < n"
  shows "(\<exists>p s'. alloc n s = Some (Some p, s')) \<longleftrightarrow> (\<exists>p. {p..<p + n} \<subseteq> bytes s)"
proof -
  have "\<exists>p s'. alloc n s = Some (Some p, s')" if "{p..<p + n} \<subseteq> bytes s" for p
    using alloc_complete [OF assms that, of s] by (cases rule: alloc_cases [OF assms(1), of n]) auto
  then show ?thesis
    using alloc_block [OF assms(1)] by blast
qed

lemma alloc_then_free:
  assumes "wf s" "alloc n s = Some (Some p, s')" "p + n \<le> limit"
  shows "bytes (ins p n s') = bytes s"
  using ins_bytes [OF alloc_wf [OF assms(1,2)] assms(3)] alloc_block [OF assms(1,2)] alloc_bytes [OF assms(1,2)]
  by auto

end

section \<open>The free list implements it\<close>

definition span_bytes :: "free_span \<Rightarrow> nat set" where
  "span_bytes s = {fs_offset s..<fs_offset s + fs_length s}"

definition free_bytes :: "free_list \<Rightarrow> nat set" where
  "free_bytes spans = (\<Union>s\<in>set spans. span_bytes s)"

definition wf_span :: "free_span \<Rightarrow> bool" where
  "wf_span s \<longleftrightarrow> 0 < fs_length s \<and> fs_offset s + fs_length s \<le> U32_MAX"

definition free_list_wf :: "free_list \<Rightarrow> bool" where
  "free_list_wf spans \<longleftrightarrow> list_all wf_span spans \<and> sorted_wrt (\<lambda>s t. span_end s < fs_offset t) spans"

lemma span_end_eq [simp]: "wf_span s \<Longrightarrow> span_end s = fs_offset s + fs_length s"
  by (simp add: span_end_def wf_span_def)

lemma free_bytes_simps [simp]:
  "free_bytes [] = {}" "free_bytes (s # ss) = span_bytes s \<union> free_bytes ss"
  "free_bytes (ss @ ts) = free_bytes ss \<union> free_bytes ts"
  by (auto simp: free_bytes_def)

lemma free_list_wf_Nil [simp]: "free_list_wf []"
  by (simp add: free_list_wf_def)

lemma free_list_wf_append:
  "free_list_wf (ss @ ts) \<longleftrightarrow>
     free_list_wf ss \<and> free_list_wf ts \<and> (\<forall>s\<in>set ss. \<forall>t\<in>set ts. span_end s < fs_offset t)"
  by (auto simp: free_list_wf_def sorted_wrt_append)

lemma free_list_wf_Cons:
  "free_list_wf (s # ss) \<longleftrightarrow> wf_span s \<and> free_list_wf ss \<and> (\<forall>t\<in>set ss. span_end s < fs_offset t)"
  by (auto simp: free_list_wf_def)

lemma free_list_wf_span: "free_list_wf ss \<Longrightarrow> s \<in> set ss \<Longrightarrow> wf_span s"
  by (simp add: free_list_wf_def list_all_iff)

text \<open>What the code calls the merge range: the spans between \<open>P\<close> and \<open>D\<close> touch the new one.\<close>

lemma merge_bytes:
  assumes wf: "free_list_wf M" and M: "M \<noteq> []"
    and touch: "\<forall>m\<in>set M. fs_offset m \<le> e \<and> p \<le> span_end m" and pe: "p < e"
  defines "lo \<equiv> min (fs_offset (hd M)) p" and "hi \<equiv> max (span_end (last M)) e"
  shows "free_bytes M \<union> {p..<e} = {lo..<hi}" "lo < hi"
proof -
  have ends: "fs_offset (hd M) \<le> fs_offset m \<and> span_end m \<le> span_end (last M)" if "m \<in> set M" for m
  proof -
    obtain A B where "M = A @ m # B" using \<open>m \<in> set M\<close> by (meson split_list)
    with wf show ?thesis
      by (cases A; cases B rule: rev_cases)
         (auto simp: free_list_wf_append free_list_wf_Cons wf_span_def)
  qed
  have wfm: "wf_span m" if "m \<in> set M" for m
    using wf that by (rule free_list_wf_span)
  have "free_bytes M \<union> {p..<e} \<subseteq> {lo..<hi}"
    using ends wfm by (fastforce simp: free_bytes_def span_bytes_def lo_def hi_def)
  moreover have "x \<in> free_bytes M \<union> {p..<e}" if x: "lo \<le> x" "x < hi" for x
  proof (cases "p \<le> x \<and> x < e")
    case False
    have t: "p \<le> span_end (hd M)" "fs_offset (last M) \<le> e" "wf_span (hd M)" "wf_span (last M)"
      using M touch wfm by simp_all
    then have "x \<in> span_bytes (hd M) \<or> x \<in> span_bytes (last M)"
      using x False by (auto simp: span_bytes_def lo_def hi_def min_def max_def split: if_splits)
    then show ?thesis
      using M by (auto simp: free_bytes_def)
  qed simp
  ultimately show "free_bytes M \<union> {p..<e} = {lo..<hi}"
    by (meson atLeastLessThan_iff subsetI subset_antisym)
  show "lo < hi"
    using pe by (simp add: lo_def hi_def)
qed

lemma nth_middle:
  "M \<noteq> [] \<Longrightarrow> (P @ M @ D) ! length P = hd M"
  "M \<noteq> [] \<Longrightarrow> (P @ M @ D) ! (length P + length M - 1) = last M"
  by (simp_all add: nth_append hd_conv_nth last_conv_nth neq_Nil_conv) (auto simp: nth_append)

lemma drop_sorted_ge:
  assumes "free_list_wf spans" "s \<in> set (dropWhile (\<lambda>s. fs_offset s < p) spans)"
  shows "p \<le> fs_offset s"
proof (cases "dropWhile (\<lambda>s. fs_offset s < p) spans")
  case (Cons b B)
  then have "\<not> fs_offset b < p"
    using hd_dropWhile [of "\<lambda>s. fs_offset s < p" spans] by simp
  moreover have "free_list_wf (takeWhile (\<lambda>s. fs_offset s < p) spans @ b # B)"
    using assms(1) Cons takeWhile_dropWhile_id [of "\<lambda>s. fs_offset s < p" spans] by metis
  ultimately show ?thesis
    using assms(2) Cons by (auto simp: free_list_wf_append free_list_wf_Cons)
next
  case Nil
  then show ?thesis
    using assms(2) by (simp only: list.set empty_iff)
qed

text \<open>
  An insert splits the list into the spans before the merge range, the range \<open>M\<close> and the spans after
  it, and puts one span in place of \<open>M\<close>.
\<close>

definition combined :: "nat \<Rightarrow> nat \<Rightarrow> free_span list \<Rightarrow> free_span" where
  "combined p n M =
     (if M = [] then \<lparr>fs_offset = p, fs_length = n\<rparr>
      else let lo = min (fs_offset (hd M)) p; hi = max (span_end (last M)) (p + n)
           in \<lparr>fs_offset = lo, fs_length = hi - lo\<rparr>)"

lemma insert_combined:
  assumes "spans = P @ M @ D" "0 < n" "p + n \<le> U32_MAX"
    and pos: "length (takeWhile (\<lambda>s. fs_offset s < p) spans) = length P + k"
    and right: "takeWhile (\<lambda>s. fs_offset s \<le> p + n) (drop (length P + k) spans) = drop k M" "k \<le> length M"
    and left: "k = (if 0 < length P + k \<and> p \<le> span_end (spans ! (length P + k - 1)) then 1 else 0)"
  shows "free_list_insert p n spans = P @ [combined p n M] @ D"
proof -
  have start: "(if 0 < length P + k \<and> p \<le> span_end (spans ! (length P + k - 1)) then length P + k - 1
      else length P + k) = length P"
    using left by (auto split: if_splits)
  have stop: "length P + k + length (takeWhile (\<lambda>s. fs_offset s \<le> p + n) (drop (length P + k) spans))
      = length P + length M"
    using right by simp
  have new_end: "min (p + n) U32_MAX = p + n" using assms by simp
  show ?thesis
    unfolding free_list_insert_def Let_def pos new_end start stop
    using assms left nth_middle [of M P D] by (auto simp: combined_def Let_def split: if_splits)
qed

lemma insert_split:
  assumes wf: "free_list_wf spans" and n: "0 < n" "p + n \<le> U32_MAX"
  obtains P M D where "spans = P @ M @ D" "free_list_insert p n spans = P @ [combined p n M] @ D"
    "\<forall>s\<in>set P. span_end s < p" "\<forall>s\<in>set D. p + n < fs_offset s"
    "\<forall>m\<in>set M. fs_offset m \<le> p + n \<and> p \<le> span_end m"
proof -
  define A B where "A = takeWhile (\<lambda>s. fs_offset s < p) spans" and "B = dropWhile (\<lambda>s. fs_offset s < p) spans"
  define C D where "C = takeWhile (\<lambda>s. fs_offset s \<le> p + n) B" and "D = dropWhile (\<lambda>s. fs_offset s \<le> p + n) B"
  have split: "spans = A @ C @ D" "drop (length A) spans = B"
    by (simp_all add: A_def B_def C_def D_def dropWhile_eq_drop [symmetric])
  have A: "\<forall>s\<in>set A. fs_offset s < p" by (auto simp: A_def dest: set_takeWhileD)
  have C: "fs_offset s \<le> p + n \<and> p \<le> span_end s" if "s \<in> set C" for s
  proof -
    have "s \<in> set B" "fs_offset s \<le> p + n" using that by (auto simp: C_def dest: set_takeWhileD)
    then show ?thesis
      using drop_sorted_ge [OF wf, of s p] free_list_wf_span [OF wf, of s] by (simp add: B_def set_dropWhileD)
  qed
  have wfs: "free_list_wf A" "free_list_wf B"
    using wf split(1) by (auto simp: free_list_wf_append C_def D_def)
  have D: "\<forall>s\<in>set D. p + n < fs_offset s"
    using drop_sorted_ge [OF wfs(2), of _ "Suc (p + n)"] by (auto simp: D_def less_Suc_eq_le Suc_le_eq)
  have A': "span_end s < p" if "A = A' @ [a]" "s \<in> set A'" for A' a s
    using wfs(1) A that by (fastforce simp: free_list_wf_append)
  have pos: "length (takeWhile (\<lambda>s. fs_offset s < p) spans) = length A"
    "takeWhile (\<lambda>s. fs_offset s \<le> p + n) (drop (length A) spans) = C"
    by (simp_all add: split(2) C_def) (simp add: A_def)
  show thesis
  proof (cases A rule: rev_cases)
    case Nil
    show thesis
      by (rule that [of "[]" C D], use split Nil in simp, rule insert_combined [where k = 0])
         (use split(1) n pos Nil C D in simp_all)
  next
    case (snoc A' a)
    have last: "spans ! (length A - 1) = a" using split(1) by (simp add: snoc nth_append)
    show thesis
    proof (cases "p \<le> span_end a")
      case True
      show thesis
        by (rule that [of A' "a # C" D], use split snoc in simp, rule insert_combined [where k = 1])
           (use split(1) n pos last True C D A' A snoc in auto)
    next
      case False
      show thesis
        by (rule that [of A C D], use split snoc in simp, rule insert_combined [where k = 0])
           (use split(1) n pos last False C D A' snoc in auto)
    qed
  qed
qed

lemma combined_facts:
  assumes wf: "free_list_wf M" and n: "0 < n" "p + n \<le> U32_MAX"
    and touch: "\<forall>m\<in>set M. fs_offset m \<le> p + n \<and> p \<le> span_end m"
  shows "wf_span (combined p n M)" "span_bytes (combined p n M) = free_bytes M \<union> {p..<p + n}"
proof -
  have "wf_span (combined p n M) \<and> span_bytes (combined p n M) = free_bytes M \<union> {p..<p + n}"
  proof (cases "M = []")
    case False
    then have "wf_span (last M)" using wf by (simp add: free_list_wf_span)
    then have "span_end (last M) \<le> U32_MAX" by (simp add: wf_span_def)
    then show ?thesis
      using merge_bytes [OF wf False touch] n False by (auto simp: combined_def Let_def wf_span_def span_bytes_def)
  qed (use n in \<open>auto simp: combined_def wf_span_def span_bytes_def\<close>)
  then show "wf_span (combined p n M)" "span_bytes (combined p n M) = free_bytes M \<union> {p..<p + n}" by auto
qed

lemma insert_facts:
  assumes wf: "free_list_wf spans" and n: "p + n \<le> U32_MAX"
  shows "free_list_wf (free_list_insert p n spans)"
    "free_bytes (free_list_insert p n spans) = free_bytes spans \<union> {p..<p + n}"
proof -
  have "free_list_wf (free_list_insert p n spans)
      \<and> free_bytes (free_list_insert p n spans) = free_bytes spans \<union> {p..<p + n}"
  proof (cases "n = 0")
    case True
    then show ?thesis using wf by (simp add: free_list_insert_def)
  next
    case False
    then obtain P M D where s: "spans = P @ M @ D" "free_list_insert p n spans = P @ [combined p n M] @ D"
      "\<forall>s\<in>set P. span_end s < p" "\<forall>s\<in>set D. p + n < fs_offset s"
      "\<forall>m\<in>set M. fs_offset m \<le> p + n \<and> p \<le> span_end m"
      using insert_split [OF wf _ n] by blast
    have wfs: "free_list_wf P" "free_list_wf M" "free_list_wf D"
      "\<forall>s\<in>set P. \<forall>m\<in>set M. span_end s < fs_offset m" "\<forall>m\<in>set M. \<forall>d\<in>set D. span_end m < fs_offset d"
      "\<forall>s\<in>set P. \<forall>d\<in>set D. span_end s < fs_offset d"
      using wf by (auto simp: s(1) free_list_wf_append)
    note c = combined_facts [OF wfs(2) _ n s(5)]
    have "\<forall>s\<in>set P. span_end s < fs_offset (combined p n M)"
      using s(3) wfs(4) by (auto simp: combined_def Let_def)
    moreover have "span_end (combined p n M) = (if M = [] then p + n else max (span_end (last M)) (p + n))"
      using c(1) False by (auto simp: combined_def Let_def)
    then have "\<forall>d\<in>set D. span_end (combined p n M) < fs_offset d"
      using s(4) wfs(5) by auto
    ultimately show ?thesis
      unfolding s(2) using c wfs False by (auto simp: s(1) free_list_wf_append free_list_wf_Cons)
  qed
  then show "free_list_wf (free_list_insert p n spans)"
    "free_bytes (free_list_insert p n spans) = free_bytes spans \<union> {p..<p + n}" by auto
qed

text \<open>First fit: the spans before the one taken are too short.\<close>

definition after_alloc :: "nat \<Rightarrow> free_span \<Rightarrow> free_span list" where
  "after_alloc n s =
     (if fs_length s = n then [] else [s\<lparr>fs_offset := fs_offset s + n, fs_length := fs_length s - n\<rparr>])"

lemma allocate_cases:
  assumes "free_list_wf spans"
  obtains (found) A s B where "spans = A @ s # B" "\<forall>a\<in>set A. fs_length a < n" "n \<le> fs_length s"
      "free_list_allocate n spans = Some (Some (fs_offset s), A @ after_alloc n s @ B)"
    | (refused) "\<forall>a\<in>set spans. fs_length a < n" "free_list_allocate n spans = Some (None, spans)"
  using assms
proof (induction spans arbitrary: thesis)
  case (Cons s spans)
  note prems = Cons.prems
  show ?case
  proof (cases "n \<le> fs_length s")
    case True
    have "fs_offset s + n \<le> U32_MAX"
      using prems(3) True by (auto simp: free_list_wf_Cons wf_span_def)
    then show ?thesis
      using True by (intro prems(1) [of "[]" s spans]) (auto simp: after_alloc_def)
  next
    case False
    show ?thesis
    proof (rule Cons.IH)
      show "free_list_wf spans" using prems(3) by (simp add: free_list_wf_Cons)
      fix A t B
      assume "spans = A @ t # B" "\<forall>a\<in>set A. fs_length a < n" "n \<le> fs_length t"
        "free_list_allocate n spans = Some (Some (fs_offset t), A @ after_alloc n t @ B)"
      then show ?thesis
        using False by (intro prems(1) [of "s # A" t B]) auto
    next
      assume "\<forall>a\<in>set spans. fs_length a < n" "free_list_allocate n spans = Some (None, spans)"
      then show ?thesis using False by (intro prems(2)) auto
    qed
  qed
qed simp

lemma after_alloc_facts:
  assumes "free_list_wf (A @ s # B)" "n \<le> fs_length s"
  shows "free_list_wf (A @ after_alloc n s @ B)"
    "free_bytes (A @ after_alloc n s @ B) = free_bytes (A @ s # B) - {fs_offset s..<fs_offset s + n}"
proof -
  have wf: "wf_span s" "\<forall>a\<in>set A. wf_span a \<and> span_end a < fs_offset s" "\<forall>b\<in>set B. span_end s < fs_offset b"
    using assms(1) by (auto simp: free_list_wf_append free_list_wf_Cons dest: free_list_wf_span)
  then have "wf_span s'" if "s' \<in> set (after_alloc n s)" for s'
    using that assms(2) by (auto simp: after_alloc_def wf_span_def split: if_splits)
  then show "free_list_wf (A @ after_alloc n s @ B)"
    using assms wf(1) by (auto simp: free_list_wf_append free_list_wf_Cons after_alloc_def wf_span_def)
  have "free_bytes A \<inter> {fs_offset s..<fs_offset s + n} = {}" "free_bytes B \<inter> {fs_offset s..<fs_offset s + n} = {}"
    using wf assms(2) by (fastforce simp: free_bytes_def span_bytes_def wf_span_def)+
  moreover have "free_bytes (after_alloc n s) = span_bytes s - {fs_offset s..<fs_offset s + n}"
    using assms(2) by (auto simp: after_alloc_def span_bytes_def)
  ultimately show "free_bytes (A @ after_alloc n s @ B) = free_bytes (A @ s # B) - {fs_offset s..<fs_offset s + n}"
    by auto
qed

text \<open>Coalescing keeps every free block inside one span, so first fit finds it.\<close>

lemma block_in_span:
  assumes wf: "free_list_wf spans" and n: "0 < n" and sub: "{p..<p + n} \<subseteq> free_bytes spans"
  shows "\<exists>s\<in>set spans. n \<le> fs_length s"
proof -
  have "p \<in> free_bytes spans" using n sub by auto
  then obtain s where s: "s \<in> set spans" "fs_offset s \<le> p" "p < fs_offset s + fs_length s"
    by (auto simp: free_bytes_def span_bytes_def)
  have "p + n \<le> fs_offset s + fs_length s"
  proof (rule ccontr)
    assume "\<not> ?thesis"
    then have "fs_offset s + fs_length s \<in> free_bytes spans" using s sub by auto
    then obtain t where t: "t \<in> set spans" "fs_offset t \<le> fs_offset s + fs_length s"
      "fs_offset s + fs_length s < fs_offset t + fs_length t"
      by (auto simp: free_bytes_def span_bytes_def)
    obtain A B where "spans = A @ s # B" using s(1) by (meson split_list)
    then show False
      using wf t s by (auto simp: free_list_wf_append free_list_wf_Cons dest!: free_list_wf_span)
  qed
  then show ?thesis using s by (intro bexI [of _ s]) auto
qed

interpretation fl: free_space U32_MAX free_list_wf free_bytes free_list_insert free_list_allocate
proof
  fix s s' :: free_list and n p and r :: "nat option"
  assume wf: "free_list_wf s"
  show "p + n \<le> U32_MAX \<Longrightarrow> free_list_wf (free_list_insert p n s)"
    "p + n \<le> U32_MAX \<Longrightarrow> free_bytes (free_list_insert p n s) = free_bytes s \<union> {p..<p + n}"
    using insert_facts [OF wf] by blast+
  show "free_list_allocate n s \<noteq> None"
    by (cases rule: allocate_cases [OF wf, of n]) auto
  show "free_list_allocate n s = Some (r, s') \<Longrightarrow> free_list_wf s'"
    by (cases rule: allocate_cases [OF wf, of n]) (use wf after_alloc_facts in auto)
  show "free_list_allocate n s = Some (Some p, s') \<Longrightarrow> {p..<p + n} \<subseteq> free_bytes s"
    by (cases rule: allocate_cases [OF wf, of n]) (auto simp: span_bytes_def)
  show "free_list_allocate n s = Some (Some p, s') \<Longrightarrow> free_bytes s' = free_bytes s - {p..<p + n}"
    by (cases rule: allocate_cases [OF wf, of n]) (use wf after_alloc_facts in auto)
  show "free_list_allocate n s = Some (None, s') \<Longrightarrow> s' = s"
    by (cases rule: allocate_cases [OF wf, of n]) auto
  show "0 < n \<Longrightarrow> {p..<p + n} \<subseteq> free_bytes s \<Longrightarrow> free_list_allocate n s \<noteq> Some (None, s')"
    using block_in_span [OF wf, of n p] by (cases rule: allocate_cases [OF wf, of n]) auto
qed

text \<open>
  C16. The free list of a segment is its set of free bytes: inserting a block adds exactly its bytes,
  whatever it overlaps or touches, and keeps the list in order without overlap. Allocating never
  panics; it gives a block that was free and removes exactly that block, and it is refused only
  if no block of that size is free anywhere in the segment.
\<close>

theorem free_list_is_byte_set:
  assumes "free_list_wf spans"
  shows "(p + n \<le> U32_MAX \<longrightarrow> free_list_wf (free_list_insert p n spans)
      \<and> free_bytes (free_list_insert p n spans) = free_bytes spans \<union> {p..<p + n})
    \<and> (\<exists>r spans'. free_list_allocate m spans = Some (r, spans') \<and> free_list_wf spans'
      \<and> (case r of
           None \<Rightarrow> spans' = spans \<and> (0 < m \<longrightarrow> \<not> (\<exists>q. {q..<q + m} \<subseteq> free_bytes spans))
         | Some q \<Rightarrow> {q..<q + m} \<subseteq> free_bytes spans \<and> free_bytes spans' = free_bytes spans - {q..<q + m}))"
proof (intro conjI impI)
  assume "p + n \<le> U32_MAX"
  then show "free_list_wf (free_list_insert p n spans)"
    "free_bytes (free_list_insert p n spans) = free_bytes spans \<union> {p..<p + n}"
    using fl.ins_wf fl.ins_bytes assms by auto
next
  show "\<exists>r spans'. free_list_allocate m spans = Some (r, spans') \<and> free_list_wf spans'
      \<and> (case r of
           None \<Rightarrow> spans' = spans \<and> (0 < m \<longrightarrow> \<not> (\<exists>q. {q..<q + m} \<subseteq> free_bytes spans))
         | Some q \<Rightarrow> {q..<q + m} \<subseteq> free_bytes spans \<and> free_bytes spans' = free_bytes spans - {q..<q + m})"
  proof (rule fl.alloc_cases [OF assms, of m])
    assume "free_list_allocate m spans = Some (None, spans)"
    then show ?thesis
      using fl.alloc_complete [OF assms, of m] assms by (intro exI [of _ None] exI [of _ spans]) auto
  qed (use assms in auto)
qed

text \<open>Returning the hole between two free blocks makes one block of all three.\<close>

theorem free_list_is_byte_set_witness:
  "free_list_insert 490 10 [\<lparr>fs_offset = 480, fs_length = 10\<rparr>, \<lparr>fs_offset = 500, fs_length = 20\<rparr>]
     = [\<lparr>fs_offset = 480, fs_length = 40\<rparr>]
   \<and> free_bytes [\<lparr>fs_offset = 480, fs_length = 40\<rparr>]
     = free_bytes [\<lparr>fs_offset = 480, fs_length = 10\<rparr>, \<lparr>fs_offset = 500, fs_length = 20\<rparr>] \<union> {490..<500}"
proof -
  let ?l = "[\<lparr>fs_offset = 480, fs_length = 10\<rparr>, \<lparr>fs_offset = 500, fs_length = 20\<rparr>]"
  have "free_list_wf ?l" by (simp add: free_list_wf_def wf_span_def span_end_def U32_MAX_def)
  moreover have "free_list_insert 490 10 ?l = [\<lparr>fs_offset = 480, fs_length = 40\<rparr>]"
    by (simp add: free_list_insert_def span_end_def U32_MAX_def)
  ultimately show ?thesis
    using free_list_is_byte_set [of ?l 490 10 40] by (simp add: U32_MAX_def)
qed

end
