(* ===== verification/Segment.thy ===== *)
theory Segment
  imports Local_Header Free_List Text
begin

text \<open>
  Archive segments and their allocator, the second half of
  \<open>cascette-client-storage/src/storage/segment.rs\<close>: names of data files, segment states, loading the
  segments of a directory, allocation from the free lists, by bumping a write position or in a new
  segment, and returning space. The bucket locks guard no data of the allocator and are left out.
\<close>

section \<open>Model: names of data files\<close>

text \<open>\<open>{:03}\<close>: zeros in front up to three digits.\<close>

definition dec03 :: "nat \<Rightarrow> string" where
  "dec03 n = replicate (3 - length (dec n)) (CHR ''0'') @ dec n"

definition segment_data_path :: "nat \<Rightarrow> string" where
  "segment_data_path segment_index = ''data.'' @ dec03 segment_index"

definition parse_data_filename :: "string \<Rightarrow> nat option" where
  "parse_data_filename filename =
     (if take 5 filename \<noteq> ''data.'' then None
      else let suffix = drop 5 filename in
           if (length suffix \<noteq> 3 \<and> length suffix \<noteq> 4) \<or> \<not> list_all is_digit suffix then None
           else let index = dec_value suffix in
                if index \<ge> 2 ^ 16 then None
                else if index \<ge> MAX_SEGMENTS then None else Some index)"

definition encode_storage_offset :: "u16 \<Rightarrow> u32 \<Rightarrow> u16 \<times> u32" where
  "encode_storage_offset segment_index file_offset = (segment_index, file_offset)"

definition decode_storage_offset :: "u16 \<Rightarrow> u32 \<Rightarrow> u16 \<times> u32" where
  "decode_storage_offset archive_id archive_offset = (archive_id, archive_offset)"

section \<open>Model: segments\<close>

datatype segment_state = Frozen | Thawed

record segment_info =
  si_index :: nat
  si_state :: segment_state
  si_write_position :: nat
  si_header :: segment_header

definition segment_info_new :: "nat \<Rightarrow> segment_header \<Rightarrow> segment_info" where
  "segment_info_new index header =
     \<lparr>si_index = index, si_state = Thawed, si_write_position = SEGMENT_HEADER_SIZE, si_header = header\<rparr>"

definition base_offset :: "segment_info \<Rightarrow> nat" where
  "base_offset info = si_index info * SEGMENT_SIZE"

definition has_space_for :: "segment_info \<Rightarrow> nat \<Rightarrow> bool" where
  "has_space_for info n \<longleftrightarrow> si_state info = Thawed \<and> si_write_position info + n \<le> SEGMENT_SIZE"

section \<open>Model: the allocator\<close>

record segment_allocator =
  sa_segments :: "segment_info list"
  sa_free_lists :: "free_list list"
  sa_max_segments :: nat
  sa_path_hash :: "byte list"

record allocation =
  al_segment :: nat
  al_offset :: nat

datatype alloc_error =
    ReadDirFailed | FileUnreadable | SizeTooLarge | IndexTooLarge | TooManySegments
  | MaxSegmentsReached | CreateFailed | OffsetTooLarge

definition allocator_new :: "byte list \<Rightarrow> nat \<Rightarrow> segment_allocator" where
  "allocator_new path_hash max_segments =
     \<lparr>sa_segments = [], sa_free_lists = [], sa_max_segments = min max_segments MAX_SEGMENTS,
      sa_path_hash = path_hash\<rparr>"

text \<open>
  \<open>read_dir\<close> finds no directory, fails, or lists the files; a file that cannot be read has no content.
\<close>

datatype dir_listing = NoDirectory | DirUnreadable | Listing "(os_name \<times> byte list option) list"

definition loaded_segment :: "nat \<Rightarrow> byte list \<Rightarrow> segment_info" where
  "loaded_segment index file_data =
     (let header = (if length file_data \<ge> SEGMENT_HEADER_SIZE
                    then (case segment_header_from_bytes file_data of Some h \<Rightarrow> h | None \<Rightarrow> segment_header_zeroed)
                    else segment_header_zeroed)
      in (segment_info_new index header)\<lparr>si_write_position := length file_data, si_state := Frozen\<rparr>)"

definition grow_segments :: "nat \<Rightarrow> segment_info list \<Rightarrow> segment_info list" where
  "grow_segments index segs =
     segs @ map (\<lambda>i. segment_info_new i segment_header_zeroed) [length segs..<Suc index]"

fun load_segments :: "(os_name \<times> byte list option) list \<Rightarrow> segment_info list \<Rightarrow> (alloc_error + unit) \<times> segment_info list" where
  "load_segments [] segs = (Inr (), segs)"
| "load_segments ((name, content) # rest) segs =
     (case name of
        NonUtf8 _ \<Rightarrow> load_segments rest segs
      | Utf8 name_str \<Rightarrow>
          (case parse_data_filename name_str of
             None \<Rightarrow> load_segments rest segs
           | Some index \<Rightarrow>
               (case content of
                  None \<Rightarrow> (Inl FileUnreadable, segs)
                | Some file_data \<Rightarrow>
                    load_segments rest ((grow_segments index segs)[index := loaded_segment index file_data]))))"

definition load_existing :: "dir_listing \<Rightarrow> segment_allocator \<Rightarrow> (alloc_error + unit) \<times> segment_allocator" where
  "load_existing listing al =
     (case listing of
        NoDirectory \<Rightarrow> (Inr (), al)
      | DirUnreadable \<Rightarrow> (Inl ReadDirFailed, al)
      | Listing files \<Rightarrow> (case load_segments files (sa_segments al) of (r, segs) \<Rightarrow> (r, al\<lparr>sa_segments := segs\<rparr>)))"

text \<open>The first free list that has a block, and the first segment that has room at its end.\<close>

fun allocate_free :: "nat \<Rightarrow> nat \<Rightarrow> free_list list \<Rightarrow> ((nat \<times> nat) option \<times> free_list list) option" where
  "allocate_free n seg [] = Some (None, [])"
| "allocate_free n seg (f # fs) = do {
     (r, f') \<leftarrow> free_list_allocate n f;
     (case r of
        Some offset \<Rightarrow> Some (Some (seg, offset), f' # fs)
      | None \<Rightarrow> do {
          (r, fs') \<leftarrow> allocate_free n (Suc seg) fs;
          Some (r, f' # fs')
        })
   }"

fun allocate_bump :: "nat \<Rightarrow> segment_info list \<Rightarrow> (nat \<times> nat) option \<times> segment_info list" where
  "allocate_bump n [] = (None, [])"
| "allocate_bump n (info # segs) =
     (if has_space_for info n
      then (Some (si_index info, si_write_position info), info\<lparr>si_write_position := si_write_position info + n\<rparr> # segs)
      else case allocate_bump n segs of (r, segs') \<Rightarrow> (r, info # segs'))"

text \<open>
  A failed write of the new file leaves nothing or any part of a file behind. \<open>dir\<close> is the data
  directory.
\<close>

datatype create_io = CreateOk | CreateFails "byte list option"

definition allocate_new ::
  "create_io \<Rightarrow> nat \<Rightarrow> segment_allocator \<Rightarrow> directory \<Rightarrow> (alloc_error + allocation) \<times> segment_allocator \<times> directory" where
  "allocate_new io n al dir =
     (let new_index = length (sa_segments al) in
      if new_index \<ge> 2 ^ 16 then (Inl TooManySegments, al, dir)
      else if new_index \<ge> sa_max_segments al then (Inl MaxSegmentsReached, al, dir)
      else let header = segment_header_generate (word_of_nat new_index) (sa_path_hash al);
               data_path = Utf8 (segment_data_path new_index)
           in case io of
                CreateFails None \<Rightarrow> (Inl CreateFailed, al, dir)
              | CreateFails (Some part) \<Rightarrow> (Inl CreateFailed, al, AList.update data_path part dir)
              | CreateOk \<Rightarrow>
                  let info = segment_info_new new_index header; offset = si_write_position info
                  in (Inr \<lparr>al_segment = new_index, al_offset = offset\<rparr>,
                      al\<lparr>sa_segments := sa_segments al @ [info\<lparr>si_write_position := offset + n\<rparr>],
                         sa_free_lists := sa_free_lists al @ [[]]\<rparr>,
                      AList.update data_path (segment_header_to_bytes header) dir))"

definition allocate ::
  "create_io \<Rightarrow> nat \<Rightarrow> bool \<Rightarrow> segment_allocator \<Rightarrow> directory
   \<Rightarrow> ((alloc_error + allocation) \<times> segment_allocator \<times> directory) option" where
  "allocate io n use_free_list al dir =
     (if n \<ge> 2 ^ 32 then Some (Inl SizeTooLarge, al, dir)
      else do {
        (r, fls) \<leftarrow> (if use_free_list then allocate_free n 0 (sa_free_lists al) else Some (None, sa_free_lists al));
        let al = al\<lparr>sa_free_lists := fls\<rparr>;
        (case r of
           Some (seg, offset) \<Rightarrow>
             Some (if seg \<ge> 2 ^ 16 then Inl IndexTooLarge else Inr \<lparr>al_segment = seg, al_offset = offset\<rparr>, al, dir)
         | None \<Rightarrow>
             (case allocate_bump n (sa_segments al) of
                (Some (seg, offset), segs) \<Rightarrow>
                  Some (if offset \<ge> 2 ^ 32 then Inl OffsetTooLarge else Inr \<lparr>al_segment = seg, al_offset = offset\<rparr>,
                        al\<lparr>sa_segments := segs\<rparr>, dir)
              | (None, _) \<Rightarrow> Some (allocate_new io n al dir)))
      })"

definition free_span :: "nat \<Rightarrow> nat \<Rightarrow> nat \<Rightarrow> segment_allocator \<Rightarrow> segment_allocator" where
  "free_span seg offset len al =
     (let fls = sa_free_lists al @ replicate (Suc seg - length (sa_free_lists al)) []
      in al\<lparr>sa_free_lists := fls[seg := free_list_insert offset len (fls ! seg)]\<rparr>)"

definition set_state :: "segment_state \<Rightarrow> segment_state \<Rightarrow> nat \<Rightarrow> segment_allocator \<Rightarrow> bool \<times> segment_allocator" where
  "set_state old new seg al =
     (if seg < length (sa_segments al) \<and> si_state (sa_segments al ! seg) = old
      then (True, al\<lparr>sa_segments := (sa_segments al)[seg := (sa_segments al ! seg)\<lparr>si_state := new\<rparr>]\<rparr>)
      else (False, al))"

definition freeze :: "nat \<Rightarrow> segment_allocator \<Rightarrow> bool \<times> segment_allocator" where
  "freeze = set_state Thawed Frozen"

definition thaw :: "nat \<Rightarrow> segment_allocator \<Rightarrow> bool \<times> segment_allocator" where
  "thaw = set_state Frozen Thawed"

definition segment_count :: "segment_allocator \<Rightarrow> nat" where
  "segment_count al = length (sa_segments al)"

section \<open>Names\<close>

lemma dec_value_dec03 [simp]: "dec_value (dec03 n) = n"
proof -
  have "foldl (\<lambda>a c. 10 * a + (of_char c - 48 :: nat)) 0 (replicate k (CHR ''0'') @ s) = dec_value s" for k s
    by (induction k) (simp_all add: dec_value_def)
  then show ?thesis
    using dec_value_dec [of n] by (simp add: dec03_def dec_value_def)
qed

lemma dec03_inj: "dec03 m = dec03 n \<Longrightarrow> m = n"
  by (metis dec_value_dec03)

lemma segment_data_path_inj: "segment_data_path m = segment_data_path n \<longleftrightarrow> m = n"
  by (auto simp: segment_data_path_def dest: dec03_inj)

lemma length_dec: "n < 10 \<Longrightarrow> length (dec n) = 1" "10 \<le> n \<Longrightarrow> length (dec n) = Suc (length (dec (n div 10)))"
  by (simp_all add: dec.simps [of n])

lemma length_dec03: "n < 10000 \<Longrightarrow> length (dec03 n) = (if n < 1000 then 3 else 4)"
  using length_dec(1) [of n] length_dec [of "n div 10"] length_dec [of "n div 100"] length_dec [of "n div 1000"] length_dec(2) [of n]
  by (cases "n < 10"; cases "n < 100"; cases "n < 1000") (auto simp: dec03_def div_mult2_eq [symmetric])

lemma parse_segment_data_path: "n < MAX_SEGMENTS \<Longrightarrow> parse_data_filename (segment_data_path n) = Some n"
proof -
  assume n: "n < MAX_SEGMENTS"
  have "list_all is_digit (dec03 n)"
    using dec_digits [of n] by (auto simp: dec03_def is_digit_def list_all_iff Let_def)
  then show ?thesis
    using n length_dec03 [of n] by (simp add: parse_data_filename_def segment_data_path_def MAX_SEGMENTS_def)
qed

section \<open>Histories of an allocator\<close>

text \<open>
  A block that was handed out and not returned is live. A history starts with the segments of a
  directory whose data files have at least their header, allocates blocks that fit into a segment,
  and returns live blocks only.
\<close>

type_synonym block = "nat \<times> nat \<times> nat"

definition block_bytes :: "block \<Rightarrow> (nat \<times> nat) set" where
  "block_bytes = (\<lambda>(seg, p, n). {seg} \<times> {p..<p + n})"

definition has_header :: "os_name \<times> byte list option \<Rightarrow> bool" where
  "has_header = (\<lambda>(name, content). case content of None \<Rightarrow> True | Some d \<Rightarrow> SEGMENT_HEADER_SIZE \<le> length d)"

inductive alloc_run :: "segment_allocator \<Rightarrow> block list \<Rightarrow> bool" where
  start: "\<forall>f\<in>set files. has_header f \<Longrightarrow> load_existing (Listing files) (allocator_new path_hash m) = (r, al) \<Longrightarrow>
    alloc_run al []"
| alloc: "alloc_run al live \<Longrightarrow> 0 < n \<Longrightarrow> SEGMENT_HEADER_SIZE + n \<le> SEGMENT_SIZE \<Longrightarrow>
    allocate io n use al dir = Some (Inr a, al', dir') \<Longrightarrow> alloc_run al' ((al_segment a, al_offset a, n) # live)"
| alloc_fails: "alloc_run al live \<Longrightarrow> 0 < n \<Longrightarrow> SEGMENT_HEADER_SIZE + n \<le> SEGMENT_SIZE \<Longrightarrow>
    allocate io n use al dir = Some (Inl e, al', dir') \<Longrightarrow> alloc_run al' live"
| free: "alloc_run al live \<Longrightarrow> (seg, p, n) \<in> set live \<Longrightarrow>
    alloc_run (free_span seg p n al) (remove1 (seg, p, n) live)"
| freeze: "alloc_run al live \<Longrightarrow> alloc_run (snd (freeze seg al)) live"
| thaw: "alloc_run al live \<Longrightarrow> alloc_run (snd (thaw seg al)) live"

definition write_pos :: "segment_allocator \<Rightarrow> nat \<Rightarrow> nat" where
  "write_pos al seg = (if seg < length (sa_segments al) then si_write_position (sa_segments al ! seg) else 0)"

definition free_in :: "segment_allocator \<Rightarrow> nat \<Rightarrow> nat set" where
  "free_in al seg = (if seg < length (sa_free_lists al) then free_bytes (sa_free_lists al ! seg) else {})"

text \<open>
  \<open>area\<close> is what lies between the header and the write position of a segment; free bytes and live
  blocks share it without overlap.
\<close>

definition area :: "segment_allocator \<Rightarrow> nat \<Rightarrow> nat set" where
  "area al seg = {SEGMENT_HEADER_SIZE..<min (write_pos al seg) SEGMENT_SIZE}"

definition indexed :: "segment_info list \<Rightarrow> bool" where
  "indexed segs \<longleftrightarrow>
     (\<forall>i<length segs. si_index (segs ! i) = i \<and> SEGMENT_HEADER_SIZE \<le> si_write_position (segs ! i))"

definition segments_inv :: "segment_allocator \<Rightarrow> bool" where
  "segments_inv al \<longleftrightarrow>
     indexed (sa_segments al) \<and> list_all free_list_wf (sa_free_lists al)"

definition block_ok :: "segment_allocator \<Rightarrow> block \<Rightarrow> bool" where
  "block_ok al = (\<lambda>(seg, p, n).
     SEGMENT_HEADER_SIZE \<le> p \<and> p + n \<le> SEGMENT_SIZE \<and> p + n \<le> write_pos al seg \<and> {p..<p + n} \<inter> free_in al seg = {})"

fun disjoint_blocks :: "block list \<Rightarrow> bool" where
  "disjoint_blocks [] \<longleftrightarrow> True"
| "disjoint_blocks (b # bs) \<longleftrightarrow> (\<forall>c\<in>set bs. block_bytes b \<inter> block_bytes c = {}) \<and> disjoint_blocks bs"

definition alloc_inv :: "segment_allocator \<Rightarrow> block list \<Rightarrow> bool" where
  "alloc_inv al live \<longleftrightarrow>
     segments_inv al \<and> (\<forall>seg. free_in al seg \<subseteq> area al seg) \<and> (\<forall>b\<in>set live. block_ok al b) \<and> disjoint_blocks live"

lemma block_bytes_disjoint:
  "block_bytes (s, p, n) \<inter> block_bytes (s', p', n') = {} \<longleftrightarrow> s \<noteq> s' \<or> {p..<p + n} \<inter> {p'..<p' + n'} = {}"
  unfolding block_bytes_def prod.case Times_Int_Times by blast

lemma disjoint_remove1: "disjoint_blocks live \<Longrightarrow> disjoint_blocks (remove1 b live)"
proof (induction live)
  case (Cons c live)
  then show ?case using set_remove1_subset [of b live] by (cases "b = c") auto
qed simp

lemma disjoint_from_removed:
  "disjoint_blocks live \<Longrightarrow> b \<in> set live \<Longrightarrow> c \<in> set (remove1 b live) \<Longrightarrow> block_bytes b \<inter> block_bytes c = {}"
proof (induction live)
  case (Cons d live)
  then show ?case by (cases "b = d") (auto simp: Int_commute)
qed simp

section \<open>Every operation keeps the invariant\<close>

lemma indexed_append: "indexed (segs @ [info]) \<longleftrightarrow>
  indexed segs \<and> si_index info = length segs \<and> SEGMENT_HEADER_SIZE \<le> si_write_position info"
  by (auto simp: indexed_def nth_append less_Suc_eq)

lemma indexed_update:
  "indexed segs \<Longrightarrow> si_index info = i \<Longrightarrow> SEGMENT_HEADER_SIZE \<le> si_write_position info \<Longrightarrow> indexed (segs[i := info])"
  by (cases "i < length segs") (auto simp: indexed_def nth_list_update)

lemma indexed_grow: "indexed segs \<Longrightarrow> indexed (grow_segments k segs)"
  by (auto simp: indexed_def grow_segments_def nth_append segment_info_new_def less_diff_conv)

lemma loaded_segment_fields [simp]:
  "si_index (loaded_segment k d) = k" "si_write_position (loaded_segment k d) = length d"
  "si_state (loaded_segment k d) = Frozen"
  by (simp_all add: loaded_segment_def segment_info_new_def Let_def)

lemma load_segments_inv:
  "indexed segs \<Longrightarrow> \<forall>f\<in>set files. has_header f \<Longrightarrow> indexed (snd (load_segments files segs))"
proof (induction files arbitrary: segs)
  case (Cons f files)
  obtain name content where f: "f = (name, content)" by fastforce
  have "indexed ((grow_segments k segs)[k := loaded_segment k d])" if "content = Some d" for k d
    using Cons.prems that by (intro indexed_update indexed_grow) (simp_all add: f has_header_def)
  then show ?case
    using Cons by (cases name; cases content) (simp_all add: f split: option.splits)
qed simp

lemma allocate_free_cases:
  assumes "list_all free_list_wf fls"
  obtains (found) seg p f' where "seg < length fls" "free_list_allocate n (fls ! seg) = Some (Some p, f')"
      "allocate_free n k fls = Some (Some (k + seg, p), fls[seg := f'])"
    | (refused) "allocate_free n k fls = Some (None, fls)"
  using assms
proof (induction fls arbitrary: k thesis)
  case (Cons f fls)
  note found = Cons.prems(1) and refused = Cons.prems(2)
  have wf: "free_list_wf f" "list_all free_list_wf fls" using Cons.prems(3) by simp_all
  show ?case
  proof (rule fl.alloc_cases [OF wf(1), of n])
    fix p f' assume "free_list_allocate n f = Some (Some p, f')"
    then show ?thesis by (intro found [of 0 p f']) simp_all
  next
    assume none: "free_list_allocate n f = Some (None, f)"
    show ?thesis
    proof (rule Cons.IH [of "Suc k"])
      fix seg p f'
      assume "seg < length fls" "free_list_allocate n (fls ! seg) = Some (Some p, f')"
        "allocate_free n (Suc k) fls = Some (Some (Suc k + seg, p), fls[seg := f'])"
      then show ?thesis using none by (intro found [of "Suc seg" p f']) simp_all
    next
      assume "allocate_free n (Suc k) fls = Some (None, fls)"
      then show ?thesis using none by (intro refused) simp
    qed (rule wf)
  qed
qed simp

lemma allocate_bump_cases:
  obtains (found) k where "k < length segs" "has_space_for (segs ! k) n"
      "allocate_bump n segs = (Some (si_index (segs ! k), si_write_position (segs ! k)),
         segs[k := (segs ! k)\<lparr>si_write_position := si_write_position (segs ! k) + n\<rparr>])"
    | (refused) "\<forall>info\<in>set segs. \<not> has_space_for info n" "allocate_bump n segs = (None, segs)"
proof (induction segs arbitrary: thesis)
  case (Cons info segs)
  note found = Cons.prems(1) and refused = Cons.prems(2)
  show ?case
  proof (cases "has_space_for info n")
    case True
    then show ?thesis by (intro found [of 0]) simp_all
  next
    case False
    show ?thesis
    proof (rule Cons.IH)
      fix k
      assume "k < length segs" "has_space_for (segs ! k) n"
        "allocate_bump n segs = (Some (si_index (segs ! k), si_write_position (segs ! k)),
           segs[k := (segs ! k)\<lparr>si_write_position := si_write_position (segs ! k) + n\<rparr>])"
      then show ?thesis using False by (intro found [of "Suc k"]) simp_all
    qed (use False refused in simp)
  qed
qed simp

text \<open>A fresh block lies in free space or behind the write position of its segment.\<close>

definition fresh :: "segment_allocator \<Rightarrow> block \<Rightarrow> bool" where
  "fresh al = (\<lambda>(seg, p, n). {p..<p + n} \<subseteq> free_in al seg \<or> write_pos al seg \<le> p)"

lemma fresh_disjoint:
  assumes "alloc_inv al live" "fresh al b" "c \<in> set live"
  shows "block_bytes b \<inter> block_bytes c = {}"
proof -
  obtain seg p n seg' p' n' where bc: "b = (seg, p, n)" "c = (seg', p', n')" by (cases b; cases c) auto
  have "block_ok al c" using assms by (simp add: alloc_inv_def)
  then have "{p..<p + n} \<inter> {p'..<p' + n'} = {}" if "seg = seg'"
    using assms(2) that by (fastforce simp: bc fresh_def block_ok_def)
  then show ?thesis by (auto simp: bc block_bytes_disjoint)
qed

lemma alloc_inv_shrink:
  assumes inv: "alloc_inv al live" and wf: "segments_inv al'"
    and pos: "\<And>seg. write_pos al seg \<le> write_pos al' seg"
    and free: "\<And>seg. free_in al' seg \<subseteq> free_in al seg"
  shows "alloc_inv al' live"
proof -
  have "area al seg \<subseteq> area al' seg" for seg
    using pos [of seg] by (auto simp: area_def)
  then have "free_in al' seg \<subseteq> area al' seg" for seg
    using inv free [of seg] unfolding alloc_inv_def by blast
  moreover have "block_ok al' b" if "b \<in> set live" for b
  proof -
    obtain seg p n where "b = (seg, p, n)" by (cases b) auto
    moreover have "block_ok al b" using inv that by (simp add: alloc_inv_def)
    ultimately show ?thesis using pos [of seg] free [of seg] by (auto simp: block_ok_def)
  qed
  ultimately show ?thesis
    using inv wf by (simp add: alloc_inv_def)
qed

lemma alloc_inv_extend:
  assumes "alloc_inv al live" "fresh al b" "alloc_inv al' live" "block_ok al' b"
  shows "alloc_inv al' (b # live)"
  using assms fresh_disjoint [OF assms(1,2)] by (simp add: alloc_inv_def)

definition keeps :: "segment_allocator \<Rightarrow> block list \<Rightarrow> segment_allocator \<Rightarrow> block \<Rightarrow> bool" where
  "keeps al live al' b \<longleftrightarrow> alloc_inv al' live \<and> alloc_inv al' (b # live)"

lemma free_stage:
  assumes inv: "alloc_inv al live" and n: "0 < n" and seg: "seg < length (sa_free_lists al)"
    and alloc: "free_list_allocate n (sa_free_lists al ! seg) = Some (Some p, f')"
  shows "keeps al live (al\<lparr>sa_free_lists := (sa_free_lists al)[seg := f']\<rparr>) (seg, p, n)"
proof -
  define al' where "al' = al\<lparr>sa_free_lists := (sa_free_lists al)[seg := f']\<rparr>"
  have wf: "free_list_wf (sa_free_lists al ! seg)"
    using inv seg by (simp add: alloc_inv_def segments_inv_def list_all_length)
  note f' = fl.alloc_wf [OF wf alloc] fl.alloc_block [OF wf alloc] fl.alloc_bytes [OF wf alloc]
  have free: "free_in al' s = (if s = seg then free_in al seg - {p..<p + n} else free_in al s)" for s
    using seg f'(3) by (auto simp: al'_def free_in_def nth_list_update)
  have pos [simp]: "write_pos al' s = write_pos al s" for s by (simp add: al'_def write_pos_def)
  have "segments_inv al'"
    using inv f'(1) seg by (auto simp: al'_def alloc_inv_def segments_inv_def list_all_length nth_list_update)
  then have inv': "alloc_inv al' live"
    using free by (intro alloc_inv_shrink [OF inv]) auto
  have block: "{p..<p + n} \<subseteq> free_in al seg" using f'(2) seg by (simp add: free_in_def)
  moreover have "free_in al seg \<subseteq> area al seg" using inv by (simp add: alloc_inv_def)
  ultimately have "{p..<p + n} \<subseteq> area al seg" by blast
  then have "block_ok al' (seg, p, n)"
    using n free by (auto simp: block_ok_def area_def)
  then show ?thesis
    using alloc_inv_extend [OF inv _ inv'] block inv' by (simp add: keeps_def fresh_def al'_def)
qed

lemma bump_stage:
  assumes inv: "alloc_inv al live" and k: "k < length (sa_segments al)" "has_space_for (sa_segments al ! k) n"
  defines "info \<equiv> sa_segments al ! k"
  shows "keeps al live (al\<lparr>sa_segments := (sa_segments al)[k := info\<lparr>si_write_position := si_write_position info + n\<rparr>]\<rparr>)
    (si_index info, si_write_position info, n)"
proof -
  define al' where "al' = al\<lparr>sa_segments := (sa_segments al)[k := info\<lparr>si_write_position := si_write_position info + n\<rparr>]\<rparr>"
  have ix: "indexed (sa_segments al)" using inv by (simp add: alloc_inv_def segments_inv_def)
  then have info: "si_index info = k" "SEGMENT_HEADER_SIZE \<le> si_write_position info" "write_pos al k = si_write_position info"
    using k(1) by (simp_all add: indexed_def info_def write_pos_def)
  have pos: "write_pos al' s = (if s = k then write_pos al k + n else write_pos al s)" for s
    using k(1) by (auto simp: al'_def write_pos_def info_def nth_list_update)
  have free [simp]: "free_in al' s = free_in al s" for s by (simp add: al'_def free_in_def)
  have "segments_inv al'"
    using inv info indexed_update [OF ix, of "info\<lparr>si_write_position := si_write_position info + n\<rparr>" k]
    by (simp add: al'_def alloc_inv_def segments_inv_def)
  then have inv': "alloc_inv al' live"
    using pos by (intro alloc_inv_shrink [OF inv]) auto
  have "free_in al k \<subseteq> area al k" using inv by (simp add: alloc_inv_def)
  then have "block_ok al' (k, si_write_position info, n)"
    using k info pos by (auto simp: block_ok_def area_def has_space_for_def info_def)
  then show ?thesis
    using alloc_inv_extend [OF inv _ inv'] info inv' by (simp add: keeps_def fresh_def al'_def)
qed

lemma new_stage:
  assumes inv: "alloc_inv al live" and n: "SEGMENT_HEADER_SIZE + n \<le> SEGMENT_SIZE"
    and new: "allocate_new io n al dir = (r, al', dir')"
  shows "alloc_inv al' live \<and> (\<forall>a. r = Inr a \<longrightarrow> keeps al live al' (al_segment a, al_offset a, n))"
proof (cases r)
  case (Inl e)
  then show ?thesis
    using new inv by (auto simp: allocate_new_def Let_def split: if_splits create_io.splits option.splits)
next
  case (Inr a)
  define k where "k = length (sa_segments al)"
  define info where "info = segment_info_new k (segment_header_generate (word_of_nat k) (sa_path_hash al))"
  have a: "al_segment a = k" "al_offset a = SEGMENT_HEADER_SIZE"
    and al': "al' = al\<lparr>sa_segments := sa_segments al @ [info\<lparr>si_write_position := SEGMENT_HEADER_SIZE + n\<rparr>],
                       sa_free_lists := sa_free_lists al @ [[]]\<rparr>"
    using new Inr by (auto simp: allocate_new_def Let_def k_def info_def segment_info_new_def
        split: if_splits create_io.splits option.splits)
  have ix: "indexed (sa_segments al)" "\<And>s. free_in al s \<subseteq> area al s" using inv by (simp_all add: alloc_inv_def segments_inv_def)
  have pos: "write_pos al' s = (if s = k then SEGMENT_HEADER_SIZE + n else write_pos al s)" "write_pos al k = 0" for s
    by (auto simp: al' write_pos_def k_def nth_append)
  have free: "free_in al' s = free_in al s" for s
    by (auto simp: al' free_in_def nth_append)
  have "segments_inv al'"
    using inv ix(1) by (simp add: al' alloc_inv_def segments_inv_def indexed_append info_def segment_info_new_def k_def)
  then have inv': "alloc_inv al' live"
    using pos free by (intro alloc_inv_shrink [OF inv]) auto
  have "free_in al k = {}" using ix(2) [of k] pos(2) by (auto simp: area_def)
  then have "block_ok al' (k, SEGMENT_HEADER_SIZE, n)"
    using n pos free by (simp add: block_ok_def)
  then show ?thesis
    using alloc_inv_extend [OF inv _ inv'] inv' pos(2) a Inr by (simp add: keeps_def fresh_def)
qed

lemma allocate_inv:
  assumes inv: "alloc_inv al live" and n: "0 < n" "SEGMENT_HEADER_SIZE + n \<le> SEGMENT_SIZE"
  obtains r al' dir' where "allocate io n use al dir = Some (r, al', dir')" "alloc_inv al' live"
    "\<And>a. r = Inr a \<Longrightarrow> alloc_inv al' ((al_segment a, al_offset a, n) # live)"
proof -
  note result = that
  have n32: "\<not> 2 ^ 32 \<le> n" using n by (simp add: SEGMENT_SIZE_def)
  have wf: "list_all free_list_wf (sa_free_lists al)" using inv by (simp add: alloc_inv_def segments_inv_def)
  have rest: thesis if none: "(if use then allocate_free n 0 (sa_free_lists al) else Some (None, sa_free_lists al)) = Some (None, sa_free_lists al)"
  proof (rule allocate_bump_cases [of "sa_segments al" n])
    fix k assume k: "k < length (sa_segments al)" "has_space_for (sa_segments al ! k) n"
      "allocate_bump n (sa_segments al) = (Some (si_index (sa_segments al ! k), si_write_position (sa_segments al ! k)),
        (sa_segments al)[k := (sa_segments al ! k)\<lparr>si_write_position := si_write_position (sa_segments al ! k) + n\<rparr>])"
    show thesis
      by (rule result) (use n32 none k bump_stage [OF inv k(1,2)] in \<open>auto simp: allocate_def keeps_def split: if_splits\<close>)
  next
    assume "allocate_bump n (sa_segments al) = (None, sa_segments al)"
    moreover obtain r al' dir' where "allocate_new io n al dir = (r, al', dir')" by (cases "allocate_new io n al dir") auto
    ultimately show thesis
      using n32 none new_stage [OF inv n(2)] by (intro result) (auto simp: allocate_def keeps_def)
  qed
  show thesis
  proof (cases use)
    case True
    show thesis
    proof (rule allocate_free_cases [OF wf, of n 0])
      fix seg p f'
      assume s: "seg < length (sa_free_lists al)" "free_list_allocate n (sa_free_lists al ! seg) = Some (Some p, f')"
        "allocate_free n 0 (sa_free_lists al) = Some (Some (0 + seg, p), (sa_free_lists al)[seg := f'])"
      then show thesis
        using n32 True free_stage [OF inv n(1) s(1,2)] by (intro result) (auto simp: allocate_def keeps_def split: if_splits)
    next
      assume "allocate_free n 0 (sa_free_lists al) = Some (None, sa_free_lists al)"
      then show thesis by (intro rest) (simp add: True)
    qed
  next
    case False
    then show thesis by (intro rest) simp
  qed
qed

lemma free_span_inv:
  assumes inv: "alloc_inv al live" and b: "(seg, p, n) \<in> set live"
  shows "alloc_inv (free_span seg p n al) (remove1 (seg, p, n) live)"
proof -
  define al' where "al' = free_span seg p n al"
  define fls where "fls = sa_free_lists al @ replicate (Suc seg - length (sa_free_lists al)) []"
  have len: "seg < length fls" by (simp add: fls_def)
  have al': "al' = al\<lparr>sa_free_lists := fls[seg := free_list_insert p n (fls ! seg)]\<rparr>"
    by (simp add: al'_def free_span_def fls_def Let_def)
  have wf: "list_all free_list_wf fls"
    using inv by (auto simp: alloc_inv_def segments_inv_def fls_def list_all_iff)
  have fls: "free_in al s = (if s < length fls then free_bytes (fls ! s) else {})" for s
    by (auto simp: free_in_def fls_def nth_append)
  have ok: "SEGMENT_HEADER_SIZE \<le> p" "p + n \<le> SEGMENT_SIZE" "p + n \<le> write_pos al seg" "p + n \<le> U32_MAX"
    using inv b by (auto simp: alloc_inv_def block_ok_def SEGMENT_SIZE_def U32_MAX_def)
  have wf_seg: "free_list_wf (fls ! seg)" using wf len by (simp add: list_all_length)
  have free: "free_in al' s = free_in al s \<union> (if s = seg then {p..<p + n} else {})" for s
    using fl.ins_bytes [OF wf_seg ok(4)] len fls [of s] by (auto simp: al' free_in_def nth_list_update)
  have pos [simp]: "write_pos al' s = write_pos al s" for s by (simp add: al' write_pos_def)
  have "segments_inv al'"
    using inv wf fl.ins_wf [OF wf_seg ok(4)] len
    by (auto simp: al' alloc_inv_def segments_inv_def list_all_length nth_list_update)
  moreover have "free_in al' s \<subseteq> area al' s" for s
    using inv ok free [of s] unfolding alloc_inv_def area_def by (cases "s = seg") auto
  moreover have "block_ok al' c" if c: "c \<in> set (remove1 (seg, p, n) live)" for c
  proof -
    obtain s q m where cs: "c = (s, q, m)" by (cases c) auto
    have "block_ok al c" using inv c notin_set_remove1 by (force simp: alloc_inv_def)
    moreover have "s \<noteq> seg \<or> {p..<p + n} \<inter> {q..<q + m} = {}"
      using disjoint_from_removed [OF _ b c] inv by (simp only: alloc_inv_def cs block_bytes_disjoint) blast
    ultimately show ?thesis using free [of s] by (auto simp: cs block_ok_def)
  qed
  ultimately show ?thesis
    using inv disjoint_remove1 by (auto simp: alloc_inv_def al'_def)
qed

lemma set_state_inv: "alloc_inv al live \<Longrightarrow> alloc_inv (snd (set_state old new seg al)) live"
proof -
  assume inv: "alloc_inv al live"
  have ix: "indexed (sa_segments al)" using inv by (simp add: alloc_inv_def segments_inv_def)
  have "indexed ((sa_segments al)[seg := (sa_segments al ! seg)\<lparr>si_state := new\<rparr>])" if "seg < length (sa_segments al)"
    using ix that by (intro indexed_update) (simp_all add: indexed_def)
  then have "segments_inv (snd (set_state old new seg al))"
    using inv by (auto simp: set_state_def alloc_inv_def segments_inv_def)
  moreover have "write_pos (snd (set_state old new seg al)) s = write_pos al s"
    "free_in (snd (set_state old new seg al)) s = free_in al s" for s
    by (auto simp: set_state_def write_pos_def free_in_def nth_list_update)
  ultimately show ?thesis
    by (intro alloc_inv_shrink [OF inv]) auto
qed

lemma alloc_run_inv: "alloc_run al live \<Longrightarrow> alloc_inv al live"
proof (induction rule: alloc_run.induct)
  case (start files path_hash m r al)
  then have "indexed (sa_segments al)" "sa_free_lists al = []"
    using load_segments_inv [of "[]" files]
    by (auto simp: load_existing_def allocator_new_def indexed_def split: prod.splits)
  then show ?case by (simp add: alloc_inv_def segments_inv_def free_in_def)
next
  case (alloc al live n io use dir a al' dir')
  show ?case
    by (rule allocate_inv [OF alloc.IH alloc.hyps(2,3), of io use dir]) (use alloc.hyps(4) in auto)
next
  case (alloc_fails al live n io use dir e al' dir')
  show ?case
    by (rule allocate_inv [OF alloc_fails.IH alloc_fails.hyps(2,3), of io use dir]) (use alloc_fails.hyps(4) in auto)
qed (simp_all add: free_span_inv set_state_inv freeze_def thaw_def)

lemma disjoint_blocks_nth:
  assumes "disjoint_blocks live" "i < j" "j < length live"
  shows "block_bytes (live ! i) \<inter> block_bytes (live ! j) = {}"
  using assms
proof (induction live arbitrary: i j)
  case (Cons b live)
  then show ?case by (cases i; cases j) auto
qed simp

lemma allocate_progress:
  assumes "alloc_inv al live" "0 < n" "SEGMENT_HEADER_SIZE + n \<le> SEGMENT_SIZE"
    and room: "length (sa_segments al) < min (sa_max_segments al) MAX_SEGMENTS" "length (sa_free_lists al) \<le> 2 ^ 16"
  shows "\<exists>a al' dir'. allocate CreateOk n use al dir = Some (Inr a, al', dir')"
proof -
  have n32: "\<not> 2 ^ 32 \<le> n" using assms by (simp add: SEGMENT_SIZE_def)
  have wf: "list_all free_list_wf (sa_free_lists al)" using assms by (simp add: alloc_inv_def segments_inv_def)
  obtain r fls where r: "(if use then allocate_free n 0 (sa_free_lists al) else Some (None, sa_free_lists al)) = Some (r, fls)"
    and seg: "\<And>seg p. r = Some (seg, p) \<Longrightarrow> seg < 2 ^ 16"
    by (rule allocate_free_cases [OF wf, of n 0]) (use room(2) in \<open>fastforce split: if_splits\<close>)+
  show ?thesis
  proof (cases r)
    case (Some b)
    then show ?thesis using r seg n32 by (cases b) (auto simp: allocate_def)
  next
    case None
    obtain b segs where bump: "allocate_bump n (sa_segments al) = (b, segs)" by fastforce
    have "p < 2 ^ 32" if "b = Some (i, p)" for i p
      by (rule allocate_bump_cases [of "sa_segments al" n])
         (use bump that in \<open>auto simp: has_space_for_def SEGMENT_SIZE_def\<close>)
    then show ?thesis
      using r None bump n32 room by (auto simp: allocate_def allocate_new_def Let_def MAX_SEGMENTS_def split: option.splits)
  qed
qed


lemma first_allocation:
  fixes h :: "byte list"
  assumes "0 < m" "n < 2 ^ 32"
  defines "info \<equiv> (segment_info_new 0 (segment_header_generate 0 h))\<lparr>si_write_position := SEGMENT_HEADER_SIZE + n\<rparr>"
  shows "\<exists>dir'. allocate CreateOk n use (allocator_new h m) dir =
    Some (Inr \<lparr>al_segment = 0, al_offset = SEGMENT_HEADER_SIZE\<rparr>,
          \<lparr>sa_segments = [info], sa_free_lists = [[]], sa_max_segments = min m MAX_SEGMENTS, sa_path_hash = h\<rparr>, dir')"
  using assms
  by (simp add: allocate_def allocator_new_def allocate_new_def Let_def segment_info_new_def MAX_SEGMENTS_def)

lemma second_allocation:
  assumes "si_state info = Thawed" "si_write_position info + n \<le> SEGMENT_SIZE"
  shows "allocate io n False \<lparr>sa_segments = [info], sa_free_lists = fls, sa_max_segments = m, sa_path_hash = h\<rparr> dir =
    Some (Inr \<lparr>al_segment = si_index info, al_offset = si_write_position info\<rparr>,
          \<lparr>sa_segments = [info\<lparr>si_write_position := si_write_position info + n\<rparr>], sa_free_lists = fls,
           sa_max_segments = m, sa_path_hash = h\<rparr>, dir)"
  using assms by (simp add: allocate_def has_space_for_def SEGMENT_SIZE_def)


text \<open>
  The bound on the size is needed. Creating a segment does not look at it: a request of 2 GiB is
  granted in a new segment, where it reaches past the 1 GiB that the segment has in the address space
  of all segments.
\<close>

lemma oversized_allocation:
  "0 < m \<Longrightarrow> \<exists>a al' dir'. allocate CreateOk (2 ^ 31) use (allocator_new h m) dir = Some (Inr a, al', dir')
     \<and> SEGMENT_SIZE < al_offset a + 2 ^ 31"
  using first_allocation [of m "2 ^ 31" use h dir] by (fastforce simp: SEGMENT_SIZE_def)

text \<open>
  Freezing does not protect a segment either: the free lists are searched whatever the state of their
  segment.
\<close>

lemma frozen_segment_reused:
  assumes "si_state info = Frozen" "n < 2 ^ 32" "0 < n"
  shows "\<exists>al'. allocate io n True \<lparr>sa_segments = [info], sa_free_lists = [[\<lparr>fs_offset = p, fs_length = n\<rparr>]],
      sa_max_segments = m, sa_path_hash = h\<rparr> dir = Some (Inr \<lparr>al_segment = 0, al_offset = p\<rparr>, al', dir)"
  using assms by (simp add: allocate_def)

end
