(* ===== verification/Archive.thy ===== *)
theory Archive
  imports Segment Blte_Builder Lsm
begin

text \<open>
  The archive manager, \<open>cascette-client-storage/src/storage/archive_file.rs\<close>: data files with their
  memory maps, the choice of an archive for a write, entries with their local header, reading them
  back through BLTE, segment headers and truncation to the used size. MD5 and the block codecs are
  arguments; which file operations succeed is an argument too. Mapped memory is the file itself, cut
  at the size of the map: a write to the file shows in it.
\<close>

section \<open>Model: state\<close>

definition MAX_ARCHIVE_SIZE :: nat where "MAX_ARCHIVE_SIZE = SEGMENT_SIZE"

text \<open>
  \<open>af_detached\<close> is the content of a map whose file has been replaced by another one under the same
  name.
\<close>

record archive_file =
  af_path :: string
  af_size :: nat
  af_detached :: "byte list option"

record archive_manager =
  am_archives :: "(u16 \<times> archive_file) list"
  am_base_path :: "byte list"
  am_write_positions :: "(u16 \<times> nat) list"
  am_default_compression :: compression_mode
  am_files :: directory

datatype archive_error =
    ArReadDir | ArMetadata | ArOpen | ArNotFound | ArBounds | ArParse | ArDecompress | ArUnsupported | ArCompress
  | ArTooLarge | ArCreate | ArWrite | ArLimit | ArRemap | ArOffset | ArCompaction

text \<open>
  A file operation works, or fails before it changed anything, or fails after some bytes were
  written.
\<close>

datatype write_io = WriteOk | WriteFails "nat option"

record archive_io =
  io_create :: write_io
  io_open_ok :: bool
  io_write :: write_io
  io_stat_ok :: bool
  io_remap_ok :: bool

definition file_of :: "archive_manager \<Rightarrow> string \<Rightarrow> byte list" where
  "file_of m path = (case map_of (am_files m) (Utf8 path) of Some d \<Rightarrow> d | None \<Rightarrow> [])"

definition put_file :: "string \<Rightarrow> byte list \<Rightarrow> archive_manager \<Rightarrow> archive_manager" where
  "put_file path d m = m\<lparr>am_files := AList.update (Utf8 path) d (am_files m)\<rparr>"

definition mmap :: "archive_manager \<Rightarrow> archive_file \<Rightarrow> byte list" where
  "mmap m af = (case af_detached af of Some old \<Rightarrow> old | None \<Rightarrow> take (af_size af) (file_of m (af_path af)))"

text \<open>Seeking past the end and writing fills the gap with zeros.\<close>

definition write_at :: "nat \<Rightarrow> byte list \<Rightarrow> byte list \<Rightarrow> byte list" where
  "write_at offset data file = put_slice offset data (file @ replicate (offset - length file) 0)"

section \<open>Model: opening\<close>

definition with_compression_mode :: "byte list \<Rightarrow> compression_mode \<Rightarrow> directory \<Rightarrow> archive_manager" where
  "with_compression_mode base_path compression files =
     \<lparr>am_archives = [], am_base_path = base_path, am_write_positions = [], am_default_compression = compression,
      am_files = files\<rparr>"

definition archive_manager_new :: "byte list \<Rightarrow> directory \<Rightarrow> archive_manager" where
  "archive_manager_new base_path files = with_compression_mode base_path ModeNone files"

definition set_compression_mode :: "compression_mode \<Rightarrow> archive_manager \<Rightarrow> archive_manager" where
  "set_compression_mode mode m = m\<lparr>am_default_compression := mode\<rparr>"

definition open_archive ::
  "bool \<Rightarrow> u16 \<Rightarrow> string \<Rightarrow> archive_manager \<Rightarrow> (archive_error, unit) outcome \<times> archive_manager" where
  "open_archive ok archive_id path m =
     (case map_of (am_files m) (Utf8 path) of
        None \<Rightarrow> (Fail ArOpen, m)
      | Some d \<Rightarrow>
          if \<not> ok then (Fail ArOpen, m)
          else (Ret (), m\<lparr>am_archives := AList.update archive_id \<lparr>af_path = path, af_size = length d, af_detached = None\<rparr>
                                           (am_archives m),
                          am_write_positions := bt_insert archive_id (length d) (am_write_positions m)\<rparr>))"

text \<open>\<open>str::parse::<u16>\<close>: an optional plus sign and digits.\<close>

definition parse_u16 :: "string \<Rightarrow> u16 option" where
  "parse_u16 s =
     (if s = [] \<or> s = ''+'' \<or> s = ''-'' then None
      else let digits = (if hd s = CHR ''+'' then tl s else s) in
           if list_all is_digit digits \<and> dec_value digits < 2 ^ 16 then Some (word_of_nat (dec_value digits)) else None)"

definition archive_file_id :: "string \<Rightarrow> u16 option" where
  "archive_file_id name =
     (if take 5 name = ''data.'' \<and> length name = 8 then parse_u16 (slice 5 8 name) else None)"

fun open_files ::
  "(string \<Rightarrow> bool) \<Rightarrow> (string \<Rightarrow> bool) \<Rightarrow> os_name list \<Rightarrow> archive_manager \<Rightarrow> (archive_error, unit) outcome \<times> archive_manager" where
  "open_files stat_ok ok [] m = (Ret (), m)"
| "open_files stat_ok ok (name # names) m =
     (case name of
        NonUtf8 _ \<Rightarrow> open_files stat_ok ok names m
      | Utf8 s \<Rightarrow>
          (case archive_file_id s of
             None \<Rightarrow> open_files stat_ok ok names m
           | Some archive_id \<Rightarrow>
               if \<not> stat_ok s then (Fail ArMetadata, m)
               else case open_archive (ok s) archive_id s m of
                      (Ret _, m') \<Rightarrow> open_files stat_ok ok names m'
                    | (e, m') \<Rightarrow> (e, m')))"

definition open_all ::
  "bool \<Rightarrow> (string \<Rightarrow> bool) \<Rightarrow> (string \<Rightarrow> bool) \<Rightarrow> archive_manager \<Rightarrow> (archive_error, unit) outcome \<times> archive_manager" where
  "open_all dir_ok stat_ok ok m =
     (if dir_ok then open_files stat_ok ok (map fst (am_files m)) m else (Fail ArReadDir, m))"

section \<open>Model: reading\<close>

definition read_raw :: "archive_manager \<Rightarrow> u16 \<Rightarrow> u32 \<Rightarrow> u32 \<Rightarrow> (archive_error, byte list) outcome" where
  "read_raw m archive_id offset sz =
     (case map_of (am_archives m) archive_id of
        None \<Rightarrow> Fail ArNotFound
      | Some af \<Rightarrow>
          if unat offset + unat sz > length (mmap m af) then Fail ArBounds
          else Ret (slice (unat offset) (unat offset + unat sz) (mmap m af)))"

definition decompress_blte_with_formats :: "codecs \<Rightarrow> byte list \<Rightarrow> (archive_error, byte list) outcome" where
  "decompress_blte_with_formats c data =
     (case blte_parse data of
        Fail _ \<Rightarrow> Fail ArParse
      | Panic \<Rightarrow> Panic
      | Ret f \<Rightarrow> (case blte_decompress c f of Ret d \<Rightarrow> Ret d | Fail _ \<Rightarrow> Fail ArDecompress | Panic \<Rightarrow> Panic))"

definition decode_entry :: "codecs \<Rightarrow> byte list \<Rightarrow> (archive_error, byte list) outcome" where
  "decode_entry c data =
     (if length data \<ge> LOCAL_HEADER_SIZE + 4 \<and> slice LOCAL_HEADER_SIZE (LOCAL_HEADER_SIZE + 4) data = BLTE_MAGIC
      then decompress_blte_with_formats c (drop LOCAL_HEADER_SIZE data)
      else if length data \<ge> 4 \<and> slice 0 4 data = BLTE_MAGIC then decompress_blte_with_formats c data
      else Ret data)"

definition read_content :: "codecs \<Rightarrow> archive_manager \<Rightarrow> u16 \<Rightarrow> u32 \<Rightarrow> u32 \<Rightarrow> (archive_error, byte list) outcome" where
  "read_content c m archive_id offset sz = obind (read_raw m archive_id offset sz) (decode_entry c)"

definition validate_entry :: "archive_manager \<Rightarrow> u16 \<Rightarrow> u32 \<Rightarrow> u32 \<Rightarrow> (archive_error, bool) outcome" where
  "validate_entry m archive_id offset sz =
     (case map_of (am_archives m) archive_id of
        None \<Rightarrow> Fail ArNotFound
      | Some af \<Rightarrow>
          if unat offset + unat sz > length (mmap m af) then Fail ArBounds
          else if sz = 0 then Ret False
          else let data = slice (unat offset) (unat offset + unat sz) (mmap m af) in
               if length data \<ge> LOCAL_HEADER_SIZE + 4 \<and> slice LOCAL_HEADER_SIZE (LOCAL_HEADER_SIZE + 4) data = BLTE_MAGIC
               then Ret True
               else if length data \<ge> 4 \<and> slice 0 4 data = BLTE_MAGIC then Ret True
               else Ret True)"

definition verify_content ::
  "codecs \<Rightarrow> (byte list \<Rightarrow> byte list) \<Rightarrow> archive_manager \<Rightarrow> u16 \<Rightarrow> u32 \<Rightarrow> u32 \<Rightarrow> byte list \<Rightarrow> (archive_error, bool) outcome" where
  "verify_content c md5 m archive_id offset sz expected_hash =
     obind (read_content c m archive_id offset sz) (\<lambda>content. Ret (md5 content = expected_hash))"

section \<open>Model: writing\<close>

definition compress_blte_with_mode :: "codecs \<Rightarrow> byte list \<Rightarrow> compression_mode \<Rightarrow> (archive_error, byte list) outcome" where
  "compress_blte_with_mode c data mode =
     (if mode = ModeEncrypted \<or> mode = ModeFrame then Fail ArUnsupported
      else case file_single_chunk c data mode of
             Ret f \<Rightarrow> Ret (blte_bytes f)
           | Fail _ \<Rightarrow> Fail ArCompress
           | Panic \<Rightarrow> Panic)"

fun first_with_room :: "nat \<Rightarrow> (u16 \<times> nat) list \<Rightarrow> u16 option" where
  "first_with_room needed [] = None"
| "first_with_room needed ((archive_id, pos) # positions) =
     (if pos + needed \<le> MAX_ARCHIVE_SIZE then Some archive_id else first_with_room needed positions)"

definition select_archive_for_write_sized :: "archive_manager \<Rightarrow> nat \<Rightarrow> u16" where
  "select_archive_for_write_sized m needed_bytes =
     (case first_with_room needed_bytes (am_write_positions m) of
        Some archive_id \<Rightarrow> archive_id
      | None \<Rightarrow> if length (am_write_positions m) < 2 ^ 16 - 1 then word_of_nat (length (am_write_positions m)) else 0)"

definition create_archive ::
  "archive_io \<Rightarrow> (byte list \<Rightarrow> byte list) \<Rightarrow> u16 \<Rightarrow> archive_manager \<Rightarrow> (archive_error, unit) outcome \<times> archive_manager" where
  "create_archive io md5 archive_id m =
     (let path = segment_data_path (unat archive_id);
          seg_header = segment_header_to_bytes (segment_header_generate archive_id (md5 (am_base_path m)))
      in case io_create io of
           WriteFails None \<Rightarrow> (Fail ArCreate, m)
         | WriteFails (Some k) \<Rightarrow> (Fail ArCreate, put_file path (take k seg_header) m)
         | WriteOk \<Rightarrow>
             (case open_archive (io_open_ok io) archive_id path (put_file path seg_header m) of
                (Ret _, m') \<Rightarrow>
                  (Ret (), m'\<lparr>am_write_positions := bt_insert archive_id SEGMENT_HEADER_SIZE (am_write_positions m')\<rparr>)
              | (e, m') \<Rightarrow> (e, m')))"

definition remap_archive ::
  "archive_io \<Rightarrow> u16 \<Rightarrow> string \<Rightarrow> nat \<Rightarrow> archive_manager \<Rightarrow> (archive_error, unit) outcome \<times> archive_manager" where
  "remap_archive io archive_id path new_size m =
     (if new_size > MAX_ARCHIVE_SIZE then (Fail ArLimit, m)
      else if \<not> io_remap_ok io then (Fail ArRemap, m)
      else (Ret (), m\<lparr>am_archives := AList.update archive_id \<lparr>af_path = path, af_size = new_size, af_detached = None\<rparr>
                                      (am_archives m)\<rparr>))"

definition write_to_archive ::
  "archive_io \<Rightarrow> u16 \<Rightarrow> nat \<Rightarrow> byte list \<Rightarrow> archive_manager \<Rightarrow> (archive_error, unit) outcome \<times> archive_manager" where
  "write_to_archive io archive_id offset data m =
     (case map_of (am_archives m) archive_id of
        None \<Rightarrow> (Fail ArNotFound, m)
      | Some af \<Rightarrow>
          let path = af_path af; file = file_of m path in
          (case io_write io of
             WriteFails None \<Rightarrow> (Fail ArWrite, m)
           | WriteFails (Some k) \<Rightarrow> (Fail ArWrite, put_file path (write_at offset (take k data) file) m)
           | WriteOk \<Rightarrow>
               let m = put_file path (write_at offset data file) m; new_size = length (file_of m path) in
               if \<not> io_stat_ok io then (Fail ArMetadata, m)
               else if new_size > af_size af then remap_archive io archive_id path new_size m
               else (Ret (), m)))"

text \<open>What the three ways to write an entry share: from the total size to the new write position.\<close>

definition write_entry ::
  "archive_io \<Rightarrow> (byte list \<Rightarrow> byte list) \<Rightarrow> byte list \<Rightarrow> byte list \<Rightarrow> archive_manager
   \<Rightarrow> (archive_error, u16 \<times> u32 \<times> u32) outcome \<times> archive_manager" where
  "write_entry io md5 ekey blte_data m =
     (let total_size = LOCAL_HEADER_SIZE + length blte_data in
      if total_size \<ge> 2 ^ 32 then (Fail ArTooLarge, m)
      else let archive_id = select_archive_for_write_sized m total_size in
           case (if map_of (am_archives m) archive_id = None then create_archive io md5 archive_id m else (Ret (), m)) of
             (Ret _, m) \<Rightarrow>
               let offset = (case map_of (am_write_positions m) archive_id of Some p \<Rightarrow> p | None \<Rightarrow> 0);
                   global_offset = ucast archive_id * word_of_nat SEGMENT_SIZE + word_of_nat offset;
                   header = local_header_new ekey (word_of_nat total_size) global_offset 0
               in (case write_to_archive io archive_id offset (local_header_to_bytes header @ blte_data) m of
                     (Ret _, m) \<Rightarrow>
                       (if offset \<ge> 2 ^ 32 then Fail ArOffset
                        else Ret (archive_id, word_of_nat offset, word_of_nat total_size),
                        m\<lparr>am_write_positions := bt_insert archive_id (offset + total_size) (am_write_positions m)\<rparr>)
                   | (Fail e, m) \<Rightarrow> (Fail e, m)
                   | (Panic, m) \<Rightarrow> (Panic, m))
           | (Fail e, m) \<Rightarrow> (Fail e, m)
           | (Panic, m) \<Rightarrow> (Panic, m))"

definition write_raw_content_with_ekey ::
  "archive_io \<Rightarrow> (byte list \<Rightarrow> byte list) \<Rightarrow> byte list \<Rightarrow> byte list \<Rightarrow> archive_manager
   \<Rightarrow> (archive_error, u16 \<times> u32 \<times> u32) outcome \<times> archive_manager" where
  "write_raw_content_with_ekey io md5 blte_data ekey m = write_entry io md5 ekey blte_data m"

definition write_raw_content ::
  "archive_io \<Rightarrow> (byte list \<Rightarrow> byte list) \<Rightarrow> byte list \<Rightarrow> archive_manager
   \<Rightarrow> (archive_error, u16 \<times> u32 \<times> u32 \<times> byte list) outcome \<times> archive_manager" where
  "write_raw_content io md5 blte_data m =
     (case write_entry io md5 (md5 blte_data) blte_data m of
        (r, m) \<Rightarrow> (obind r (\<lambda>(archive_id, offset, total). Ret (archive_id, offset, total, md5 blte_data)), m))"

definition write_content_with_mode ::
  "archive_io \<Rightarrow> codecs \<Rightarrow> (byte list \<Rightarrow> byte list) \<Rightarrow> byte list \<Rightarrow> compression_mode \<Rightarrow> archive_manager
   \<Rightarrow> (archive_error, u16 \<times> u32 \<times> u32 \<times> byte list) outcome \<times> archive_manager" where
  "write_content_with_mode io c md5 data mode m =
     (case compress_blte_with_mode c data mode of
        Ret blte_data \<Rightarrow>
          (case write_entry io md5 (md5 blte_data) blte_data m of
             (r, m) \<Rightarrow> (obind r (\<lambda>(archive_id, offset, total). Ret (archive_id, offset, total, md5 blte_data)), m))
      | Fail e \<Rightarrow> (Fail e, m)
      | Panic \<Rightarrow> (Panic, m))"

definition write_content ::
  "archive_io \<Rightarrow> codecs \<Rightarrow> (byte list \<Rightarrow> byte list) \<Rightarrow> byte list \<Rightarrow> bool \<Rightarrow> archive_manager
   \<Rightarrow> (archive_error, u16 \<times> u32 \<times> u32 \<times> byte list) outcome \<times> archive_manager" where
  "write_content io c md5 data compress m =
     write_content_with_mode io c md5 data (if compress then am_default_compression m else ModeNone) m"

definition write_segment_header ::
  "archive_io \<Rightarrow> u16 \<Rightarrow> segment_header \<Rightarrow> archive_manager \<Rightarrow> (archive_error, unit) outcome \<times> archive_manager" where
  "write_segment_header io archive_id header m =
     write_to_archive io archive_id 0 (segment_header_to_bytes header) m"

definition read_segment_header :: "archive_manager \<Rightarrow> u16 \<Rightarrow> (archive_error, segment_header) outcome" where
  "read_segment_header m archive_id =
     obind (read_raw m archive_id 0 (word_of_nat SEGMENT_HEADER_SIZE)) (\<lambda>data.
       Ret (case segment_header_from_bytes data of Some h \<Rightarrow> h | None \<Rightarrow> segment_header_zeroed))"

section \<open>Model: statistics and compaction\<close>

record archive_stats =
  st_archive_count :: nat
  st_total_size :: nat
  st_total_used :: nat

definition archive_stats :: "archive_manager \<Rightarrow> archive_stats" where
  "archive_stats m =
     \<lparr>st_archive_count = length (am_archives m), st_total_size = sum_list (map (af_size \<circ> snd) (am_archives m)),
      st_total_used = sum_list (map snd (am_write_positions m))\<rparr>"

text \<open>
  A single archive is cut at its write position through a copy that replaces the file. \<open>cut_ok\<close> says
  whether copy, truncation and rename work; after the rename the old map shows the old file until it
  is replaced.
\<close>

definition compact_single_archive ::
  "archive_io \<Rightarrow> bool \<Rightarrow> u16 \<Rightarrow> archive_manager \<Rightarrow> (archive_error, nat \<times> nat) outcome \<times> archive_manager" where
  "compact_single_archive io cut_ok archive_id m =
     (case map_of (am_archives m) archive_id of
        None \<Rightarrow> (Fail ArNotFound, m)
      | Some af \<Rightarrow>
          let path = af_path af; original_size = af_size af;
              used_size = (case map_of (am_write_positions m) archive_id of Some p \<Rightarrow> p | None \<Rightarrow> original_size) in
          if used_size < original_size
          then if \<not> cut_ok then (Fail ArCompaction, m)
               else let detached = AList.update archive_id (af\<lparr>af_detached := Some (mmap m af)\<rparr>) (am_archives m);
                        cut = take used_size (file_of m path @ replicate used_size 0)
                    in case remap_archive io archive_id path used_size ((put_file path cut m)\<lparr>am_archives := detached\<rparr>) of
                         (Ret _, m) \<Rightarrow> (Ret (original_size - used_size, 1), m)
                       | (Fail e, m) \<Rightarrow> (Fail e, m)
                       | (Panic, m) \<Rightarrow> (Panic, m)
          else (Ret (0, 0), m))"

record compaction_stats =
  cs_archives_compacted :: nat
  cs_bytes_reclaimed :: nat
  cs_entries_moved :: nat

text \<open>Which archives fall under the floating-point threshold is the argument \<open>chosen\<close>.\<close>

fun compact_archives ::
  "(u16 \<Rightarrow> archive_io \<times> bool) \<Rightarrow> (archive_file \<Rightarrow> nat \<Rightarrow> bool) \<Rightarrow> u16 list \<Rightarrow> compaction_stats \<Rightarrow> archive_manager
   \<Rightarrow> (archive_error, compaction_stats) outcome \<times> archive_manager" where
  "compact_archives io chosen [] stats m = (Ret stats, m)"
| "compact_archives io chosen (archive_id # ids) stats m =
     (case map_of (am_archives m) archive_id of
        None \<Rightarrow> (Fail ArNotFound, m)
      | Some af \<Rightarrow>
          let used_size = (case map_of (am_write_positions m) archive_id of Some p \<Rightarrow> p | None \<Rightarrow> 0) in
          if used_size \<noteq> 0 \<and> chosen af used_size \<and> af_size af > 1024 * 1024
          then (case compact_single_archive (fst (io archive_id)) (snd (io archive_id)) archive_id m of
                  (Ret (reclaimed, moved), m) \<Rightarrow>
                    compact_archives io chosen ids
                      (stats\<lparr>cs_archives_compacted := cs_archives_compacted stats + 1,
                             cs_bytes_reclaimed := cs_bytes_reclaimed stats + reclaimed,
                             cs_entries_moved := cs_entries_moved stats + moved\<rparr>) m
                | (Fail e, m) \<Rightarrow> (Fail e, m)
                | (Panic, m) \<Rightarrow> (Panic, m))
          else compact_archives io chosen ids stats m)"

definition compact ::
  "(u16 \<Rightarrow> archive_io \<times> bool) \<Rightarrow> (archive_file \<Rightarrow> nat \<Rightarrow> bool) \<Rightarrow> archive_manager
   \<Rightarrow> (archive_error, compaction_stats) outcome \<times> archive_manager" where
  "compact io chosen m =
     compact_archives io chosen (map fst (am_archives m))
       \<lparr>cs_archives_compacted = 0, cs_bytes_reclaimed = 0, cs_entries_moved = 0\<rparr> m"

end
