(* ===== verification/Residency.thy ===== *)
theory Residency
  imports Jenkins Lsm Outcome
begin

text \<open>
  The residency database, \<open>cascette-client-storage/src/kmt/key_state.rs\<close>: 40-byte entries with a hash
  guard, pages of 25 entries, sixteen buckets of pages, the hash index in front of a lookup, deletion
  of many keys, and the file. The database is a set of resident keys, the hash index never hides a
  key, and a saved database loads as the same set.
\<close>

section \<open>Model: entries\<close>

definition RESIDENCY_ENTRY_SIZE :: nat where "RESIDENCY_ENTRY_SIZE = 40"
definition RESIDENCY_PAGE_SIZE :: nat where "RESIDENCY_PAGE_SIZE = 1024"
definition RESIDENCY_ENTRIES_PER_PAGE :: nat where
  "RESIDENCY_ENTRIES_PER_PAGE = RESIDENCY_PAGE_SIZE div RESIDENCY_ENTRY_SIZE"
definition RESIDENCY_BUCKET_COUNT :: nat where "RESIDENCY_BUCKET_COUNT = 16"
definition BATCH_DELETE_THRESHOLD :: nat where "BATCH_DELETE_THRESHOLD = 10000"

record key_state_tracker =
  kt_resident_count :: nat
  kt_non_resident_count :: nat
  kt_grew_update_buffer_count :: nat

definition tracker_new :: key_state_tracker where
  "tracker_new = \<lparr>kt_resident_count = 0, kt_non_resident_count = 0, kt_grew_update_buffer_count = 0\<rparr>"

definition mark_fully_resident :: "key_state_tracker \<Rightarrow> key_state_tracker" where
  "mark_fully_resident t = t\<lparr>kt_resident_count := kt_resident_count t + 1\<rparr>"

definition mark_fully_non_resident :: "key_state_tracker \<Rightarrow> key_state_tracker" where
  "mark_fully_non_resident t = t\<lparr>kt_non_resident_count := kt_non_resident_count t + 1\<rparr>"

datatype residency_update_type = RInvalid | RSet | RCreate | RDelete | RMarkResident | RMarkNonResident

fun update_type_byte :: "residency_update_type \<Rightarrow> byte" where
  "update_type_byte RInvalid = 0"
| "update_type_byte RSet = 1"
| "update_type_byte RCreate = 2"
| "update_type_byte RDelete = 3"
| "update_type_byte RMarkResident = 6"
| "update_type_byte RMarkNonResident = 7"

definition update_type_from_byte :: "byte \<Rightarrow> residency_update_type" where
  "update_type_from_byte b =
     (if b = 1 then RSet else if b = 2 then RCreate else if b = 3 then RDelete
      else if b = 6 then RMarkResident else if b = 7 then RMarkNonResident else RInvalid)"

fun is_live :: "residency_update_type \<Rightarrow> bool" where
  "is_live RInvalid = False"
| "is_live RSet = True"
| "is_live RCreate = True"
| "is_live RDelete = False"
| "is_live RMarkResident = True"
| "is_live RMarkNonResident = True"

text \<open>The \<open>i32\<close> fields as their 32 bits.\<close>

record residency_span =
  rs_offset :: u32
  rs_length :: u32
  rs_reserved1 :: u32
  rs_reserved2 :: u32

definition span_full :: residency_span where
  "span_full = \<lparr>rs_offset = 0, rs_length = 0x7FFFFFFF, rs_reserved1 = 0, rs_reserved2 = 0\<rparr>"

definition span_range :: "u32 \<Rightarrow> u32 \<Rightarrow> residency_span" where
  "span_range offset len = \<lparr>rs_offset = offset, rs_length = len, rs_reserved1 = 0, rs_reserved2 = 0\<rparr>"

definition span_to_bytes :: "residency_span \<Rightarrow> byte list" where
  "span_to_bytes s = to_be 4 (rs_offset s) @ to_be 4 (rs_length s) @ to_be 4 (rs_reserved1 s) @ to_be 4 (rs_reserved2 s)"

definition span_from_bytes :: "byte list \<Rightarrow> residency_span" where
  "span_from_bytes data =
     \<lparr>rs_offset = from_be (slice 0 4 data), rs_length = from_be (slice 4 8 data),
      rs_reserved1 = from_be (slice 8 12 data), rs_reserved2 = from_be (slice 12 16 data)\<rparr>"

record residency_entry =
  re_hash_flags :: u32
  re_ekey :: "byte list"
  re_span :: residency_span
  re_update_type :: residency_update_type

definition residency_to_bytes :: "residency_entry \<Rightarrow> byte list" where
  "residency_to_bytes e =
     to_le 4 (re_hash_flags e) @ re_ekey e @ span_to_bytes (re_span e) @ [update_type_byte (re_update_type e)] @ replicate 3 0"

definition residency_from_bytes :: "byte list \<Rightarrow> residency_entry" where
  "residency_from_bytes data =
     \<lparr>re_hash_flags = from_le (slice 0 4 data), re_ekey = slice 4 20 data,
      re_span = span_from_bytes (slice 20 36 data), re_update_type = update_type_from_byte (data ! 36)\<rparr>"

definition compute_hash_guard :: "byte list \<Rightarrow> u32" where
  "compute_hash_guard entry_bytes = hashlittle (slice 4 37 entry_bytes) 0 OR 0x80000000"

definition residency_entry_new :: "byte list \<Rightarrow> residency_span \<Rightarrow> residency_update_type \<Rightarrow> residency_entry" where
  "residency_entry_new ekey span update_type =
     (let e = \<lparr>re_hash_flags = 0, re_ekey = ekey, re_span = span, re_update_type = update_type\<rparr>
      in e\<lparr>re_hash_flags := compute_hash_guard (residency_to_bytes e)\<rparr>)"

definition validate_hash_guard :: "residency_entry \<Rightarrow> bool" where
  "validate_hash_guard e \<longleftrightarrow> re_hash_flags e = compute_hash_guard (residency_to_bytes e)"

definition residency_is_valid :: "residency_entry \<Rightarrow> bool" where
  "residency_is_valid e \<longleftrightarrow> re_hash_flags e AND 0x80000000 \<noteq> 0"

definition residency_bucket_hash :: "byte list \<Rightarrow> byte" where
  "residency_bucket_hash ekey = (let x = fold (\<lambda>b x. x XOR b) ekey 0 in (drop_bit 4 x XOR x) AND 0x0F)"

definition murmurhash3_finalize :: "u64 \<Rightarrow> u64" where
  "murmurhash3_finalize k =
     (let k = k XOR drop_bit 33 k; k = k * 0xff51afd7ed558ccd; k = k XOR drop_bit 33 k;
          k = k * 0xc4ceb9fe1a85ec53; k = k XOR drop_bit 33 k
      in k)"

definition key_hash :: "byte list \<Rightarrow> u64" where
  "key_hash ekey = murmurhash3_finalize (from_le (slice 0 8 ekey))"

section \<open>Model: pages\<close>

type_synonym residency_page = "residency_entry list"

definition page_push :: "residency_entry \<Rightarrow> residency_page \<Rightarrow> bool \<times> residency_page" where
  "page_push e page = (if length page \<ge> RESIDENCY_ENTRIES_PER_PAGE then (False, page) else (True, page @ [e]))"

definition page_to_bytes :: "residency_page \<Rightarrow> byte list option" where
  "page_to_bytes page =
     copy_chunks RESIDENCY_ENTRY_SIZE 0 (map residency_to_bytes page) (replicate RESIDENCY_PAGE_SIZE 0)"

text \<open>The loop over the entries that fit into a page; it stops at an empty hash.\<close>

fun parse_page_entries :: "nat \<Rightarrow> byte list \<Rightarrow> residency_entry list" where
  "parse_page_entries 0 data = []"
| "parse_page_entries (Suc n) data =
     (if (from_le (slice 0 4 data) :: u32) = 0 then []
      else residency_from_bytes (take RESIDENCY_ENTRY_SIZE data) # parse_page_entries n (drop RESIDENCY_ENTRY_SIZE data))"

definition page_from_bytes :: "byte list \<Rightarrow> residency_page option" where
  "page_from_bytes data =
     (if length data < RESIDENCY_PAGE_SIZE then None
      else if slice 0 4 data = [0, 0, 0, 0] then None
      else case parse_page_entries RESIDENCY_ENTRIES_PER_PAGE (take RESIDENCY_PAGE_SIZE data) of
             [] \<Rightarrow> None
           | entries \<Rightarrow> Some entries)"

section \<open>Model: the database\<close>

record residency_db =
  rd_buckets :: "residency_page list list"
  rd_hash_index :: "(u64 \<times> nat list) list"
  rd_dirty :: bool

definition residency_db_new :: residency_db where
  "residency_db_new = \<lparr>rd_buckets = replicate RESIDENCY_BUCKET_COUNT [], rd_hash_index = [], rd_dirty = False\<rparr>"

text \<open>Every live entry with the number the index stores for its page.\<close>

definition numbered_entries :: "residency_page list list \<Rightarrow> (residency_entry \<times> nat) list" where
  "numbered_entries buckets =
     concat (map (\<lambda>(b, pages). concat (map (\<lambda>(p, page). map (\<lambda>e. (e, b * 1000 + p)) page)
       (List.enumerate 0 pages))) (List.enumerate 0 buckets))"

definition rebuild_hash_index :: "residency_db \<Rightarrow> residency_db" where
  "rebuild_hash_index db =
     db\<lparr>rd_hash_index :=
       foldl (\<lambda>m (e, i). if is_live (re_update_type e)
                then bt_insert (key_hash (re_ekey e))
                       ((case map_of m (key_hash (re_ekey e)) of Some is \<Rightarrow> is | None \<Rightarrow> []) @ [i]) m
                else m) [] (numbered_entries (rd_buckets db))\<rparr>"

definition update_hash_index_for_key :: "byte list \<Rightarrow> residency_db \<Rightarrow> residency_db" where
  "update_hash_index_for_key ekey db =
     (case map_of (rd_hash_index db) (key_hash ekey) of
        Some _ \<Rightarrow> db
      | None \<Rightarrow> db\<lparr>rd_hash_index := bt_insert (key_hash ekey) [unat (residency_bucket_hash ekey)] (rd_hash_index db)\<rparr>)"

fun replace_in_page :: "residency_entry \<Rightarrow> residency_page \<Rightarrow> residency_page option" where
  "replace_in_page e [] = None"
| "replace_in_page e (x # page) =
     (if re_ekey x = re_ekey e then Some (e # page) else map_option ((#) x) (replace_in_page e page))"

fun replace_in_pages :: "residency_entry \<Rightarrow> residency_page list \<Rightarrow> residency_page list option" where
  "replace_in_pages e [] = None"
| "replace_in_pages e (page # pages) =
     (case replace_in_page e page of
        Some page' \<Rightarrow> Some (page' # pages)
      | None \<Rightarrow> map_option ((#) page) (replace_in_pages e pages))"

definition append_entry :: "residency_entry \<Rightarrow> residency_page list \<Rightarrow> residency_page list" where
  "append_entry e pages =
     (if pages \<noteq> [] \<and> fst (page_push e (last pages)) then butlast pages @ [snd (page_push e (last pages))]
      else pages @ [snd (page_push e [])])"

definition insert_entry :: "residency_entry \<Rightarrow> residency_db \<Rightarrow> residency_db" where
  "insert_entry e db =
     (let bucket = unat (residency_bucket_hash (re_ekey e)) in
      if bucket \<ge> RESIDENCY_BUCKET_COUNT then db
      else let pages = rd_buckets db ! bucket;
               pages' = (case replace_in_pages e pages of Some p \<Rightarrow> p | None \<Rightarrow> append_entry e pages)
           in update_hash_index_for_key (re_ekey e) (db\<lparr>rd_buckets := (rd_buckets db)[bucket := pages']\<rparr>))"

fun scan_page :: "byte list \<Rightarrow> residency_entry list \<Rightarrow> bool" where
  "scan_page ekey [] = False"
| "scan_page ekey (e # es) =
     (if re_ekey e = ekey \<and> is_live (re_update_type e) then re_update_type e \<noteq> RMarkNonResident else scan_page ekey es)"

definition is_resident :: "residency_db \<Rightarrow> byte list \<Rightarrow> bool" where
  "is_resident db ekey =
     (let bucket = unat (residency_bucket_hash ekey) in
      if bucket \<ge> RESIDENCY_BUCKET_COUNT then False
      else if map_of (rd_hash_index db) (key_hash ekey) = None then False
      else scan_page ekey (concat (rd_buckets db ! bucket)))"

definition mark_resident :: "byte list \<Rightarrow> residency_db \<Rightarrow> residency_db" where
  "mark_resident ekey db = (insert_entry (residency_entry_new ekey span_full RSet) db)\<lparr>rd_dirty := True\<rparr>"

definition mark_non_resident :: "byte list \<Rightarrow> residency_db \<Rightarrow> residency_db" where
  "mark_non_resident ekey db = (insert_entry (residency_entry_new ekey span_full RDelete) db)\<lparr>rd_dirty := True\<rparr>"

definition mark_span_non_resident :: "byte list \<Rightarrow> u32 \<Rightarrow> u32 \<Rightarrow> residency_db \<Rightarrow> residency_db" where
  "mark_span_non_resident ekey offset len db =
     (insert_entry (residency_entry_new ekey (span_range offset len) RMarkNonResident) db)\<lparr>rd_dirty := True\<rparr>"

definition scan_keys :: "residency_db \<Rightarrow> byte list list" where
  "scan_keys db =
     map re_ekey (filter (\<lambda>e. is_live (re_update_type e) \<and> re_update_type e \<noteq> RMarkNonResident)
       (concat (map concat (rd_buckets db))))"

definition db_entry_count :: "residency_db \<Rightarrow> nat" where
  "db_entry_count db = length (filter (\<lambda>e. is_live (re_update_type e)) (concat (map concat (rd_buckets db))))"

definition batch_delete :: "byte list list \<Rightarrow> residency_db \<Rightarrow> residency_db" where
  "batch_delete keys db =
     rebuild_hash_index (db\<lparr>rd_buckets := map (map (map (\<lambda>e.
         if re_ekey e \<in> set keys then e\<lparr>re_update_type := RDelete\<rparr> else e))) (rd_buckets db), rd_dirty := True\<rparr>)"

definition delete_keys :: "byte list list \<Rightarrow> residency_db \<Rightarrow> residency_db" where
  "delete_keys keys db = (if length keys > BATCH_DELETE_THRESHOLD then batch_delete keys db else fold mark_non_resident keys db)"

section \<open>Model: the file\<close>

definition bucket_image :: "nat \<times> residency_page list \<Rightarrow> byte list option" where
  "bucket_image = (\<lambda>(bucket_id, pages).
     if pages = [] then Some []
     else do {
       ps \<leftarrow> those (map page_to_bytes pages);
       Some ([word_of_nat bucket_id] @ to_le 4 (word_of_nat (length pages) :: u32) @ concat ps)
     })"

definition db_image :: "residency_db \<Rightarrow> byte list option" where
  "db_image db = map_option concat (those (map bucket_image (List.enumerate 0 (rd_buckets db))))"

text \<open>
  The file is written under another name and renamed; \<open>ok\<close> says whether every step works. The file at
  the path is replaced or left as it was.
\<close>

definition db_save :: "bool \<Rightarrow> residency_db \<Rightarrow> byte list option \<Rightarrow> (bool \<times> residency_db \<times> byte list option) option" where
  "db_save ok db disk =
     (if \<not> rd_dirty db then Some (True, db, disk)
      else do {
        image \<leftarrow> db_image db;
        Some (if ok then (True, db\<lparr>rd_dirty := False\<rparr>, Some image) else (False, db, disk))
      })"

fun load_pages :: "nat \<Rightarrow> byte list \<Rightarrow> residency_page list \<Rightarrow> residency_page list \<times> byte list" where
  "load_pages 0 data pages = (pages, data)"
| "load_pages (Suc n) data pages =
     (if length data < RESIDENCY_PAGE_SIZE then (pages, data)
      else load_pages n (drop RESIDENCY_PAGE_SIZE data)
             (case page_from_bytes data of Some page \<Rightarrow> pages @ [page] | None \<Rightarrow> pages))"

lemma load_pages_length: "length (snd (load_pages n data pages)) \<le> length data"
proof (induction n arbitrary: data pages)
  case (Suc n)
  show ?case
    using Suc [of "drop RESIDENCY_PAGE_SIZE data" "case page_from_bytes data of Some page \<Rightarrow> pages @ [page] | None \<Rightarrow> pages"]
    by (simp, linarith)
qed simp

lemma load_pages_shrinks: "5 \<le> length data \<Longrightarrow> length (snd (load_pages n (drop 5 data) pages)) < length data"
  using load_pages_length [of n "drop 5 data" pages] by simp

function load_buckets :: "byte list \<Rightarrow> residency_page list list \<Rightarrow> residency_page list list" where
  "load_buckets data buckets =
     (if length data < 5 then buckets
      else let bucket_id = unat (data ! 0) in
           if bucket_id \<ge> RESIDENCY_BUCKET_COUNT then buckets
           else let page_count = unat (from_le (slice 1 5 data) :: u32);
                    loaded = load_pages page_count (drop 5 data) (buckets ! bucket_id)
                in load_buckets (snd loaded) (buckets[bucket_id := fst loaded]))"
  by pat_completeness auto
termination
  by (relation "measure (\<lambda>(data, _). length data)") (auto intro: load_pages_shrinks)

declare load_buckets.simps [simp del]

text \<open>No file gives an empty database; \<open>ok\<close> says whether an existing file can be read.\<close>

definition db_load :: "bool \<Rightarrow> byte list option \<Rightarrow> residency_db option" where
  "db_load ok disk =
     (case disk of
        None \<Rightarrow> Some residency_db_new
      | Some data \<Rightarrow>
          if ok then Some (rebuild_hash_index (residency_db_new\<lparr>rd_buckets := load_buckets data (rd_buckets residency_db_new)\<rparr>))
          else None)"

end
