(* ===== verification/Container.thy ===== *)
theory Container
  imports Archive Index_Disk Residency Lru
begin

text \<open>
  The containers of \<open>cascette-client-storage/src/container/\<close>: access modes and error codes
  (\<open>mod.rs\<close>), the residency container (\<open>residency.rs\<close>), the static container (\<open>static_container.rs\<close>)
  and the dynamic container (\<open>dynamic.rs\<close>), which composes the index manager, the archive manager,
  the segment allocator, the residency container and the LRU manager over one storage directory. The
  directory is the \<open>am_files\<close> of the archive manager; index files are written to and read from it.
  Locks are not modelled, the operations run one at a time; shared memory only coordinates processes
  and is left out.
\<close>

section \<open>Model: access modes and errors\<close>

datatype access_mode = AmNone | ReadOnly | ReadWrite | Exclusive

fun to_internal_flags :: "access_mode \<Rightarrow> byte" where
  "to_internal_flags AmNone = 0"
| "to_internal_flags ReadOnly = 2"
| "to_internal_flags ReadWrite = 5"
| "to_internal_flags Exclusive = 1"

definition can_read :: "access_mode \<Rightarrow> bool" where
  "can_read mode \<longleftrightarrow> mode = ReadOnly \<or> mode = ReadWrite \<or> mode = Exclusive"

definition can_write :: "access_mode \<Rightarrow> bool" where
  "can_write mode \<longleftrightarrow> mode = ReadWrite \<or> mode = Exclusive"

datatype storage_error =
    AccessDenied | NotFound | TruncatedRead | InvalidFormat | ContainerLocked | ConfigError | CascError u32
  | DirectoryError | ArchiveError archive_error | IndexError index_error | SegmentError alloc_error

definition storage_error_from_casc_code :: "u32 \<Rightarrow> storage_error option" where
  "storage_error_from_casc_code casc_code =
     (if casc_code = 0 then None
      else if casc_code = 3 then Some TruncatedRead
      else if casc_code = 4 \<or> casc_code = 10 then Some InvalidFormat
      else if casc_code = 9 then Some ContainerLocked
      else Some (CascError casc_code))"

section \<open>Model: the residency container\<close>

text \<open>The token file and the database file are the storage directory of this container.\<close>

record residency_container =
  rc_product_name :: string
  rc_access_mode :: access_mode
  rc_read_only :: bool
  rc_db :: residency_db
  rc_initialized :: bool
  rc_token_file :: bool
  rc_db_file :: "byte list option"

record residency_io =
  ri_mkdir_ok :: bool
  ri_token_ok :: bool
  ri_read_ok :: bool

definition rc_new :: "string \<Rightarrow> access_mode \<Rightarrow> bool \<Rightarrow> byte list option \<Rightarrow> residency_container" where
  "rc_new product_name mode token_file db_file =
     \<lparr>rc_product_name = product_name, rc_access_mode = mode, rc_read_only = (mode = ReadOnly), rc_db = residency_db_new,
      rc_initialized = False, rc_token_file = token_file, rc_db_file = db_file\<rparr>"

definition rc_initialize :: "residency_io \<Rightarrow> residency_container \<Rightarrow> (storage_error, unit) outcome \<times> residency_container" where
  "rc_initialize io r =
     (if rc_product_name r = [] then (Ret (), r\<lparr>rc_initialized := True\<rparr>)
      else if can_write (rc_access_mode r) \<and> \<not> ri_mkdir_ok io then (Fail DirectoryError, r)
      else if can_write (rc_access_mode r) \<and> \<not> rc_token_file r \<and> \<not> ri_token_ok io then (Fail DirectoryError, r)
      else let r = (if can_write (rc_access_mode r) then r\<lparr>rc_token_file := True\<rparr> else r);
               db = (case db_load (ri_read_ok io) (rc_db_file r) of Some loaded \<Rightarrow> loaded | None \<Rightarrow> rc_db r)
           in (Ret (), r\<lparr>rc_db := db, rc_initialized := True\<rparr>))"

definition rc_update :: "(residency_db \<Rightarrow> residency_db) \<Rightarrow> residency_container \<Rightarrow> (storage_error, unit) outcome \<times> residency_container" where
  "rc_update f r = (if rc_read_only r then (Fail AccessDenied, r) else (Ret (), r\<lparr>rc_db := f (rc_db r)\<rparr>))"

definition rc_mark_resident :: "byte list \<Rightarrow> residency_container \<Rightarrow> (storage_error, unit) outcome \<times> residency_container" where
  "rc_mark_resident key = rc_update (mark_resident key)"

definition rc_mark_non_resident :: "byte list \<Rightarrow> residency_container \<Rightarrow> (storage_error, unit) outcome \<times> residency_container" where
  "rc_mark_non_resident key = rc_update (mark_non_resident key)"

definition rc_mark_span_non_resident ::
  "byte list \<Rightarrow> u32 \<Rightarrow> u32 \<Rightarrow> residency_container \<Rightarrow> (storage_error, unit) outcome \<times> residency_container" where
  "rc_mark_span_non_resident key offset span_len = rc_update (mark_span_non_resident key offset span_len)"

definition rc_is_resident :: "residency_container \<Rightarrow> byte list \<Rightarrow> bool" where
  "rc_is_resident r key = is_resident (rc_db r) key"

definition rc_resident_count :: "residency_container \<Rightarrow> nat" where
  "rc_resident_count r = db_entry_count (rc_db r)"

definition rc_scan_keys :: "residency_container \<Rightarrow> byte list list" where
  "rc_scan_keys r = scan_keys (rc_db r)"

definition rc_delete_keys :: "byte list list \<Rightarrow> residency_container \<Rightarrow> (storage_error, unit) outcome \<times> residency_container" where
  "rc_delete_keys keys = rc_update (delete_keys keys)"

definition rc_flush :: "bool \<Rightarrow> residency_container \<Rightarrow> (storage_error, unit) outcome \<times> residency_container" where
  "rc_flush ok r =
     (if rc_read_only r then (Ret (), r)
      else case db_save ok (rc_db r) (rc_db_file r) of
             None \<Rightarrow> (Panic, r)
           | Some (saved, db, disk) \<Rightarrow>
               (if saved then Ret () else Fail DirectoryError, r\<lparr>rc_db := db, rc_db_file := disk\<rparr>))"

definition rc_reserve :: "residency_container \<Rightarrow> (storage_error, unit) outcome" where
  "rc_reserve r = (if rc_read_only r then Fail AccessDenied else Ret ())"

definition rc_read :: "residency_container \<Rightarrow> byte list \<Rightarrow> (storage_error, nat) outcome" where
  "rc_read r key = Fail InvalidFormat"

definition rc_write :: "residency_container \<Rightarrow> byte list \<Rightarrow> byte list \<Rightarrow> (storage_error, unit) outcome" where
  "rc_write r key data = Fail InvalidFormat"

definition rc_remove :: "byte list \<Rightarrow> residency_container \<Rightarrow> (storage_error, unit) outcome \<times> residency_container" where
  "rc_remove key = rc_mark_non_resident key"

definition rc_query :: "residency_container \<Rightarrow> byte list \<Rightarrow> (storage_error, bool) outcome" where
  "rc_query r key = Ret (rc_is_resident r key)"

section \<open>Model: opening a storage directory\<close>

record open_io =
  oi_mkdir_ok :: bool
  oi_index_dir_ok :: bool
  oi_index_ok :: "string \<Rightarrow> bool"
  oi_archive_dir_ok :: bool
  oi_stat_ok :: "string \<Rightarrow> bool"
  oi_archive_ok :: "string \<Rightarrow> bool"
  oi_segment_dir_ok :: bool
  oi_segment_ok :: "string \<Rightarrow> bool"

definition segment_listing :: "open_io \<Rightarrow> directory \<Rightarrow> dir_listing" where
  "segment_listing io dir =
     (if oi_segment_dir_ok io
      then Listing (map (\<lambda>(name, data). (name, case name of Utf8 s \<Rightarrow> if oi_segment_ok io s then Some data else None
                                                          | NonUtf8 _ \<Rightarrow> Some data)) dir)
      else DirUnreadable)"

definition copy_to_buf :: "byte list \<Rightarrow> byte list \<Rightarrow> nat \<times> byte list" where
  "copy_to_buf data buf =
     (let copy_len = min (length data) (length buf) in (copy_len, put_slice 0 (take copy_len data) buf))"

section \<open>Model: the static container\<close>

record static_container =
  sc_index :: index_manager
  sc_archive :: archive_manager
  sc_initialized :: bool

record key_state =
  ks_has_data :: bool
  ks_is_resident :: bool

definition sc_new :: "byte list \<Rightarrow> directory \<Rightarrow> static_container" where
  "sc_new storage_path dir =
     \<lparr>sc_index = manager_new, sc_archive = archive_manager_new storage_path dir, sc_initialized = False\<rparr>"

definition sc_open :: "open_io \<Rightarrow> static_container \<Rightarrow> (storage_error, unit) outcome \<times> static_container" where
  "sc_open io c =
     (let path = am_base_path (sc_archive c); dir = am_files (sc_archive c) in
      case load_all (oi_index_dir_ok io) (oi_index_ok io) dir manager_new of
        None \<Rightarrow> (Panic, c)
      | Some (Inl e, _) \<Rightarrow> (Fail (IndexError e), c)
      | Some (Inr _, index) \<Rightarrow>
          (case open_all (oi_archive_dir_ok io) (oi_stat_ok io) (oi_archive_ok io) (archive_manager_new path dir) of
             (Ret _, archive) \<Rightarrow> (Ret (), c\<lparr>sc_index := index, sc_archive := archive, sc_initialized := True\<rparr>)
           | (Fail e, _) \<Rightarrow> (Fail (ArchiveError e), c\<lparr>sc_index := index\<rparr>)
           | (Panic, _) \<Rightarrow> (Panic, c\<lparr>sc_index := index\<rparr>)))"

definition sc_state_lookup :: "static_container \<Rightarrow> byte list list \<Rightarrow> (storage_error, key_state list) outcome" where
  "sc_state_lookup c keys =
     (if \<not> sc_initialized c then Fail ConfigError
      else Ret (map (\<lambda>key. if key = replicate 16 0 then \<lparr>ks_has_data = False, ks_is_resident = False\<rparr>
                           else let has_data = has_entry (sc_index c) key
                                in \<lparr>ks_has_data = has_data, ks_is_resident = has_data\<rparr>) keys))"

definition sc_entry_count :: "static_container \<Rightarrow> nat" where
  "sc_entry_count c = manager_entry_count (sc_index c)"

definition sc_reserve :: "static_container \<Rightarrow> (storage_error, unit) outcome" where
  "sc_reserve c = Fail AccessDenied"

definition sc_read :: "codecs \<Rightarrow> byte list \<Rightarrow> byte list \<Rightarrow> static_container \<Rightarrow> (storage_error, nat) outcome \<times> byte list" where
  "sc_read cs key buf c =
     (if \<not> sc_initialized c then (Fail ConfigError, buf)
      else case lookup (sc_index c) key of
             None \<Rightarrow> (Fail NotFound, buf)
           | Some entry \<Rightarrow>
               (case read_content cs (sc_archive c) (archive_id (ie_location entry)) (archive_offset (ie_location entry)) (ie_size entry) of
                  Ret data \<Rightarrow> (case copy_to_buf data buf of (n, buf') \<Rightarrow> (Ret n, buf'))
                | Fail e \<Rightarrow> (Fail (ArchiveError e), buf)
                | Panic \<Rightarrow> (Panic, buf)))"

definition sc_write :: "static_container \<Rightarrow> byte list \<Rightarrow> byte list \<Rightarrow> (storage_error, unit) outcome" where
  "sc_write c key data = Fail AccessDenied"

definition sc_remove :: "static_container \<Rightarrow> byte list \<Rightarrow> (storage_error, unit) outcome" where
  "sc_remove c key = Fail AccessDenied"

definition sc_query :: "static_container \<Rightarrow> byte list \<Rightarrow> (storage_error, bool) outcome" where
  "sc_query c key = Ret (sc_initialized c \<and> has_entry (sc_index c) key)"

section \<open>Model: the dynamic container\<close>

record dynamic_container =
  dc_access_mode :: access_mode
  dc_shared_memory :: bool
  dc_read_only :: bool
  dc_segment_limit :: nat
  dc_max_segment_size :: nat
  dc_free_space_reclaim :: bool
  dc_path_hash :: "byte list"
  dc_index :: index_manager
  dc_archive :: archive_manager
  dc_segment_allocator :: segment_allocator
  dc_residency :: "residency_container option"
  dc_lru :: "lru_manager option"

record container_builder =
  cb_access_mode :: access_mode
  cb_storage_path :: "byte list"
  cb_shared_memory :: bool
  cb_segment_limit :: nat
  cb_max_segment_size :: nat
  cb_free_space_reclaim :: bool
  cb_path_hash :: "byte list"
  cb_residency :: "residency_container option"
  cb_lru :: "lru_manager option"

definition container_builder_new :: "byte list \<Rightarrow> container_builder" where
  "container_builder_new storage_path =
     \<lparr>cb_access_mode = ReadWrite, cb_storage_path = storage_path, cb_shared_memory = False, cb_segment_limit = MAX_SEGMENTS,
      cb_max_segment_size = SEGMENT_SIZE, cb_free_space_reclaim = False, cb_path_hash = replicate 16 0,
      cb_residency = None, cb_lru = None\<rparr>"

text \<open>\<open>dir\<close> is what the storage directory holds.\<close>

definition new_from_builder :: "container_builder \<Rightarrow> directory \<Rightarrow> (storage_error, dynamic_container) outcome" where
  "new_from_builder b dir =
     (if cb_storage_path b = [] then Fail ConfigError
      else let segment_limit = min (cb_segment_limit b) MAX_SEGMENTS in
           Ret \<lparr>dc_access_mode = cb_access_mode b, dc_shared_memory = cb_shared_memory b,
                dc_read_only = (cb_access_mode b = ReadOnly), dc_segment_limit = segment_limit,
                dc_max_segment_size = cb_max_segment_size b, dc_free_space_reclaim = cb_free_space_reclaim b,
                dc_path_hash = cb_path_hash b, dc_index = manager_new,
                dc_archive = archive_manager_new (cb_storage_path b) dir,
                dc_segment_allocator = allocator_new (cb_path_hash b) segment_limit,
                dc_residency = cb_residency b, dc_lru = cb_lru b\<rparr>)"

definition dynamic_container_new ::
  "access_mode \<Rightarrow> byte list \<Rightarrow> bool \<Rightarrow> nat \<Rightarrow> nat \<Rightarrow> bool \<Rightarrow> directory \<Rightarrow> (storage_error, dynamic_container) outcome" where
  "dynamic_container_new mode storage_path shared_memory segment_limit max_segment_size free_space_reclaim dir =
     new_from_builder ((container_builder_new storage_path)
       \<lparr>cb_access_mode := mode, cb_shared_memory := shared_memory, cb_segment_limit := segment_limit,
        cb_max_segment_size := max_segment_size, cb_free_space_reclaim := free_space_reclaim\<rparr>) dir"

text \<open>
  While a part is loaded it is taken out of the container, so that an error leaves a new, empty one
  in its place.
\<close>

definition dc_open :: "open_io \<Rightarrow> dynamic_container \<Rightarrow> (storage_error, unit) outcome \<times> dynamic_container" where
  "dc_open io c =
     (let dir = am_files (dc_archive c); path = am_base_path (dc_archive c) in
      if can_write (dc_access_mode c) \<and> \<not> oi_mkdir_ok io then (Fail DirectoryError, c)
      else case load_all (oi_index_dir_ok io) (oi_index_ok io) dir (dc_index c) of
             None \<Rightarrow> (Panic, c\<lparr>dc_index := manager_new\<rparr>)
           | Some (Inl e, _) \<Rightarrow> (Fail (IndexError e), c\<lparr>dc_index := manager_new\<rparr>)
           | Some (Inr _, index) \<Rightarrow>
               (let c = c\<lparr>dc_index := index\<rparr>; taken = c\<lparr>dc_archive := archive_manager_new path dir\<rparr> in
                case open_all (oi_archive_dir_ok io) (oi_stat_ok io) (oi_archive_ok io) (dc_archive c) of
                  (Fail e, _) \<Rightarrow> (Fail (ArchiveError e), taken)
                | (Panic, _) \<Rightarrow> (Panic, taken)
                | (Ret _, archive) \<Rightarrow>
                    (case load_existing (segment_listing io dir) (dc_segment_allocator c) of
                       (r, al) \<Rightarrow>
                         (case r of Inl e \<Rightarrow> Fail (SegmentError e) | Inr _ \<Rightarrow> Ret (),
                          c\<lparr>dc_archive := archive, dc_segment_allocator := al\<rparr>))))"

text \<open>The index manager on the storage directory.\<close>

definition on_directory ::
  "(index_manager \<Rightarrow> directory \<Rightarrow> ((index_error + unit) \<times> index_manager \<times> directory) option)
   \<Rightarrow> dynamic_container \<Rightarrow> (storage_error, unit) outcome \<times> dynamic_container" where
  "on_directory f c =
     (case f (dc_index c) (am_files (dc_archive c)) of
        None \<Rightarrow> (Panic, c)
      | Some (r, index, dir) \<Rightarrow>
          (case r of Inl e \<Rightarrow> Fail (IndexError e) | Inr _ \<Rightarrow> Ret (),
           c\<lparr>dc_index := index, dc_archive := (dc_archive c)\<lparr>am_files := dir\<rparr>\<rparr>))"

definition dc_flush_bucket :: "save_io \<Rightarrow> byte \<Rightarrow> dynamic_container \<Rightarrow> (storage_error, unit) outcome \<times> dynamic_container" where
  "dc_flush_bucket io bucket = on_directory (flush_updates_for_bucket io bucket)"

definition dc_flush_all_updates :: "(byte \<Rightarrow> save_io) \<Rightarrow> dynamic_container \<Rightarrow> (storage_error, unit) outcome \<times> dynamic_container" where
  "dc_flush_all_updates io = on_directory (flush_all_updates io)"

definition dc_save_all :: "(byte \<Rightarrow> save_io) \<Rightarrow> dynamic_container \<Rightarrow> (storage_error, unit) outcome \<times> dynamic_container" where
  "dc_save_all io = on_directory (\<lambda>index dir. map_option (\<lambda>(r, dir'). (r, index, dir')) (save_all io index dir))"

definition i32_or_max :: "nat \<Rightarrow> u32" where
  "i32_or_max n = (if n \<le> 0x7FFFFFFF then word_of_nat n else 0x7FFFFFFF)"

definition mark_entry_non_resident :: "byte list \<Rightarrow> u32 \<Rightarrow> u32 \<Rightarrow> dynamic_container \<Rightarrow> dynamic_container" where
  "mark_entry_non_resident key offset span_len c =
     c\<lparr>dc_residency := map_option (\<lambda>r. snd (rc_mark_span_non_resident key offset span_len r)) (dc_residency c),
       dc_index := fst (update_entry_status (dc_index c) key DataNonResident)\<rparr>"

definition handle_truncated_read :: "byte list \<Rightarrow> u16 \<Rightarrow> u32 \<Rightarrow> u32 \<Rightarrow> dynamic_container \<Rightarrow> dynamic_container" where
  "handle_truncated_read key a offset entry_size c =
     (let c = mark_entry_non_resident key (i32_or_max (unat offset)) (i32_or_max (unat entry_size)) c in
      if dc_free_space_reclaim c
      then c\<lparr>dc_segment_allocator := free_span (unat a) (unat offset) (unat entry_size) (dc_segment_allocator c)\<rparr>
      else c)"

definition dc_entry_count :: "dynamic_container \<Rightarrow> nat" where
  "dc_entry_count c = manager_entry_count (dc_index c)"

definition dc_remove_span :: "byte list \<Rightarrow> u64 \<Rightarrow> u64 \<Rightarrow> dynamic_container \<Rightarrow> (storage_error, unit) outcome \<times> dynamic_container" where
  "dc_remove_span key offset span_len c =
     (if \<not> can_write (dc_access_mode c) then (Fail AccessDenied, c)
      else let adjusted_offset = min (unat offset + 0x1E) (2 ^ 64 - 1) in
           case lookup (dc_index c) key of
             None \<Rightarrow> (Ret (), c)
           | Some entry \<Rightarrow>
               let c = mark_entry_non_resident key (i32_or_max adjusted_offset) (i32_or_max (unat span_len)) c in
               (Ret (),
                if dc_free_space_reclaim c
                then c\<lparr>dc_segment_allocator := free_span (unat (archive_id (ie_location entry)))
                        (unat (archive_offset (ie_location entry))) (unat (ie_size entry)) (dc_segment_allocator c)\<rparr>
                else c))"

definition dc_reserve :: "dynamic_container \<Rightarrow> (storage_error, unit) outcome" where
  "dc_reserve c = (if can_write (dc_access_mode c) then Ret () else Fail AccessDenied)"

text \<open>Without an LRU manager nothing is touched; \<open>None\<close> is a panic of the manager.\<close>

definition touch_lru :: "byte list \<Rightarrow> dynamic_container \<Rightarrow> dynamic_container option" where
  "touch_lru key c =
     (case dc_lru c of
        None \<Rightarrow> Some c
      | Some lru \<Rightarrow> map_option (\<lambda>(_, lru'). c\<lparr>dc_lru := Some lru'\<rparr>) (touch lru (take 9 key)))"

definition dc_read ::
  "codecs \<Rightarrow> byte list \<Rightarrow> byte list \<Rightarrow> dynamic_container \<Rightarrow> (storage_error, nat) outcome \<times> byte list \<times> dynamic_container" where
  "dc_read cs key buf c =
     (if \<not> can_read (dc_access_mode c) then (Fail AccessDenied, buf, c)
      else case lookup (dc_index c) key of
             None \<Rightarrow> (Fail NotFound, buf, c)
           | Some entry \<Rightarrow>
               let a = archive_id (ie_location entry); offset = archive_offset (ie_location entry); entry_size = ie_size entry in
               (case read_content cs (dc_archive c) a offset entry_size of
                  Fail e \<Rightarrow> if e = ArBounds then (Fail TruncatedRead, buf, handle_truncated_read key a offset entry_size c)
                            else (Fail (ArchiveError e), buf, c)
                | Panic \<Rightarrow> (Panic, buf, c)
                | Ret data \<Rightarrow>
                    (case touch_lru key c of
                       None \<Rightarrow> (Panic, buf, c)
                     | Some c \<Rightarrow> (case copy_to_buf data buf of (n, buf') \<Rightarrow> (Ret n, buf', c)))))"

record container_io =
  ci_archive :: archive_io
  ci_index :: save_io
  ci_header :: archive_io
  ci_save :: "byte \<Rightarrow> save_io"

definition update_reconstruction_header ::
  "archive_io \<Rightarrow> byte list \<Rightarrow> u16 \<Rightarrow> u32 \<Rightarrow> u32 \<Rightarrow> archive_manager \<Rightarrow> (archive_error, unit) outcome \<times> archive_manager" where
  "update_reconstruction_header io encoding_key a offset total_size m =
     (if unat offset \<ge> SEGMENT_HEADER_SIZE
      then let bucket = bucket_hash (take 9 encoding_key) 0;
               local_header = local_header_new encoding_key total_size 0 1;
               seg_header = (case read_segment_header m a of Ret h \<Rightarrow> h | _ \<Rightarrow> segment_header_zeroed)
           in write_segment_header io a (set_bucket_header seg_header bucket local_header) m
      else (Ret (), m))"

text \<open>\<open>write\<close> from the update of the index on.\<close>

definition commit_entry ::
  "container_io \<Rightarrow> u16 \<Rightarrow> u32 \<Rightarrow> u32 \<Rightarrow> byte list \<Rightarrow> dynamic_container \<Rightarrow> (storage_error, unit) outcome \<times> dynamic_container" where
  "commit_entry io a offset total_size encoding_key c =
     (case on_directory (add_entry (ci_index io) encoding_key a offset total_size) c of
        (Ret _, c) \<Rightarrow>
          (case update_reconstruction_header (ci_header io) encoding_key a offset total_size (dc_archive c) of
             (Ret _, archive) \<Rightarrow>
               (case touch_lru encoding_key (c\<lparr>dc_archive := archive\<rparr>) of
                  None \<Rightarrow> (Panic, c\<lparr>dc_archive := archive\<rparr>)
                | Some c \<Rightarrow> dc_save_all (ci_save io) c)
           | (Fail e, archive) \<Rightarrow> (Fail (ArchiveError e), c\<lparr>dc_archive := archive\<rparr>)
           | (Panic, archive) \<Rightarrow> (Panic, c\<lparr>dc_archive := archive\<rparr>))
      | (r, c) \<Rightarrow> (r, c))"

definition dc_write ::
  "container_io \<Rightarrow> codecs \<Rightarrow> (byte list \<Rightarrow> byte list) \<Rightarrow> byte list \<Rightarrow> byte list \<Rightarrow> dynamic_container
   \<Rightarrow> (storage_error, unit) outcome \<times> dynamic_container" where
  "dc_write io cs md5 key data c =
     (if \<not> can_write (dc_access_mode c) then (Fail AccessDenied, c)
      else case write_content (ci_archive io) cs md5 data False (dc_archive c) of
             (Ret (a, offset, total_size, encoding_key), archive) \<Rightarrow>
               commit_entry io a offset total_size encoding_key (c\<lparr>dc_archive := archive\<rparr>)
           | (Fail e, archive) \<Rightarrow> (Fail (ArchiveError e), c\<lparr>dc_archive := archive\<rparr>)
           | (Panic, archive) \<Rightarrow> (Panic, c\<lparr>dc_archive := archive\<rparr>))"

definition dc_remove :: "(byte \<Rightarrow> save_io) \<Rightarrow> byte list \<Rightarrow> dynamic_container \<Rightarrow> (storage_error, unit) outcome \<times> dynamic_container" where
  "dc_remove io key c =
     (if \<not> can_write (dc_access_mode c) then (Fail AccessDenied, c)
      else let (index, removed) = remove_entry (dc_index c) key; c = c\<lparr>dc_index := index\<rparr> in
           if removed then dc_save_all io c else (Ret (), c))"

definition dc_query :: "dynamic_container \<Rightarrow> byte list \<Rightarrow> (storage_error, bool) outcome" where
  "dc_query c key = Ret (has_entry (dc_index c) key)"

end
