(* ===== verification/Archive_Props.thy ===== *)
theory Archive_Props
  imports Archive Blte_Props
begin

text \<open>
  Properties of the archive manager. An archive is an append-only log: what lies below its write
  position is never changed by a write of an entry, whether the write works or fails half-way, and a
  successful write appends exactly one entry, which reads back as the data.
\<close>

section \<open>The invariant\<close>

definition archive_ok :: "archive_manager \<Rightarrow> u16 \<Rightarrow> archive_file \<Rightarrow> bool" where
  "archive_ok m k af \<longleftrightarrow>
     af_path af = segment_data_path (unat k) \<and> af_detached af = None \<and> af_size af \<le> MAX_ARCHIVE_SIZE
     \<and> (\<exists>fbytes. map_of (am_files m) (Utf8 (af_path af)) = Some fbytes \<and> af_size af \<le> length fbytes)
     \<and> (\<exists>p. map_of (am_write_positions m) k = Some p \<and> SEGMENT_HEADER_SIZE \<le> p \<and> p \<le> af_size af)"

definition archives_inv :: "archive_manager \<Rightarrow> bool" where
  "archives_inv m \<longleftrightarrow>
     (\<forall>k af. map_of (am_archives m) k = Some af \<longrightarrow> archive_ok m k af)
     \<and> dom (map_of (am_write_positions m)) = dom (map_of (am_archives m)) \<and> bt_wf (am_write_positions m)"

text \<open>The bytes below the write position.\<close>

definition committed :: "archive_manager \<Rightarrow> u16 \<Rightarrow> byte list" where
  "committed m k =
     (case map_of (am_archives m) k of
        None \<Rightarrow> []
      | Some af \<Rightarrow> (case map_of (am_write_positions m) k of None \<Rightarrow> [] | Some p \<Rightarrow> take p (mmap m af)))"

lemma archives_invD:
  assumes "archives_inv m" "map_of (am_archives m) k = Some af"
  obtains fbytes p where "af_path af = segment_data_path (unat k)" "af_detached af = None" "af_size af \<le> MAX_ARCHIVE_SIZE"
    "map_of (am_files m) (Utf8 (segment_data_path (unat k))) = Some fbytes" "af_size af \<le> length fbytes"
    "map_of (am_write_positions m) k = Some p" "SEGMENT_HEADER_SIZE \<le> p" "p \<le> af_size af"
    "mmap m af = take (af_size af) fbytes" "committed m k = take p fbytes"
proof -
  have ok: "archive_ok m k af" using assms by (simp add: archives_inv_def)
  then obtain fbytes p where *: "af_path af = segment_data_path (unat k)" "af_detached af = None" "af_size af \<le> MAX_ARCHIVE_SIZE"
    "map_of (am_files m) (Utf8 (segment_data_path (unat k))) = Some fbytes" "af_size af \<le> length fbytes"
    "map_of (am_write_positions m) k = Some p" "SEGMENT_HEADER_SIZE \<le> p" "p \<le> af_size af"
    by (auto simp: archive_ok_def)
  moreover from * have "mmap m af = take (af_size af) fbytes" by (simp add: mmap_def file_of_def)
  moreover from this * assms have "committed m k = take p fbytes" by (simp add: committed_def min_def)
  ultimately show thesis by (rule that)
qed

lemma archives_inv_position:
  "archives_inv m \<Longrightarrow> map_of (am_archives m) k = None \<longleftrightarrow> map_of (am_write_positions m) k = None"
  unfolding archives_inv_def by (metis domIff)

lemma path_inj: "segment_data_path (unat (a :: u16)) = segment_data_path (unat b) \<longleftrightarrow> a = b"
  by (simp add: segment_data_path_inj word_unat_eq_iff)

lemma read_raw_committed:
  assumes "archives_inv m" "unat off + unat sz \<le> length (committed m k)" "committed m k \<noteq> []"
  shows "read_raw m k off sz = Ret (slice (unat off) (unat off + unat sz) (committed m k))"
proof -
  obtain af where af: "map_of (am_archives m) k = Some af" using assms(3) by (auto simp: committed_def split: option.splits)
  show ?thesis
  proof (rule archives_invD [OF assms(1) af])
    fix fbytes p
    assume "p \<le> af_size af" "af_size af \<le> length fbytes" "mmap m af = take (af_size af) fbytes" "committed m k = take p fbytes"
    then show ?thesis
      using assms(2) af by (simp add: read_raw_def slice_take)
  qed
qed

section \<open>Writing bytes to an archive\<close>

lemma write_at_facts:
  assumes "off \<le> length fbytes"
  shows "length (write_at off d fbytes) = max (length fbytes) (off + length d)"
    "take off (write_at off d fbytes) = take off fbytes"
    "slice off (off + length d) (write_at off d fbytes) = d"
    "drop (off + length d) (write_at off d fbytes) = drop (off + length d) fbytes"
  using assms by (auto simp: write_at_def put_slice_def slice_def)

text \<open>
  The effect of a write on the state. \<open>k\<close> bytes reach the fbytes, all of them if the write is reported
  as done; then the map covers the whole fbytes.
\<close>

lemma write_to_archive_facts:
  assumes inv: "archives_inv m" and af: "map_of (am_archives m) a = Some af"
    and fbytes: "map_of (am_files m) (Utf8 (af_path af)) = Some fbytes" and off: "off \<le> length fbytes"
    and w: "write_to_archive io a off data m = (r, m')"
  obtains n af' where "n \<le> length data"
    "map_of (am_files m') = (map_of (am_files m))(Utf8 (af_path af) \<mapsto> write_at off (take n data) fbytes)"
    "map_of (am_archives m') = (map_of (am_archives m))(a \<mapsto> af')" "am_write_positions m' = am_write_positions m"
    "am_base_path m' = am_base_path m"
    "af_path af' = af_path af" "af_detached af' = None" "af_size af \<le> af_size af'"
    "af_size af' \<le> length (write_at off (take n data) fbytes)" "af_size af' \<le> MAX_ARCHIVE_SIZE"
    "r = Ret () \<longrightarrow> n = length data \<and> af_size af' = length (write_at off data fbytes)"
    "r \<noteq> Panic"
proof -
  have old: "af_detached af = None" "af_size af \<le> length fbytes" "af_size af \<le> MAX_ARCHIVE_SIZE"
    using archives_invD [OF inv af] fbytes by force+
  have f: "file_of m (af_path af) = fbytes" by (simp add: file_of_def fbytes)
  have upd: "map_of (am_archives m) = (map_of (am_archives m))(a \<mapsto> af)" using af by auto
  have id: "write_at off (take 0 data) fbytes = fbytes" using off by (simp add: write_at_def put_slice_def)
  have same: "map_of (am_files m) = (map_of (am_files m))(Utf8 (af_path af) \<mapsto> fbytes)" using fbytes by auto
  show thesis
  proof (cases "io_write io")
    case (WriteFails k)
    show thesis
    proof (cases k)
      case None
      show thesis
        by (rule that [of 0 af])
           (use w af WriteFails None old upd same id in \<open>auto simp: write_to_archive_def Let_def\<close>)
    next
      case (Some n)
      have len: "length fbytes \<le> length (write_at off (take (min n (length data)) data) fbytes)"
        using write_at_facts(1) [OF off] by simp
      show thesis
        by (rule that [of "min n (length data)" af])
           (use w af WriteFails Some old upd f len in \<open>auto simp: write_to_archive_def Let_def put_file_def update_conv' min_def\<close>)
    qed
  next
    case WriteOk
    define f' where "f' = write_at off data fbytes"
    have len: "length fbytes \<le> length f'" using write_at_facts(1) [OF off] by (simp add: f'_def)
    define m1 where "m1 = put_file (af_path af) f' m"
    have m1: "file_of m1 (af_path af) = f'" "map_of (am_files m1) = (map_of (am_files m))(Utf8 (af_path af) \<mapsto> f')"
      "am_archives m1 = am_archives m" "am_write_positions m1 = am_write_positions m" "am_base_path m1 = am_base_path m"
      by (simp_all add: m1_def put_file_def file_of_def update_conv')
    have w': "(r, m') = (if \<not> io_stat_ok io then (Fail ArMetadata, m1)
        else if length f' > af_size af then remap_archive io a (af_path af) (length f') m1 else (Ret (), m1))"
      by (simp add: w [symmetric] write_to_archive_def af WriteOk Let_def f f'_def [symmetric] m1_def [symmetric] m1(1))
    consider "m' = m1" "r \<noteq> Panic" "r = Ret () \<longrightarrow> length f' = af_size af"
      | "r = Ret ()" "length f' \<le> MAX_ARCHIVE_SIZE"
        "m' = m1\<lparr>am_archives := AList.update a \<lparr>af_path = af_path af, af_size = length f', af_detached = None\<rparr> (am_archives m1)\<rparr>"
      using w' old(2) len by (auto simp: remap_archive_def split: if_splits)
    then show thesis
    proof cases
      case 1
      show thesis
        by (rule that [of "length data" af]) (use 1 m1 old upd len in \<open>auto simp: f'_def\<close>)
    next
      case 2
      show thesis
        by (rule that [of "length data" "\<lparr>af_path = af_path af, af_size = length f', af_detached = None\<rparr>"])
           (use 2 m1 old upd len in \<open>auto simp: f'_def update_conv'\<close>)
    qed
  qed
qed

definition same_file :: "archive_manager \<Rightarrow> archive_manager \<Rightarrow> u16 \<Rightarrow> bool" where
  "same_file m m' k \<longleftrightarrow>
     map_of (am_files m') (Utf8 (segment_data_path (unat k))) = map_of (am_files m) (Utf8 (segment_data_path (unat k)))
     \<and> map_of (am_archives m') k = map_of (am_archives m) k
     \<and> map_of (am_write_positions m') k = map_of (am_write_positions m) k"

lemma same_file_ok:
  assumes "archives_inv m" "same_file m m' k"
  shows "map_of (am_archives m') k = Some af \<Longrightarrow> archive_ok m' k af" "committed m' k = committed m k"
proof -
  have "archive_ok m' k af \<and> committed m' k = committed m k" if af: "map_of (am_archives m) k = Some af" for af
  proof (rule archives_invD [OF assms(1) af])
    fix fk pk
    assume "af_path af = segment_data_path (unat k)" "af_detached af = None" "af_size af \<le> MAX_ARCHIVE_SIZE"
      "map_of (am_files m) (Utf8 (segment_data_path (unat k))) = Some fk" "af_size af \<le> length fk"
      "map_of (am_write_positions m) k = Some pk" "SEGMENT_HEADER_SIZE \<le> pk" "pk \<le> af_size af"
      "mmap m af = take (af_size af) fk" "committed m k = take pk fk"
    then show ?thesis
      using assms(2) af by (auto simp: same_file_def archive_ok_def committed_def mmap_def file_of_def min_def)
  qed
  moreover have "committed m' k = committed m k" if "map_of (am_archives m) k = None"
    using that assms(2) by (simp add: committed_def same_file_def)
  ultimately show "map_of (am_archives m') k = Some af \<Longrightarrow> archive_ok m' k af" "committed m' k = committed m k"
    using assms(2) unfolding same_file_def by (metis option.exhaust)+
qed

lemma archives_inv_write:
  assumes inv: "archives_inv m"
    and m': "map_of (am_files m') = (map_of (am_files m))(Utf8 (segment_data_path (unat a)) \<mapsto> f')"
      "map_of (am_archives m') = (map_of (am_archives m))(a \<mapsto> af')"
      "map_of (am_write_positions m') = (map_of (am_write_positions m))(a \<mapsto> q)" "bt_wf (am_write_positions m')"
    and af': "af_path af' = segment_data_path (unat a)" "af_detached af' = None" "af_size af' \<le> length f'"
      "af_size af' \<le> MAX_ARCHIVE_SIZE"
    and q: "SEGMENT_HEADER_SIZE \<le> q" "q \<le> af_size af'"
  shows "archives_inv m'" "committed m' = (committed m)(a := take q f')"
proof -
  have other: "same_file m m' k" if "k \<noteq> a" for k
    using that m'(1-3) by (simp add: same_file_def path_inj)
  have ok: "archive_ok m' a af'"
    using af' q m' by (auto simp: archive_ok_def)
  have "committed m' a = take q f'"
    using af' q m' by (simp add: committed_def mmap_def file_of_def min_def)
  then show "committed m' = (committed m)(a := take q f')"
    using same_file_ok(2) [OF inv other] by auto
  have "archive_ok m' k af2" if "map_of (am_archives m') k = Some af2" for k af2
    using ok same_file_ok(1) [OF inv other] m'(2) that by (cases "k = a") auto
  then show "archives_inv m'"
    using inv m'(2-4) by (simp add: archives_inv_def)
qed

text \<open>A file that is no open archive does not matter.\<close>

lemma archives_inv_unopened:
  assumes inv: "archives_inv m" and a: "map_of (am_archives m) a = None"
    and m': "map_of (am_files m') = (map_of (am_files m))(Utf8 (segment_data_path (unat a)) := x)"
      "am_archives m' = am_archives m" "am_write_positions m' = am_write_positions m"
  shows "archives_inv m'" "committed m' = committed m"
proof -
  have other: "same_file m m' k" if "k \<noteq> a" for k
    using that m' by (simp add: same_file_def path_inj)
  have "committed m' a = committed m a" using a m' by (simp add: committed_def)
  then show "committed m' = committed m"
    using same_file_ok(2) [OF inv other] by (metis ext)
  have "archive_ok m' k af" if "map_of (am_archives m') k = Some af" for k af
    using same_file_ok(1) [OF inv other] a m'(2) that by (cases "k = a") auto
  then show "archives_inv m'"
    using inv m'(2,3) by (simp add: archives_inv_def)
qed

text \<open>At the write position: nothing committed changes, and a finished write may be committed.\<close>

lemma append_effect:
  assumes inv: "archives_inv m" and af: "map_of (am_archives m) a = Some af" and p: "map_of (am_write_positions m) a = Some p"
    and w: "write_to_archive io a p data m = (r, m')"
  shows "archives_inv m'" "committed m' = committed m" "am_write_positions m' = am_write_positions m" "r \<noteq> Panic"
    "dom (map_of (am_archives m')) = dom (map_of (am_archives m))" "am_base_path m' = am_base_path m"
    "r = Ret () \<Longrightarrow> p + length data \<le> MAX_ARCHIVE_SIZE \<and>
       (let m'' = m'\<lparr>am_write_positions := bt_insert a (p + length data) (am_write_positions m')\<rparr>
        in archives_inv m'' \<and> committed m'' = (committed m)(a := committed m a @ data))"
proof -
  obtain fbytes where f: "map_of (am_files m) (Utf8 (af_path af)) = Some fbytes" "af_size af \<le> length fbytes"
    "SEGMENT_HEADER_SIZE \<le> p" "p \<le> af_size af" "committed m a = take p fbytes" "af_path af = segment_data_path (unat a)"
    using archives_invD [OF inv af] p by (metis option.inject)
  then have off: "p \<le> length fbytes" by simp
  have wf: "bt_wf (am_write_positions m)" using inv by (simp add: archives_inv_def)
  obtain n af' where e: "n \<le> length data"
    "map_of (am_files m') = (map_of (am_files m))(Utf8 (af_path af) \<mapsto> write_at p (take n data) fbytes)"
    "map_of (am_archives m') = (map_of (am_archives m))(a \<mapsto> af')" "am_write_positions m' = am_write_positions m"
    "am_base_path m' = am_base_path m"
    "af_path af' = af_path af" "af_detached af' = None" "af_size af \<le> af_size af'"
    "af_size af' \<le> length (write_at p (take n data) fbytes)" "af_size af' \<le> MAX_ARCHIVE_SIZE"
    "r = Ret () \<longrightarrow> n = length data \<and> af_size af' = length (write_at p data fbytes)" "r \<noteq> Panic"
    by (rule write_to_archive_facts [OF inv af f(1) off w])
  have pos: "map_of (am_write_positions m') = (map_of (am_write_positions m))(a \<mapsto> p)" "bt_wf (am_write_positions m')"
    using p wf by (auto simp: e(4))
  have qs: "p \<le> af_size af'" using f e by simp
  note step = archives_inv_write [OF inv e(2) [unfolded f(6)] e(3) pos e(6) [unfolded f(6)] e(7,9,10) f(3) qs]
  show "archives_inv m'" by (rule step)
  show "committed m' = committed m"
    using step(2) write_at_facts(2) [OF off, of "take n data"] f(5) by auto
  show "am_write_positions m' = am_write_positions m" "r \<noteq> Panic" "am_base_path m' = am_base_path m" by (fact e)+
  show "dom (map_of (am_archives m')) = dom (map_of (am_archives m))" using e(3) af by auto
  assume "r = Ret ()"
  then have n: "take n data = data" "af_size af' = length (write_at p data fbytes)" using e by auto
  define m'' where "m'' = m'\<lparr>am_write_positions := bt_insert a (p + length data) (am_write_positions m')\<rparr>"
  have pos'': "map_of (am_write_positions m'') = (map_of (am_write_positions m))(a \<mapsto> p + length data)"
    "bt_wf (am_write_positions m'')"
    using wf by (simp_all add: m''_def e(4) map_of_bt_insert bt_wf_insert)
  have files: "map_of (am_files m'') = (map_of (am_files m))(Utf8 (segment_data_path (unat a)) \<mapsto> write_at p data fbytes)"
    "map_of (am_archives m'') = (map_of (am_archives m))(a \<mapsto> af')"
    using e(2,3) n f(6) by (simp_all add: m''_def)
  have len: "p + length data \<le> af_size af'" "SEGMENT_HEADER_SIZE \<le> p + length data" "af_size af' \<le> length (write_at p data fbytes)"
    using n(2) write_at_facts(1) [OF off, of data] f by simp_all
  note step = archives_inv_write [OF inv files pos'' e(6) [unfolded f(6)] e(7) len(3) e(10) len(2,1)]
  have "take (p + length data) (write_at p data fbytes) = committed m a @ data"
    using off by (simp add: write_at_def put_slice_def f(5))
  then show "p + length data \<le> MAX_ARCHIVE_SIZE \<and>
       (let m'' = m'\<lparr>am_write_positions := bt_insert a (p + length data) (am_write_positions m')\<rparr>
        in archives_inv m'' \<and> committed m'' = (committed m)(a := committed m a @ data))"
    using step len e(10) by (simp add: m''_def Let_def)
qed

text \<open>At the start: the segment header is replaced, in part if the write fails, and nothing else.\<close>

lemma header_effect:
  assumes inv: "archives_inv m" and w: "write_to_archive io a 0 data m = (r, m')"
    and len: "length data = SEGMENT_HEADER_SIZE"
  shows "archives_inv m'" "am_write_positions m' = am_write_positions m" "r \<noteq> Panic"
    "length (committed m' k) = length (committed m k)"
    "drop SEGMENT_HEADER_SIZE (committed m' k) = drop SEGMENT_HEADER_SIZE (committed m k)"
    "am_base_path m' = am_base_path m"
    "r = Ret () \<Longrightarrow> committed m' a = data @ drop SEGMENT_HEADER_SIZE (committed m a)"
proof -
  have "archives_inv m' \<and> am_write_positions m' = am_write_positions m \<and> r \<noteq> Panic \<and> am_base_path m' = am_base_path m
    \<and> length (committed m' k) = length (committed m k)
    \<and> drop SEGMENT_HEADER_SIZE (committed m' k) = drop SEGMENT_HEADER_SIZE (committed m k)
    \<and> (r = Ret () \<longrightarrow> committed m' a = data @ drop SEGMENT_HEADER_SIZE (committed m a))"
  proof (cases "map_of (am_archives m) a")
    case None
    then show ?thesis using w inv by (auto simp: write_to_archive_def)
  next
    case (Some af)
    obtain fbytes p where f: "map_of (am_files m) (Utf8 (af_path af)) = Some fbytes" "af_size af \<le> length fbytes"
      "map_of (am_write_positions m) a = Some p" "SEGMENT_HEADER_SIZE \<le> p" "p \<le> af_size af" "committed m a = take p fbytes"
      "af_path af = segment_data_path (unat a)"
      using archives_invD [OF inv Some] by metis
    obtain n af' where e: "n \<le> length data"
      "map_of (am_files m') = (map_of (am_files m))(Utf8 (af_path af) \<mapsto> write_at 0 (take n data) fbytes)"
      "map_of (am_archives m') = (map_of (am_archives m))(a \<mapsto> af')" "am_write_positions m' = am_write_positions m"
      "am_base_path m' = am_base_path m"
      "af_path af' = af_path af" "af_detached af' = None" "af_size af \<le> af_size af'"
      "af_size af' \<le> length (write_at 0 (take n data) fbytes)" "af_size af' \<le> MAX_ARCHIVE_SIZE"
      "r = Ret () \<longrightarrow> n = length data \<and> af_size af' = length (write_at 0 data fbytes)" "r \<noteq> Panic"
      by (rule write_to_archive_facts [OF inv Some f(1) _ w]) simp_all
    have pos: "map_of (am_write_positions m') = (map_of (am_write_positions m))(a \<mapsto> p)" "bt_wf (am_write_positions m')"
      using f(3) inv by (auto simp: e(4) archives_inv_def)
    have qs: "p \<le> af_size af'" using f e by simp
    note step = archives_inv_write [OF inv e(2) [unfolded f(7)] e(3) pos e(6) [unfolded f(7)] e(7,9,10) f(4) qs]
    have c: "committed m' a = take n data @ drop n (committed m a)"
      using step(2) f len e(1) by (simp add: write_at_def put_slice_def min_def drop_take)
    show ?thesis
    proof (intro conjI impI)
      show "length (committed m' k) = length (committed m k)"
        "drop SEGMENT_HEADER_SIZE (committed m' k) = drop SEGMENT_HEADER_SIZE (committed m k)"
        using step(2) c f len e(1) by (cases "k = a"; simp)+
      show "committed m' a = data @ drop SEGMENT_HEADER_SIZE (committed m a)" if "r = Ret ()"
        using c e(11) that len by simp
    qed (use step e in simp_all)
  qed
  then show "archives_inv m'" "am_write_positions m' = am_write_positions m" "r \<noteq> Panic"
    "length (committed m' k) = length (committed m k)"
    "drop SEGMENT_HEADER_SIZE (committed m' k) = drop SEGMENT_HEADER_SIZE (committed m k)"
    "am_base_path m' = am_base_path m"
    "r = Ret () \<Longrightarrow> committed m' a = data @ drop SEGMENT_HEADER_SIZE (committed m a)" by auto
qed

section \<open>Creating archives and writing entries\<close>

lemma create_archive_effect:
  assumes inv: "archives_inv m" and a: "map_of (am_archives m) a = None" and md5: "\<And>x. length (md5 x) = 16"
    and c: "create_archive io md5 a m = (r, m')"
  shows "archives_inv m'" "r \<noteq> Panic" "am_base_path m' = am_base_path m"
    "r \<noteq> Ret () \<Longrightarrow> committed m' = committed m \<and> am_archives m' = am_archives m \<and> am_write_positions m' = am_write_positions m"
    "r = Ret () \<Longrightarrow> map_of (am_write_positions m') a = Some SEGMENT_HEADER_SIZE \<and>
       committed m' = (committed m)(a := segment_header_to_bytes (segment_header_generate a (md5 (am_base_path m))))"
    "r = Ret () \<Longrightarrow> dom (map_of (am_archives m')) = insert a (dom (map_of (am_archives m)))"
proof -
  define path h where "path = segment_data_path (unat a)"
    and "h = segment_header_to_bytes (segment_header_generate a (md5 (am_base_path m)))"
  have len: "length h = SEGMENT_HEADER_SIZE"
    unfolding h_def using md5 by (intro length_segment_header_to_bytes wf_segment_header_generate)
  define af where "af = \<lparr>af_path = path, af_size = length h, af_detached = None\<rparr>"
  define m2 where "m2 = (put_file path h m)\<lparr>am_archives := AList.update a af (am_archives m),
    am_write_positions := bt_insert a SEGMENT_HEADER_SIZE (bt_insert a (length h) (am_write_positions m))\<rparr>"
  have wf: "bt_wf (am_write_positions m)" using inv by (simp add: archives_inv_def)
  consider (fails) d where "r \<noteq> Ret ()" "r \<noteq> Panic" "m' = m \<or> m' = put_file path d m" | (ok) "r = Ret ()" "m' = m2"
    using c by (auto simp: create_archive_def Let_def open_archive_def path_def [symmetric] h_def [symmetric] m2_def af_def
        put_file_def update_conv' split: write_io.splits option.splits if_splits)
  then have "archives_inv m' \<and> r \<noteq> Panic \<and> am_base_path m' = am_base_path m
    \<and> (r \<noteq> Ret () \<longrightarrow> committed m' = committed m \<and> am_archives m' = am_archives m \<and> am_write_positions m' = am_write_positions m)
    \<and> (r = Ret () \<longrightarrow> map_of (am_write_positions m') a = Some SEGMENT_HEADER_SIZE \<and> committed m' = (committed m)(a := h)
         \<and> dom (map_of (am_archives m')) = insert a (dom (map_of (am_archives m))))"
  proof cases
    case fails
    then show ?thesis
      using inv archives_inv_unopened [OF inv a, of m' "Some d"]
      by (auto simp: put_file_def update_conv' path_def)
  next
    case ok
    have step: "map_of (am_files m2) = (map_of (am_files m))(Utf8 (segment_data_path (unat a)) \<mapsto> h)"
      "map_of (am_archives m2) = (map_of (am_archives m))(a \<mapsto> af)"
      "map_of (am_write_positions m2) = (map_of (am_write_positions m))(a \<mapsto> SEGMENT_HEADER_SIZE)" "bt_wf (am_write_positions m2)"
      using wf by (simp_all add: m2_def put_file_def update_conv' path_def map_of_bt_insert bt_wf_insert)
    have "archives_inv m2" "committed m2 = (committed m)(a := take SEGMENT_HEADER_SIZE h)"
      by (rule archives_inv_write [OF inv step]; simp add: af_def path_def len MAX_ARCHIVE_SIZE_def SEGMENT_SIZE_def SEGMENT_HEADER_SIZE_def)+
    then show ?thesis
      using ok step len by (auto simp: m2_def put_file_def)
  qed
  then show "archives_inv m'" "r \<noteq> Panic" "am_base_path m' = am_base_path m"
    "r \<noteq> Ret () \<Longrightarrow> committed m' = committed m \<and> am_archives m' = am_archives m \<and> am_write_positions m' = am_write_positions m"
    "r = Ret () \<Longrightarrow> map_of (am_write_positions m') a = Some SEGMENT_HEADER_SIZE \<and>
       committed m' = (committed m)(a := segment_header_to_bytes (segment_header_generate a (md5 (am_base_path m))))"
    "r = Ret () \<Longrightarrow> dom (map_of (am_archives m')) = insert a (dom (map_of (am_archives m)))"
    by (auto simp: h_def)
qed

lemma length_committed:
  assumes "archives_inv m" "map_of (am_write_positions m) a = Some p"
  shows "length (committed m a) = p" "SEGMENT_HEADER_SIZE \<le> p" "map_of (am_archives m) a \<noteq> None"
proof -
  show "map_of (am_archives m) a \<noteq> None" using archives_inv_position [OF assms(1), of a] assms(2) by simp
  then obtain af where "map_of (am_archives m) a = Some af" by blast
  then have "length (committed m a) = p \<and> SEGMENT_HEADER_SIZE \<le> p"
    using assms(2) by (auto elim!: archives_invD [OF assms(1)])
  then show "length (committed m a) = p" "SEGMENT_HEADER_SIZE \<le> p" by simp_all
qed

text \<open>
  The entry in archive \<open>a\<close> at \<open>off\<close>: everything before it is as it was (a fresh archive has its
  segment header there), then the local header for that position, then the data.
\<close>

definition entry_appended ::
  "archive_manager \<Rightarrow> archive_manager \<Rightarrow> byte list \<Rightarrow> byte list \<Rightarrow> u16 \<Rightarrow> u32 \<Rightarrow> u32 \<Rightarrow> bool" where
  "entry_appended m m' ekey blte a off tsz \<longleftrightarrow>
     (\<exists>pre. committed m' = (committed m)(a := pre @ local_header_to_bytes
                (local_header_new ekey tsz (ucast a * word_of_nat SEGMENT_SIZE + word_of_nat (unat off)) 0) @ blte)
       \<and> length pre = unat off \<and> (\<exists>ext. pre = committed m a @ ext))
     \<and> unat tsz = 30 + length blte \<and> SEGMENT_HEADER_SIZE \<le> unat off \<and> unat off + unat tsz \<le> MAX_ARCHIVE_SIZE"

lemma write_entry_existing:
  assumes inv: "archives_inv m" and p: "map_of (am_write_positions m) a = Some p" and ekey: "length ekey = 16"
    and tsz: "tsz = LOCAL_HEADER_SIZE + length blte" "tsz < 2 ^ 32"
    and data: "data = local_header_to_bytes (local_header_new ekey (word_of_nat tsz)
                 (ucast a * word_of_nat SEGMENT_SIZE + word_of_nat p) 0) @ blte"
    and w: "write_to_archive io a p data m = (r, m1)"
  shows "archives_inv m1" "committed m1 = committed m" "r \<noteq> Panic" "r = Ret () \<Longrightarrow> p < 2 ^ 32"
    "r = Ret () \<Longrightarrow> archives_inv (m1\<lparr>am_write_positions := bt_insert a (p + tsz) (am_write_positions m1)\<rparr>)
       \<and> entry_appended m (m1\<lparr>am_write_positions := bt_insert a (p + tsz) (am_write_positions m1)\<rparr>) ekey blte a
           (word_of_nat p) (word_of_nat tsz)"
proof -
  obtain af where af: "map_of (am_archives m) a = Some af" using length_committed(3) [OF inv p] by blast
  note eff = append_effect [OF inv af p w]
  note pos = length_committed [OF inv p]
  show "archives_inv m1" "committed m1 = committed m" "r \<noteq> Panic" by (fact eff)+
  assume r: "r = Ret ()"
  have len: "length data = tsz"
    using ekey by (simp add: data tsz LOCAL_HEADER_SIZE_def codec_simps local_header_new_fields)
  note fin = eff(7) [OF r, unfolded len Let_def]
  then have le: "p + tsz \<le> MAX_ARCHIVE_SIZE" by simp
  then show p32: "p < 2 ^ 32" by (simp add: MAX_ARCHIVE_SIZE_def SEGMENT_SIZE_def)
  have un: "unat (word_of_nat p :: u32) = p" "unat (word_of_nat tsz :: u32) = tsz"
    using p32 tsz(2) by (simp_all add: unat_of_nat take_bit_nat_eq_self)
  show "archives_inv (m1\<lparr>am_write_positions := bt_insert a (p + tsz) (am_write_positions m1)\<rparr>)
       \<and> entry_appended m (m1\<lparr>am_write_positions := bt_insert a (p + tsz) (am_write_positions m1)\<rparr>) ekey blte a
           (word_of_nat p) (word_of_nat tsz)"
    unfolding entry_appended_def
  proof (intro conjI)
    show "\<exists>pre. committed (m1\<lparr>am_write_positions := bt_insert a (p + tsz) (am_write_positions m1)\<rparr>) =
        (committed m)(a := pre @ local_header_to_bytes (local_header_new ekey (word_of_nat tsz)
          (ucast a * word_of_nat SEGMENT_SIZE + word_of_nat (unat (word_of_nat p :: u32))) 0) @ blte)
        \<and> length pre = unat (word_of_nat p :: u32) \<and> (\<exists>ext. pre = committed m a @ ext)"
      unfolding un using fin pos by (intro exI [of _ "committed m a"]) (simp add: data)
  qed (use fin pos le un tsz(1) in \<open>simp_all add: LOCAL_HEADER_SIZE_def\<close>)
qed

lemma write_entry_effect:
  assumes inv: "archives_inv m" and md5: "\<And>x. length (md5 x) = 16" and ekey: "length ekey = 16"
    and w: "write_entry io md5 ekey blte m = (r, m')"
  shows "archives_inv m' \<and> r \<noteq> Panic \<and> (\<forall>k. \<exists>ext. committed m' k = committed m k @ ext)
    \<and> (\<forall>a off tsz. r = Ret (a, off, tsz) \<longrightarrow> entry_appended m m' ekey blte a off tsz)"
proof -
  define tsz where "tsz = LOCAL_HEADER_SIZE + length blte"
  define a where "a = select_archive_for_write_sized m tsz"
  show ?thesis
  proof (cases "tsz < 2 ^ 32")
    case False
    then show ?thesis using w inv by (auto simp: write_entry_def tsz_def [symmetric])
  next
    case True
    obtain r1 m1 where r1: "(if map_of (am_archives m) a = None then create_archive io md5 a m else (Ret (), m)) = (r1, m1)"
      by fastforce
    have m1: "archives_inv m1" "r1 \<noteq> Panic" "\<forall>k. \<exists>ext. committed m1 k = committed m k @ ext"
      "\<forall>k. k \<noteq> a \<longrightarrow> committed m1 k = committed m k"
      "r1 = Ret () \<Longrightarrow> map_of (am_write_positions m1) a \<noteq> None"
    proof -
      have none: "committed m a = []" if "map_of (am_archives m) a = None" using that by (simp add: committed_def)
      have "archives_inv m1 \<and> r1 \<noteq> Panic \<and> (\<forall>k. \<exists>ext. committed m1 k = committed m k @ ext)
        \<and> (\<forall>k. k \<noteq> a \<longrightarrow> committed m1 k = committed m k)
        \<and> (r1 = Ret () \<longrightarrow> map_of (am_write_positions m1) a \<noteq> None)"
      proof (cases "map_of (am_archives m) a = None")
        case True
        then have "create_archive io md5 a m = (r1, m1)" using r1 by simp
        note eff = create_archive_effect [OF inv True md5 this]
        show ?thesis using eff none [OF True] by (cases "r1 = Ret ()") auto
      next
        case False
        then show ?thesis using r1 inv archives_inv_position [OF inv, of a] by auto
      qed
      then show "archives_inv m1" "r1 \<noteq> Panic" "\<forall>k. \<exists>ext. committed m1 k = committed m k @ ext"
        "\<forall>k. k \<noteq> a \<longrightarrow> committed m1 k = committed m k"
        "r1 = Ret () \<Longrightarrow> map_of (am_write_positions m1) a \<noteq> None" by auto
    qed
    show ?thesis
    proof (cases "r1 = Ret ()")
      case False
      then show ?thesis
        using w r1 m1 True by (auto simp: write_entry_def tsz_def [symmetric] a_def [symmetric] Let_def split: outcome.splits)
    next
      case True
      then obtain p where p: "map_of (am_write_positions m1) a = Some p" using m1 by blast
      define data where "data = local_header_to_bytes (local_header_new ekey (word_of_nat tsz)
                 (ucast a * word_of_nat SEGMENT_SIZE + word_of_nat p) 0) @ blte"
      obtain r2 m2 where w2: "write_to_archive io a p data m1 = (r2, m2)" by fastforce
      note eff = write_entry_existing [OF m1(1) p ekey tsz_def \<open>tsz < 2 ^ 32\<close> data_def w2]
      have res: "(r, m') = (case r2 of Ret _ \<Rightarrow> (Ret (a, word_of_nat p, word_of_nat tsz),
              m2\<lparr>am_write_positions := bt_insert a (p + tsz) (am_write_positions m2)\<rparr>)
            | Fail e \<Rightarrow> (Fail e, m2) | Panic \<Rightarrow> (Panic, m2))"
        using eff(4) \<open>tsz < 2 ^ 32\<close> True
        by (auto simp: w [symmetric] write_entry_def tsz_def [symmetric] a_def [symmetric] r1 Let_def p data_def [symmetric] w2
              split: outcome.splits)
      show ?thesis
      proof (cases r2)
        case (Ret u)
        then have "r2 = Ret ()" by simp
        note ap = eff(5) [OF this]
        then have app: "entry_appended m1 m' ekey blte a (word_of_nat p) (word_of_nat tsz)" "archives_inv m'"
          using res Ret by auto
        then obtain rest where rest: "committed m' = (committed m1)(a := committed m1 a @ rest)"
          unfolding entry_appended_def by force
        have "entry_appended m m' ekey blte a (word_of_nat p) (word_of_nat tsz)"
        proof -
          obtain ext where "committed m1 a = committed m a @ ext" using m1(3) by blast
          moreover have "(committed m1)(a := x) = (committed m)(a := x)" for x using m1(4) by auto
          ultimately show ?thesis using app(1) unfolding entry_appended_def by fastforce
        qed
        moreover have "\<exists>ext. committed m' k = committed m k @ ext" for k
          using m1(3) rest by (cases "k = a") (auto simp del: append_assoc simp: append_assoc [symmetric], metis append_assoc)
        ultimately show ?thesis using res Ret app(2) by auto
      qed (use res eff m1 in auto)
    qed
  qed
qed

section \<open>Reading back\<close>

text \<open>The data that fits into one chunk of the mode: any data if it is stored as it is.\<close>

definition storable_data :: "codecs \<Rightarrow> byte list \<Rightarrow> compression_mode \<Rightarrow> bool" where
  "storable_data c data mode \<longleftrightarrow>
     mode = ModeNone \<or> plain_mode mode \<and> lz4_ok c \<and> zlib_ok c \<and> length data \<le> MAX_CHUNK_SIZE"

lemma storable_chunk:
  assumes "storable_data c data mode"
  shows "plain_mode mode" "\<exists>ch. chunk_new c data mode = Ret ch \<and> chunk_decompress c ch = Ret data"
proof -
  show mode: "plain_mode mode" using assms by (auto simp: storable_data_def plain_mode_def)
  show "\<exists>ch. chunk_new c data mode = Ret ch \<and> chunk_decompress c ch = Ret data"
  proof (cases "mode = ModeNone")
    case True
    then show ?thesis by (simp add: chunk_new_def chunk_decompress_def decompress_chunk_plain)
  next
    case False
    then obtain z where "compress_chunk c data mode = Ret z" "decompress_chunk c z mode = Ret data"
      using compress_chunk_opens [of c mode data] assms unfolding storable_data_def by metis
    then show ?thesis using False by (simp add: chunk_new_def chunk_decompress_def)
  qed
qed

lemma compress_decode:
  assumes "storable_data c data mode"
  obtains blte where "compress_blte_with_mode c data mode = Ret blte"
    "\<And>header. length header = 30 \<Longrightarrow> decode_entry c (header @ blte) = Ret data"
proof -
  obtain ch where ch: "chunk_new c data mode = Ret ch" "chunk_decompress c ch = Ret data"
    using storable_chunk [OF assms] by blast
  define f where "f = \<lparr>bf_header = header_single_chunk, bf_chunks = [ch]\<rparr>"
  have wf: "wf_file f" by (simp add: wf_file_def f_def)
  have "blte_parse (blte_bytes f) = Ret (f\<lparr>bf_chunks := map strip (bf_chunks f)\<rparr>)" by (rule blte_parse_bytes [OF wf])
  moreover have "blte_decompress c (f\<lparr>bf_chunks := map strip (bf_chunks f)\<rparr>) = Ret data"
    using ch(2) by (simp add: f_def blte_decompress_def chunk_decompress_def strip_def)
  ultimately have "decompress_blte_with_formats c (blte_bytes f) = Ret data"
    by (simp add: decompress_blte_with_formats_def)
  moreover obtain rest where "blte_bytes f = BLTE_MAGIC @ rest"
    by (simp add: f_def blte_bytes_def write_header_def header_single_chunk_def)
  ultimately have "decode_entry c (header @ blte_bytes f) = Ret data" if "length header = 30" for header
    using that by (simp add: decode_entry_def LOCAL_HEADER_SIZE_def slice_def BLTE_MAGIC_def)
  moreover have "compress_blte_with_mode c data mode = Ret (blte_bytes f)"
    using ch(1) storable_chunk(1) [OF assms]
    by (auto simp: compress_blte_with_mode_def file_single_chunk_def f_def plain_mode_def)
  ultimately show thesis by (rule that [rotated])
qed

lemma read_raw_prefix:
  assumes "archives_inv m" "archives_inv m'" "committed m' a = committed m a @ ext"
    and "map_of (am_write_positions m) a = Some p" "unat off + unat sz \<le> p"
  shows "read_raw m' a off sz = read_raw m a off sz"
proof -
  have len: "length (committed m a) = p" "committed m a \<noteq> []"
    using length_committed [OF assms(1,4)] by (auto simp: SEGMENT_HEADER_SIZE_def)
  then show ?thesis
    using read_raw_committed [OF assms(1), of off sz a] read_raw_committed [OF assms(2), of off sz a] assms(3,5)
    by (simp add: slice_append_left)
qed

lemma read_entry_appended:
  assumes "archives_inv m'" "entry_appended m m' ekey blte a off tsz" "length ekey = 16"
  shows "read_raw m' a off tsz = Ret (local_header_to_bytes
    (local_header_new ekey tsz (ucast a * word_of_nat SEGMENT_SIZE + word_of_nat (unat off)) 0) @ blte)"
proof -
  define h where "h = local_header_new ekey tsz (ucast a * word_of_nat SEGMENT_SIZE + word_of_nat (unat off)) 0"
  obtain pre where pre: "committed m' a = pre @ local_header_to_bytes h @ blte" "length pre = unat off"
    "unat tsz = 30 + length blte"
    using assms(2) by (auto simp: entry_appended_def h_def)
  moreover have "length (local_header_to_bytes h) = 30"
    using assms(3) by (simp add: h_def length_local_header_to_bytes local_header_new_fields)
  moreover from this pre have "committed m' a \<noteq> []" by auto
  ultimately show ?thesis
    unfolding h_def [symmetric] using read_raw_committed [OF assms(1), of off tsz a] by (simp add: slice_def)
qed

lemma write_content_effect:
  assumes inv: "archives_inv m" and md5: "\<And>x. length (md5 x) = 16"
    and w: "write_content_with_mode io c md5 data mode m = (r, m')"
  shows "archives_inv m'" "r = Panic \<Longrightarrow> compress_blte_with_mode c data mode = Panic"
    "\<forall>k. \<exists>ext. committed m' k = committed m k @ ext"
    "r = Ret (a, off, tsz, ekey) \<Longrightarrow> \<exists>blte. compress_blte_with_mode c data mode = Ret blte \<and> ekey = md5 blte
       \<and> entry_appended m m' ekey blte a off tsz"
proof -
  have "archives_inv m' \<and> (r = Panic \<longrightarrow> compress_blte_with_mode c data mode = Panic)
    \<and> (\<forall>k. \<exists>ext. committed m' k = committed m k @ ext)
    \<and> (r = Ret (a, off, tsz, ekey) \<longrightarrow> (\<exists>blte. compress_blte_with_mode c data mode = Ret blte \<and> ekey = md5 blte
       \<and> entry_appended m m' ekey blte a off tsz))"
  proof (cases "compress_blte_with_mode c data mode")
    case (Ret blte)
    obtain r1 m1 where w1: "write_entry io md5 (md5 blte) blte m = (r1, m1)" by fastforce
    then have "(r, m') = (obind r1 (\<lambda>(a, off, tsz). Ret (a, off, tsz, md5 blte)), m1)"
      using w Ret by (simp add: write_content_with_mode_def)
    then show ?thesis
      using write_entry_effect [OF inv md5 md5 w1] Ret by (auto simp: obind_Ret obind_Panic)
  qed (use w inv in \<open>auto simp: write_content_with_mode_def\<close>)
  then show "archives_inv m'" "r = Panic \<Longrightarrow> compress_blte_with_mode c data mode = Panic"
    "\<forall>k. \<exists>ext. committed m' k = committed m k @ ext"
    "r = Ret (a, off, tsz, ekey) \<Longrightarrow> \<exists>blte. compress_blte_with_mode c data mode = Ret blte \<and> ekey = md5 blte
       \<and> entry_appended m m' ekey blte a off tsz" by auto
qed

section \<open>When a write succeeds\<close>

definition good_io :: "archive_io \<Rightarrow> bool" where
  "good_io io \<longleftrightarrow> io_create io = WriteOk \<and> io_open_ok io \<and> io_write io = WriteOk \<and> io_stat_ok io \<and> io_remap_ok io"

definition files_fit :: "archive_manager \<Rightarrow> bool" where
  "files_fit m \<longleftrightarrow> (\<forall>k. length (file_of m (segment_data_path k)) \<le> MAX_ARCHIVE_SIZE)"

lemma write_to_archive_succeeds:
  assumes "archives_inv m" "map_of (am_archives m) a = Some af" "good_io io" "files_fit m"
    and "off \<le> length (file_of m (af_path af))" "off + length data \<le> MAX_ARCHIVE_SIZE"
  shows "\<exists>m'. write_to_archive io a off data m = (Ret (), m')"
proof -
  have path: "af_path af = segment_data_path (unat a)" using archives_invD [OF assms(1,2)] by metis
  have "length (write_at off data (file_of m (af_path af))) \<le> MAX_ARCHIVE_SIZE"
    using assms(4,6) write_at_facts(1) [OF assms(5)] by (simp add: path files_fit_def)
  then show ?thesis
    using assms(2,3) by (simp add: write_to_archive_def good_io_def Let_def put_file_def file_of_def update_conv' remap_archive_def)
qed

lemma create_archive_succeeds:
  assumes "good_io io"
  shows "\<exists>m'. create_archive io md5 a m = (Ret (), m')
    \<and> file_of m' (segment_data_path k) = (if k = unat a
         then segment_header_to_bytes (segment_header_generate a (md5 (am_base_path m))) else file_of m (segment_data_path k))"
  using assms
  by (auto simp: create_archive_def good_io_def Let_def open_archive_def put_file_def file_of_def update_conv' segment_data_path_inj)

lemma first_with_room_fits:
  "first_with_room n ps = Some a \<Longrightarrow> bt_wf ps \<Longrightarrow> \<exists>p. map_of ps a = Some p \<and> p + n \<le> MAX_ARCHIVE_SIZE"
proof (induction ps)
  case (Cons q ps)
  obtain b p where q: "q = (b, p)" by fastforce
  show ?case
  proof (cases "p + n \<le> MAX_ARCHIVE_SIZE")
    case False
    then have "first_with_room n ps = Some a" using Cons.prems(1) by (simp add: q)
    moreover have "bt_wf ps" using Cons.prems(2) by (simp add: bt_wf_def)
    ultimately obtain p' where "map_of ps a = Some p'" "p' + n \<le> MAX_ARCHIVE_SIZE" using Cons.IH by blast
    moreover have "a \<noteq> b" using calculation(1) Cons.prems(2) by (auto simp: q bt_wf_def dest!: map_of_SomeD)
    ultimately show ?thesis by (simp add: q)
  qed (use Cons.prems in \<open>simp add: q\<close>)
qed simp

lemma write_entry_succeeds:
  assumes inv: "archives_inv m" and md5: "\<And>x. length (md5 x) = 16" and ekey: "length ekey = 16"
    and io: "good_io io" and fit: "files_fit m" and n: "SEGMENT_HEADER_SIZE + LOCAL_HEADER_SIZE + length blte \<le> MAX_ARCHIVE_SIZE"
    and next_id: "length (am_write_positions m) < 2 ^ 16 - 1" "map_of (am_archives m) (word_of_nat (length (am_write_positions m))) = None"
  shows "\<exists>a off tsz m'. write_entry io md5 ekey blte m = (Ret (a, off, tsz), m')"
proof -
  define n where "n = LOCAL_HEADER_SIZE + length blte"
  have n32: "n < 2 ^ 32" using assms(6) by (simp add: n_def MAX_ARCHIVE_SIZE_def SEGMENT_SIZE_def)
  define a where "a = select_archive_for_write_sized m n"
  obtain m1 p where m1: "(if map_of (am_archives m) a = None then create_archive io md5 a m else (Ret (), m)) = (Ret (), m1)"
    and inv1: "archives_inv m1" and p: "map_of (am_write_positions m1) a = Some p" "p + n \<le> MAX_ARCHIVE_SIZE" and fit1: "files_fit m1"
  proof (cases "first_with_room n (am_write_positions m)")
    case None
    then have a: "map_of (am_archives m) a = None" using next_id by (simp add: a_def select_archive_for_write_sized_def)
    obtain m1 where c: "create_archive io md5 a m = (Ret (), m1)" using create_archive_succeeds [OF io] by blast
    note eff = create_archive_effect [OF inv a md5 c]
    have "length (segment_header_to_bytes (segment_header_generate a (md5 (am_base_path m)))) \<le> MAX_ARCHIVE_SIZE"
      using md5 length_segment_header_to_bytes [OF wf_segment_header_generate]
      by (simp add: SEGMENT_HEADER_SIZE_def MAX_ARCHIVE_SIZE_def SEGMENT_SIZE_def)
    then have "files_fit m1"
      using fit create_archive_succeeds [OF io, of md5 a m] c by (auto simp: files_fit_def split: if_splits)
    then show thesis
      using that [of m1 SEGMENT_HEADER_SIZE] eff c a assms(6) by (simp add: n_def)
  next
    case (Some b)
    then have "a = b" by (simp add: a_def select_archive_for_write_sized_def)
    moreover have "bt_wf (am_write_positions m)" using inv by (simp add: archives_inv_def)
    ultimately obtain p where "map_of (am_write_positions m) a = Some p" "p + n \<le> MAX_ARCHIVE_SIZE"
      using first_with_room_fits [OF Some] by blast
    then show thesis
      using that [of m p] inv fit archives_inv_position [OF inv, of a] by auto
  qed
  obtain af where af: "map_of (am_archives m1) a = Some af" using length_committed(3) [OF inv1 p(1)] by blast
  have "p \<le> length (file_of m1 (af_path af))"
    by (rule archives_invD [OF inv1 af]) (use p in \<open>simp add: file_of_def\<close>)
  moreover define data where "data = local_header_to_bytes (local_header_new ekey (word_of_nat n)
                 (ucast a * word_of_nat SEGMENT_SIZE + word_of_nat p) 0) @ blte"
  moreover have "length data = n"
    using ekey by (simp add: data_def n_def LOCAL_HEADER_SIZE_def codec_simps local_header_new_fields)
  ultimately obtain m2 where "write_to_archive io a p data m1 = (Ret (), m2)"
    using write_to_archive_succeeds [OF inv1 af io fit1, of p data] p(2) by auto
  moreover have "\<not> 2 ^ 32 \<le> p" using p(2) by (simp add: MAX_ARCHIVE_SIZE_def SEGMENT_SIZE_def)
  ultimately show ?thesis
    using n32 m1 p(1) by (simp add: write_entry_def n_def [symmetric] a_def [symmetric] Let_def data_def [symmetric])
qed

text \<open>
  C4. An archive is an append-only log. A write of content, whether it succeeds or fails at any of its
  file operations, changes no byte below a write position, so every earlier entry reads as before.
  If it reports an entry, that entry decompresses to the data, it carries the MD5 of its BLTE bytes as
  encoding key in a local header whose checksums hold at its position across all segments, and it
  lies behind the segment header and within 1 GiB.
\<close>

theorem archive_append_only:
  assumes "archives_inv m" "\<And>x. length (md5 x) = 16" "storable_data c data mode"
    and "write_content_with_mode io c md5 data mode m = (r, m')"
  shows "archives_inv m' \<and> r \<noteq> Panic
    \<and> (\<forall>a p off sz. map_of (am_write_positions m) a = Some p \<and> unat off + unat sz \<le> p \<longrightarrow>
         read_raw m' a off sz = read_raw m a off sz)
    \<and> (\<forall>a off sz ekey. r = Ret (a, off, sz, ekey) \<longrightarrow>
         read_content c m' a off sz = Ret data \<and> 480 \<le> unat off \<and> unat off + unat sz \<le> 2 ^ 30
         \<and> (\<exists>blte h. compress_blte_with_mode c data mode = Ret blte \<and> ekey = md5 blte
              \<and> read_raw m' a off sz = Ret (local_header_to_bytes h @ blte)
              \<and> original_encoding_key h = ekey \<and> lh_encoded_size h = sz
              \<and> validate_checksums h (ucast a * 0x40000000 + word_of_nat (unat off))))"
proof (intro conjI allI impI)
  obtain blte where blte: "compress_blte_with_mode c data mode = Ret blte"
    "\<And>header. length header = 30 \<Longrightarrow> decode_entry c (header @ blte) = Ret data"
    using compress_decode [OF assms(3)] by blast
  note eff = write_content_effect [OF assms(1,2,4)]
  show inv: "archives_inv m'" by (fact eff)
  show "r \<noteq> Panic" using eff(2) blte by auto
  show "read_raw m' a off sz = read_raw m a off sz"
    if "map_of (am_write_positions m) a = Some p \<and> unat off + unat sz \<le> p" for a p off sz
    using read_raw_prefix [OF assms(1) inv] eff(3) that by blast
  fix a off sz ekey
  assume "r = Ret (a, off, sz, ekey)"
  then have ekey: "ekey = md5 blte" and app: "entry_appended m m' ekey blte a off sz"
    using eff(4) [of a off sz ekey] blte(1) by auto
  then have len: "length ekey = 16" using assms(2) by simp
  define h where "h = local_header_new ekey sz (ucast a * word_of_nat SEGMENT_SIZE + word_of_nat (unat off)) 0"
  have h: "original_encoding_key h = ekey" "lh_encoded_size h = sz" "wf_local_header h"
    "validate_checksums h (ucast a * 0x40000000 + word_of_nat (unat off))"
    using len by (simp_all add: h_def local_header_new_fields local_header_new_valid SEGMENT_SIZE_def)
  have raw: "read_raw m' a off sz = Ret (local_header_to_bytes h @ blte)"
    using read_entry_appended [OF inv app len] by (simp add: h_def)
  show "read_content c m' a off sz = Ret data"
    using raw blte(2) [OF length_local_header_to_bytes [OF h(3)]] by (simp add: read_content_def)
  show "480 \<le> unat off" "unat off + unat sz \<le> 2 ^ 30"
    using app by (simp_all add: entry_appended_def SEGMENT_HEADER_SIZE_def MAX_ARCHIVE_SIZE_def SEGMENT_SIZE_def)
  show "\<exists>blte h. compress_blte_with_mode c data mode = Ret blte \<and> ekey = md5 blte
              \<and> read_raw m' a off sz = Ret (local_header_to_bytes h @ blte)
              \<and> original_encoding_key h = ekey \<and> lh_encoded_size h = sz
              \<and> validate_checksums h (ucast a * 0x40000000 + word_of_nat (unat off))"
    using blte(1) ekey raw h by blast
qed

definition all_ok :: archive_io where
  "all_ok = \<lparr>io_create = WriteOk, io_open_ok = True, io_write = WriteOk, io_stat_ok = True, io_remap_ok = True\<rparr>"

lemma good_all_ok [simp]: "good_io all_ok"
  by (simp add: good_io_def all_ok_def)

lemma archive_manager_new_fields [simp]:
  "am_archives (archive_manager_new path files) = []" "am_write_positions (archive_manager_new path files) = []"
  "am_files (archive_manager_new path files) = files" "am_base_path (archive_manager_new path files) = path"
  by (simp_all add: archive_manager_new_def with_compression_mode_def)

lemma empty_archives [simp]: "archives_inv (archive_manager_new path [])" "files_fit (archive_manager_new path [])"
  by (simp_all add: archives_inv_def files_fit_def file_of_def)

theorem archive_append_only_witness:
  "\<exists>a off sz ekey m'. write_content_with_mode all_ok storing_codecs zero_md5 [1, 2, 3] ModeNone (archive_manager_new [] [])
       = (Ret (a, off, sz, ekey), m') \<and> read_content storing_codecs m' a off sz = Ret [1, 2, 3]"
proof -
  let ?m = "archive_manager_new [] []"
  have st: "storable_data storing_codecs [1, 2, 3] ModeNone" by (simp add: storable_data_def)
  have md5: "\<And>x. length (zero_md5 x) = 16" by (simp add: zero_md5_def)
  obtain blte where blte: "compress_blte_with_mode storing_codecs [1, 2, 3] ModeNone = Ret blte" "length blte < 100"
    by (simp add: compress_blte_with_mode_def file_single_chunk_def chunk_new_def blte_bytes_def write_header_def
        header_single_chunk_def write_chunk_def BLTE_MAGIC_def)
  obtain a off sz m' where "write_entry all_ok zero_md5 (zero_md5 blte) blte ?m = (Ret (a, off, sz), m')"
    using write_entry_succeeds [of ?m zero_md5 "zero_md5 blte" all_ok blte] blte(2) md5
    by (auto simp: SEGMENT_HEADER_SIZE_def LOCAL_HEADER_SIZE_def MAX_ARCHIVE_SIZE_def SEGMENT_SIZE_def)
  then have w: "write_content_with_mode all_ok storing_codecs zero_md5 [1, 2, 3] ModeNone ?m = (Ret (a, off, sz, zero_md5 blte), m')"
    using blte(1) by (simp add: write_content_with_mode_def)
  then show ?thesis
    using archive_append_only [OF _ md5 st w] by auto
qed

section \<open>Numbers of archives\<close>

text \<open>
  A new archive gets the number of open archives as its id. If the ids have a gap, that id may be one
  of the full archives; then every further write fails, although other ids are unused.
\<close>

lemma write_entry_target:
  "write_entry io md5 ekey blte m = (Ret (a, off, tsz), m') \<Longrightarrow>
   a = select_archive_for_write_sized m (LOCAL_HEADER_SIZE + length blte)"
  by (auto simp: write_entry_def Let_def split: if_splits prod.splits outcome.splits)

lemma first_with_room_None: "first_with_room n ps = None \<longleftrightarrow> (\<forall>(a, p)\<in>set ps. MAX_ARCHIVE_SIZE < p + n)"
  by (induction ps) (auto split: if_splits)

lemma gap_blocks_writes:
  assumes inv: "archives_inv m" and md5: "\<And>x. length (md5 x) = 16" "length ekey = 16"
    and full: "\<forall>(a, p)\<in>set (am_write_positions m). MAX_ARCHIVE_SIZE < p + LOCAL_HEADER_SIZE + length blte"
    and gap: "length (am_write_positions m) < 2 ^ 16 - 1" "map_of (am_write_positions m) (word_of_nat (length (am_write_positions m))) = Some p"
  shows "\<exists>e m'. write_entry io md5 ekey blte m = (Fail e, m')"
proof -
  obtain r m' where w: "write_entry io md5 ekey blte m = (r, m')" by fastforce
  note eff = write_entry_effect [OF inv md5 w]
  have "r \<noteq> Ret (a, off, tsz)" for a off tsz
  proof
    assume r: "r = Ret (a, off, tsz)"
    then have "a = word_of_nat (length (am_write_positions m))"
      using write_entry_target [OF w [unfolded r]] full gap(1) first_with_room_None [of "LOCAL_HEADER_SIZE + length blte" "am_write_positions m"]
      by (simp add: select_archive_for_write_sized_def add.assoc)
    then have p: "length (committed m a) = p" "MAX_ARCHIVE_SIZE < p + LOCAL_HEADER_SIZE + length blte"
      using length_committed [OF inv, of a p] gap(2) full by (auto dest!: map_of_SomeD)
    have "entry_appended m m' ekey blte a off tsz" using eff r by blast
    then have "p \<le> unat off" "unat tsz = 30 + length blte" "unat off + unat tsz \<le> MAX_ARCHIVE_SIZE"
      using p(1) by (auto simp: entry_appended_def)
    then show False using p(2) by (simp add: LOCAL_HEADER_SIZE_def)
  qed
  then show ?thesis using w eff by (cases r) auto
qed

text \<open>
  Only names of eight characters are opened, so \<open>data.1000\<close> is not. With a thousand full archives the
  next id is 1000, and creating it cuts an existing file of that name down to a segment header.
\<close>

lemma four_digits_not_opened: "1000 \<le> n \<Longrightarrow> n < 10000 \<Longrightarrow> archive_file_id (segment_data_path n) = None"
  using length_dec03 [of n] by (simp add: archive_file_id_def segment_data_path_def)

lemma create_replaces_file:
  assumes "good_io io" "\<And>x. length (md5 x) = 16"
  shows "\<exists>m'. create_archive io md5 a m = (Ret (), m') \<and> length (file_of m' (segment_data_path (unat a))) = SEGMENT_HEADER_SIZE"
  using create_archive_succeeds [OF assms(1), of md5 a m "unat a"] assms(2)
  by (auto intro!: length_segment_header_to_bytes wf_segment_header_generate)

text \<open>An entry is valid whatever it holds: neither checksums nor the header are looked at.\<close>

lemma validate_entry_accepts:
  "read_raw m a off sz = Ret d \<Longrightarrow> validate_entry m a off sz = Ret (sz \<noteq> 0)"
  by (auto simp: read_raw_def validate_entry_def Let_def split: option.splits if_splits)

section \<open>Compaction\<close>

text \<open>Compaction cuts an archive at its write position, so it loses no entry.\<close>

lemma compact_single_effect:
  assumes inv: "archives_inv m" and io: "io_remap_ok io" and c: "compact_single_archive io ok a m = (r, m')"
  shows "archives_inv m' \<and> committed m' = committed m \<and> am_write_positions m' = am_write_positions m"
proof (cases "map_of (am_archives m) a")
  case None
  then show ?thesis using inv c by (simp add: compact_single_archive_def)
next
  case (Some af)
  obtain fbytes p where f: "af_path af = segment_data_path (unat a)" "af_size af \<le> MAX_ARCHIVE_SIZE"
    "map_of (am_files m) (Utf8 (segment_data_path (unat a))) = Some fbytes" "af_size af \<le> length fbytes"
    "map_of (am_write_positions m) a = Some p" "SEGMENT_HEADER_SIZE \<le> p" "p \<le> af_size af" "committed m a = take p fbytes"
    using archives_invD [OF inv Some] by metis
  show ?thesis
  proof (cases "p < af_size af \<and> ok")
    case False
    then show ?thesis using inv c f Some by (auto simp: compact_single_archive_def Let_def split: if_splits)
  next
    case True
    define af' where "af' = \<lparr>af_path = segment_data_path (unat a), af_size = p, af_detached = None\<rparr>"
    have fo: "file_of m (segment_data_path (unat a)) = fbytes" by (simp add: file_of_def f)
    have m': "map_of (am_files m') = (map_of (am_files m))(Utf8 (segment_data_path (unat a)) \<mapsto> take p fbytes)"
      "map_of (am_archives m') = (map_of (am_archives m))(a \<mapsto> af')" "am_write_positions m' = am_write_positions m"
      using c Some True f io fo
      by (auto simp: compact_single_archive_def Let_def remap_archive_def put_file_def update_conv' af'_def
          split: prod.splits)
    have "map_of (am_write_positions m') = (map_of (am_write_positions m))(a \<mapsto> p)" "bt_wf (am_write_positions m')"
      using m'(3) f inv by (auto simp: archives_inv_def)
    from archives_inv_write [OF inv m'(1,2) this]
    have "archives_inv m'" "committed m' = (committed m)(a := take p (take p fbytes))"
      using f by (auto simp: af'_def)
    then show ?thesis using m'(3) f(8) by auto
  qed
qed

lemma compact_effect:
  "archives_inv m \<Longrightarrow> \<forall>k. io_remap_ok (fst (io k)) \<Longrightarrow> compact_archives io chosen ids stats m = (r, m') \<Longrightarrow>
   archives_inv m' \<and> committed m' = committed m \<and> am_write_positions m' = am_write_positions m"
proof (induction ids arbitrary: m stats)
  case (Cons a ids)
  obtain r1 m1 where c: "compact_single_archive (fst (io a)) (snd (io a)) a m = (r1, m1)" by fastforce
  have step: "archives_inv m1" "committed m1 = committed m" "am_write_positions m1 = am_write_positions m"
    using compact_single_effect [OF Cons.prems(1) _ c] Cons.prems(2) by auto
  show ?case
    using Cons.prems(3) Cons.IH [OF Cons.prems(1,2)] Cons.IH [OF step(1) Cons.prems(2)] step Cons.prems(1) c
    by (auto simp: Let_def split: option.splits if_splits outcome.splits prod.splits)
qed simp

end
