(* ===== verification/Residency_Props.thy ===== *)
theory Residency_Props
  imports Residency
begin

text \<open>
  Properties of the residency database: it behaves as a set of resident keys under every operation,
  the hash index hides no live key, and saving and loading keep every page.
\<close>

section \<open>The invariant\<close>

definition resident_entry :: "residency_entry \<Rightarrow> bool" where
  "resident_entry e \<longleftrightarrow> is_live (re_update_type e) \<and> re_update_type e \<noteq> RMarkNonResident"

definition wf_residency :: "residency_entry \<Rightarrow> bool" where
  [wf_simps]: "wf_residency e \<longleftrightarrow> length (re_ekey e) = 16"

definition entry_in :: "nat \<Rightarrow> residency_entry \<Rightarrow> bool" where
  "entry_in b e \<longleftrightarrow> wf_residency e \<and> unat (residency_bucket_hash (re_ekey e)) = b \<and> re_hash_flags e \<noteq> 0"

definition entries_ok :: "nat \<Rightarrow> residency_entry list \<Rightarrow> bool" where
  "entries_ok b es \<longleftrightarrow> list_all (entry_in b) es \<and> distinct (map re_ekey es)"

definition pages_sized :: "residency_page list \<Rightarrow> bool" where
  "pages_sized pages \<longleftrightarrow> list_all (\<lambda>page. page \<noteq> [] \<and> length page \<le> RESIDENCY_ENTRIES_PER_PAGE) pages"

definition bucket_ok :: "nat \<Rightarrow> residency_page list \<Rightarrow> bool" where
  "bucket_ok b pages \<longleftrightarrow> pages_sized pages \<and> entries_ok b (concat pages)"

definition indexed_live :: "residency_page list list \<Rightarrow> (u64 \<times> nat list) list \<Rightarrow> bool" where
  "indexed_live buckets index \<longleftrightarrow>
     bt_wf index \<and> (\<forall>pages\<in>set buckets. \<forall>e\<in>set (concat pages). is_live (re_update_type e) \<longrightarrow> map_of index (key_hash (re_ekey e)) \<noteq> None)"

definition db_inv :: "residency_db \<Rightarrow> bool" where
  "db_inv db \<longleftrightarrow>
     length (rd_buckets db) = RESIDENCY_BUCKET_COUNT \<and> (\<forall>b<RESIDENCY_BUCKET_COUNT. bucket_ok b (rd_buckets db ! b))
     \<and> indexed_live (rd_buckets db) (rd_hash_index db)"

definition bucket_of :: "byte list \<Rightarrow> nat" where
  "bucket_of k = unat (residency_bucket_hash k)"

definition entries_of :: "residency_db \<Rightarrow> byte list \<Rightarrow> residency_entry list" where
  "entries_of db k = concat (rd_buckets db ! bucket_of k)"

lemma low_nibble_less: "unat ((x :: byte) AND 0x0F) < 16"
proof -
  have "x AND 0x0F = take_bit 4 x" by (simp add: take_bit_eq_mask mask_eq_exp_minus_1)
  then have "unat (x AND 0x0F) = take_bit 4 (unat x)" by (simp only: unsigned_take_bit_eq)
  then show ?thesis using take_bit_nat_less_exp [of 4 "unat x"] by simp
qed

lemma bucket_of_less [simp]: "bucket_of k < RESIDENCY_BUCKET_COUNT"
  using low_nibble_less by (simp add: bucket_of_def residency_bucket_hash_def RESIDENCY_BUCKET_COUNT_def Let_def)

lemma is_resident_eq:
  "is_resident db k \<longleftrightarrow> map_of (rd_hash_index db) (key_hash k) \<noteq> None \<and> scan_page k (entries_of db k)"
  using bucket_of_less [of k] by (auto simp: is_resident_def entries_of_def bucket_of_def Let_def)

lemma scan_page_distinct:
  "distinct (map re_ekey es) \<Longrightarrow> scan_page k es \<longleftrightarrow> (\<exists>e\<in>set es. re_ekey e = k \<and> resident_entry e)"
proof (induction es)
  case (Cons e es)
  show ?case
  proof (cases "re_ekey e = k \<and> is_live (re_update_type e)")
    case True
    then have "\<forall>e'\<in>set es. re_ekey e' \<noteq> k" using Cons.prems True by (simp add: image_iff) metis
    then show ?thesis using True by (auto simp: resident_entry_def)
  next
    case False
    then have "\<not> (re_ekey e = k \<and> resident_entry e)" by (auto simp: resident_entry_def)
    then show ?thesis using False Cons by auto
  qed
qed simp

lemma db_invD:
  assumes "db_inv db"
  shows "length (rd_buckets db) = RESIDENCY_BUCKET_COUNT" "bucket_ok (bucket_of k) (rd_buckets db ! bucket_of k)"
    "indexed_live (rd_buckets db) (rd_hash_index db)" "distinct (map re_ekey (entries_of db k))"
proof -
  show "length (rd_buckets db) = RESIDENCY_BUCKET_COUNT" "bucket_ok (bucket_of k) (rd_buckets db ! bucket_of k)"
    "indexed_live (rd_buckets db) (rd_hash_index db)"
    using assms by (simp_all add: db_inv_def)
  then show "distinct (map re_ekey (entries_of db k))" by (simp add: bucket_ok_def entries_ok_def entries_of_def)
qed

lemma resident_iff:
  assumes "db_inv db"
  shows "is_resident db k \<longleftrightarrow> (\<exists>e\<in>set (entries_of db k). re_ekey e = k \<and> resident_entry e)"
proof -
  have "map_of (rd_hash_index db) (key_hash k) \<noteq> None"
    if "e \<in> set (entries_of db k)" "re_ekey e = k" "resident_entry e" for e
  proof -
    have "rd_buckets db ! bucket_of k \<in> set (rd_buckets db)" using db_invD(1) [OF assms] by simp
    then show ?thesis
      using db_invD(3) [OF assms] that by (simp only: indexed_live_def resident_entry_def entries_of_def) blast
  qed
  then show ?thesis
    using scan_page_distinct [OF db_invD(4) [OF assms]] by (auto simp: is_resident_eq)
qed

section \<open>Inserting an entry\<close>

lemma replace_in_page_cases:
  "case replace_in_page e page of
     None \<Rightarrow> \<forall>x\<in>set page. re_ekey x \<noteq> re_ekey e
   | Some page' \<Rightarrow> \<exists>A x B. page = A @ x # B \<and> re_ekey x = re_ekey e \<and> page' = A @ e # B"
proof (induction page)
  case (Cons y page)
  show ?case
  proof (cases "re_ekey y = re_ekey e")
    case False
    show ?thesis
    proof (cases "replace_in_page e page")
      case (Some page')
      then obtain A x B where "page = A @ x # B" "re_ekey x = re_ekey e" "page' = A @ e # B"
        using Cons by auto
      then show ?thesis using False Some by (simp, intro exI [of _ "y # A"] exI [of _ x] exI [of _ B]) simp
    qed (use False Cons in simp)
  next
    case True
    then show ?thesis by (simp, intro exI [of _ "[]"] exI [of _ y] exI [of _ page]) simp
  qed
qed simp

lemma replace_in_pages_cases:
  "case replace_in_pages e pages of
     None \<Rightarrow> \<forall>x\<in>set (concat pages). re_ekey x \<noteq> re_ekey e
   | Some pages' \<Rightarrow> map length pages' = map length pages
       \<and> (\<exists>A x B. concat pages = A @ x # B \<and> re_ekey x = re_ekey e \<and> concat pages' = A @ e # B)"
proof (induction pages)
  case (Cons page pages)
  note page = replace_in_page_cases [where e = e and page = page]
  show ?case
  proof (cases "replace_in_page e page")
    case None
    show ?thesis
    proof (cases "replace_in_pages e pages")
      case (Some pages')
      then obtain A x B where "map length pages' = map length pages" "concat pages = A @ x # B" "re_ekey x = re_ekey e"
        "concat pages' = A @ e # B" using Cons by auto
      then show ?thesis using None Some by (simp, intro exI [of _ "page @ A"] exI [of _ x] exI [of _ B]) simp
    qed (use None Cons page in auto)
  next
    case (Some page')
    then obtain A x B where "page = A @ x # B" "re_ekey x = re_ekey e" "page' = A @ e # B" using page by auto
    then show ?thesis using Some by (simp, intro exI [of _ A] exI [of _ x] exI [of _ "B @ concat pages"]) simp
  qed
qed simp

definition inserted_pages :: "residency_entry \<Rightarrow> residency_page list \<Rightarrow> residency_page list" where
  "inserted_pages e pages = (case replace_in_pages e pages of Some p \<Rightarrow> p | None \<Rightarrow> append_entry e pages)"

lemma append_entry_facts:
  "concat (append_entry e pages) = concat pages @ [e]"
  "pages_sized pages \<Longrightarrow> pages_sized (append_entry e pages)"
proof -
  have per: "RESIDENCY_ENTRIES_PER_PAGE = 25"
    by (simp add: RESIDENCY_ENTRIES_PER_PAGE_def RESIDENCY_PAGE_SIZE_def RESIDENCY_ENTRY_SIZE_def)
  show "concat (append_entry e pages) = concat pages @ [e]"
    "pages_sized pages \<Longrightarrow> pages_sized (append_entry e pages)"
    by (cases pages rule: rev_cases; auto simp: append_entry_def page_push_def per pages_sized_def)+
qed

lemma pages_sized_lengths:
  assumes "pages_sized pages" "map length pages' = map length pages"
  shows "pages_sized pages'"
proof -
  have "pages_sized ps \<longleftrightarrow> list_all (\<lambda>n. 0 < n \<and> n \<le> RESIDENCY_ENTRIES_PER_PAGE) (map length ps)" for ps
    by (auto simp: pages_sized_def list_all_iff)
  then show ?thesis using assms by simp
qed

lemma entries_ok_append:
  assumes "entries_ok b es" "entry_in b e" "\<forall>x\<in>set es. re_ekey x \<noteq> re_ekey e"
  shows "entries_ok b (es @ [e])" "set (es @ [e]) = insert e {x \<in> set es. re_ekey x \<noteq> re_ekey e}"
  using assms by (auto simp: entries_ok_def image_iff)

lemma entries_ok_replace:
  assumes "entries_ok b (A @ x # B)" "entry_in b e" "re_ekey x = re_ekey e"
  shows "entries_ok b (A @ e # B)" "set (A @ e # B) = insert e {y \<in> set (A @ x # B). re_ekey y \<noteq> re_ekey e}"
proof -
  show "entries_ok b (A @ e # B)" using assms by (auto simp: entries_ok_def)
  have "\<forall>y\<in>set A \<union> set B. re_ekey y \<noteq> re_ekey e"
    using assms(1,3) by (auto simp: entries_ok_def image_iff)
  then show "set (A @ e # B) = insert e {y \<in> set (A @ x # B). re_ekey y \<noteq> re_ekey e}"
    using assms(3) by auto
qed

lemma inserted_pages_facts:
  assumes ok: "bucket_ok b pages" and e: "entry_in b e"
  shows "bucket_ok b (inserted_pages e pages)"
    "set (concat (inserted_pages e pages)) = insert e {x \<in> set (concat pages). re_ekey x \<noteq> re_ekey e}"
proof -
  have ok': "pages_sized pages" "entries_ok b (concat pages)" using ok by (simp_all add: bucket_ok_def)
  have "bucket_ok b (inserted_pages e pages)
    \<and> set (concat (inserted_pages e pages)) = insert e {x \<in> set (concat pages). re_ekey x \<noteq> re_ekey e}"
  proof (cases "replace_in_pages e pages")
    case None
    then have new: "\<forall>x\<in>set (concat pages). re_ekey x \<noteq> re_ekey e"
      using replace_in_pages_cases [where e = e and pages = pages] by simp
    show ?thesis
      unfolding inserted_pages_def None option.case bucket_ok_def append_entry_facts(1)
      using append_entry_facts(2) [OF ok'(1)] entries_ok_append [OF ok'(2) e new] by blast
  next
    case (Some pages')
    then obtain A x B where p: "map length pages' = map length pages" "concat pages = A @ x # B" "re_ekey x = re_ekey e"
      "concat pages' = A @ e # B" using replace_in_pages_cases [where e = e and pages = pages] by auto
    show ?thesis
      unfolding inserted_pages_def Some option.case bucket_ok_def p(4)
      using pages_sized_lengths [OF ok'(1) p(1)] entries_ok_replace [OF ok'(2) [unfolded p(2)] e p(3)] p(2) by simp
  qed
  then show "bucket_ok b (inserted_pages e pages)"
    "set (concat (inserted_pages e pages)) = insert e {x \<in> set (concat pages). re_ekey x \<noteq> re_ekey e}" by auto
qed

lemma insert_entry_eq:
  "insert_entry e db = update_hash_index_for_key (re_ekey e)
     (db\<lparr>rd_buckets := (rd_buckets db)[bucket_of (re_ekey e) := inserted_pages e (rd_buckets db ! bucket_of (re_ekey e))]\<rparr>)"
  using bucket_of_less [of "re_ekey e"] by (simp add: insert_entry_def bucket_of_def inserted_pages_def Let_def)

lemma update_index_facts:
  assumes "bt_wf (rd_hash_index db)"
  shows "rd_buckets (update_hash_index_for_key k db) = rd_buckets db" "bt_wf (rd_hash_index (update_hash_index_for_key k db))"
    "map_of (rd_hash_index (update_hash_index_for_key k db)) h \<noteq> None \<longleftrightarrow> h = key_hash k \<or> map_of (rd_hash_index db) h \<noteq> None"
  using assms by (auto simp: update_hash_index_for_key_def map_of_bt_insert bt_wf_insert split: option.splits)

lemma insert_entry_facts:
  assumes inv: "db_inv db" and e: "wf_residency e" "re_hash_flags e \<noteq> 0"
  shows "db_inv (insert_entry e db)"
    "set (entries_of (insert_entry e db) k) =
       (if bucket_of k = bucket_of (re_ekey e) then insert e {x \<in> set (entries_of db k). re_ekey x \<noteq> re_ekey e}
        else set (entries_of db k))"
proof -
  define b pages where "b = bucket_of (re_ekey e)" and "pages = inserted_pages e (rd_buckets db ! b)"
  define db1 where "db1 = db\<lparr>rd_buckets := (rd_buckets db)[b := pages]\<rparr>"
  have db': "insert_entry e db = update_hash_index_for_key (re_ekey e) db1"
    by (simp add: insert_entry_eq db1_def b_def pages_def)
  have b: "b < RESIDENCY_BUCKET_COUNT" "b < length (rd_buckets db)" using db_invD(1) [OF inv] by (simp_all add: b_def)
  have "entry_in b e" using e by (simp add: entry_in_def b_def bucket_of_def)
  note p = inserted_pages_facts [OF db_invD(2) [OF inv, of "re_ekey e", folded b_def] this, folded pages_def]
  have wf: "bt_wf (rd_hash_index db1)" using db_invD(3) [OF inv] by (simp add: db1_def indexed_live_def)
  note idx = update_index_facts [OF wf, of "re_ekey e", folded db']
  have bk: "rd_buckets (insert_entry e db) = (rd_buckets db)[b := pages]" using idx(1) by (simp add: db1_def)
  have live: "map_of (rd_hash_index (insert_entry e db)) (key_hash (re_ekey x)) \<noteq> None"
    if x: "ps \<in> set ((rd_buckets db)[b := pages])" "x \<in> set (concat ps)" "is_live (re_update_type x)" for ps x
  proof -
    have old: "map_of (rd_hash_index db1) (key_hash (re_ekey x)) \<noteq> None" if "qs \<in> set (rd_buckets db)" "x \<in> set (concat qs)" for qs
      using db_invD(3) [OF inv] that x(3) unfolding indexed_live_def db1_def by simp blast
    consider "ps = pages" | "ps \<in> set (rd_buckets db)"
      using x(1) set_update_subset_insert [of "rd_buckets db" b pages] by blast
    then show ?thesis
    proof cases
      case 1
      then have "x = e \<or> x \<in> set (concat (rd_buckets db ! b))" using x(2) p(2) by blast
      then show ?thesis using idx(3) old nth_mem [OF b(2)] by blast
    qed (use idx(3) old x(2) in blast)
  qed
  show "db_inv (insert_entry e db)"
    unfolding db_inv_def indexed_live_def bk
  proof (intro conjI allI impI ballI)
    fix i assume "i < RESIDENCY_BUCKET_COUNT"
    then show "bucket_ok i ((rd_buckets db)[b := pages] ! i)"
      using p(1) b inv by (cases "i = b") (auto simp: db_inv_def)
  qed (use db_invD(1) [OF inv] idx(2) live in \<open>simp_all del: set_concat\<close>)
  show "set (entries_of (insert_entry e db) k) =
       (if bucket_of k = bucket_of (re_ekey e) then insert e {x \<in> set (entries_of db k). re_ekey x \<noteq> re_ekey e}
        else set (entries_of db k))"
    using b p(2) by (simp add: entries_of_def bk b_def del: set_concat)
qed

lemma insert_resident:
  assumes "db_inv db" "wf_residency e" "re_hash_flags e \<noteq> 0"
  shows "is_resident (insert_entry e db) k \<longleftrightarrow> (if k = re_ekey e then resident_entry e else is_resident db k)"
  unfolding resident_iff [OF insert_entry_facts(1) [OF assms]] resident_iff [OF assms(1)]
    insert_entry_facts(2) [OF assms] by auto

lemma entry_new_facts:
  "length k = 16 \<Longrightarrow> wf_residency (residency_entry_new k s t)" "re_hash_flags (residency_entry_new k s t) \<noteq> 0"
  "re_ekey (residency_entry_new k s t) = k" "re_update_type (residency_entry_new k s t) = t"
proof -
  have "hashlittle x 0 OR 0x80000000 \<noteq> 0" for x
  proof
    assume "hashlittle x 0 OR 0x80000000 = 0"
    then have "bit (hashlittle x 0 OR 0x80000000) 31 = bit (0 :: u32) 31" by simp
    then show False by (simp add: bit_or_iff)
  qed
  then show "re_hash_flags (residency_entry_new k s t) \<noteq> 0"
    by (simp add: residency_entry_new_def compute_hash_guard_def Let_def)
qed (simp_all add: residency_entry_new_def wf_simps Let_def)

lemma inv_dirty [simp]: "db_inv (db\<lparr>rd_dirty := d\<rparr>) = db_inv db" "is_resident (db\<lparr>rd_dirty := d\<rparr>) k = is_resident db k"
  by (simp_all add: db_inv_def is_resident_def)

lemma marks:
  assumes "db_inv db" "length k = 16"
  shows "db_inv (mark_resident k db)" "is_resident (mark_resident k db) k' \<longleftrightarrow> k' = k \<or> is_resident db k'"
    "db_inv (mark_non_resident k db)" "is_resident (mark_non_resident k db) k' \<longleftrightarrow> k' \<noteq> k \<and> is_resident db k'"
    "db_inv (mark_span_non_resident k off len db)"
    "is_resident (mark_span_non_resident k off len db) k' \<longleftrightarrow> k' \<noteq> k \<and> is_resident db k'"
  using insert_entry_facts(1) [OF assms(1) entry_new_facts(1) [OF assms(2)] entry_new_facts(2)]
    insert_resident [OF assms(1) entry_new_facts(1) [OF assms(2)] entry_new_facts(2)]
  by (auto simp: mark_resident_def mark_non_resident_def mark_span_non_resident_def entry_new_facts resident_entry_def)

section \<open>The hash index, batch deletion, and the list of keys\<close>

lemma index_fold:
  defines "add \<equiv> \<lambda>m (e, i). if is_live (re_update_type e)
                then bt_insert (key_hash (re_ekey e))
                       ((case map_of m (key_hash (re_ekey e)) of Some is \<Rightarrow> is | None \<Rightarrow> []) @ [i]) m
                else m"
  assumes "bt_wf m"
  shows "bt_wf (foldl add m xs) \<and> (\<forall>h. map_of (foldl add m xs) h \<noteq> None \<longleftrightarrow>
    map_of m h \<noteq> None \<or> (\<exists>(e, i)\<in>set xs. is_live (re_update_type e) \<and> key_hash (re_ekey e) = h))"
  using assms(2)
proof (induction xs arbitrary: m)
  case (Cons x xs)
  obtain e i where x: "x = (e, i)" by fastforce
  have "bt_wf (add m x)" using Cons.prems by (simp add: add_def x bt_wf_insert)
  moreover have "map_of (add m x) h \<noteq> None \<longleftrightarrow> map_of m h \<noteq> None \<or> is_live (re_update_type e) \<and> key_hash (re_ekey e) = h" for h
    using Cons.prems by (auto simp: add_def x map_of_bt_insert)
  ultimately show ?case using Cons.IH [of "add m x"] by (auto simp: x)
qed simp

lemma enumerate_mem:
  assumes "x \<in> set xs"
  shows "\<exists>i. (i, x) \<in> set (List.enumerate 0 xs)"
proof -
  obtain i where "i < length xs" "xs ! i = x" using assms by (meson in_set_conv_nth)
  then show ?thesis by (intro exI [of _ i]) (simp add: in_set_enumerate_eq)
qed

lemma numbered_entries_mem:
  assumes "pages \<in> set buckets" "e \<in> set (concat pages)"
  shows "\<exists>i. (e, i) \<in> set (numbered_entries buckets)"
proof -
  obtain b where b: "(b, pages) \<in> set (List.enumerate 0 buckets)" using enumerate_mem [OF assms(1)] by metis
  obtain page where "page \<in> set pages" "e \<in> set page" using assms(2) by auto
  then obtain p where p: "(p, page) \<in> set (List.enumerate 0 pages)" using enumerate_mem by metis
  have "(e, b * 1000 + p) \<in> set (numbered_entries buckets)"
    unfolding numbered_entries_def set_concat set_map
    by (rule UN_I [OF imageI [OF b]], simp, rule bexI [OF _ p]) (use \<open>e \<in> set page\<close> in simp)
  then show ?thesis by blast
qed

lemma rebuild_indexed: "indexed_live (rd_buckets db) (rd_hash_index (rebuild_hash_index db))"
  unfolding indexed_live_def
proof (intro conjI ballI impI)
  note fold = index_fold [of "[]" "numbered_entries (rd_buckets db)"]
  show "bt_wf (rd_hash_index (rebuild_hash_index db))" using fold by (simp add: rebuild_hash_index_def)
  fix pages e
  assume "pages \<in> set (rd_buckets db)" "e \<in> set (concat pages)" "is_live (re_update_type e)"
  then show "map_of (rd_hash_index (rebuild_hash_index db)) (key_hash (re_ekey e)) \<noteq> None"
    using fold numbered_entries_mem [of pages "rd_buckets db" e] by (fastforce simp: rebuild_hash_index_def)
qed

lemma rebuild_buckets [simp]: "rd_buckets (rebuild_hash_index db) = rd_buckets db"
  by (simp add: rebuild_hash_index_def)

lemma rebuild_inv:
  "length (rd_buckets db) = RESIDENCY_BUCKET_COUNT \<Longrightarrow> \<forall>b<RESIDENCY_BUCKET_COUNT. bucket_ok b (rd_buckets db ! b) \<Longrightarrow>
   db_inv (rebuild_hash_index db)"
  using rebuild_indexed [of db] by (simp add: db_inv_def)

lemma batch_delete_facts:
  assumes inv: "db_inv db"
  shows "db_inv (batch_delete keys db)" "is_resident (batch_delete keys db) k \<longleftrightarrow> k \<notin> set keys \<and> is_resident db k"
proof -
  define f where "f = (\<lambda>e :: residency_entry. if re_ekey e \<in> set keys then e\<lparr>re_update_type := RDelete\<rparr> else e)"
  have f: "re_ekey (f e) = re_ekey e" "entry_in b (f e) = entry_in b e"
    "resident_entry (f e) \<longleftrightarrow> re_ekey e \<notin> set keys \<and> resident_entry e" for e b
    by (auto simp: f_def entry_in_def wf_simps resident_entry_def)
  define db1 where "db1 = db\<lparr>rd_buckets := map (map (map f)) (rd_buckets db), rd_dirty := True\<rparr>"
  have del: "batch_delete keys db = rebuild_hash_index db1" by (simp add: batch_delete_def db1_def f_def)
  have cat: "concat (map (map f) pages) = map f (concat pages)" for pages by (simp add: map_concat)
  have ok: "bucket_ok b (map (map f) pages)" if "bucket_ok b pages" for b pages
  proof -
    have "map length (map (map f) pages) = map length pages" by simp
    moreover have "entries_ok b (map f (concat pages)) = entries_ok b (concat pages)"
      by (simp add: entries_ok_def list_all_iff f comp_def)
    ultimately show ?thesis using that pages_sized_lengths unfolding bucket_ok_def cat by metis
  qed
  show inv': "db_inv (batch_delete keys db)"
    unfolding del by (rule rebuild_inv) (use inv ok in \<open>auto simp: db1_def db_inv_def\<close>)
  have "entries_of (batch_delete keys db) k = map f (entries_of db k)"
    using db_invD(1) [OF inv] by (simp add: del db1_def entries_of_def cat)
  then show "is_resident (batch_delete keys db) k \<longleftrightarrow> k \<notin> set keys \<and> is_resident db k"
    unfolding resident_iff [OF inv'] resident_iff [OF inv] by (auto simp: f)
qed

lemma delete_keys_facts:
  assumes inv: "db_inv db" and len: "\<forall>k\<in>set keys. length k = 16"
  shows "db_inv (delete_keys keys db)" "is_resident (delete_keys keys db) k \<longleftrightarrow> k \<notin> set keys \<and> is_resident db k"
proof -
  have "db_inv (fold mark_non_resident keys db) \<and>
      (is_resident (fold mark_non_resident keys db) k \<longleftrightarrow> k \<notin> set keys \<and> is_resident db k)"
    using assms
  proof (induction keys arbitrary: db)
    case (Cons a keys)
    then show ?case using marks(3,4) [of db a] Cons.IH [of "mark_non_resident a db"] by auto
  qed simp
  then show "db_inv (delete_keys keys db)" "is_resident (delete_keys keys db) k \<longleftrightarrow> k \<notin> set keys \<and> is_resident db k"
    using batch_delete_facts [OF inv] by (auto simp: delete_keys_def)
qed

lemma scan_keys_facts:
  assumes inv: "db_inv db"
  shows "set (scan_keys db) = {k. is_resident db k}" "distinct (scan_keys db)"
proof -
  have entry: "bucket_of (re_ekey e) = b" if "b < RESIDENCY_BUCKET_COUNT" "e \<in> set (concat (rd_buckets db ! b))" for b e
  proof -
    have "list_all (entry_in b) (concat (rd_buckets db ! b))" using inv that(1) by (simp add: db_inv_def bucket_ok_def entries_ok_def)
    then have "entry_in b e" using that(2) by (simp only: list_all_iff)
    then show ?thesis by (simp add: entry_in_def bucket_of_def)
  qed
  have mem: "e \<in> set (concat (map concat (rd_buckets db))) \<longleftrightarrow> e \<in> set (entries_of db (re_ekey e))" for e
  proof
    assume "e \<in> set (concat (map concat (rd_buckets db)))"
    then obtain pages where "pages \<in> set (rd_buckets db)" "e \<in> set (concat pages)"
      by (simp only: set_concat [of "map concat (rd_buckets db)"] set_map) blast
    then obtain b where "b < length (rd_buckets db)" "e \<in> set (concat (rd_buckets db ! b))"
      by (metis in_set_conv_nth)
    then show "e \<in> set (entries_of db (re_ekey e))"
      using entry [of b e] db_invD(1) [OF inv] by (simp add: entries_of_def del: set_concat)
  next
    assume "e \<in> set (entries_of db (re_ekey e))"
    moreover have "rd_buckets db ! bucket_of (re_ekey e) \<in> set (rd_buckets db)" using db_invD(1) [OF inv] by simp
    ultimately show "e \<in> set (concat (map concat (rd_buckets db)))"
      by (simp only: set_concat [of "map concat (rd_buckets db)"] set_map entries_of_def) blast
  qed
  show "set (scan_keys db) = {k. is_resident db k}"
    unfolding scan_keys_def resident_iff [OF inv] resident_entry_def [symmetric] set_map set_filter using mem by blast
  have "distinct (map re_ekey (concat (map concat (take n (rd_buckets db)))))" if "n \<le> RESIDENCY_BUCKET_COUNT" for n
    using that
  proof (induction n)
    case (Suc n)
    have n: "n < length (rd_buckets db)" using Suc.prems db_invD(1) [OF inv] by simp
    have "distinct (map re_ekey (concat (rd_buckets db ! n)))"
      using inv Suc.prems by (simp add: db_inv_def bucket_ok_def entries_ok_def)
    moreover have "re_ekey e \<noteq> re_ekey e'"
      if e: "e \<in> set (concat (map concat (take n (rd_buckets db))))" and e': "e' \<in> set (concat (rd_buckets db ! n))" for e e'
    proof -
      obtain pages where "pages \<in> set (take n (rd_buckets db))" "e \<in> set (concat pages)"
        using e by (simp only: set_concat [of "map concat (take n (rd_buckets db))"] set_map) blast
      then obtain b where "b < n" "e \<in> set (concat (rd_buckets db ! b))"
        by (metis in_set_conv_nth length_take min_less_iff_conj nth_take)
      moreover have "n < RESIDENCY_BUCKET_COUNT" using Suc.prems by simp
      ultimately show ?thesis using entry [of b e] entry [OF _ e'] by (metis less_irrefl less_trans)
    qed
    then have "re_ekey ` set (concat (map concat (take n (rd_buckets db)))) \<inter> re_ekey ` set (concat (rd_buckets db ! n)) = {}"
      by blast
    ultimately show ?case
      using Suc n by (simp add: take_Suc_conv_app_nth del: set_concat)
  qed simp
  from this [of RESIDENCY_BUCKET_COUNT] have "distinct (map re_ekey (concat (map concat (rd_buckets db))))"
    using db_invD(1) [OF inv] by simp
  then show "distinct (scan_keys db)" by (simp add: scan_keys_def distinct_map_filter)
qed

section \<open>Saving and loading\<close>

lemma update_type_round_trip [simp]: "update_type_from_byte (update_type_byte t) = t"
  by (cases t) (simp_all add: update_type_from_byte_def)

lemma length_span_to_bytes [simp]: "length (span_to_bytes s) = 16"
  by (simp add: span_to_bytes_def)

lemma span_round_trip [simp]: "span_from_bytes (span_to_bytes s) = s"
  by (simp add: span_from_bytes_def span_to_bytes_def slice_def)

lemma length_residency_to_bytes: "wf_residency e \<Longrightarrow> length (residency_to_bytes e) = 40"
  by (simp add: wf_simps residency_to_bytes_def)

interpretation residency_entry: fixed_codec 40 wf_residency residency_to_bytes residency_from_bytes
proof
  fix e assume e: "wf_residency e"
  then have len: "length (re_ekey e) = 16" by (simp add: wf_simps)
  have "residency_to_bytes e ! 36 = update_type_byte (re_update_type e)"
    using len by (simp add: residency_to_bytes_def nth_append)
  moreover have "slice 20 36 (residency_to_bytes e) = span_to_bytes (re_span e)"
    using len by (simp add: residency_to_bytes_def slice_def)
  ultimately show "residency_from_bytes (residency_to_bytes e) = e"
    using len by (simp add: residency_from_bytes_def) (simp add: residency_to_bytes_def slice_def)
qed (rule length_residency_to_bytes)

lemma entry_flags:
  assumes "wf_residency e" "re_hash_flags e \<noteq> 0"
  shows "(from_le (slice 0 4 (residency_to_bytes e @ rest)) :: u32) \<noteq> 0" "slice 0 4 (residency_to_bytes e @ rest) \<noteq> [0, 0, 0, 0]"
proof -
  have four: "slice 0 4 (residency_to_bytes e @ rest) = to_le 4 (re_hash_flags e)" by (simp add: residency_to_bytes_def)
  then show "(from_le (slice 0 4 (residency_to_bytes e @ rest)) :: u32) \<noteq> 0" using assms by simp
  then show "slice 0 4 (residency_to_bytes e @ rest) \<noteq> [0, 0, 0, 0]" by auto
qed

lemma parse_page_zeros: "n = 0 \<or> 4 \<le> z \<Longrightarrow> parse_page_entries n (replicate z 0) = []"
  by (cases n) (auto simp: numeral_eq_Suc)

lemma parse_page_round_trip:
  assumes "list_all (\<lambda>e. wf_residency e \<and> re_hash_flags e \<noteq> 0) es" "length es \<le> n" "n = length es \<or> 4 \<le> z"
  shows "parse_page_entries n (concat (map residency_to_bytes es) @ replicate z 0) = es"
  using assms
proof (induction es arbitrary: n)
  case Nil
  then show ?case by (auto simp: parse_page_zeros)
next
  case (Cons e es)
  then obtain n' where n: "n = Suc n'" by (cases n) auto
  have e: "wf_residency e" "re_hash_flags e \<noteq> 0" using Cons.prems by simp_all
  then show ?case
    using Cons entry_flags(1) [OF e] residency_entry.length_enc [OF e(1)] residency_entry.dec_enc [OF e(1)]
    by (simp add: n RESIDENCY_ENTRY_SIZE_def)
qed

lemma page_round_trip:
  assumes "page \<noteq> []" "length page \<le> RESIDENCY_ENTRIES_PER_PAGE" "list_all (\<lambda>e. wf_residency e \<and> re_hash_flags e \<noteq> 0) page"
  obtains bs where "page_to_bytes page = Some bs" "length bs = RESIDENCY_PAGE_SIZE"
    "\<And>rest. page_from_bytes (bs @ rest) = Some page"
proof -
  have per: "RESIDENCY_ENTRIES_PER_PAGE = 25"
    by (simp add: RESIDENCY_ENTRIES_PER_PAGE_def RESIDENCY_PAGE_SIZE_def RESIDENCY_ENTRY_SIZE_def)
  define z where "z = 1024 - 40 * length page"
  define bs where "bs = concat (map residency_to_bytes page) @ replicate z 0"
  have wf: "list_all wf_residency page" using assms(3) by (simp add: list_all_iff)
  have len: "length (concat (map residency_to_bytes page)) = 40 * length page" by (rule residency_entry.length_table [OF wf])
  have chunks: "list_all (\<lambda>x. length x = 40) (map residency_to_bytes page)"
    using wf by (simp add: list_all_iff length_residency_to_bytes)
  have bytes: "page_to_bytes page = Some bs"
    using copy_chunks_eq [OF chunks, of 0 "replicate 1024 0"] assms(2)
    by (simp add: page_to_bytes_def RESIDENCY_ENTRY_SIZE_def RESIDENCY_PAGE_SIZE_def per bs_def z_def)
  have lbs: "length bs = 1024" using assms(2) len by (simp add: bs_def z_def per)
  obtain e es where page: "page = e # es" using assms(1) by (cases page) auto
  have e: "wf_residency e" "re_hash_flags e \<noteq> 0" using assms(3) by (simp_all add: page)
  have "slice 0 4 (bs @ rest) \<noteq> [0, 0, 0, 0]" for rest
    using entry_flags(2) [OF e, of "concat (map residency_to_bytes es) @ replicate z 0 @ rest"] by (simp add: bs_def page)
  moreover have "parse_page_entries 25 bs = page"
    unfolding bs_def by (rule parse_page_round_trip [OF assms(3)]) (use assms(2) in \<open>auto simp: per z_def\<close>)
  ultimately have "page_from_bytes (bs @ rest) = Some page" for rest
    using lbs by (simp add: page_from_bytes_def RESIDENCY_PAGE_SIZE_def per page)
  then show thesis using that [of bs] bytes lbs by (simp add: RESIDENCY_PAGE_SIZE_def)
qed

definition page_saved :: "residency_page \<Rightarrow> bool" where
  "page_saved page \<longleftrightarrow> page \<noteq> [] \<and> length page \<le> RESIDENCY_ENTRIES_PER_PAGE
     \<and> list_all (\<lambda>e. wf_residency e \<and> re_hash_flags e \<noteq> 0) page"

lemma load_pages_round_trip:
  "list_all page_saved pages \<Longrightarrow>
   \<exists>pss. those (map page_to_bytes pages) = Some pss
     \<and> (\<forall>acc rest. load_pages (length pages) (concat pss @ rest) acc = (acc @ pages, rest))"
proof (induction pages)
  case (Cons page pages)
  then obtain pss where pss: "those (map page_to_bytes pages) = Some pss"
    "load_pages (length pages) (concat pss @ rest) acc = (acc @ pages, rest)" for acc rest by auto
  obtain bs where "page_to_bytes page = Some bs" "length bs = RESIDENCY_PAGE_SIZE" "\<And>rest. page_from_bytes (bs @ rest) = Some page"
    using page_round_trip [of page] Cons.prems by (auto simp: page_saved_def)
  then show ?case using pss by (intro exI [of _ "bs # pss"]) simp
qed simp

lemma load_bucket_step:
  assumes "b < RESIDENCY_BUCKET_COUNT" "length buckets = RESIDENCY_BUCKET_COUNT" "buckets ! b = []"
    and "list_all page_saved pages" "length pages < 2 ^ 32"
  shows "\<exists>im. bucket_image (b, pages) = Some im \<and> (\<forall>rest. load_buckets (im @ rest) buckets = load_buckets rest (buckets[b := pages]))"
proof (cases "pages = []")
  case True
  have "buckets[b := []] = buckets" using list_update_id [of buckets b] assms(3) by simp
  then show ?thesis using True by (simp add: bucket_image_def)
next
  case False
  obtain pss where pss: "those (map page_to_bytes pages) = Some pss"
    "\<And>acc rest. load_pages (length pages) (concat pss @ rest) acc = (acc @ pages, rest)"
    using load_pages_round_trip [OF assms(4)] by auto
  define im where "im = [word_of_nat b] @ to_le 4 (word_of_nat (length pages) :: u32) @ concat pss"
  have count: "unat (word_of_nat (length pages) :: u32) = length pages" "unat (word_of_nat b :: byte) = b"
    using assms(1,5) by (simp_all add: unat_of_nat take_bit_nat_eq_self RESIDENCY_BUCKET_COUNT_def)
  have "slice 1 5 (im @ rest) = to_le 4 (word_of_nat (length pages) :: u32)" "drop 5 (im @ rest) = concat pss @ rest"
    "(im @ rest) ! 0 = word_of_nat b" "\<not> length (im @ rest) < 5" for rest
    by (simp_all add: im_def slice_def)
  then have "load_buckets (im @ rest) buckets = load_buckets rest (buckets[b := pages])" for rest
    using pss(2) [of rest "[]"] assms count
    by (subst load_buckets.simps) (simp add: Let_def not_le [symmetric] del: length_append One_nat_def)
  then show ?thesis using False pss(1) by (simp add: bucket_image_def im_def)
qed

lemma load_buckets_round_trip:
  assumes "length before + length bs = RESIDENCY_BUCKET_COUNT" "list_all (list_all page_saved) bs" "list_all (\<lambda>pages. length pages < 2 ^ 32) bs"
  shows "\<exists>ims. those (map bucket_image (List.enumerate (length before) bs)) = Some ims
    \<and> load_buckets (concat ims) (before @ replicate (length bs) []) = before @ bs"
  using assms
proof (induction bs arbitrary: before)
  case Nil
  then show ?case by (simp add: load_buckets.simps)
next
  case (Cons pages bs)
  define start where "start = before @ [] # replicate (length bs) ([] :: residency_page list)"
  have "start ! length before = []" "length before < RESIDENCY_BUCKET_COUNT" "length start = RESIDENCY_BUCKET_COUNT"
    "start[length before := pages] = (before @ [pages]) @ replicate (length bs) []"
    using Cons.prems(1) by (simp_all add: start_def)
  then obtain im where im: "bucket_image (length before, pages) = Some im"
    "load_buckets (im @ rest) start = load_buckets rest ((before @ [pages]) @ replicate (length bs) [])" for rest
    using load_bucket_step [of "length before" start pages] Cons.prems(2,3) by auto
  obtain ims where "those (map bucket_image (List.enumerate (length (before @ [pages])) bs)) = Some ims"
    "load_buckets (concat ims) ((before @ [pages]) @ replicate (length bs) []) = (before @ [pages]) @ bs"
    using Cons.IH [of "before @ [pages]"] Cons.prems by auto
  then show ?case using im by (intro exI [of _ "im # ims"]) (simp add: start_def)
qed

lemma inv_pages_saved:
  assumes inv: "db_inv db"
  shows "list_all (list_all page_saved) (rd_buckets db)"
  unfolding list_all_iff
proof (intro ballI)
  fix pages page
  assume "pages \<in> set (rd_buckets db)" and page: "page \<in> set pages"
  then obtain b where "b < RESIDENCY_BUCKET_COUNT" "pages = rd_buckets db ! b"
    using db_invD(1) [OF inv] by (auto simp: in_set_conv_nth)
  then have "pages_sized pages" "list_all (entry_in b) (concat pages)"
    using inv by (simp_all add: db_inv_def bucket_ok_def entries_ok_def)
  then show "page_saved page"
    using page by (auto simp: page_saved_def pages_sized_def list_all_iff entry_in_def)
qed

lemma saved_image_loads:
  assumes inv: "db_inv db" and count: "\<forall>pages\<in>set (rd_buckets db). length pages < 2 ^ 32"
  obtains image db' where "db_image db = Some image" "db_load True (Some image) = Some db'" "rd_buckets db' = rd_buckets db"
    "db_inv db'" "\<And>k. is_resident db' k = is_resident db k"
proof -
  obtain ims where ims: "those (map bucket_image (List.enumerate 0 (rd_buckets db))) = Some ims"
    "load_buckets (concat ims) (replicate RESIDENCY_BUCKET_COUNT []) = rd_buckets db"
    using load_buckets_round_trip [of "[]" "rd_buckets db"] inv_pages_saved [OF inv] db_invD(1) [OF inv] count
    by (auto simp: list_all_iff)
  define db1 where "db1 = residency_db_new\<lparr>rd_buckets := rd_buckets db\<rparr>"
  have load: "db_load True (Some (concat ims)) = Some (rebuild_hash_index db1)"
    using ims(2) by (simp add: db_load_def db1_def residency_db_new_def)
  have inv': "db_inv (rebuild_hash_index db1)" by (rule rebuild_inv) (use inv in \<open>simp_all add: db_inv_def db1_def\<close>)
  have "is_resident (rebuild_hash_index db1) k = is_resident db k" for k
    using resident_iff [OF inv'] resident_iff [OF inv] by (simp add: entries_of_def db1_def)
  then show thesis using that [OF _ load _ inv'] ims(1) by (simp add: db_image_def db1_def)
qed

section \<open>The database as a set\<close>

lemma new_inv: "db_inv residency_db_new" "is_resident residency_db_new k \<longleftrightarrow> False"
proof -
  show "db_inv residency_db_new"
    by (auto simp: db_inv_def residency_db_new_def bucket_ok_def pages_sized_def entries_ok_def indexed_live_def bt_wf_def)
  then show "is_resident residency_db_new k \<longleftrightarrow> False"
    by (simp add: resident_iff entries_of_def residency_db_new_def)
qed

text \<open>
  C17. The residency database is a set of keys: marking a key resident inserts it, marking it or one of
  its spans non-resident removes it, deleting many keys removes them whether they are few or more than
  the batch threshold, and the list of keys has every resident key exactly once. Every operation keeps
  the invariant (each key once and in the bucket of its hash, each live key in the hash index), so
  that the hash index never hides a resident key.
\<close>

theorem residency_db_is_set:
  assumes "db_inv db" "length k = 16" "\<forall>x\<in>set keys. length x = 16"
  shows "{x. is_resident residency_db_new x} = {}
    \<and> {x. is_resident (mark_resident k db) x} = insert k {x. is_resident db x}
    \<and> {x. is_resident (mark_non_resident k db) x} = {x. is_resident db x} - {k}
    \<and> {x. is_resident (mark_span_non_resident k offset len db) x} = {x. is_resident db x} - {k}
    \<and> {x. is_resident (delete_keys keys db) x} = {x. is_resident db x} - set keys
    \<and> set (scan_keys db) = {x. is_resident db x} \<and> distinct (scan_keys db)
    \<and> db_inv residency_db_new \<and> db_inv (mark_resident k db) \<and> db_inv (mark_non_resident k db)
    \<and> db_inv (mark_span_non_resident k offset len db) \<and> db_inv (delete_keys keys db)"
  using marks [OF assms(1,2)] delete_keys_facts [OF assms(1,3)] scan_keys_facts [OF assms(1)] new_inv by auto

theorem residency_db_is_set_witness:
  "{x. is_resident (delete_keys [replicate 16 1] (mark_resident (replicate 16 1) (mark_resident (replicate 16 2) residency_db_new))) x}
     = {replicate 16 2}"
proof -
  let ?a = "replicate 16 1 :: byte list" and ?b = "replicate 16 2 :: byte list"
  define db1 db2 where "db1 = mark_resident ?b residency_db_new" and "db2 = mark_resident ?a db1"
  have len: "length ?a = 16" "length ?b = 16" "\<forall>x\<in>set ([] :: byte list list). length x = 16" "\<forall>x\<in>set [?a]. length x = 16" by simp_all
  note b = residency_db_is_set [OF new_inv(1) len(2,3), folded db1_def]
  then have "db_inv db1" by blast
  note a = residency_db_is_set [OF this len(1,3), folded db2_def]
  then have "db_inv db2" by blast
  note d = residency_db_is_set [OF this len(1,4)]
  have "?a \<noteq> ?b" by (simp add: numeral_eq_Suc)
  moreover have "{x. is_resident (delete_keys [?a] db2) x} = insert ?a (insert ?b {}) - {?a}" using a b d by simp
  ultimately show ?thesis by (auto simp: db2_def db1_def simp del: replicate.simps)
qed

text \<open>
  C18. Saving a changed database that satisfies the invariant never panics; when every step on the disk
  works, the file that is written loads as a database with the same pages and the same resident keys,
  and the saved one is clean; when a step fails the old file is still there and the database is still
  dirty, so that saving again writes it.
\<close>

theorem residency_save_load:
  assumes "db_inv db" "rd_dirty db" "\<forall>pages\<in>set (rd_buckets db). length pages < 2 ^ 32"
  shows "\<exists>image db'. db_save True db disk = Some (True, db\<lparr>rd_dirty := False\<rparr>, Some image)
      \<and> db_save False db disk = Some (False, db, disk)
      \<and> db_load True (Some image) = Some db' \<and> rd_buckets db' = rd_buckets db \<and> db_inv db'
      \<and> (\<forall>k. is_resident db' k = is_resident db k)"
proof -
  obtain image db' where "db_image db = Some image" "db_load True (Some image) = Some db'" "rd_buckets db' = rd_buckets db"
    "db_inv db'" "\<And>k. is_resident db' k = is_resident db k"
    using saved_image_loads [OF assms(1,3)] by blast
  then show ?thesis using assms(2) by (intro exI [of _ image] exI [of _ db']) (simp add: db_save_def)
qed

theorem residency_save_load_witness:
  "\<exists>image db'. db_save True (mark_resident (replicate 16 7) residency_db_new) None
       = Some (True, (mark_resident (replicate 16 7) residency_db_new)\<lparr>rd_dirty := False\<rparr>, Some image)
     \<and> db_load True (Some image) = Some db' \<and> is_resident db' (replicate 16 7)"
proof -
  let ?k = "replicate 16 7 :: byte list"
  define db where "db = mark_resident ?k residency_db_new"
  have inv: "db_inv db" "is_resident db ?k" using marks(1) [OF new_inv(1), of ?k] marks(2) [OF new_inv(1), of ?k ?k] by (simp_all add: db_def)
  have one: "length (inserted_pages e []) < 2 ^ 32" for e by (simp add: inserted_pages_def append_entry_def)
  have "rd_buckets db = (replicate RESIDENCY_BUCKET_COUNT [])[bucket_of ?k := inserted_pages (residency_entry_new ?k span_full RSet) []]"
    by (simp add: db_def mark_resident_def insert_entry_eq update_hash_index_for_key_def residency_db_new_def entry_new_facts)
  then have "set (rd_buckets db) \<subseteq> {[], inserted_pages (residency_entry_new ?k span_full RSet) []}"
    using set_update_subset_insert by fastforce
  then have "\<forall>pages\<in>set (rd_buckets db). length pages < 2 ^ 32" using one by fastforce
  moreover have "rd_dirty db" by (simp add: db_def mark_resident_def)
  ultimately show ?thesis using residency_save_load [OF inv(1), of None] inv(2) unfolding db_def by metis
qed

end
