(* ===== verification/Container_Steps.thy ===== *)
theory Container_Steps
  imports Container Archive_Props Index_Disk_Props Residency_Props Lru_Props
begin

text \<open>
  The steps of the dynamic container: index files and data files do not disturb each other in their
  common directory, a later state of the archives still holds every indexed entry, and each part of a
  write keeps the invariant of the container and the contents of all other keys.
\<close>

section \<open>Index files and data files\<close>

definition data_files_kept :: "directory \<Rightarrow> directory \<Rightarrow> bool" where
  "data_files_kept dir dir' \<longleftrightarrow>
     (\<forall>a :: u16. map_of dir' (Utf8 (segment_data_path (unat a))) = map_of dir (Utf8 (segment_data_path (unat a))))"

lemma length_data_path:
  "length (segment_data_path (unat (a :: u16))) = (if unat a < 1000 then 8 else if unat a < 10000 then 9 else 10)"
proof -
  define n where "n = unat a"
  have n: "n < 2 ^ 16" using unsigned_less [of a] by (simp add: n_def)
  have "length (dec03 n) = (if n < 1000 then 3 else if n < 10000 then 4 else 5)"
  proof (cases "n < 10000")
    case False
    then have "length (dec n) = 5"
      using n length_dec(2) [of n] length_dec(2) [of "n div 10"] length_dec(2) [of "n div 100"] length_dec(2) [of "n div 1000"]
        length_dec(1) [of "n div 10000"] by (simp add: div_mult2_eq [symmetric])
    then show ?thesis using False by (simp add: dec03_def)
  qed (simp add: length_dec03)
  then show ?thesis by (simp add: segment_data_path_def n_def [symmetric])
qed

lemma index_names_not_data:
  "Utf8 (segment_data_path (unat (a :: u16))) \<noteq> Utf8 (index_stem b v @ ''.tmp'')"
  "Utf8 (segment_data_path (unat a)) \<noteq> Utf8 (generate_index_filename b v)"
proof -
  have "length (index_stem b v @ ''.tmp'') = 14" "length (generate_index_filename b v) = 14"
    by (simp_all add: generate_index_filename_def)
  then show "Utf8 (segment_data_path (unat a)) \<noteq> Utf8 (index_stem b v @ ''.tmp'')"
    "Utf8 (segment_data_path (unat a)) \<noteq> Utf8 (generate_index_filename b v)"
    using length_data_path [of a] by (auto split: if_splits)
qed

lemma data_files_kept_refl [simp]: "data_files_kept dir dir"
  by (simp add: data_files_kept_def)

lemma data_files_kept_trans: "data_files_kept d1 d2 \<Longrightarrow> data_files_kept d2 d3 \<Longrightarrow> data_files_kept d1 d3"
  by (simp add: data_files_kept_def)

lemma save_index_data:
  assumes "file_inv b index" "save_index io b index v dir = Some (r, dir')"
  shows "data_files_kept dir dir'"
  using save_index_facts [OF assms(1), of io v dir] assms(2) index_names_not_data by (auto simp: data_files_kept_def)

lemma flush_data:
  assumes inv: "manager_inv m" and f: "flush_updates_for_bucket io b m dir = Some (r, m', dir')"
  shows "data_files_kept dir dir'"
proof (cases "map_of (indices m) b")
  case None
  then show ?thesis using f by (simp add: flush_updates_for_bucket_def)
next
  case (Some index)
  note fi = flush_inv [OF manager_inv_file [OF inv Some]]
  show ?thesis
    using f Some save_index_data [OF fi] by (auto simp: flush_updates_for_bucket_def Let_def split: if_splits bind_splits)
qed

lemma add_entry_data:
  assumes inv: "manager_inv m" and len: "9 \<le> length key" and add: "add_entry io key a off sz m dir = Some (r, m', dir')"
  shows "data_files_kept dir dir'"
proof -
  define b where "b = get_bucket_index key"
  define u where "u = update_entry_new (take 9 key) \<lparr>archive_id = a, archive_offset = off\<rparr> sz Normal"
  obtain s' ok where app: "section_append (if_updates (bucket_or_new m b)) u = (s', ok)" by fastforce
  note eq = add_entry_eq [OF len u_def b_def refl app, of io dir]
  have inv1: "manager_inv (set_bucket b (bucket_or_new m b) m)"
    using ensure_bucket [OF inv, of "bucket_or_new m b" b] by (simp add: bucket_or_new_def)
  show ?thesis
    using add eq flush_data [OF inv1]
    by (auto simp: retry_append_def split: if_splits sum.splits prod.splits bind_splits)
qed

definition bucket_saved :: "directory \<Rightarrow> byte \<times> index_file \<Rightarrow> bool" where
  "bucket_saved dir = (\<lambda>(b, index). \<exists>data. save_image b index = Some (Inr data)
     \<and> map_of dir (Utf8 (generate_index_filename b 1)) = Some data)"

definition index_saved :: "index_manager \<Rightarrow> directory \<Rightarrow> bool" where
  "index_saved m dir \<longleftrightarrow> list_all (bucket_saved dir) (indices m)"

definition index_kept :: "byte \<Rightarrow> directory \<Rightarrow> directory \<Rightarrow> bool" where
  "index_kept b dir dir' \<longleftrightarrow> map_of dir' (Utf8 (generate_index_filename b 1)) = map_of dir (Utf8 (generate_index_filename b 1))"

definition can_save_all :: "(byte \<Rightarrow> save_io) \<Rightarrow> (byte \<times> index_file) list \<Rightarrow> bool" where
  "can_save_all io ms \<longleftrightarrow> list_all (\<lambda>(b, index). can_save (io b) \<and> 18 * length (if_entries index) < 2 ^ 32) ms"

text \<open>Saving every bucket: the files of different buckets do not disturb each other.\<close>

lemma index_names_distinct:
  "generate_index_filename b v = generate_index_filename b' v' \<longleftrightarrow> b = b' \<and> v = v'"
  "generate_index_filename b v \<noteq> index_stem b' v' @ ''.tmp''"
proof -
  show "generate_index_filename b v = generate_index_filename b' v' \<longleftrightarrow> b = b' \<and> v = v'"
    by (metis index_filename_round_trip option.inject prod.inject)
  show "generate_index_filename b v \<noteq> index_stem b' v' @ ''.tmp''"
    by (simp add: generate_index_filename_def append_eq_append_conv)
qed

lemma bucket_saved_kept: "index_kept (fst p) dir dir' \<Longrightarrow> bucket_saved dir p \<Longrightarrow> bucket_saved dir' p"
  by (auto simp: index_kept_def bucket_saved_def split: prod.splits)

lemma save_bucket_step:
  assumes fi: "file_inv b index"
  obtains r dir' where "save_index io b index 1 dir = Some (r, dir')" "data_files_kept dir dir'"
    "r = Inr () \<longleftrightarrow> can_save io \<and> 18 * length (if_entries index) < 2 ^ 32" "r = Inr () \<Longrightarrow> bucket_saved dir' (b, index)"
    "\<And>b'. b' \<noteq> b \<Longrightarrow> index_kept b' dir dir'"
proof -
  obtain r dir' where s: "save_index io b index 1 dir = Some (r, dir')"
    "r = Inr () \<longleftrightarrow> can_save io \<and> 18 * length (if_entries index) < 2 ^ 32"
    "r = Inr () \<Longrightarrow> \<exists>data. save_image b index = Some (Inr data) \<and> map_of dir' (Utf8 (generate_index_filename b 1)) = Some data"
    "\<And>name. name \<noteq> Utf8 (index_stem b 1 @ ''.tmp'') \<Longrightarrow> name \<noteq> Utf8 (generate_index_filename b 1) \<Longrightarrow> map_of dir' name = map_of dir name"
    using save_index_facts [OF fi, of io 1 dir] by (auto simp: Let_def split: if_splits)
  have "index_kept b' dir dir'" if "b' \<noteq> b" for b'
    unfolding index_kept_def by (rule s(4)) (use that in \<open>simp_all add: index_names_distinct\<close>)
  then show thesis using that [OF s(1) save_index_data [OF fi s(1)] s(2)] s(3) by (simp add: bucket_saved_def)
qed

lemma save_buckets_facts:
  assumes "bt_wf ms" "list_all (\<lambda>(b, index). file_inv b index) ms"
  shows "\<exists>r dir'. save_buckets io ms dir = Some (r, dir') \<and> data_files_kept dir dir'
    \<and> (\<forall>b. b \<notin> fst ` set ms \<longrightarrow> index_kept b dir dir')
    \<and> (r = Inr () \<longrightarrow> list_all (bucket_saved dir') ms) \<and> (can_save_all io ms \<longrightarrow> r = Inr ())"
  using assms
proof (induction ms arbitrary: dir)
  case (Cons p ms)
  obtain b index where p: "p = (b, index)" by fastforce
  have "file_inv b index" using Cons.prems by (simp add: p)
  then obtain r1 dir1 where s1: "save_index (io b) b index 1 dir = Some (r1, dir1)" "data_files_kept dir dir1"
    "r1 = Inr () \<longleftrightarrow> can_save (io b) \<and> 18 * length (if_entries index) < 2 ^ 32" "r1 = Inr () \<Longrightarrow> bucket_saved dir1 (b, index)"
    "\<And>b'. b' \<noteq> b \<Longrightarrow> index_kept b' dir dir1"
    using save_bucket_step [of b index "io b" dir] by metis
  have b: "b \<notin> fst ` set ms" using Cons.prems(1) by (auto simp: p bt_wf_Cons)
  show ?case
  proof (cases r1)
    case (Inl e)
    then show ?thesis using s1(1,2,3,5) by (auto simp: p can_save_all_def)
  next
    case (Inr x)
    obtain r dir' where s2: "save_buckets io ms dir1 = Some (r, dir')" "data_files_kept dir1 dir'"
      "\<And>b. b \<notin> fst ` set ms \<Longrightarrow> index_kept b dir1 dir'" "r = Inr () \<Longrightarrow> list_all (bucket_saved dir') ms"
      "can_save_all io ms \<Longrightarrow> r = Inr ()"
      using Cons.IH [of dir1] Cons.prems by (simp add: bt_wf_Cons) metis
    have "bucket_saved dir' p" using bucket_saved_kept [of p dir1 dir'] s1(4) s2(3) [OF b] Inr by (simp add: p)
    moreover have "index_kept b' dir dir'" if "b' \<noteq> b" "b' \<notin> fst ` set ms" for b'
      using s1(5) [OF that(1)] s2(3) [OF that(2)] by (simp add: index_kept_def)
    ultimately show ?thesis
      using Inr s1(1) s2 data_files_kept_trans [OF s1(2) s2(2)]
      by (intro exI [of _ r] exI [of _ dir']) (simp add: p can_save_all_def)
  qed
qed (simp add: index_kept_def can_save_all_def)

lemma save_all_facts:
  assumes "manager_inv m"
  obtains r dir' where "save_all io m dir = Some (r, dir')" "data_files_kept dir dir'"
    "\<And>b. b \<notin> fst ` set (indices m) \<Longrightarrow> index_kept b dir dir'" "r = Inr () \<Longrightarrow> index_saved m dir'"
    "can_save_all io (indices m) \<Longrightarrow> r = Inr ()"
  using save_buckets_facts [of "indices m" io dir] assms unfolding manager_inv_def save_all_def index_saved_def by metis

section \<open>What an index entry refers to\<close>

lemma archives_frame:
  assumes inv: "archives_inv m" and kept: "data_files_kept (am_files m) dir"
  shows "archives_inv (m\<lparr>am_files := dir\<rparr>)" "committed (m\<lparr>am_files := dir\<rparr>) = committed m"
proof -
  have same: "same_file m (m\<lparr>am_files := dir\<rparr>) k" for k
    using kept by (simp add: same_file_def data_files_kept_def)
  show "archives_inv (m\<lparr>am_files := dir\<rparr>)" "committed (m\<lparr>am_files := dir\<rparr>) = committed m"
    using inv same_file_ok [OF inv same] by (auto simp: archives_inv_def)
qed

text \<open>A later state of the archives keeps what lies behind the segment headers and appends to it.\<close>

definition later :: "archive_manager \<Rightarrow> archive_manager \<Rightarrow> bool" where
  "later m m' \<longleftrightarrow> (\<forall>k. length (committed m k) \<le> length (committed m' k) \<and>
     (\<exists>ext. drop SEGMENT_HEADER_SIZE (committed m' k) = drop SEGMENT_HEADER_SIZE (committed m k) @ ext))"

lemma later_same: "committed m' = committed m \<Longrightarrow> later m m'"
  by (simp add: later_def)

lemma later_trans:
  assumes "later m1 m2" "later m2 m3"
  shows "later m1 m3"
  unfolding later_def
proof
  fix k
  obtain e1 e2 where "drop SEGMENT_HEADER_SIZE (committed m2 k) = drop SEGMENT_HEADER_SIZE (committed m1 k) @ e1"
    "drop SEGMENT_HEADER_SIZE (committed m3 k) = drop SEGMENT_HEADER_SIZE (committed m2 k) @ e2"
    using assms unfolding later_def by metis
  moreover have "length (committed m1 k) \<le> length (committed m3 k)" using assms unfolding later_def by (meson le_trans)
  ultimately show "length (committed m1 k) \<le> length (committed m3 k)
    \<and> (\<exists>ext. drop SEGMENT_HEADER_SIZE (committed m3 k) = drop SEGMENT_HEADER_SIZE (committed m1 k) @ ext)" by simp
qed

lemma later_append: "\<forall>k. \<exists>ext. committed m' k = committed m k @ ext \<Longrightarrow> later m m'"
  unfolding later_def by (metis drop_append length_append le_add1)

definition located :: "archive_manager \<Rightarrow> index_entry \<Rightarrow> bool" where
  "located m e \<longleftrightarrow> SEGMENT_HEADER_SIZE \<le> unat (archive_offset (ie_location e))
     \<and> unat (archive_offset (ie_location e)) + unat (ie_size e) \<le> length (committed m (archive_id (ie_location e)))"

definition entry_bytes :: "archive_manager \<Rightarrow> index_entry \<Rightarrow> byte list" where
  "entry_bytes m e = take (unat (ie_size e)) (drop (unat (archive_offset (ie_location e))) (committed m (archive_id (ie_location e))))"

definition read_entry :: "codecs \<Rightarrow> archive_manager \<Rightarrow> index_entry \<Rightarrow> (archive_error, byte list) outcome" where
  "read_entry cs m e = read_content cs m (archive_id (ie_location e)) (archive_offset (ie_location e)) (ie_size e)"

lemma read_located:
  assumes "archives_inv m" "located m e"
  shows "read_entry cs m e = decode_entry cs (entry_bytes m e)"
proof -
  have "committed m (archive_id (ie_location e)) \<noteq> []"
    using assms(2) by (auto simp: located_def SEGMENT_HEADER_SIZE_def)
  then show ?thesis
    using read_raw_committed [OF assms(1)] assms(2)
    by (simp add: read_entry_def read_content_def located_def entry_bytes_def obind_def slice_def)
qed

lemma later_located:
  assumes "later m m'" "located m e"
  shows "located m' e" "entry_bytes m' e = entry_bytes m e"
proof -
  define k off where "k = archive_id (ie_location e)" and "off = unat (archive_offset (ie_location e))"
  obtain ext where ext: "drop SEGMENT_HEADER_SIZE (committed m' k) = drop SEGMENT_HEADER_SIZE (committed m k) @ ext"
    and len: "length (committed m k) \<le> length (committed m' k)"
    using assms(1) unfolding later_def by blast
  show "located m' e" using assms(2) len by (simp add: located_def k_def)
  have off: "off = (off - SEGMENT_HEADER_SIZE) + SEGMENT_HEADER_SIZE" "off + unat (ie_size e) \<le> length (committed m k)"
    using assms(2) by (simp_all add: located_def k_def off_def)
  have "drop off (committed m' k) = drop off (committed m k) @ drop (off - SEGMENT_HEADER_SIZE - length (drop SEGMENT_HEADER_SIZE (committed m k))) ext"
    by (subst (1 2) off(1), simp only: drop_drop [symmetric] ext drop_append)
  then show "entry_bytes m' e = entry_bytes m e" using off(2) by (simp add: entry_bytes_def k_def off_def)
qed

section \<open>The invariant and the stored contents\<close>

definition container_inv :: "dynamic_container \<Rightarrow> bool" where
  "container_inv c \<longleftrightarrow> manager_inv (dc_index c) \<and> archives_inv (dc_archive c)
     \<and> (\<forall>k e. length k = 9 \<longrightarrow> lookup (dc_index c) k = Some e \<longrightarrow> located (dc_archive c) e)
     \<and> (\<forall>a\<in>dom (map_of (am_write_positions (dc_archive c))). a < 1024)
     \<and> (\<forall>lru. dc_lru c = Some lru \<longrightarrow> (\<exists>ks n. represents lru ks n))"

text \<open>The contents a container gives out, by the nine bytes of a key that the index stores.\<close>

definition stored :: "codecs \<Rightarrow> dynamic_container \<Rightarrow> byte list \<Rightarrow> (archive_error, byte list) outcome option" where
  "stored cs c k = (if length k = 9 then map_option (read_entry cs (dc_archive c)) (lookup (dc_index c) k) else None)"

lemma container_invD:
  assumes "container_inv c"
  shows "manager_inv (dc_index c)" "archives_inv (dc_archive c)"
    "\<And>k e. length k = 9 \<Longrightarrow> lookup (dc_index c) k = Some e \<Longrightarrow> located (dc_archive c) e"
    "\<And>a. map_of (am_write_positions (dc_archive c)) a \<noteq> None \<Longrightarrow> a < 1024"
    "\<And>lru. dc_lru c = Some lru \<Longrightarrow> \<exists>ks n. represents lru ks n"
  using assms by (auto simp: container_inv_def)

lemma stored_later:
  assumes inv: "container_inv c" and inv': "archives_inv m'" and later: "later (dc_archive c) m'"
    and "length k = 9" "lookup (dc_index c) k = Some e"
  shows "read_entry cs m' e = read_entry cs (dc_archive c) e" "located m' e"
proof -
  have e: "located (dc_archive c) e" by (rule container_invD(3) [OF inv assms(4,5)])
  note e' = later_located [OF later e]
  show "located m' e" by (rule e'(1))
  show "read_entry cs m' e = read_entry cs (dc_archive c) e"
    using read_located [OF inv' e'(1)] read_located [OF container_invD(2) [OF inv] e] e'(2) by simp
qed

text \<open>
  A step of a container that moves its archives on keeps the contents of every key at which the index
  does not change.
\<close>

lemma container_step:
  assumes inv: "container_inv c" and later: "later (dc_archive c) (dc_archive c')" and arch: "archives_inv (dc_archive c')"
    and idx: "manager_inv (dc_index c')"
    and new: "\<And>k e. length k = 9 \<Longrightarrow> lookup (dc_index c') k = Some e \<Longrightarrow> lookup (dc_index c) k \<noteq> Some e \<Longrightarrow> located (dc_archive c') e"
    and ids: "\<And>a. map_of (am_write_positions (dc_archive c')) a \<noteq> None \<Longrightarrow> a < 1024"
    and lru: "\<And>lru. dc_lru c' = Some lru \<Longrightarrow> \<exists>ks n. represents lru ks n"
  shows "container_inv c'" "lookup (dc_index c') k = lookup (dc_index c) k \<Longrightarrow> stored cs c' k = stored cs c k"
proof -
  have "located (dc_archive c') e" if "length k = 9" "lookup (dc_index c') k = Some e" for k e
    using that new [OF that] stored_later(2) [OF inv arch later that(1), of e] by blast
  then show "container_inv c'" using idx arch ids lru by (auto simp: container_inv_def)
  show "stored cs c' k = stored cs c k" if "lookup (dc_index c') k = lookup (dc_index c) k"
    using that stored_later(1) [OF inv arch later, of k] by (cases "lookup (dc_index c) k") (auto simp: stored_def)
qed

lemma touch_lru_total:
  assumes "container_inv c" "length key = 16"
  obtains c' where "touch_lru key c = Some c'" "dc_index c' = dc_index c" "dc_archive c' = dc_archive c"
    "dc_access_mode c' = dc_access_mode c"
    "\<And>lru. dc_lru c' = Some lru \<Longrightarrow> \<exists>ks n. represents lru ks n"
proof (cases "dc_lru c")
  case None
  then show ?thesis using that [of c] by (simp add: touch_lru_def)
next
  case (Some l)
  then obtain ks n where rep: "represents l ks n" using container_invD(5) [OF assms(1)] by blast
  obtain b ks' n' where spec: "touch_spec (take 9 key) ks n = (b, ks', n')" using prod_cases3 by blast
  obtain l' where "touch l (take 9 key) = Some (b, l')" "represents l' ks' n'"
    using lru.touch_refines [OF rep _ spec] assms(2) by auto
  then show ?thesis using that [of "c\<lparr>dc_lru := Some l'\<rparr>"] Some by (auto simp: touch_lru_def)
qed

lemma on_directory_eq:
  "f (dc_index c) (am_files (dc_archive c)) = Some (r, index, dir) \<Longrightarrow>
   on_directory f c = (case r of Inl e \<Rightarrow> Fail (IndexError e) | Inr _ \<Rightarrow> Ret (),
     c\<lparr>dc_index := index, dc_archive := (dc_archive c)\<lparr>am_files := dir\<rparr>\<rparr>)"
  by (simp add: on_directory_def)

lemma save_step:
  assumes inv: "container_inv c"
  obtains r c' where "dc_save_all io c = (r, c')" "r \<noteq> Panic" "container_inv c'" "stored cs c' = stored cs c"
    "dc_index c' = dc_index c" "r = Ret () \<Longrightarrow> index_saved (dc_index c') (am_files (dc_archive c'))"
    "can_save_all io (indices (dc_index c)) \<Longrightarrow> r = Ret ()" "\<exists>dir. dc_archive c' = (dc_archive c)\<lparr>am_files := dir\<rparr>"
proof -
  obtain r dir where s: "save_all io (dc_index c) (am_files (dc_archive c)) = Some (r, dir)"
    "data_files_kept (am_files (dc_archive c)) dir" "r = Inr () \<Longrightarrow> index_saved (dc_index c) dir"
    "can_save_all io (indices (dc_index c)) \<Longrightarrow> r = Inr ()"
    using save_all_facts [OF container_invD(1) [OF inv], of io "am_files (dc_archive c)"] by metis
  define c' where "c' = c\<lparr>dc_archive := (dc_archive c)\<lparr>am_files := dir\<rparr>\<rparr>"
  have save: "dc_save_all io c = (case r of Inl e \<Rightarrow> Fail (IndexError e) | Inr _ \<Rightarrow> Ret (), c')"
    using s(1) by (simp add: dc_save_all_def on_directory_def c'_def)
  note frame = archives_frame [OF container_invD(2) [OF inv] s(2)]
  note step = container_step [OF inv, of c']
  have "container_inv c'" "stored cs c' k = stored cs c k" for k
    by (rule step; use frame container_invD [OF inv] in \<open>simp add: c'_def later_same\<close>)+
  then show thesis
    using that [OF save] s(3,4) by (cases r) (auto simp: c'_def)
qed

section \<open>Writing\<close>

lemma wf_segment_header_from_bytes:
  assumes "segment_header_from_bytes data = Some s"
  shows "wf_segment_header s"
proof -
  define h where "h i = (case local_header_from_bytes (slice (i * 30) (i * 30 + 30) data) of Some p \<Rightarrow> p | None \<Rightarrow> zeroed_header i)" for i
  have "wf_local_header (h i)" for i
    using wf_zeroed_header [of i]
    by (auto simp: h_def local_header_from_bytes_def LOCAL_HEADER_SIZE_def wf_simps split: option.splits if_splits)
  then show ?thesis
    using assms
    by (auto simp: segment_header_from_bytes_def wf_segment_header_def list_all_iff LOCAL_HEADER_SIZE_def Let_def h_def [symmetric]
        split: if_splits)
qed

lemma read_segment_header_wf:
  "wf_segment_header (case read_segment_header m a of Ret h \<Rightarrow> h | _ \<Rightarrow> segment_header_zeroed)"
  using wf_segment_header_zeroed wf_segment_header_from_bytes
  by (auto simp: read_segment_header_def obind_def split: outcome.splits option.splits)

lemma reconstruction_header_step:
  assumes inv: "archives_inv m" and ekey: "length ekey = 16" and u: "update_reconstruction_header io ekey a off sz m = (r, m')"
  shows "archives_inv m'" "later m m'" "r \<noteq> Panic" "am_write_positions m' = am_write_positions m"
proof -
  define h where "h = (case read_segment_header m a of Ret h \<Rightarrow> h | _ \<Rightarrow> segment_header_zeroed)"
  define lh where "lh = local_header_new ekey sz 0 1"
  have wf: "wf_segment_header (set_bucket_header h (bucket_hash (take 9 ekey) 0) lh)"
    using read_segment_header_wf [of m a] local_header_new_fields(4) [OF ekey] by (simp add: wf_set_bucket_header h_def lh_def)
  have cases: "(r, m') = (Ret (), m) \<or>
      write_to_archive io a 0 (segment_header_to_bytes (set_bucket_header h (bucket_hash (take 9 ekey) 0) lh)) m = (r, m')"
    using u by (simp add: update_reconstruction_header_def write_segment_header_def h_def lh_def Let_def split: if_splits)
  have "archives_inv m' \<and> later m m' \<and> r \<noteq> Panic \<and> am_write_positions m' = am_write_positions m"
  proof (rule disjE [OF cases])
    assume "write_to_archive io a 0 (segment_header_to_bytes (set_bucket_header h (bucket_hash (take 9 ekey) 0) lh)) m = (r, m')"
    note w = header_effect [OF inv this length_segment_header_to_bytes [OF wf]]
    show ?thesis using w(1,2,3) w(4,5) by (simp add: later_def)
  qed (use inv in \<open>simp add: later_same\<close>)
  then show "archives_inv m'" "later m m'" "r \<noteq> Panic" "am_write_positions m' = am_write_positions m" by blast+
qed

lemma add_entry_step:
  assumes inv: "container_inv c" and ekey: "length ekey = 16" and a: "a < 1024" "off < 0x40000000"
    and e: "e = index_entry_new (take 9 ekey) a off sz" "located (dc_archive c) e"
  obtains r c' where "on_directory (add_entry io ekey a off sz) c = (r, c')" "r \<noteq> Panic" "container_inv c'"
    "dc_archive c' = (dc_archive c)\<lparr>am_files := am_files (dc_archive c')\<rparr>" "later (dc_archive c) (dc_archive c')"
    "\<And>k. length k = 9 \<Longrightarrow> lookup (dc_index c') k = (if r = Ret () \<and> k = take 9 ekey then Some e else lookup (dc_index c) k)"
    "room (dc_index c) ekey \<Longrightarrow> r = Ret ()" "dc_lru c' = dc_lru c"
    "data_files_kept (am_files (dc_archive c)) (am_files (dc_archive c'))"
proof -
  have loc: "wf_location \<lparr>archive_id = a, archive_offset = off\<rparr>" using a by (simp add: wf_location_def)
  note spec = add_entry_spec [OF container_invD(1) [OF inv], of ekey _ a off io sz "am_files (dc_archive c)", OF _ _ loc, folded e(1)]
  obtain r m' dir where add: "add_entry io ekey a off sz (dc_index c) (am_files (dc_archive c)) = Some (r, m', dir)"
    using spec [of "replicate 9 0"] ekey by auto
  have spec': "(room (dc_index c) ekey \<longrightarrow> r = Inr ()) \<and> add_result io ekey e (dc_index c) k r m'" if "length k = 9" for k
    using spec [of k] add ekey that by auto
  have minv: "manager_inv m'" using spec' [of "replicate 9 0"] by (simp add: add_result_def)
  have look: "lookup m' k = (if r = Inr () \<and> k = take 9 ekey then Some e else lookup (dc_index c) k)" if "length k = 9" for k
    using spec' [OF that] that by (auto simp: add_result_def)
  have kept: "data_files_kept (am_files (dc_archive c)) dir"
    by (rule add_entry_data [OF container_invD(1) [OF inv] _ add]) (use ekey in simp)
  define c' where "c' = c\<lparr>dc_index := m', dc_archive := (dc_archive c)\<lparr>am_files := dir\<rparr>\<rparr>"
  note frame = archives_frame [OF container_invD(2) [OF inv] kept]
  have new: "located (dc_archive c') x" if "length k = 9" "lookup (dc_index c') k = Some x" "lookup (dc_index c) k \<noteq> Some x" for k x
    using look [OF that(1)] that e(2) frame(2) by (auto simp: c'_def located_def split: if_splits)
  have cinv: "container_inv c'"
    by (rule container_step(1) [OF inv, of c']) (use frame minv new container_invD [OF inv] in \<open>auto simp: c'_def later_same\<close>)
  show thesis
  proof (rule that [of "case r of Inl e \<Rightarrow> Fail (IndexError e) | Inr _ \<Rightarrow> Ret ()" c'])
    show "on_directory (add_entry io ekey a off sz) c = (case r of Inl e \<Rightarrow> Fail (IndexError e) | Inr _ \<Rightarrow> Ret (), c')"
      using add by (simp add: on_directory_def c'_def)
  qed (use cinv frame(2) look spec' [of "replicate 9 0"] kept in \<open>auto simp: c'_def later_same split: sum.splits\<close>)
qed

definition lookups_after :: "index_manager \<Rightarrow> index_manager \<Rightarrow> bool \<Rightarrow> byte list \<Rightarrow> index_entry \<Rightarrow> bool" where
  "lookups_after m m' b key e \<longleftrightarrow> (\<forall>k. length k = 9 \<longrightarrow> lookup m' k = (if b \<and> k = key then Some e else lookup m k))"

lemma stored_after:
  assumes inv: "container_inv c" and inv': "container_inv c'" and later: "later (dc_archive c) (dc_archive c')"
    and look: "lookups_after (dc_index c) (dc_index c') b key e" and e: "located (dc_archive c) e" "length key = 9"
  shows "stored cs c' = (if b then (stored cs c)(key \<mapsto> read_entry cs (dc_archive c) e) else stored cs c)"
proof
  fix k
  have new: "read_entry cs (dc_archive c') e = read_entry cs (dc_archive c) e"
    using later_located [OF later e(1)] read_located [OF container_invD(2) [OF inv'], of e] read_located [OF container_invD(2) [OF inv] e(1)]
    by simp
  have old: "read_entry cs (dc_archive c') x = read_entry cs (dc_archive c) x" if "length k = 9" "lookup (dc_index c) k = Some x" for x
    by (rule stored_later(1) [OF inv container_invD(2) [OF inv'] later that])
  show "stored cs c' k = (if b then (stored cs c)(key \<mapsto> read_entry cs (dc_archive c) e) else stored cs c) k"
    using look new old e(2) unfolding lookups_after_def stored_def by (cases "lookup (dc_index c) k") auto
qed

lemma commit_effect:
  assumes inv: "container_inv c" and ekey: "length ekey = 16" and a: "a < 1024" "off < 0x40000000"
    and e: "e = index_entry_new (take 9 ekey) a off sz" "located (dc_archive c) e"
    and w: "commit_entry io a off sz ekey c = (r, c')"
  shows "container_inv c' \<and> r \<noteq> Panic \<and> (r = Ret () \<longrightarrow> index_saved (dc_index c') (am_files (dc_archive c')))
    \<and> (\<exists>b. (r = Ret () \<longrightarrow> b) \<and> stored cs c' = (if b then (stored cs c)(take 9 ekey \<mapsto> read_entry cs (dc_archive c) e) else stored cs c))"
proof -
  obtain r1 c1 where s1: "on_directory (add_entry (ci_index io) ekey a off sz) c = (r1, c1)" "r1 \<noteq> Panic" "container_inv c1"
    "later (dc_archive c) (dc_archive c1)"
    "\<And>k. length k = 9 \<Longrightarrow> lookup (dc_index c1) k = (if r1 = Ret () \<and> k = take 9 ekey then Some e else lookup (dc_index c) k)"
    using add_entry_step [OF inv ekey a e] by metis
  have look1: "lookups_after (dc_index c) (dc_index c1) (r1 = Ret ()) (take 9 ekey) e" using s1(5) by (simp add: lookups_after_def)
  have nine: "length (take 9 ekey) = 9" using ekey by simp
  note st1 = stored_after [OF inv s1(3,4) look1 e(2) nine, where cs = cs]
  show ?thesis
  proof (cases r1)
    case (Fail x)
    then show ?thesis using w s1(1,3) st1 by (auto simp: commit_entry_def)
  next
    case (Ret u)
    obtain r2 m2 where s2: "update_reconstruction_header (ci_header io) ekey a off sz (dc_archive c1) = (r2, m2)" by fastforce
    note h = reconstruction_header_step [OF container_invD(2) [OF s1(3)] ekey s2]
    define c2 where "c2 = c1\<lparr>dc_archive := m2\<rparr>"
    have inv2: "container_inv c2" and st2: "stored cs c2 k = stored cs c1 k" for k
      by (rule container_step [OF s1(3), of c2]; use h container_invD [OF s1(3)] in \<open>simp add: c2_def\<close>)+
    obtain c3 where s3: "touch_lru ekey c2 = Some c3" "dc_index c3 = dc_index c2" "dc_archive c3 = dc_archive c2"
      "\<And>lru. dc_lru c3 = Some lru \<Longrightarrow> \<exists>ks n. represents lru ks n"
      using touch_lru_total [OF inv2 ekey] by metis
    have inv3: "container_inv c3" and st3: "stored cs c3 k = stored cs c2 k" for k
      by (rule container_step [OF inv2, of c3]; use s3 container_invD [OF inv2] in \<open>simp add: later_same\<close>)+
    obtain r4 c4 where s4: "dc_save_all (ci_save io) c3 = (r4, c4)" "r4 \<noteq> Panic" "container_inv c4" "stored cs c4 = stored cs c3"
      "r4 = Ret () \<Longrightarrow> index_saved (dc_index c4) (am_files (dc_archive c4))"
      using save_step [OF inv3, of "ci_save io" cs] by metis
    have done2: "stored cs c2 = (stored cs c)(take 9 ekey \<mapsto> read_entry cs (dc_archive c) e)" using st1 st2 Ret by auto
    then have done4: "stored cs c4 = (stored cs c)(take 9 ekey \<mapsto> read_entry cs (dc_archive c) e)" using st3 s4(4) by auto
    have eq: "commit_entry io a off sz ekey c =
        (case r2 of Ret _ \<Rightarrow> (r4, c4) | Fail x \<Rightarrow> (Fail (ArchiveError x), c2) | Panic \<Rightarrow> (Panic, c2))"
      using s1(1) Ret s2 s3(1) s4(1) by (simp add: commit_entry_def c2_def split: outcome.splits)
    show ?thesis
      using eq w h(3) inv2 done2 s4(2,3,5) done4 by (cases r2) auto
  qed (use s1(2) in simp)
qed

text \<open>A write opens at most the archive it selects.\<close>

lemma positions_of_step:
  "am_write_positions (snd (write_to_archive io a off data m)) = am_write_positions m"
  by (simp add: write_to_archive_def remap_archive_def put_file_def Let_def split: option.splits write_io.splits)

lemma create_archive_ids:
  assumes "bt_wf (am_write_positions m)" "create_archive io md5 a m = (r, m1)"
  shows "dom (map_of (am_write_positions m1)) \<subseteq> insert a (dom (map_of (am_write_positions m)))" "bt_wf (am_write_positions m1)"
  using assms
  by (auto simp: create_archive_def open_archive_def put_file_def Let_def map_of_bt_insert bt_wf_insert
      split: write_io.splits option.splits if_splits)

lemma write_entry_ids:
  assumes wf: "bt_wf (am_write_positions m)" and w: "write_entry io md5 ekey blte m = (r, m')"
  shows "dom (map_of (am_write_positions m'))
    \<subseteq> insert (select_archive_for_write_sized m (LOCAL_HEADER_SIZE + length blte)) (dom (map_of (am_write_positions m)))"
proof -
  define n a where "n = LOCAL_HEADER_SIZE + length blte" and "a = select_archive_for_write_sized m n"
  obtain r1 m1 where r1: "(if map_of (am_archives m) a = None then create_archive io md5 a m else (Ret (), m)) = (r1, m1)"
    by fastforce
  have m1: "dom (map_of (am_write_positions m1)) \<subseteq> insert a (dom (map_of (am_write_positions m)))" "bt_wf (am_write_positions m1)"
    using r1 create_archive_ids [OF wf, of io md5 a r1 m1] wf by (auto split: if_splits)
  have "m' = m \<or> (\<exists>off data q. m' = m1 \<or> am_write_positions m' = am_write_positions (snd (write_to_archive io a off data m1))
      \<or> am_write_positions m' = bt_insert a q (am_write_positions (snd (write_to_archive io a off data m1))))"
    using w
    by (auto simp: write_entry_def n_def [symmetric] a_def [symmetric] r1 Let_def split: if_splits outcome.splits prod.splits) (metis snd_conv)+
  then have "dom (map_of (am_write_positions m')) \<subseteq> dom (map_of (am_write_positions m)) \<union> insert a (dom (map_of (am_write_positions m1)))"
    unfolding positions_of_step using map_of_bt_insert [OF m1(2)] by (elim disjE exE) auto
  then show ?thesis using m1(1) unfolding n_def [symmetric] a_def [symmetric] by blast
qed

lemma select_bound:
  assumes "bt_wf (am_write_positions m)" "\<And>a. map_of (am_write_positions m) a \<noteq> None \<Longrightarrow> a < 1024" "length (am_write_positions m) < 1024"
  shows "select_archive_for_write_sized m n < 1024"
proof (cases "first_with_room n (am_write_positions m)")
  case None
  then show ?thesis using assms(3) by (simp add: select_archive_for_write_sized_def word_less_nat_alt unat_of_nat take_bit_nat_eq_self)
next
  case (Some a)
  then show ?thesis using first_with_room_fits [OF Some assms(1)] assms(2) [of a] by (auto simp: select_archive_for_write_sized_def)
qed

text \<open>\<open>write_content\<close> as the container calls it: the data is stored as it is.\<close>

lemma write_content_step:
  assumes inv: "container_inv c" and md5: "\<And>x. length (md5 x) = 16" and ids: "length (am_write_positions (dc_archive c)) < 1024"
    and blte: "compress_blte_with_mode cs data ModeNone = Ret blte"
    and w: "write_content io cs md5 data False (dc_archive c) = (r, m')"
  shows "container_inv (c\<lparr>dc_archive := m'\<rparr>)" "stored cs (c\<lparr>dc_archive := m'\<rparr>) = stored cs c" "r \<noteq> Panic"
    "r = Ret (a, off, sz, ekey) \<Longrightarrow> ekey = md5 blte \<and> a < 1024 \<and> off < 0x40000000
       \<and> located m' (index_entry_new (take 9 ekey) a off sz) \<and> read_entry cs m' (index_entry_new (take 9 ekey) a off sz) = Ret data"
proof -
  have w': "write_content_with_mode io cs md5 data ModeNone (dc_archive c) = (r, m')" using w by (simp add: write_content_def)
  have arch: "archives_inv (dc_archive c)" by (rule container_invD(2) [OF inv])
  have wf: "bt_wf (am_write_positions (dc_archive c))" using arch by (simp add: archives_inv_def)
  note eff = write_content_effect [OF arch md5 w']
  have target: "select_archive_for_write_sized (dc_archive c) n < 1024" for n
    by (rule select_bound [OF wf container_invD(4) [OF inv] ids])
  obtain r1 where we: "write_entry io md5 (md5 blte) blte (dc_archive c) = (r1, m')"
    "r = obind r1 (\<lambda>(archive_id, offset, total). Ret (archive_id, offset, total, md5 blte))"
    using w' blte by (auto simp: write_content_with_mode_def split: prod.splits)
  have ids': "a < 1024" if "map_of (am_write_positions m') a \<noteq> None" for a
    using write_entry_ids [OF wf we(1)] target container_invD(4) [OF inv] that by blast
  have step: "container_inv (c\<lparr>dc_archive := m'\<rparr>)" "stored cs (c\<lparr>dc_archive := m'\<rparr>) k = stored cs c k" for k
    by (rule container_step [OF inv, of "c\<lparr>dc_archive := m'\<rparr>"]; use eff(1) later_append [OF eff(3)] container_invD [OF inv] ids' in simp)+
  show "container_inv (c\<lparr>dc_archive := m'\<rparr>)" "stored cs (c\<lparr>dc_archive := m'\<rparr>) = stored cs c" using step by auto
  show "r \<noteq> Panic" using eff(2) blte by auto
  assume r: "r = Ret (a, off, sz, ekey)"
  define e where "e = index_entry_new (take 9 ekey) a off sz"
  have ekey: "ekey = md5 blte" and app: "entry_appended (dc_archive c) m' ekey blte a off sz"
    using eff(4) [OF r] blte by auto
  have "a = select_archive_for_write_sized (dc_archive c) (LOCAL_HEADER_SIZE + length blte)"
    using write_entry_target [of io md5 "md5 blte" blte "dc_archive c"] we r by (cases r1) (auto split: prod.splits)
  moreover have len: "length ekey = 16" using md5 ekey by simp
  moreover note head = length_local_header_to_bytes [OF local_header_new_fields(4) [OF len]]
  moreover have "unat off + unat sz \<le> 2 ^ 30" "30 \<le> unat sz" "located m' e"
    using app by (auto simp: entry_appended_def MAX_ARCHIVE_SIZE_def SEGMENT_SIZE_def located_def e_def index_entry_new_def head)
  moreover have "read_entry cs m' e = Ret data"
  proof -
    obtain blte' where b': "compress_blte_with_mode cs data ModeNone = Ret blte'"
      "\<And>header. length header = 30 \<Longrightarrow> decode_entry cs (header @ blte') = Ret data"
      using compress_decode [of cs data ModeNone] by (auto simp: storable_data_def)
    show ?thesis
      using read_entry_appended [OF eff(1) app len] b' blte head by (simp add: read_entry_def read_content_def e_def index_entry_new_def obind_def)
  qed
  ultimately show "ekey = md5 blte \<and> a < 1024 \<and> off < 0x40000000
       \<and> located m' (index_entry_new (take 9 ekey) a off sz) \<and> read_entry cs m' (index_entry_new (take 9 ekey) a off sz) = Ret data"
    using ekey target by (auto simp: e_def word_less_nat_alt)
qed

end
