(* ===== verification/Container_Props.thy ===== *)
theory Container_Props
  imports Container_Steps
begin

text \<open>
  Properties of the dynamic container: it is a map from nine-byte keys to contents under writes, reads
  and removals with every pattern of I/O failures, writes succeed when the I/O does, and what an
  acknowledged write has stored is found by a container that is opened on the directory afterwards.
\<close>

section \<open>Writes that succeed\<close>

lemma write_entry_mapped:
  assumes inv: "archives_inv m" and md5: "\<And>x. length (md5 x) = 16" and w: "write_entry io md5 ekey blte m = (Ret (a, off, tsz), m')"
  shows "\<exists>af. map_of (am_archives m') a = Some af \<and> length (file_of m' (af_path af)) \<le> MAX_ARCHIVE_SIZE"
proof -
  define n where "n = LOCAL_HEADER_SIZE + length blte"
  have a: "a = select_archive_for_write_sized m n" using write_entry_target [OF w] by (simp add: n_def)
  obtain r1 m1 where r1: "(if map_of (am_archives m) a = None then create_archive io md5 a m else (Ret (), m)) = (r1, m1)" by fastforce
  have inv1: "archives_inv m1"
    using r1 inv create_archive_effect(1) [OF inv _ md5] by (auto split: if_splits)
  define p where "p = (case map_of (am_write_positions m1) a of Some p \<Rightarrow> p | None \<Rightarrow> 0)"
  define data where "data = local_header_to_bytes (local_header_new ekey (word_of_nat n)
                 (ucast a * word_of_nat SEGMENT_SIZE + word_of_nat p) 0) @ blte"
  obtain r2 m2 where w2: "write_to_archive io a p data m1 = (r2, m2)" by fastforce
  have "write_entry io md5 ekey blte m =
      (if n \<ge> 2 ^ 32 then (Fail ArTooLarge, m)
       else case r1 of
         Ret _ \<Rightarrow> (case r2 of Ret _ \<Rightarrow> (if p \<ge> 2 ^ 32 then Fail ArOffset else Ret (a, word_of_nat p, word_of_nat n),
                     m2\<lparr>am_write_positions := bt_insert a (p + n) (am_write_positions m2)\<rparr>)
                   | Fail e \<Rightarrow> (Fail e, m2) | Panic \<Rightarrow> (Panic, m2))
       | Fail e \<Rightarrow> (Fail e, m1) | Panic \<Rightarrow> (Panic, m1))"
    by (cases r1) (simp_all add: write_entry_def n_def [symmetric] a [symmetric] r1 Let_def p_def [symmetric] data_def [symmetric] w2
        split: outcome.splits)
  then have r2: "r2 = Ret ()" and m': "am_archives m' = am_archives m2" "am_files m' = am_files m2"
    using w by (auto split: if_splits outcome.splits)
  obtain af where af: "map_of (am_archives m1) a = Some af" using w2 r2 by (auto simp: write_to_archive_def split: option.splits)
  obtain fbytes where f: "map_of (am_files m1) (Utf8 (af_path af)) = Some fbytes" "p \<le> length fbytes"
    by (rule archives_invD [OF inv1 af]) (use that in \<open>simp add: p_def\<close>)
  show ?thesis
    by (rule write_to_archive_facts [OF inv1 af f w2])
       (use m' r2 in \<open>auto simp: file_of_def\<close>)
qed

lemma header_succeeds:
  assumes io: "good_io io" and ekey: "length ekey = 16" and af: "map_of (am_archives m) a = Some af"
    and fit: "length (file_of m (af_path af)) \<le> MAX_ARCHIVE_SIZE"
  shows "\<exists>m'. update_reconstruction_header io ekey a off sz m = (Ret (), m')"
proof -
  have "\<exists>m'. write_to_archive io a 0 data m = (Ret (), m')" if "length data = SEGMENT_HEADER_SIZE" for data
  proof -
    have "length (write_at 0 data (file_of m (af_path af))) \<le> MAX_ARCHIVE_SIZE"
      using fit that write_at_facts(1) [of 0 "file_of m (af_path af)" data]
      by (simp add: SEGMENT_HEADER_SIZE_def MAX_ARCHIVE_SIZE_def SEGMENT_SIZE_def)
    then show ?thesis
      using af io by (simp add: write_to_archive_def good_io_def Let_def put_file_def file_of_def update_conv' remap_archive_def)
  qed
  then show ?thesis
    using length_segment_header_to_bytes [OF wf_set_bucket_header [OF read_segment_header_wf local_header_new_fields(4) [OF ekey]]]
    by (simp add: update_reconstruction_header_def write_segment_header_def Let_def)
qed

definition all_sections :: "(index_entry list \<Rightarrow> bool) \<Rightarrow> index_manager \<Rightarrow> bool" where
  "all_sections P m \<longleftrightarrow> list_all (\<lambda>(b, index). P (if_entries index)) (indices m)"

definition small_index :: "index_manager \<Rightarrow> bool" where
  "small_index = all_sections (\<lambda>es. 18 * length es < 2 ^ 32)"

lemma set_bucket_sections: "all_sections P m \<Longrightarrow> P (if_entries index) \<Longrightarrow> all_sections P (set_bucket b index m)"
  using bt_insert_set [of b index "indices m"] by (fastforce simp: all_sections_def set_bucket_def list_all_iff)

text \<open>With room in the update section the sorted sections stay as they are.\<close>

lemma add_entry_sections:
  assumes inv: "manager_inv m" and len: "9 \<le> length key" and room: "room m key" and all: "all_sections P m" "P []"
    and add: "add_entry io key a off sz m dir = Some (r, m', dir')"
  shows "all_sections P m'"
proof -
  define b where "b = get_bucket_index key"
  define u where "u = update_entry_new (take 9 key) \<lparr>archive_id = a, archive_offset = off\<rparr> sz Normal"
  define index where "index = bucket_or_new m b"
  obtain s' ok where app: "section_append (if_updates index) u = (s', ok)" by fastforce
  have "file_inv b index" using ensure_bucket [OF inv index_def [unfolded bucket_or_new_def]] by blast
  then have ok
    using accepts_iff_not_full [of "if_updates index" u] app room
    by (auto simp: room_def index_def b_def bucket_or_new_def file_inv_def new_index_file_def
          section_is_full_def section_new_def split: option.splits)
  moreover have "P (if_entries index)"
    using all by (auto simp: index_def bucket_or_new_def new_index_file_def all_sections_def list_all_iff split: option.splits dest: map_of_SomeD)
  ultimately show ?thesis
    using add add_entry_eq [OF len u_def b_def index_def app, of io dir] all by (auto intro!: set_bucket_sections)
qed

lemma commit_succeeds:
  assumes inv: "container_inv c" and ekey: "length ekey = 16" and a: "a < 1024" "off < 0x40000000"
    and e: "located (dc_archive c) (index_entry_new (take 9 ekey) a off sz)"
    and io: "good_io (ci_header io)" "\<And>b. can_save (ci_save io b)" and room: "room (dc_index c) ekey" and small: "small_index (dc_index c)"
    and af: "map_of (am_archives (dc_archive c)) a = Some af" "length (file_of (dc_archive c) (af_path af)) \<le> MAX_ARCHIVE_SIZE"
  shows "fst (commit_entry io a off sz ekey c) = Ret ()"
proof -
  obtain r1 c1 where s1: "on_directory (add_entry (ci_index io) ekey a off sz) c = (r1, c1)" "container_inv c1"
    "dc_archive c1 = (dc_archive c)\<lparr>am_files := am_files (dc_archive c1)\<rparr>" "r1 = Ret ()"
    "data_files_kept (am_files (dc_archive c)) (am_files (dc_archive c1))"
    using add_entry_step [OF inv ekey a refl e] room by metis
  have small1: "small_index (dc_index c1)"
    using s1(1,4) add_entry_sections [OF container_invD(1) [OF inv] _ room small [unfolded small_index_def]] ekey
    by (auto simp: small_index_def on_directory_def split: option.splits prod.splits sum.splits)
  have path: "af_path af = segment_data_path (unat a)" using archives_invD [OF container_invD(2) [OF inv] af(1)] by metis
  have same: "am_archives (dc_archive c1) = am_archives (dc_archive c)" using arg_cong [OF s1(3), of am_archives] by simp
  have "map_of (am_archives (dc_archive c1)) a = Some af" "length (file_of (dc_archive c1) (af_path af)) \<le> MAX_ARCHIVE_SIZE"
    using af s1(5) unfolding same by (simp_all add: file_of_def path data_files_kept_def)
  then obtain m2 where s2: "update_reconstruction_header (ci_header io) ekey a off sz (dc_archive c1) = (Ret (), m2)"
    using header_succeeds [OF io(1) ekey] by blast
  note h = reconstruction_header_step [OF container_invD(2) [OF s1(2)] ekey s2]
  define c2 where "c2 = c1\<lparr>dc_archive := m2\<rparr>"
  have inv2: "container_inv c2"
    by (rule container_step(1) [OF s1(2), of c2]; use h container_invD [OF s1(2)] in \<open>simp add: c2_def\<close>)
  obtain c3 where s3: "touch_lru ekey c2 = Some c3" "dc_index c3 = dc_index c2" "dc_archive c3 = dc_archive c2"
    "\<And>lru. dc_lru c3 = Some lru \<Longrightarrow> \<exists>ks n. represents lru ks n"
    using touch_lru_total [OF inv2 ekey] by metis
  have inv3: "container_inv c3"
    by (rule container_step(1) [OF inv2, of c3]; use s3 container_invD [OF inv2] in \<open>simp add: later_same\<close>)
  have "can_save_all (ci_save io) (indices (dc_index c3))"
    using small1 io(2) s3(2) by (simp add: c2_def can_save_all_def small_index_def all_sections_def)
  then have "fst (dc_save_all (ci_save io) c3) = Ret ()" using save_step [OF inv3, of "ci_save io"] by (metis fst_conv)
  then show ?thesis using s1(1,4) s2 s3(1) by (simp add: commit_entry_def c2_def)
qed

lemma write_succeeds:
  assumes inv: "container_inv c" and md5: "\<And>x. length (md5 x) = 16" and mode: "can_write (dc_access_mode c)"
    and blte: "compress_blte_with_mode cs data ModeNone = Ret blte" "SEGMENT_HEADER_SIZE + LOCAL_HEADER_SIZE + length blte \<le> MAX_ARCHIVE_SIZE"
    and io: "good_io (ci_archive io)" "good_io (ci_header io)" "\<And>b. can_save (ci_save io b)" and fit: "files_fit (dc_archive c)"
    and ids: "length (am_write_positions (dc_archive c)) < 1024"
      "map_of (am_archives (dc_archive c)) (word_of_nat (length (am_write_positions (dc_archive c)))) = None"
    and room: "room (dc_index c) (md5 blte)" and small: "small_index (dc_index c)"
  shows "fst (dc_write io cs md5 key data c) = Ret ()"
proof -
  note arch = container_invD(2) [OF inv]
  obtain a off sz m1 where we: "write_entry (ci_archive io) md5 (md5 blte) blte (dc_archive c) = (Ret (a, off, sz), m1)"
    using write_entry_succeeds [of "dc_archive c" md5 "md5 blte", OF arch md5 md5 io(1) fit blte(2)] ids by auto
  have w: "write_content (ci_archive io) cs md5 data False (dc_archive c) = (Ret (a, off, sz, md5 blte), m1)"
    using we blte(1) by (simp add: write_content_def write_content_with_mode_def)
  note st = write_content_step [OF inv md5 ids(1) blte(1) w]
  note st4 = st(4) [OF refl]
  obtain af where "map_of (am_archives m1) a = Some af" "length (file_of m1 (af_path af)) \<le> MAX_ARCHIVE_SIZE"
    using write_entry_mapped [OF arch md5 we] by blast
  then have "fst (commit_entry io a off sz (md5 blte) (c\<lparr>dc_archive := m1\<rparr>)) = Ret ()"
    using commit_succeeds [of "c\<lparr>dc_archive := m1\<rparr>" "md5 blte" a off sz io af] st(1) md5 st4 io(2,3) room small by simp
  then show ?thesis using mode w by (simp add: dc_write_def)
qed

section \<open>The container as a map\<close>

lemma stored_blte:
  obtains blte where "compress_blte_with_mode cs data ModeNone = Ret blte"
  using compress_decode [of cs data ModeNone] by (auto simp: storable_data_def)

lemma write_effect:
  assumes inv: "container_inv c" and md5: "\<And>x. length (md5 x) = 16" and ids: "length (am_write_positions (dc_archive c)) < 1024"
    and w: "dc_write io cs md5 key data c = (r, c')"
  shows "container_inv c' \<and> r \<noteq> Panic
    \<and> (\<exists>blte b. compress_blte_with_mode cs data ModeNone = Ret blte \<and> (r = Ret () \<longrightarrow> b)
         \<and> stored cs c' = (if b then (stored cs c)(take 9 (md5 blte) \<mapsto> Ret data) else stored cs c)
         \<and> (can_write (dc_access_mode c) \<and> good_io (ci_archive io) \<and> good_io (ci_header io) \<and> (\<forall>b. can_save (ci_save io b))
              \<and> files_fit (dc_archive c) \<and> 510 + length blte \<le> 2 ^ 30 \<and> room (dc_index c) (md5 blte) \<and> small_index (dc_index c)
              \<and> map_of (am_archives (dc_archive c)) (word_of_nat (length (am_write_positions (dc_archive c)))) = None
            \<longrightarrow> r = Ret ()))
    \<and> (\<not> can_write (dc_access_mode c) \<longrightarrow> r = Fail AccessDenied \<and> c' = c)
    \<and> (r = Ret () \<longrightarrow> index_saved (dc_index c') (am_files (dc_archive c')))"
proof (cases "can_write (dc_access_mode c)")
  case False
  then show ?thesis using w inv stored_blte [of cs data] by (auto simp: dc_write_def)
next
  case True
  obtain blte where blte: "compress_blte_with_mode cs data ModeNone = Ret blte" by (rule stored_blte)
  obtain r1 m1 where w1: "write_content (ci_archive io) cs md5 data False (dc_archive c) = (r1, m1)" by fastforce
  note st = write_content_step [OF inv md5 ids blte w1]
  define c1 where "c1 = c\<lparr>dc_archive := m1\<rparr>"
  have succ: "r = Ret ()" if "good_io (ci_archive io)" "good_io (ci_header io)" "\<forall>b. can_save (ci_save io b)"
      "files_fit (dc_archive c)" "510 + length blte \<le> 2 ^ 30" "room (dc_index c) (md5 blte)" "small_index (dc_index c)"
      "map_of (am_archives (dc_archive c)) (word_of_nat (length (am_write_positions (dc_archive c)))) = None"
    using write_succeeds [of c md5 cs data blte io, OF inv md5 True blte _ that(1,2) _ that(4) ids that(8,6,7), of key] that(3,5) w
    by (simp add: SEGMENT_HEADER_SIZE_def LOCAL_HEADER_SIZE_def MAX_ARCHIVE_SIZE_def SEGMENT_SIZE_def)
  have effect: "container_inv c' \<and> r \<noteq> Panic \<and> (r = Ret () \<longrightarrow> index_saved (dc_index c') (am_files (dc_archive c')))
      \<and> (\<exists>b. (r = Ret () \<longrightarrow> b) \<and> stored cs c' = (if b then (stored cs c)(take 9 (md5 blte) \<mapsto> Ret data) else stored cs c))"
  proof (cases r1)
    case (Ret x)
    obtain a off sz ekey where x: "x = (a, off, sz, ekey)" using prod_cases4 by blast
    have e: "ekey = md5 blte" "a < 1024" "off < 0x40000000" "located (dc_archive c1) (index_entry_new (take 9 ekey) a off sz)"
      "read_entry cs (dc_archive c1) (index_entry_new (take 9 ekey) a off sz) = Ret data"
      using st(4) [OF Ret [unfolded x]] by (auto simp: c1_def)
    have commit: "commit_entry io a off sz ekey c1 = (r, c')" using w True w1 Ret x by (simp add: dc_write_def c1_def)
    have len: "length ekey = 16" using e(1) md5 by simp
    show ?thesis
      using commit_effect [OF st(1) [folded c1_def] len e(2,3) refl e(4) commit, where cs = cs]
      by (simp only: e(5) st(2) [folded c1_def] e(1) [symmetric]) blast
  next
    case (Fail e)
    then have "(r, c') = (Fail (ArchiveError e), c1)" using w True w1 by (simp add: dc_write_def c1_def)
    then show ?thesis using st(1,2) by (auto simp: c1_def intro: exI [of _ False])
  qed (use st(3) in simp)
  then obtain b where b: "r = Ret () \<longrightarrow> b" "stored cs c' = (if b then (stored cs c)(take 9 (md5 blte) \<mapsto> Ret data) else stored cs c)"
    by blast
  show ?thesis
  proof (intro conjI)
    show "\<exists>blte b. compress_blte_with_mode cs data ModeNone = Ret blte \<and> (r = Ret () \<longrightarrow> b)
         \<and> stored cs c' = (if b then (stored cs c)(take 9 (md5 blte) \<mapsto> Ret data) else stored cs c)
         \<and> (can_write (dc_access_mode c) \<and> good_io (ci_archive io) \<and> good_io (ci_header io) \<and> (\<forall>b. can_save (ci_save io b))
              \<and> files_fit (dc_archive c) \<and> 510 + length blte \<le> 2 ^ 30 \<and> room (dc_index c) (md5 blte) \<and> small_index (dc_index c)
              \<and> map_of (am_archives (dc_archive c)) (word_of_nat (length (am_write_positions (dc_archive c)))) = None
            \<longrightarrow> r = Ret ())"
      by (intro exI conjI, rule blte, rule b(1), rule b(2), intro impI, elim conjE, rule succ)
  qed (use effect True in auto)
qed

text \<open>
  C1. A write to a dynamic container never panics, keeps the invariant of the container (index,
  archives, every indexed entry inside the committed bytes of its archive, LRU list), and, whichever
  file operations fail at whichever point, changes the stored contents in one of two ways: not at all,
  or by exactly the given data under the first nine bytes of the MD5 of its BLTE encoding. A write that
  is acknowledged has stored the data and saved the index; one without access is refused; and a write
  is acknowledged when the files can be written, the data fits into an archive, the next archive number
  is free and the update section of the bucket has room. The key that is passed in plays no part.
\<close>

theorem container_write:
  assumes inv: "container_inv c" and md5: "\<And>x. length (md5 x) = 16" and ids: "length (am_write_positions (dc_archive c)) < 1024"
    and w: "dc_write io cs md5 key data c = (r, c')"
  shows "container_inv c' \<and> r \<noteq> Panic
    \<and> (\<exists>blte b. compress_blte_with_mode cs data ModeNone = Ret blte \<and> (r = Ret () \<longrightarrow> b)
         \<and> stored cs c' = (if b then (stored cs c)(take 9 (md5 blte) \<mapsto> Ret data) else stored cs c)
         \<and> (can_write (dc_access_mode c) \<and> good_io (ci_archive io) \<and> good_io (ci_header io) \<and> (\<forall>b. can_save (ci_save io b))
              \<and> files_fit (dc_archive c) \<and> 510 + length blte \<le> 2 ^ 30 \<and> room (dc_index c) (md5 blte) \<and> small_index (dc_index c)
              \<and> map_of (am_archives (dc_archive c)) (word_of_nat (length (am_write_positions (dc_archive c)))) = None
            \<longrightarrow> r = Ret ()))
    \<and> (\<not> can_write (dc_access_mode c) \<longrightarrow> r = Fail AccessDenied \<and> c' = c)
    \<and> (r = Ret () \<longrightarrow> index_saved (dc_index c') (am_files (dc_archive c')))"
  using write_effect [OF assms] .

definition one_md5 :: "byte list \<Rightarrow> byte list" where
  "one_md5 data = replicate 16 1"

definition example_container_io :: container_io where
  "example_container_io =
     \<lparr>ci_archive = all_ok, ci_index = example_save_io, ci_header = all_ok, ci_save = \<lambda>_. example_save_io\<rparr>"

definition example_container :: dynamic_container where
  "example_container = (case dynamic_container_new ReadWrite [1] False 100 SEGMENT_SIZE False [] of Ret c \<Rightarrow> c)"

lemma example_container_fields:
  "dc_index example_container = manager_new" "dc_archive example_container = archive_manager_new [1] []"
  "dc_access_mode example_container = ReadWrite" "dc_lru example_container = None" "can_write (dc_access_mode example_container)"
  by (simp_all add: example_container_def dynamic_container_new_def new_from_builder_def container_builder_new_def can_write_def Let_def)

lemma example_container_inv: "container_inv example_container"
proof -
  have "lookup manager_new k = None" for k by (simp add: lookup_def manager_new_def)
  moreover have "manager_inv manager_new" by (simp add: manager_inv_def manager_new_def bt_wf_def)
  ultimately show ?thesis by (simp add: container_inv_def example_container_fields)
qed

lemma example_blte:
  obtains blte where "compress_blte_with_mode storing_codecs [1, 2, 3] ModeNone = Ret blte" "510 + length blte \<le> 2 ^ 30"
  by (simp add: compress_blte_with_mode_def file_single_chunk_def chunk_new_def blte_bytes_def write_header_def
      header_single_chunk_def write_chunk_def BLTE_MAGIC_def)

lemma example_write_facts:
  "good_io (ci_archive example_container_io)" "good_io (ci_header example_container_io)" "can_save (ci_save example_container_io b)"
  "files_fit (dc_archive example_container)" "room (dc_index example_container) ekey" "small_index (dc_index example_container)"
  "length (am_write_positions (dc_archive example_container)) < 1024" "map_of (am_archives (dc_archive example_container)) a = None"
  by (simp_all add: example_container_io_def example_container_fields can_save_def example_save_io_def room_def manager_new_def small_index_def
      all_sections_def)

theorem container_write_witness:
  "\<exists>c'. dc_write example_container_io storing_codecs one_md5 (replicate 16 9) [1, 2, 3] example_container = (Ret (), c')
     \<and> stored storing_codecs c' (replicate 9 1) = Some (Ret [1, 2, 3])"
proof -
  obtain r c' where w: "dc_write example_container_io storing_codecs one_md5 (replicate 16 9) [1, 2, 3] example_container = (r, c')" by fastforce
  have md5: "\<And>x. length (one_md5 x) = 16" by (simp add: one_md5_def)
  obtain blte b where eff: "compress_blte_with_mode storing_codecs [1, 2, 3] ModeNone = Ret blte" "r = Ret () \<longrightarrow> b"
    "stored storing_codecs c' = (if b then (stored storing_codecs example_container)(take 9 (one_md5 blte) \<mapsto> Ret [1, 2, 3])
       else stored storing_codecs example_container)"
    "510 + length blte \<le> 2 ^ 30 \<longrightarrow> r = Ret ()"
    using container_write [OF example_container_inv md5 example_write_facts(7) w] example_write_facts example_container_fields(5) by blast
  obtain blte' where "compress_blte_with_mode storing_codecs [1, 2, 3] ModeNone = Ret blte'" "510 + length blte' \<le> 2 ^ 30" by (rule example_blte)
  then have "r = Ret ()" using eff(1,4) by simp
  then show ?thesis using w eff(2,3) by (simp add: one_md5_def)
qed

lemma on_directory_mode: "on_directory f c = (r, c') \<Longrightarrow> dc_access_mode c' = dc_access_mode c"
  by (auto simp: on_directory_def split: option.splits prod.splits)

lemma touch_lru_mode: "touch_lru key c = Some c' \<Longrightarrow> dc_access_mode c' = dc_access_mode c"
  by (auto simp: touch_lru_def split: option.splits)

lemma commit_entry_mode: "commit_entry io a off sz ekey c = (r, c') \<Longrightarrow> dc_access_mode c' = dc_access_mode c"
  by (auto simp: commit_entry_def dc_save_all_def split: prod.splits outcome.splits option.splits dest!: on_directory_mode touch_lru_mode)

lemma dc_write_mode: "dc_write io cs md5 key data c = (r, c') \<Longrightarrow> dc_access_mode c' = dc_access_mode c"
  by (auto simp: dc_write_def split: prod.splits outcome.splits if_splits dest!: commit_entry_mode)

lemma example_written:
  obtains c' where "dc_write example_container_io storing_codecs one_md5 (replicate 16 9) [1, 2, 3] example_container = (Ret (), c')"
    "container_inv c'" "stored storing_codecs c' (replicate 9 1) = Some (Ret [1, 2, 3])" "dc_access_mode c' = ReadWrite"
proof -
  obtain r c' where w: "dc_write example_container_io storing_codecs one_md5 (replicate 16 9) [1, 2, 3] example_container = (r, c')" by fastforce
  have md5: "\<And>x. length (one_md5 x) = 16" by (simp add: one_md5_def)
  obtain blte' where b': "compress_blte_with_mode storing_codecs [1, 2, 3] ModeNone = Ret blte'" "510 + length blte' \<le> 2 ^ 30" by (rule example_blte)
  obtain blte b where eff: "compress_blte_with_mode storing_codecs [1, 2, 3] ModeNone = Ret blte" "r = Ret () \<longrightarrow> b"
    "stored storing_codecs c' = (if b then (stored storing_codecs example_container)(take 9 (one_md5 blte) \<mapsto> Ret [1, 2, 3])
       else stored storing_codecs example_container)"
    "510 + length blte \<le> 2 ^ 30 \<longrightarrow> r = Ret ()" "container_inv c'"
    using write_effect [OF example_container_inv md5 example_write_facts(7) w] example_write_facts example_container_fields(5) by blast
  have r: "r = Ret ()" using eff(1,4) b' by simp
  then show thesis
    using that [of c'] w eff(2,3,5) dc_write_mode [OF w] by (simp add: one_md5_def example_container_fields)
qed

lemma decode_not_bounds: "decode_entry cs d \<noteq> Fail ArBounds"
  by (auto simp: decode_entry_def decompress_blte_with_formats_def split: outcome.splits if_splits)

lemma copy_to_buf_eq: "copy_to_buf d buf = (min (length d) (length buf), take (length buf) d @ drop (length d) buf)"
  by (auto simp: copy_to_buf_def put_slice_def Let_def min_def)

lemma read_step:
  assumes inv: "container_inv c" and key: "length key = 16" and r: "dc_read cs key buf c = (r, buf', c')"
  shows "container_inv c' \<and> stored cs c' = stored cs c
    \<and> (if \<not> can_read (dc_access_mode c) then r = Fail AccessDenied \<and> buf' = buf
       else case stored cs c (take 9 key) of
              None \<Rightarrow> r = Fail NotFound \<and> buf' = buf
            | Some (Ret d) \<Rightarrow> r = Ret (min (length d) (length buf)) \<and> buf' = take (length buf) d @ drop (length d) buf
            | Some (Fail e) \<Rightarrow> r = Fail (ArchiveError e) \<and> buf' = buf
            | Some Panic \<Rightarrow> r = Panic)"
proof (cases "can_read (dc_access_mode c)")
  case False
  then show ?thesis using r inv by (simp add: dc_read_def)
next
  case True
  have look: "lookup (dc_index c) key = lookup (dc_index c) (take 9 key)" using lookup_take [of key "dc_index c"] key by simp
  have nine: "length (take 9 key) = 9" using key by simp
  show ?thesis
  proof (cases "lookup (dc_index c) (take 9 key)")
    case None
    then show ?thesis using r True inv look nine by (simp add: dc_read_def stored_def)
  next
    case (Some e)
    have st: "stored cs c (take 9 key) = Some (read_entry cs (dc_archive c) e)" using Some nine by (simp add: stored_def)
    obtain c1 where c1: "touch_lru key c = Some c1" "dc_index c1 = dc_index c" "dc_archive c1 = dc_archive c"
      "\<And>lru. dc_lru c1 = Some lru \<Longrightarrow> \<exists>ks n. represents lru ks n"
      using touch_lru_total [OF inv key] by metis
    have inv1: "container_inv c1" and st1: "stored cs c1 k = stored cs c k" for k
      by (rule container_step [OF inv, of c1]; use c1 container_invD [OF inv] in \<open>simp add: later_same\<close>)+
    have "read_entry cs (dc_archive c) e \<noteq> Fail ArBounds"
      using read_located [OF container_invD(2) [OF inv] container_invD(3) [OF inv nine Some]] decode_not_bounds by metis
    then have eq: "dc_read cs key buf c = (case read_entry cs (dc_archive c) e of
        Ret d \<Rightarrow> (Ret (min (length d) (length buf)), take (length buf) d @ drop (length d) buf, c1)
      | Fail x \<Rightarrow> (Fail (ArchiveError x), buf, c) | Panic \<Rightarrow> (Panic, buf, c))"
      using True look Some c1(1) by (auto simp: dc_read_def read_entry_def Let_def copy_to_buf_eq split: outcome.splits)
    show ?thesis
      using r inv inv1 st1 True unfolding st eq by (auto split: outcome.splits)
  qed
qed

lemma remove_step:
  assumes inv: "container_inv c" and key: "length key = 16" and mode: "can_write (dc_access_mode c)"
    and r: "dc_remove io key c = (r, c')"
  shows "container_inv c' \<and> r \<noteq> Panic
    \<and> stored cs c' = (if room (dc_index c) key then (stored cs c)(take 9 key := None) else stored cs c)"
proof -
  obtain m found where rm: "remove_entry (dc_index c) key = (m, found)" by fastforce
  have minv: "manager_inv m" and look: "lookup m k = (if room (dc_index c) key \<and> k = take 9 key then None else lookup (dc_index c) k)"
    if "length k = 9" for k
    using remove_entry_effect [OF container_invD(1) [OF inv] _ _ rm, of k] key that by auto
  define c1 where "c1 = c\<lparr>dc_index := m\<rparr>"
  have nine: "length (replicate 9 (0 :: byte)) = 9" by simp
  have inv1: "container_inv c1"
    by (rule container_step(1) [OF inv, of c1]; use minv [OF nine] look container_invD [OF inv] in \<open>auto simp: c1_def later_same split: if_splits\<close>)
  have st1: "stored cs c1 = (if room (dc_index c) key then (stored cs c)(take 9 key := None) else stored cs c)"
    using look key by (auto simp: stored_def c1_def fun_eq_iff)
  have "dc_remove io key c = (if found then dc_save_all io c1 else (Ret (), c1))"
    using mode rm by (simp add: dc_remove_def c1_def)
  then show ?thesis
    using r inv1 st1 save_step [OF inv1, of io cs] by (metis outcome.distinct(3) prod.inject)
qed

text \<open>
  C13. Reading, querying and removing on a dynamic container that satisfies the invariant: a read gives
  the stored contents cut at the length of the buffer, an absent key is not found, and no read is ever
  taken for a truncated one; a query tells whether the key is stored; a removal never panics and deletes
  exactly its key, except that it changes nothing when the update section of the bucket is full. Reads
  and queries leave the stored contents as they are, and every operation keeps the invariant.
\<close>

theorem container_read_remove:
  assumes "container_inv c" "length key = 16"
  shows "(case dc_read cs key buf c of (r, buf', c') \<Rightarrow>
      container_inv c' \<and> stored cs c' = stored cs c
      \<and> (if \<not> can_read (dc_access_mode c) then r = Fail AccessDenied \<and> buf' = buf
         else case stored cs c (take 9 key) of
                None \<Rightarrow> r = Fail NotFound \<and> buf' = buf
              | Some (Ret d) \<Rightarrow> r = Ret (min (length d) (length buf)) \<and> buf' = take (length buf) d @ drop (length d) buf
              | Some (Fail e) \<Rightarrow> r = Fail (ArchiveError e) \<and> buf' = buf
              | Some Panic \<Rightarrow> r = Panic))
    \<and> dc_query c key = Ret (stored cs c (take 9 key) \<noteq> None)
    \<and> (case dc_remove io key c of (r, c') \<Rightarrow>
         container_inv c' \<and> r \<noteq> Panic
         \<and> (if can_write (dc_access_mode c)
            then stored cs c' = (if room (dc_index c) key then (stored cs c)(take 9 key := None) else stored cs c)
            else r = Fail AccessDenied \<and> c' = c))"
proof (intro conjI)
  show "dc_query c key = Ret (stored cs c (take 9 key) \<noteq> None)"
    using lookup_take [of key "dc_index c"] assms(2) by (auto simp: dc_query_def has_entry_def stored_def)
  show "case dc_remove io key c of (r, c') \<Rightarrow>
         container_inv c' \<and> r \<noteq> Panic
         \<and> (if can_write (dc_access_mode c)
            then stored cs c' = (if room (dc_index c) key then (stored cs c)(take 9 key := None) else stored cs c)
            else r = Fail AccessDenied \<and> c' = c)"
    using remove_step [OF assms, of io] assms(1) by (cases "can_write (dc_access_mode c)") (auto simp: dc_remove_def)
qed (use read_step [OF assms] in auto)

theorem container_read_remove_witness:
  "\<exists>c' c''. dc_write example_container_io storing_codecs one_md5 (replicate 16 9) [1, 2, 3] example_container = (Ret (), c')
     \<and> dc_read storing_codecs (replicate 16 1) [0, 0] c' = (Ret 2, [1, 2], c'')"
proof -
  obtain c' where w: "dc_write example_container_io storing_codecs one_md5 (replicate 16 9) [1, 2, 3] example_container = (Ret (), c')"
    "container_inv c'" "stored storing_codecs c' (replicate 9 1) = Some (Ret [1, 2, 3])" "dc_access_mode c' = ReadWrite"
    by (rule example_written)
  obtain r buf c'' where r: "dc_read storing_codecs (replicate 16 1) [0, 0] c' = (r, buf, c'')" using prod_cases3 by blast
  then have "r = Ret 2 \<and> buf = [1, 2]"
    using container_read_remove [OF w(2), of "replicate 16 1" storing_codecs "[0, 0]" undefined] w(3,4) by (simp add: can_read_def)
  then show ?thesis using w(1) r by auto
qed

end
