(* ===== verification/Container_Restart.thy ===== *)
theory Container_Restart
  imports Container_Props
begin

text \<open>
  Restarting a dynamic container: the names a container gives its files stay within the names the
  loaders understand, the loaders rebuild the index and the archives from the directory, and what an
  acknowledged write has left there is found again.
\<close>

section \<open>How the loaders read the names\<close>

lemma index_stem_hex: "c \<in> set (index_stem b v) \<Longrightarrow> hex_value c \<noteq> None"
proof -
  have "hex_value c \<noteq> None" if "c \<in> set (hex_lower bs)" for bs
    using that
  proof (induction bs)
    case (Cons x bs)
    have "unat x div 16 < 16" "unat x mod 16 < 16" using u8_bound [of x] by simp_all
    then show ?case using Cons hex_value_digit by (auto simp: hex_lower_def hex_byte_def)
  qed (simp add: hex_lower_def)
  then show "c \<in> set (index_stem b v) \<Longrightarrow> ?thesis" by (auto simp: index_stem_def)
qed

lemma dec03_digits: "list_all is_digit (dec03 n)" "dec03 n \<noteq> []"
proof -
  show "list_all is_digit (dec03 n)"
    using dec_digits [of n] by (auto simp: dec03_def is_digit_def list_all_iff Let_def)
  have "length (dec n) > 0" by (simp add: dec.simps [of n])
  then show "dec03 n \<noteq> []" by (auto simp: dec03_def)
qed

lemma hd_dec03: "is_digit (hd (dec03 n))"
  using dec03_digits [of n] by (cases "dec03 n") auto

lemma data_path_not_index:
  "parse_index_filename (segment_data_path (unat (a :: u16))) = Some None"
  "parse_v5_index_filename (segment_data_path n) = Some None"
proof -
  show "parse_index_filename (segment_data_path (unat a)) = Some None"
    using length_data_path [of a] by (simp add: parse_index_filename_def split: if_splits)
  obtain d ds where d: "dec03 n = d # ds" "is_digit d" using hd_dec03 [of n] dec03_digits(2) [of n] by (cases "dec03 n") auto
  have "d \<noteq> CHR ''i''" using d(2) by (auto simp: is_digit_def)
  then show "parse_v5_index_filename (segment_data_path n) = Some None"
    using d(1) by (simp add: parse_v5_index_filename_def segment_data_path_def)
qed

lemma tmp_not_loaded:
  "parse_index_filename (index_stem b v @ ''.tmp'') = Some None"
  "parse_v5_index_filename (index_stem b v @ ''.tmp'') = Some None"
proof -
  show "parse_index_filename (index_stem b v @ ''.tmp'') = Some None"
    by (simp add: parse_index_filename_def nth_append ascii_lower_def)
  have "index_stem b v ! 2 \<noteq> CHR ''t''"
    using index_stem_hex [of "index_stem b v ! 2" b v] by (auto simp: hex_value_def)
  then have "take 6 (index_stem b v @ ''.tmp'') ! 2 \<noteq> ''data.i'' ! 2" by (simp add: nth_append)
  then have "take 6 (index_stem b v @ ''.tmp'') \<noteq> ''data.i''" by metis
  then show "parse_v5_index_filename (index_stem b v @ ''.tmp'') = Some None"
    by (simp only: parse_v5_index_filename_def if_True not_False_eq_True simp_thms)
qed

lemma archive_ids:
  "n < 1000 \<Longrightarrow> archive_file_id (segment_data_path n) = Some (word_of_nat n)"
  "1000 \<le> unat a \<Longrightarrow> archive_file_id (segment_data_path (unat (a :: u16))) = None"
  "archive_file_id (index_stem b v @ ''.tmp'') = None" "archive_file_id (generate_index_filename b v) = None"
proof -
  show "archive_file_id (segment_data_path n) = Some (word_of_nat n)" if n: "n < 1000"
  proof -
    obtain d ds where d: "dec03 n = d # ds" "is_digit d" using hd_dec03 [of n] dec03_digits(2) [of n] by (cases "dec03 n") auto
    have "d \<noteq> CHR ''+''" "d \<noteq> CHR ''-''" using d(2) by (auto simp: is_digit_def)
    moreover have "length (dec03 n) = 3" using length_dec03 [of n] n by simp
    moreover have "dec_value (dec03 n) = n" by simp
    ultimately show ?thesis
      using d(1) dec03_digits(1) [of n] n by (simp add: archive_file_id_def segment_data_path_def parse_u16_def slice_def)
  qed
  show "archive_file_id (segment_data_path (unat a)) = None" if "1000 \<le> unat a"
    using length_data_path [of a] that by (simp add: archive_file_id_def)
qed (simp_all add: archive_file_id_def generate_index_filename_def)

section \<open>Opening a tidy directory\<close>

definition storage_names :: "byte set \<Rightarrow> os_name set" where
  "storage_names bs =
     range (\<lambda>a :: u16. Utf8 (segment_data_path (unat a))) \<union> (\<lambda>b. Utf8 (generate_index_filename b 1)) ` bs
     \<union> range (\<lambda>b. Utf8 (index_stem b 1 @ ''.tmp''))"

text \<open>A directory that holds data files, index files of the given buckets and temporary files, each once.\<close>

definition tidy :: "byte set \<Rightarrow> directory \<Rightarrow> bool" where
  "tidy bs dir \<longleftrightarrow> distinct (map fst dir) \<and> fst ` set dir \<subseteq> storage_names bs"

lemma storage_name_cases:
  assumes "name \<in> storage_names bs"
  obtains (data) a :: u16 where "name = Utf8 (segment_data_path (unat a))"
  | (index) b where "name = Utf8 (generate_index_filename b 1)" "b \<in> bs"
  | (tmp) b where "name = Utf8 (index_stem b 1 @ ''.tmp'')"
  using assms by (auto simp: storage_names_def)

definition opened :: "archive_manager \<Rightarrow> u16 \<Rightarrow> archive_file" where
  "opened m a = \<lparr>af_path = segment_data_path (unat a), af_size = length (file_of m (segment_data_path (unat a))), af_detached = None\<rparr>"

lemma open_files_facts:
  assumes "set ns \<subseteq> storage_names bs" "set ns \<subseteq> dom (map_of (am_files m))" "\<forall>s. stat_ok s \<and> ok s"
  shows "\<exists>m'. open_files stat_ok ok ns m = (Ret (), m') \<and> am_files m' = am_files m
    \<and> (\<forall>a. map_of (am_archives m') a = (if unat a < 1000 \<and> Utf8 (segment_data_path (unat a)) \<in> set ns then Some (opened m a)
                                           else map_of (am_archives m) a))"
  using assms(1,2)
proof (induction ns arbitrary: m)
  case (Cons n ns)
  have IH: "\<exists>m'. open_files stat_ok ok ns m1 = (Ret (), m') \<and> am_files m' = am_files m1
    \<and> (\<forall>a. map_of (am_archives m') a = (if unat a < 1000 \<and> Utf8 (segment_data_path (unat a)) \<in> set ns then Some (opened m1 a)
                                           else map_of (am_archives m1) a))" if "am_files m1 = am_files m" for m1
    using Cons.IH [of m1] Cons.prems that by auto
  have skip: "?case" if s: "n = Utf8 s" "archive_file_id s = None" "\<And>a :: u16. unat a < 1000 \<Longrightarrow> s \<noteq> segment_data_path (unat a)" for s
  proof -
    have "unat a < 1000 \<and> Utf8 (segment_data_path (unat a)) \<in> set (n # ns) \<longleftrightarrow> unat a < 1000 \<and> Utf8 (segment_data_path (unat a)) \<in> set ns"
      for a :: u16 using s(1,3) by auto
    then show ?thesis using IH [of m] s(1,2) by simp
  qed
  have "n \<in> storage_names bs" using Cons.prems by simp
  then show ?case
  proof (cases rule: storage_name_cases)
    case (data k)
    show ?thesis
    proof (cases "unat k < 1000")
      case False
      show ?thesis by (rule skip [OF data archive_ids(2)]) (use False in \<open>auto simp: path_inj\<close>)
    next
      case True
      obtain d where d: "map_of (am_files m) (Utf8 (segment_data_path (unat k))) = Some d" using Cons.prems data by auto
      define m1 where "m1 = snd (open_archive True k (segment_data_path (unat k)) m)"
      have m1: "open_archive True k (segment_data_path (unat k)) m = (Ret (), m1)" "am_files m1 = am_files m"
        "map_of (am_archives m1) = (map_of (am_archives m))(k \<mapsto> opened m k)"
        using d by (simp_all add: m1_def open_archive_def opened_def file_of_def update_conv')
      have "opened m1 a = opened m a" for a using m1(2) by (simp add: opened_def file_of_def)
      moreover have "archive_file_id (segment_data_path (unat k)) = Some k" using archive_ids(1) [OF True] by simp
      moreover have "stat_ok (segment_data_path (unat k))" "ok (segment_data_path (unat k))" using assms(3) by blast+
      moreover obtain m' where "open_files stat_ok ok ns m1 = (Ret (), m')" "am_files m' = am_files m1"
        "\<And>a. map_of (am_archives m') a = (if unat a < 1000 \<and> Utf8 (segment_data_path (unat a)) \<in> set ns then Some (opened m1 a)
                                           else map_of (am_archives m1) a)"
        using IH [OF m1(2)] by blast
      ultimately show ?thesis
        using m1 data True by (intro exI [of _ m']) (auto simp: path_inj)
    qed
  next
    case (index b)
    show ?thesis by (rule skip [OF index(1) archive_ids(4)]) (use index_names_not_data(2) in metis)
  next
    case (tmp b)
    show ?thesis by (rule skip [OF tmp archive_ids(3)]) (use index_names_not_data(1) in metis)
  qed
qed simp

definition loadable :: "index_manager \<Rightarrow> directory \<Rightarrow> bool" where
  "loadable m0 dir \<longleftrightarrow> (\<forall>b data. (Utf8 (generate_index_filename b 1), data) \<in> set dir \<longrightarrow>
     (\<exists>index. map_of (indices m0) b = Some index \<and> save_image b index = Some (Inr data)
        \<and> list_all (\<lambda>e. ie_key e \<noteq> replicate 9 0) (if_entries index)))"

lemma load_saved:
  assumes inv: "manager_inv m" and fi: "file_inv b index" and keys: "list_all (\<lambda>e. ie_key e \<noteq> replicate 9 0) (if_entries index)"
    and saved: "save_image b index = Some (Inr data)"
  obtains m' where "load_index b (Some data) m = Some (Inr (), m')" "manager_inv m'"
    "\<And>key. lookup m' key = (if get_bucket_index key = b then search_both_sections index (truncate_key key) else lookup m key)"
proof -
  obtain index' where i: "decode_index data = Some (Inr index')" "file_inv b index'" "if_entries index' = if_entries index"
    "pages (if_updates index') = pages (if_updates index)"
    using decode_saved [OF fi keys saved] by blast
  show thesis
  proof (rule that [of "set_bucket b index' m"])
    show "load_index b (Some data) m = Some (Inr (), set_bucket b index' m)"
      using i(1) by (simp add: load_index_def load_file_def set_bucket_def)
    show "manager_inv (set_bucket b index' m)" by (rule set_bucket_inv [OF inv i(2)])
    show "lookup (set_bucket b index' m) key = (if get_bucket_index key = b then search_both_sections index (truncate_key key) else lookup m key)" for key
      using search_both_cong [OF i(3,4)] by (simp add: lookup_set_bucket inv)
  qed
qed

lemma load_entries_facts:
  assumes "fst ` set dir \<subseteq> storage_names bs" "loadable m0 dir" "manager_inv m0" "manager_inv m" and ok: "\<forall>s. ok s"
  shows "\<exists>m'. load_entries ok dir m = Some (Inr (), m') \<and> manager_inv m'
    \<and> (\<forall>key. lookup m' key = (if Utf8 (generate_index_filename (get_bucket_index key) 1) \<in> fst ` set dir
                               then lookup m0 key else lookup m key))"
  using assms(1,2,4)
proof (induction dir arbitrary: m)
  case (Cons p dir)
  obtain name data where p: "p = (name, data)" by fastforce
  have "loadable m0 dir" using Cons.prems(2) by (auto simp: loadable_def)
  then have IH: "\<exists>m'. load_entries ok dir m1 = Some (Inr (), m') \<and> manager_inv m'
    \<and> (\<forall>key. lookup m' key = (if Utf8 (generate_index_filename (get_bucket_index key) 1) \<in> fst ` set dir
                               then lookup m0 key else lookup m1 key))" if "manager_inv m1" for m1
    using Cons.IH [of m1] Cons.prems(1) that by simp
  have skip: ?case if s: "name = Utf8 s" "parse_index_filename s = Some None" "parse_v5_index_filename s = Some None"
      "\<And>b. s \<noteq> generate_index_filename b 1" for s
  proof -
    have "Utf8 (generate_index_filename b 1) \<in> fst ` set (p # dir) \<longleftrightarrow> Utf8 (generate_index_filename b 1) \<in> fst ` set dir" for b
      using s(1) s(4) [of b] by (auto simp: p)
    then show ?thesis using IH [OF Cons.prems(3)] s(1-3) by (simp add: p)
  qed
  have "name \<in> storage_names bs" using Cons.prems(1) by (simp add: p)
  then show ?case
  proof (cases rule: storage_name_cases)
    case (data a)
    show ?thesis by (rule skip [OF data data_path_not_index]) (use index_names_not_data(2) in metis)
  next
    case (tmp b)
    show ?thesis by (rule skip [OF tmp tmp_not_loaded]) (use index_names_distinct(2) in metis)
  next
    case (index b)
    obtain f where f: "map_of (indices m0) b = Some f" "save_image b f = Some (Inr data)"
      "list_all (\<lambda>e. ie_key e \<noteq> replicate 9 0) (if_entries f)"
      using Cons.prems(2) index(1) by (auto simp: loadable_def p)
    obtain m1 where m1: "load_index b (Some data) m = Some (Inr (), m1)" "manager_inv m1"
      "\<And>key. lookup m1 key = (if get_bucket_index key = b then search_both_sections f (truncate_key key) else lookup m key)"
      using load_saved [OF Cons.prems(3) manager_inv_file [OF assms(3) f(1)] f(3,2)] by metis
    obtain m' where m': "load_entries ok dir m1 = Some (Inr (), m')" "manager_inv m'"
      "\<And>key. lookup m' key = (if Utf8 (generate_index_filename (get_bucket_index key) 1) \<in> fst ` set dir
                               then lookup m0 key else lookup m1 key)"
      using IH [OF m1(2)] by blast
    have "lookup m0 key = search_both_sections f (truncate_key key)" if "get_bucket_index key = b" for key
      using f(1) that by (simp add: lookup_def)
    moreover have "ok (generate_index_filename b 1)" using ok by blast
    ultimately show ?thesis
      using m' m1(1,3) index(1) index_filename_round_trip [of b 1] by (intro exI [of _ m']) (auto simp: p index_names_distinct)
  qed
qed simp

section \<open>Reopening\<close>

definition good_open :: "open_io \<Rightarrow> bool" where
  "good_open io \<longleftrightarrow> oi_mkdir_ok io \<and> oi_index_dir_ok io \<and> oi_archive_dir_ok io \<and> oi_segment_dir_ok io
     \<and> (\<forall>s. oi_index_ok io s \<and> oi_stat_ok io s \<and> oi_archive_ok io s \<and> oi_segment_ok io s)"

definition no_zero_keys :: "index_manager \<Rightarrow> bool" where
  "no_zero_keys = all_sections (list_all (\<lambda>e. ie_key e \<noteq> replicate 9 0))"

definition buckets :: "index_manager \<Rightarrow> byte set" where
  "buckets m = fst ` set (indices m)"

lemma load_segments_ok: "\<forall>p\<in>set files. snd p \<noteq> None \<Longrightarrow> fst (load_segments files segs) = Inr ()"
  by (induction files segs rule: load_segments.induct) (auto split: os_name.splits option.splits)

lemma load_existing_ok:
  assumes io: "good_open io"
  shows "fst (load_existing (segment_listing io dir) al) = Inr ()"
proof -
  define files where "files = map (\<lambda>(name, data). (name, case name of Utf8 s \<Rightarrow> if oi_segment_ok io s then Some data else None
                                                          | NonUtf8 _ \<Rightarrow> Some data)) dir"
  have "\<forall>p\<in>set files. snd p \<noteq> None" using io by (auto simp: files_def good_open_def split: os_name.splits)
  from load_segments_ok [OF this, of "sa_segments al"] show ?thesis
    using io by (auto simp: load_existing_def segment_listing_def good_open_def files_def [symmetric] split: prod.splits)
qed

lemma index_storage_name:
  assumes "Utf8 (generate_index_filename b 1) \<in> storage_names bs"
  shows "b \<in> bs"
  using assms
proof (cases rule: storage_name_cases)
  case (data a)
  then show ?thesis using index_names_not_data(2) [of a b 1] by simp
next
  case (tmp b')
  then show ?thesis using index_names_distinct(2) [of b 1 b' 1] by simp
qed (simp add: index_names_distinct(1))

lemma saved_loadable:
  assumes inv: "manager_inv m" and tidy: "tidy (buckets m) dir" and saved: "index_saved m dir" and keys: "no_zero_keys m"
  shows "loadable m dir"
  unfolding loadable_def
proof (intro allI impI)
  fix b data
  assume mem: "(Utf8 (generate_index_filename b 1), data) \<in> set dir"
  then have data: "map_of dir (Utf8 (generate_index_filename b 1)) = Some data" using tidy by (simp add: tidy_def)
  have "Utf8 (generate_index_filename b 1) \<in> storage_names (buckets m)" using mem tidy by (force simp: tidy_def)
  then have "b \<in> buckets m" by (rule index_storage_name)
  then obtain index where "(b, index) \<in> set (indices m)" by (auto simp: buckets_def)
  then have "map_of (indices m) b = Some index" "bucket_saved dir (b, index)" "list_all (\<lambda>e. ie_key e \<noteq> replicate 9 0) (if_entries index)"
    using inv saved keys by (auto simp: manager_inv_def bt_wf_def index_saved_def no_zero_keys_def all_sections_def list_all_iff strict_sorted_iff)
  then show "\<exists>index. map_of (indices m) b = Some index \<and> save_image b index = Some (Inr data)
        \<and> list_all (\<lambda>e. ie_key e \<noteq> replicate 9 0) (if_entries index)"
    using data by (auto simp: bucket_saved_def)
qed

lemma load_all_saved:
  assumes inv: "manager_inv m" and tidy: "tidy (buckets m) dir" and saved: "index_saved m dir" and keys: "no_zero_keys m" and ok: "\<forall>s. ok s"
  obtains m' where "load_all True ok dir manager_new = Some (Inr (), m')" "manager_inv m'" "lookup m' = lookup m"
proof -
  have new: "manager_inv manager_new" "\<And>key. lookup manager_new key = None"
    by (simp_all add: manager_inv_def manager_new_def bt_wf_def lookup_def)
  obtain m' where m': "load_entries ok dir manager_new = Some (Inr (), m')" "manager_inv m'"
    "\<And>key. lookup m' key = (if Utf8 (generate_index_filename (get_bucket_index key) 1) \<in> fst ` set dir then lookup m key else lookup manager_new key)"
    using load_entries_facts [OF _ saved_loadable [OF inv tidy saved keys] inv new(1) ok, of "buckets m"] tidy unfolding tidy_def by blast
  have "lookup m key = None" if "Utf8 (generate_index_filename (get_bucket_index key) 1) \<notin> fst ` set dir" for key
  proof -
    have "map_of (indices m) (get_bucket_index key) = None"
    proof (rule ccontr)
      assume "map_of (indices m) (get_bucket_index key) \<noteq> None"
      then obtain index where "(get_bucket_index key, index) \<in> set (indices m)" by (auto dest: map_of_SomeD)
      then have "bucket_saved dir (get_bucket_index key, index)" using saved by (auto simp: index_saved_def list_all_iff)
      then show False using that by (force simp: bucket_saved_def dest: map_of_SomeD)
    qed
    then show ?thesis by (simp add: lookup_def)
  qed
  then have "lookup m' = lookup m" using m'(3) new(2) by (auto simp: fun_eq_iff)
  then show thesis using that m'(1,2) by (simp add: load_all_def)
qed

lemma reopened_entry:
  assumes inv: "archives_inv m" and e: "located m e" "unat (archive_id (ie_location e)) < 1000"
    and m': "am_files m' = am_files m" "map_of (am_archives m') (archive_id (ie_location e)) = Some (opened m (archive_id (ie_location e)))"
  shows "read_entry cs m' e = read_entry cs m e"
proof -
  define a off sz where "a = archive_id (ie_location e)" and "off = archive_offset (ie_location e)" and "sz = ie_size e"
  have ne: "committed m a \<noteq> []" using e(1) by (auto simp: located_def a_def SEGMENT_HEADER_SIZE_def)
  then obtain af where af: "map_of (am_archives m) a = Some af" by (auto simp: committed_def split: option.splits)
  obtain fbytes p where f: "map_of (am_files m) (Utf8 (segment_data_path (unat a))) = Some fbytes" "committed m a = take p fbytes"
    using archives_invD [OF inv af] by metis
  have bound: "unat off + unat sz \<le> length (committed m a)" using e(1) by (simp add: located_def a_def off_def sz_def)
  have "mmap m' (opened m a) = fbytes" using f(1) m'(1) by (simp add: mmap_def opened_def file_of_def)
  then have "read_raw m' a off sz = Ret (slice (unat off) (unat off + unat sz) fbytes)"
    using m'(2) bound f(2) by (simp add: read_raw_def a_def)
  also have "\<dots> = read_raw m a off sz"
    using read_raw_committed [OF inv bound ne] bound f(2) by (simp add: slice_take)
  finally show ?thesis by (simp add: read_entry_def read_content_def a_def off_def sz_def)
qed

lemma reopen_stored:
  assumes inv: "container_inv c" and tidy: "tidy (buckets (dc_index c)) (am_files (dc_archive c))"
    and saved: "index_saved (dc_index c) (am_files (dc_archive c))" and keys: "no_zero_keys (dc_index c)"
    and ids: "\<forall>a\<in>dom (map_of (am_write_positions (dc_archive c))). unat a < 1000"
    and io: "good_open io" and new: "new_from_builder b (am_files (dc_archive c)) = Ret c0"
  shows "\<exists>c2. dc_open io c0 = (Ret (), c2) \<and> manager_inv (dc_index c2) \<and> stored cs c2 = stored cs c"
proof -
  define dir where "dir = am_files (dc_archive c)"
  have c0: "dc_index c0 = manager_new" "am_files (dc_archive c0) = dir" "am_archives (dc_archive c0) = []"
    using new by (auto simp: new_from_builder_def Let_def dir_def split: if_splits)
  obtain m' where m': "load_all True (oi_index_ok io) dir manager_new = Some (Inr (), m')" "manager_inv m'" "lookup m' = lookup (dc_index c)"
    using load_all_saved [OF container_invD(1) [OF inv] tidy saved keys, of "oi_index_ok io"] io unfolding dir_def good_open_def by blast
  obtain am where am: "open_files (oi_stat_ok io) (oi_archive_ok io) (map fst dir) (dc_archive c0) = (Ret (), am)" "am_files am = dir"
    "\<And>a. map_of (am_archives am) a = (if unat a < 1000 \<and> Utf8 (segment_data_path (unat a)) \<in> fst ` set dir then Some (opened (dc_archive c0) a) else None)"
    using open_files_facts [of "map fst dir" "buckets (dc_index c)" "dc_archive c0" "oi_stat_ok io" "oi_archive_ok io"] tidy io c0
    by (auto simp: tidy_def good_open_def dir_def dom_map_of_conv_image_fst)
  obtain al where al: "load_existing (segment_listing io dir) (dc_segment_allocator c0) = (Inr (), al)"
    using load_existing_ok [OF io] by (metis prod.collapse)
  define c2 where "c2 = c0\<lparr>dc_index := m', dc_archive := am, dc_segment_allocator := al\<rparr>"
  have op: "dc_open io c0 = (Ret (), c2)"
    using m'(1) am(1) al io c0(1,2) by (simp add: dc_open_def open_all_def good_open_def c2_def)
  have "read_entry cs am e = read_entry cs (dc_archive c) e" if k: "length k = 9" "lookup (dc_index c) k = Some e" for k e
  proof (rule reopened_entry [OF container_invD(2) [OF inv]])
    let ?a = "archive_id (ie_location e)"
    show e: "located (dc_archive c) e" by (rule container_invD(3) [OF inv k])
    then have "committed (dc_archive c) ?a \<noteq> []" by (auto simp: located_def SEGMENT_HEADER_SIZE_def)
    then obtain af where af: "map_of (am_archives (dc_archive c)) ?a = Some af" by (auto simp: committed_def split: option.splits)
    then show a: "unat ?a < 1000" using archives_inv_position [OF container_invD(2) [OF inv], of ?a] ids by auto
    obtain fbytes where "map_of dir (Utf8 (segment_data_path (unat ?a))) = Some fbytes"
      using archives_invD [OF container_invD(2) [OF inv] af] unfolding dir_def by metis
    then have "Utf8 (segment_data_path (unat ?a)) \<in> fst ` set dir" by (force dest: map_of_SomeD)
    then show "map_of (am_archives am) ?a = Some (opened (dc_archive c) ?a)"
      using am(3) [of ?a] a c0(2) by (simp add: opened_def file_of_def dir_def)
  qed (simp add: am(2) dir_def)
  then have "stored cs c2 = stored cs c"
    using m'(3) by (auto simp: stored_def c2_def fun_eq_iff option.map_comp intro!: option.map_cong0 split: option.splits)
  then show ?thesis using op m'(2) by (simp add: c2_def)
qed

section \<open>A container keeps its directory tidy\<close>

lemma storage_names_mono: "bs \<subseteq> bs' \<Longrightarrow> storage_names bs \<subseteq> storage_names bs'"
  by (auto simp: storage_names_def)

lemma tidy_mono: "tidy bs dir \<Longrightarrow> bs \<subseteq> bs' \<Longrightarrow> tidy bs' dir"
  unfolding tidy_def using storage_names_mono by blast

lemma tidy_update: "tidy bs dir \<Longrightarrow> name \<in> storage_names bs \<Longrightarrow> tidy bs (AList.update name d dir)"
  by (simp add: tidy_def dom_update distinct_update)

lemma tidy_delete: "tidy bs dir \<Longrightarrow> tidy bs (AList.delete name dir)"
  using dom_delete_subset [of name dir] by (auto simp: tidy_def distinct_delete)

lemma storage_name_intros [intro]:
  "Utf8 (segment_data_path (unat (a :: u16))) \<in> storage_names bs" "Utf8 (index_stem b 1 @ ''.tmp'') \<in> storage_names bs"
  "b \<in> bs \<Longrightarrow> Utf8 (generate_index_filename b 1) \<in> storage_names bs"
  by (auto simp: storage_names_def)

lemma save_attempts_tidy:
  "tidy bs dir \<Longrightarrow> tmp \<in> storage_names bs \<Longrightarrow> path \<in> storage_names bs \<Longrightarrow> tidy bs (snd (save_attempts io data tmp path is dir))"
  by (induction io data tmp path "is" dir rule: save_attempts.induct)
     (auto simp: Let_def tidy_update tidy_delete split: option.splits)

lemma save_index_tidy:
  assumes "tidy bs dir" "b \<in> bs" "save_index io b index 1 dir = Some (r, dir')"
  shows "tidy bs dir'"
proof -
  have saved: "tidy bs (snd (save_attempts io data (Utf8 (index_stem b 1 @ ''.tmp'')) (Utf8 (generate_index_filename b 1)) [0, 1, 2] dir))" for data
    by (rule save_attempts_tidy) (use assms(1,2) in auto)
  obtain image where "save_image b index = Some image" using assms(3) by (cases "save_image b index") (auto simp: save_index_def)
  then have "dir' = (case image of Inl _ \<Rightarrow> dir
      | Inr data \<Rightarrow> snd (save_attempts io data (Utf8 (index_stem b 1 @ ''.tmp'')) (Utf8 (generate_index_filename b 1)) [0, 1, 2] dir))"
    using assms(3) by (cases image) (simp_all add: save_index_def del: save_attempts.simps)
  then show ?thesis using saved assms(1) by (cases image) (simp_all del: save_attempts.simps)
qed

lemma save_buckets_tidy:
  "save_buckets io ms dir = Some (r, dir') \<Longrightarrow> tidy bs dir \<Longrightarrow> fst ` set ms \<subseteq> bs \<Longrightarrow> tidy bs dir'"
proof (induction ms arbitrary: dir)
  case (Cons p ms)
  obtain b index where p: "p = (b, index)" by fastforce
  obtain r1 dir1 where s: "save_index (io b) b index 1 dir = Some (r1, dir1)"
    using Cons.prems(1) by (cases "save_index (io b) b index 1 dir") (auto simp: p)
  have "tidy bs dir1" by (rule save_index_tidy [OF Cons.prems(2) _ s]) (use Cons.prems(3) in \<open>simp add: p\<close>)
  then show ?case using Cons.IH [of dir1] Cons.prems(1,3) s by (cases r1) (auto simp: p)
qed simp

lemma buckets_set_bucket [simp]: "buckets (set_bucket b index m) = insert b (buckets m)"
  by (simp add: buckets_def set_bucket_def bt_insert_keys)

lemma flush_tidy:
  assumes f: "flush_updates_for_bucket io b m dir = Some (r, m', dir')" and t: "tidy bs dir" "b \<in> bs"
  shows "tidy bs dir'" "buckets m' = insert b (buckets m) \<or> buckets m' = buckets m"
proof -
  have "dir' = dir \<and> m' = m \<or> (\<exists>index. save_index io b index 1 dir = Some (r, dir') \<and> m' = set_bucket b index m)"
    using f by (auto simp: flush_updates_for_bucket_def Let_def set_bucket_def split: option.splits if_splits bind_splits)
  then show "tidy bs dir'" "buckets m' = insert b (buckets m) \<or> buckets m' = buckets m"
    using t save_index_tidy [OF t] by auto
qed

lemma add_entry_tidy:
  assumes len: "9 \<le> length key" and add: "add_entry io key a off sz m dir = Some (r, m', dir')" and tidy: "tidy (buckets m) dir"
  shows "tidy (buckets m') dir'"
proof -
  define b where "b = get_bucket_index key"
  define u where "u = update_entry_new (take 9 key) \<lparr>archive_id = a, archive_offset = off\<rparr> sz Normal"
  define index where "index = bucket_or_new m b"
  obtain s' ok where app: "section_append (if_updates index) u = (s', ok)" by fastforce
  note eq = add_entry_eq [OF len u_def b_def index_def app, of io dir]
  have t: "tidy (insert b (buckets m)) dir" by (rule tidy_mono [OF tidy]) blast
  show ?thesis
  proof (cases ok)
    case True
    then show ?thesis using add eq t by auto
  next
    case False
    then obtain r2 m2 dir2 where f: "flush_updates_for_bucket io b (set_bucket b index m) dir = Some (r2, m2, dir2)" "dir' = dir2"
      "buckets m' = buckets m2 \<or> buckets m' = insert b (buckets m2)"
      using add eq by (auto simp: retry_append_def split: bind_splits sum.splits prod.splits)
    have "tidy (insert b (buckets m)) dir2" "buckets m2 = insert b (buckets m)"
      using flush_tidy [OF f(1), of "insert b (buckets m)"] t by auto
    then show ?thesis using f(2,3) by auto
  qed
qed

lemma put_file_tidy: "tidy bs (am_files m) \<Longrightarrow> tidy bs (am_files (put_file (segment_data_path (unat (a :: u16))) d m))"
  by (auto simp: put_file_def intro: tidy_update)

lemma write_to_archive_tidy:
  assumes "archives_inv m" "tidy bs (am_files m)" "write_to_archive io a off data m = (r, m')"
  shows "tidy bs (am_files m')"
proof (cases "map_of (am_archives m) a")
  case None
  then show ?thesis using assms(2,3) by (auto simp: write_to_archive_def)
next
  case (Some af)
  have "af_path af = segment_data_path (unat a)" using archives_invD [OF assms(1) Some] by metis
  then show ?thesis
    using assms(2,3) Some put_file_tidy [OF assms(2)]
    by (auto simp: write_to_archive_def remap_archive_def Let_def split: write_io.splits option.splits if_splits)
qed

lemma create_archive_tidy:
  assumes "tidy bs (am_files m)" "create_archive io md5 a m = (r, m')"
  shows "tidy bs (am_files m')"
proof -
  have "am_files (snd (open_archive ok a path m1)) = am_files m1" for ok path m1
    by (simp add: open_archive_def split: option.splits)
  then show ?thesis
    using assms(2) put_file_tidy [OF assms(1)]
    by (auto simp: create_archive_def Let_def split: write_io.splits option.splits prod.splits outcome.splits) (metis assms(1) snd_conv)+
qed

lemma write_entry_tidy:
  assumes inv: "archives_inv m" and md5: "\<And>x. length (md5 x) = 16" and t: "tidy bs (am_files m)"
    and w: "write_entry io md5 ekey blte m = (r, m')"
  shows "tidy bs (am_files m')"
proof -
  define a where "a = select_archive_for_write_sized m (LOCAL_HEADER_SIZE + length blte)"
  obtain r1 m1 where r1: "(if map_of (am_archives m) a = None then create_archive io md5 a m else (Ret (), m)) = (r1, m1)" by fastforce
  have m1: "archives_inv m1" "tidy bs (am_files m1)"
    using r1 inv t create_archive_effect(1) [OF inv _ md5] create_archive_tidy [OF t] by (auto split: if_splits)
  have "am_files m' = am_files m \<or> am_files m' = am_files m1
      \<or> (\<exists>off data. am_files m' = am_files (snd (write_to_archive io a off data m1)))"
    using w
    by (auto simp: write_entry_def a_def [symmetric] r1 Let_def split: if_splits outcome.splits prod.splits) (metis snd_conv)+
  then show ?thesis using t m1(2) write_to_archive_tidy [OF m1] by (metis prod.collapse)
qed

definition container_tidy :: "dynamic_container \<Rightarrow> bool" where
  "container_tidy c \<longleftrightarrow> tidy (buckets (dc_index c)) (am_files (dc_archive c))"

lemma touch_lru_parts: "touch_lru key c = Some c' \<Longrightarrow> dc_index c' = dc_index c \<and> dc_archive c' = dc_archive c"
  by (auto simp: touch_lru_def split: option.splits)

lemma add_step_tidy:
  assumes "9 \<le> length ekey" "container_tidy c" "on_directory (add_entry io ekey a off sz) c = (r, c')"
  shows "container_tidy c'"
  using assms add_entry_tidy [OF assms(1)]
  by (auto simp: on_directory_def container_tidy_def split: option.splits prod.splits)

lemma save_step_tidy:
  assumes "container_tidy c" "dc_save_all io c = (r, c')"
  shows "container_tidy c'"
  using assms save_buckets_tidy [of io "indices (dc_index c)" "am_files (dc_archive c)" _ _ "buckets (dc_index c)"]
  by (auto simp: dc_save_all_def save_all_def on_directory_def container_tidy_def buckets_def split: option.splits prod.splits)

lemma header_step_tidy:
  assumes "archives_inv m" "tidy bs (am_files m)" "update_reconstruction_header io ekey a off sz m = (r, m')"
  shows "tidy bs (am_files m')"
  using assms(2,3) write_to_archive_tidy [OF assms(1,2)]
  by (auto simp: update_reconstruction_header_def write_segment_header_def Let_def split: if_splits)

lemma commit_tidy:
  assumes inv: "container_inv c" and tidy: "container_tidy c" and ekey: "length ekey = 16" and a: "a < 1024" "off < 0x40000000"
    and e: "located (dc_archive c) (index_entry_new (take 9 ekey) a off sz)"
    and w: "commit_entry io a off sz ekey c = (r, c')"
  shows "container_tidy c'"
proof -
  obtain r1 c1 where s1: "on_directory (add_entry (ci_index io) ekey a off sz) c = (r1, c1)" "container_inv c1"
    using add_entry_step [OF inv ekey a refl e] by metis
  have t1: "container_tidy c1" by (rule add_step_tidy [OF _ tidy s1(1)]) (use ekey in simp)
  obtain r2 m2 where s2: "update_reconstruction_header (ci_header io) ekey a off sz (dc_archive c1) = (r2, m2)" by fastforce
  have t2: "container_tidy (c1\<lparr>dc_archive := m2\<rparr>)"
    using header_step_tidy [OF container_invD(2) [OF s1(2)] _ s2] t1 by (simp add: container_tidy_def)
  have t3: "container_tidy c3" if "touch_lru ekey (c1\<lparr>dc_archive := m2\<rparr>) = Some c3" for c3
    using touch_lru_parts [OF that] t2 by (simp add: container_tidy_def)
  show ?thesis
    using w s1(1) s2 t1 t2 t3 save_step_tidy
    by (auto simp: commit_entry_def split: outcome.splits option.splits)
qed

lemma write_tidy:
  assumes inv: "container_inv c" and tidy: "container_tidy c" and md5: "\<And>x. length (md5 x) = 16"
    and ids: "length (am_write_positions (dc_archive c)) < 1024" and w: "dc_write io cs md5 key data c = (r, c')"
  shows "container_tidy c'"
proof (cases "can_write (dc_access_mode c)")
  case False
  then show ?thesis using w tidy by (simp add: dc_write_def)
next
  case True
  obtain blte where blte: "compress_blte_with_mode cs data ModeNone = Ret blte" by (rule stored_blte)
  obtain r1 m1 where w1: "write_content (ci_archive io) cs md5 data False (dc_archive c) = (r1, m1)" by fastforce
  note st = write_content_step [OF inv md5 ids blte w1]
  obtain r0 where "write_entry (ci_archive io) md5 (md5 blte) blte (dc_archive c) = (r0, m1)"
    using w1 blte by (auto simp: write_content_def write_content_with_mode_def split: prod.splits)
  then have t1: "container_tidy (c\<lparr>dc_archive := m1\<rparr>)"
    using write_entry_tidy [of "dc_archive c" md5, OF container_invD(2) [OF inv] md5] tidy by (simp add: container_tidy_def)
  show ?thesis
  proof (cases r1)
    case (Ret x)
    obtain a off sz ekey where x: "x = (a, off, sz, ekey)" using prod_cases4 by blast
    note e = st(4) [OF Ret [unfolded x]]
    have "commit_entry io a off sz ekey (c\<lparr>dc_archive := m1\<rparr>) = (r, c')" using w True w1 Ret x by (simp add: dc_write_def)
    moreover have "length ekey = 16" using e md5 by simp
    ultimately show ?thesis using commit_tidy [OF st(1) t1, of ekey a off sz] e by auto
  qed (use w True w1 t1 in \<open>auto simp: dc_write_def\<close>)
qed

section \<open>What is acknowledged survives a restart\<close>

text \<open>
  C2. An acknowledged write to a dynamic container survives a restart: a new container that is opened on
  the storage directory afterwards, with nothing but the files, gives out for every key exactly the
  contents the old one gave out, the data just written included. The directory of the container stays
  tidy under every write, successful or not, so that the loaders meet only names they understand. The
  loader skips index entries with an all-zero key and opens only archives below number 1000, which are
  the two hypotheses on the state after the write.
\<close>

theorem container_survives_restart:
  assumes "container_inv c" "container_tidy c" "\<And>x. length (md5 x) = 16" "length (am_write_positions (dc_archive c)) < 1024"
    and "dc_write io cs md5 key data c = (r, c')"
  shows "container_tidy c' \<and>
    (r = Ret () \<and> no_zero_keys (dc_index c') \<and> (\<forall>a\<in>dom (map_of (am_write_positions (dc_archive c'))). unat a < 1000)
       \<and> good_open oio \<and> new_from_builder b (am_files (dc_archive c')) = Ret c0 \<longrightarrow>
     (\<exists>blte c2. dc_open oio c0 = (Ret (), c2) \<and> stored cs c2 = stored cs c'
        \<and> compress_blte_with_mode cs data ModeNone = Ret blte \<and> stored cs c2 (take 9 (md5 blte)) = Some (Ret data)))"
proof (intro conjI impI)
  show tidy: "container_tidy c'" by (rule write_tidy [OF assms])
  assume hyp: "r = Ret () \<and> no_zero_keys (dc_index c') \<and> (\<forall>a\<in>dom (map_of (am_write_positions (dc_archive c'))). unat a < 1000)
       \<and> good_open oio \<and> new_from_builder b (am_files (dc_archive c')) = Ret c0"
  obtain blte where w: "container_inv c'" "index_saved (dc_index c') (am_files (dc_archive c'))"
    "compress_blte_with_mode cs data ModeNone = Ret blte" "stored cs c' (take 9 (md5 blte)) = Some (Ret data)"
    using write_effect [OF assms(1,3,4,5)] hyp by auto
  obtain c2 where "dc_open oio c0 = (Ret (), c2)" "stored cs c2 = stored cs c'"
    using reopen_stored [OF w(1) tidy [unfolded container_tidy_def] w(2)] hyp by metis
  then show "\<exists>blte c2. dc_open oio c0 = (Ret (), c2) \<and> stored cs c2 = stored cs c'
        \<and> compress_blte_with_mode cs data ModeNone = Ret blte \<and> stored cs c2 (take 9 (md5 blte)) = Some (Ret data)"
    using w(3,4) by auto
qed

lemma on_directory_positions:
  "on_directory f c = (r, c') \<Longrightarrow> am_write_positions (dc_archive c') = am_write_positions (dc_archive c)"
  by (auto simp: on_directory_def split: option.splits prod.splits)

lemma commit_parts:
  assumes s1: "on_directory (add_entry (ci_index io) ekey a off sz) c = (r1, c1)" and w: "commit_entry io a off sz ekey c = (r, c')"
  shows "dc_index c' = dc_index c1" "am_write_positions (dc_archive c') = am_write_positions (dc_archive c)"
proof -
  obtain r2 m2 where s2: "update_reconstruction_header (ci_header io) ekey a off sz (dc_archive c1) = (r2, m2)" by fastforce
  then have p2: "am_write_positions m2 = am_write_positions (dc_archive c1)"
    using positions_of_step [of "ci_header io" a 0 _ "dc_archive c1"]
    by (auto simp: update_reconstruction_header_def write_segment_header_def Let_def split: if_splits) (metis snd_conv)
  have save: "dc_index c4 = dc_index c3" if "dc_save_all (ci_save io) c3 = (r4, c4)" for r4 c3 c4
    using that by (auto simp: dc_save_all_def on_directory_def split: option.splits prod.splits)
  have pos: "am_write_positions (dc_archive c4) = am_write_positions (dc_archive c3)" if "dc_save_all (ci_save io) c3 = (r4, c4)" for r4 c3 c4
    using that unfolding dc_save_all_def by (rule on_directory_positions)
  show "dc_index c' = dc_index c1" "am_write_positions (dc_archive c') = am_write_positions (dc_archive c)"
    using w s1 s2 p2 save pos on_directory_positions [OF s1]
    by (auto simp: commit_entry_def split: outcome.splits option.splits dest!: touch_lru_parts)
qed

lemma write_parts:
  assumes inv: "container_inv c" and md5: "\<And>x. length (md5 x) = 16" and mode: "can_write (dc_access_mode c)"
    and blte: "compress_blte_with_mode cs data ModeNone = Ret blte" and room: "room (dc_index c) (md5 blte)"
    and all: "all_sections P (dc_index c)" "P []" and w: "dc_write io cs md5 key data c = (Ret (), c')"
  shows "all_sections P (dc_index c')" "dom (map_of (am_write_positions (dc_archive c')))
    \<subseteq> insert (select_archive_for_write_sized (dc_archive c) (LOCAL_HEADER_SIZE + length blte)) (dom (map_of (am_write_positions (dc_archive c))))"
proof -
  obtain r1 m1 where w1: "write_entry (ci_archive io) md5 (md5 blte) blte (dc_archive c) = (r1, m1)" by fastforce
  have wc: "write_content (ci_archive io) cs md5 data False (dc_archive c)
      = (obind r1 (\<lambda>(archive_id, offset, total). Ret (archive_id, offset, total, md5 blte)), m1)"
    using w1 blte by (simp add: write_content_def write_content_with_mode_def)
  have wf: "bt_wf (am_write_positions (dc_archive c))" using container_invD(2) [OF inv] by (simp add: archives_inv_def)
  note ids = write_entry_ids [OF wf w1]
  show "all_sections P (dc_index c')" "dom (map_of (am_write_positions (dc_archive c')))
    \<subseteq> insert (select_archive_for_write_sized (dc_archive c) (LOCAL_HEADER_SIZE + length blte)) (dom (map_of (am_write_positions (dc_archive c))))"
  proof (atomize (full), cases r1)
    case (Ret x)
    obtain a off sz where x: "x = (a, off, sz)" using prod_cases3 by blast
    define c1 where "c1 = c\<lparr>dc_archive := m1\<rparr>"
    have com: "commit_entry io a off sz (md5 blte) c1 = (Ret (), c')" using w mode wc Ret x by (simp add: dc_write_def c1_def)
    obtain r2 c2 where s: "on_directory (add_entry (ci_index io) (md5 blte) a off sz) c1 = (r2, c2)" by fastforce
    have "all_sections P (dc_index c2)"
      using s add_entry_sections [OF container_invD(1) [OF inv] _ room all] md5 all
      by (auto simp: on_directory_def c1_def split: option.splits prod.splits)
    then show "all_sections P (dc_index c') \<and> dom (map_of (am_write_positions (dc_archive c')))
      \<subseteq> insert (select_archive_for_write_sized (dc_archive c) (LOCAL_HEADER_SIZE + length blte)) (dom (map_of (am_write_positions (dc_archive c))))"
      using commit_parts [OF s com] ids by (simp add: c1_def)
  qed (use w mode wc in \<open>simp_all add: dc_write_def\<close>)
qed

definition all_open :: open_io where
  "all_open = \<lparr>oi_mkdir_ok = True, oi_index_dir_ok = True, oi_index_ok = \<lambda>_. True, oi_archive_dir_ok = True, oi_stat_ok = \<lambda>_. True,
     oi_archive_ok = \<lambda>_. True, oi_segment_dir_ok = True, oi_segment_ok = \<lambda>_. True\<rparr>"

theorem container_survives_restart_witness:
  "\<exists>c' c0 c2. dc_write example_container_io storing_codecs one_md5 (replicate 16 9) [1, 2, 3] example_container = (Ret (), c')
     \<and> new_from_builder (container_builder_new [1]) (am_files (dc_archive c')) = Ret c0
     \<and> dc_open all_open c0 = (Ret (), c2) \<and> stored storing_codecs c2 (replicate 9 1) = Some (Ret [1, 2, 3])"
proof -
  obtain c' where w: "dc_write example_container_io storing_codecs one_md5 (replicate 16 9) [1, 2, 3] example_container = (Ret (), c')"
    by (rule example_written)
  have md5: "\<And>x. length (one_md5 x) = 16" by (simp add: one_md5_def)
  have tidy: "container_tidy example_container" by (simp add: container_tidy_def tidy_def example_container_fields)
  obtain blte where blte: "compress_blte_with_mode storing_codecs [1, 2, 3] ModeNone = Ret blte" "510 + length blte \<le> 2 ^ 30" by (rule example_blte)
  have "all_sections (list_all (\<lambda>e. ie_key e \<noteq> replicate 9 0)) (dc_index example_container)"
    by (simp add: all_sections_def example_container_fields manager_new_def)
  note parts = write_parts [of example_container one_md5, OF example_container_inv md5 example_container_fields(5) blte(1) example_write_facts(5) this _ w]
  have "no_zero_keys (dc_index c')" using parts(1) by (simp add: no_zero_keys_def)
  moreover have "\<forall>a\<in>dom (map_of (am_write_positions (dc_archive c'))). unat a < 1000"
    using parts(2) by (force simp: example_container_fields select_archive_for_write_sized_def)
  moreover obtain c0 where c0: "new_from_builder (container_builder_new [1]) (am_files (dc_archive c')) = Ret c0"
    by (simp add: new_from_builder_def container_builder_new_def Let_def)
  moreover have "good_open all_open" by (simp add: good_open_def all_open_def)
  ultimately obtain blte' c2 where "dc_open all_open c0 = (Ret (), c2)" "stored storing_codecs c2 (take 9 (one_md5 blte')) = Some (Ret [1, 2, 3])"
    using container_survives_restart [OF example_container_inv tidy md5 example_write_facts(7) w] by metis
  then show ?thesis using w c0 by (auto simp: one_md5_def)
qed

end
