(* ===== verification/Container_History.thy ===== *)
theory Container_History
  imports Container_Restart
begin

text \<open>
  Histories of a dynamic container. The locale \<open>content_store\<close> is the contract of a store whose steps
  each change one key or none; it gives the contents after any history of steps. The container with
  its writes, reads, removals and flushes, in any order and with any I/O failures, satisfies it.
\<close>

section \<open>The interface: a store of contents\<close>

type_synonym ('k, 'v) effect = "('k \<times> 'v option) option"

fun apply_effect :: "('k, 'v) effect \<Rightarrow> ('k \<Rightarrow> 'v option) \<Rightarrow> 'k \<Rightarrow> 'v option" where
  "apply_effect None f = f"
| "apply_effect (Some (k, v)) f = f(k := v)"

inductive history :: "('s \<Rightarrow> ('k, 'v) effect \<Rightarrow> 's \<Rightarrow> bool) \<Rightarrow> 's \<Rightarrow> ('k, 'v) effect list \<Rightarrow> 's \<Rightarrow> bool" for step where
  start: "history step s [] s"
| more: "history step s es s1 \<Longrightarrow> step s1 e s2 \<Longrightarrow> history step s (es @ [e]) s2"

locale content_store =
  fixes inv :: "'s \<Rightarrow> bool" and view :: "'s \<Rightarrow> 'k \<Rightarrow> 'v option" and step :: "'s \<Rightarrow> ('k, 'v) effect \<Rightarrow> 's \<Rightarrow> bool"
  assumes step_inv: "inv s \<Longrightarrow> step s e s' \<Longrightarrow> inv s'"
    and step_view: "inv s \<Longrightarrow> step s e s' \<Longrightarrow> view s' = apply_effect e (view s)"
begin

lemma history_view: "history step s es s' \<Longrightarrow> inv s \<Longrightarrow> inv s' \<and> view s' = fold apply_effect es (view s)"
proof (induction rule: history.induct)
  case (more s es s1 e s2)
  then show ?case using step_inv step_view by auto
qed simp

lemma untouched: "\<forall>e\<in>set es. \<forall>v. e \<noteq> Some (k, v) \<Longrightarrow> fold apply_effect es f k = f k"
proof (induction es arbitrary: f)
  case (Cons e es)
  then show ?case by (cases "(e, f)" rule: apply_effect.cases) auto
qed simp

lemma content_stays:
  "history step s es s' \<Longrightarrow> inv s \<Longrightarrow> \<forall>e\<in>set es. \<forall>v. e \<noteq> Some (k, v) \<Longrightarrow> view s' k = view s k"
  using history_view [of s es s'] untouched by simp

end

section \<open>Flushing and marking\<close>

lemma update_entry_status_effect:
  assumes inv: "manager_inv m" and len: "9 \<le> length key" "9 \<le> length k" and status: "status \<noteq> Delete"
    and u: "update_entry_status m key status = (m', ok)"
  shows "manager_inv m' \<and> lookup m' k = lookup m k"
proof (cases "lookup m key")
  case None
  then show ?thesis using u inv by (simp add: update_entry_status_def)
next
  case (Some e)
  obtain index where index: "map_of (indices m) (get_bucket_index key) = Some index" "file_inv (get_bucket_index key) index"
    "wf_index_entry e" "ie_key e = take 9 key" by (rule lookup_SomeD [OF inv Some len(1)])
  define upd where "upd = update_entry_new (take 9 key) (ie_location e) (ie_size e) status"
  obtain s' where app: "section_append (if_updates index) upd = (s', ok)" and m': "m' = set_bucket (get_bucket_index key) (index\<lparr>if_updates := s'\<rparr>) m"
    using u by (auto simp: update_entry_status_def Some index Let_def truncate_key_take len upd_def set_bucket_def split: prod.splits)
  have st: "storable upd" using index(3,4) len(1) by (simp add: upd_def storable_new wf_index_entry_def)
  have key: "ue_ekey upd = take 9 key" by (simp add: upd_def)
  have vis: "visible upd = Some e"
    using status index(4) by (cases e, cases "ie_location e") (simp add: visible_def upd_def to_index_entry_def update_entry_new_def index_entry_new_def)
  have "file_inv (get_bucket_index key) (index\<lparr>if_updates := s'\<rparr>)"
    using append_file_inv [OF index(2) st _ app] bucket_take [OF len(1)] key by simp
  then have minv: "manager_inv m'" unfolding m' by (rule set_bucket_inv [OF inv])
  show ?thesis
  proof (cases ok)
    case True
    then have "lookup m' k = (if take 9 k = take 9 key then visible upd else lookup m k)"
      using append_lookup [OF inv refl len(1) index(1) key _ len(2)] app by (simp add: m')
    then show ?thesis using minv vis Some lookup_same_prefix [OF len, of m] by (auto split: if_splits)
  next
    case False
    then have "s' = if_updates index" using app upd_log.append_refused by fastforce
    then show ?thesis using minv index(1) by (simp add: m' lookup_set_bucket inv) (simp add: lookup_def)
  qed
qed

lemma flush_buckets_facts:
  "manager_inv m \<Longrightarrow> \<exists>r m' dir'. flush_buckets io bs m dir = Some (r, m', dir') \<and> manager_inv m' \<and> lookup m' = lookup m \<and> data_files_kept dir dir'"
proof (induction bs arbitrary: m dir)
  case (Cons b bs)
  obtain r1 m1 dir1 where f: "flush_updates_for_bucket (io b) b m dir = Some (r1, m1, dir1)" "manager_inv m1" "lookup m1 = lookup m"
    using flush_facts [OF Cons.prems, of "io b" b dir] by (auto simp: fun_eq_iff)
  have k: "data_files_kept dir dir1" by (rule flush_data [OF Cons.prems f(1)])
  obtain r m' dir' where "flush_buckets io bs m1 dir1 = Some (r, m', dir')" "manager_inv m'" "lookup m' = lookup m1" "data_files_kept dir1 dir'"
    using Cons.IH [OF f(2), of dir1] by blast
  then show ?case using f k data_files_kept_trans [OF k] by (cases r1) auto
qed simp

lemma quiet_index_step:
  assumes inv: "container_inv c" and f: "f (dc_index c) (am_files (dc_archive c)) = Some (r0, m', dir')"
    and m': "manager_inv m'" "lookup m' = lookup (dc_index c)" "data_files_kept (am_files (dc_archive c)) dir'"
    and s: "on_directory f c = (r, c')"
  shows "container_inv c' \<and> stored cs c' = stored cs c"
proof -
  have c': "c' = c\<lparr>dc_index := m', dc_archive := (dc_archive c)\<lparr>am_files := dir'\<rparr>\<rparr>"
    using s f by (simp add: on_directory_def)
  note frame = archives_frame [OF container_invD(2) [OF inv] m'(3)]
  have "container_inv c'" "stored cs c' k = stored cs c k" for k
    by (rule container_step [OF inv, of c']; use frame m' container_invD [OF inv] in \<open>simp add: c' later_same\<close>)+
  then show ?thesis by auto
qed

lemma flush_step:
  assumes "container_inv c"
  shows "dc_flush_bucket io1 b c = (r, c') \<Longrightarrow> container_inv c' \<and> stored cs c' = stored cs c"
    "dc_flush_all_updates io2 c = (r, c') \<Longrightarrow> container_inv c' \<and> stored cs c' = stored cs c"
proof -
  note minv = container_invD(1) [OF assms]
  obtain r1 m1 d1 where f: "flush_updates_for_bucket io1 b (dc_index c) (am_files (dc_archive c)) = Some (r1, m1, d1)"
    "manager_inv m1" "lookup m1 = lookup (dc_index c)"
    using flush_facts [OF minv, of io1 b "am_files (dc_archive c)"] by (auto simp: fun_eq_iff)
  show "container_inv c' \<and> stored cs c' = stored cs c" if "dc_flush_bucket io1 b c = (r, c')"
    using quiet_index_step [where f = "flush_updates_for_bucket io1 b", OF assms f flush_data [OF minv f(1)]] that by (simp add: dc_flush_bucket_def)
  obtain r2 m2 d2 where g: "flush_all_updates io2 (dc_index c) (am_files (dc_archive c)) = Some (r2, m2, d2)"
    "manager_inv m2" "lookup m2 = lookup (dc_index c)" "data_files_kept (am_files (dc_archive c)) d2"
    using flush_buckets_facts [OF minv] unfolding flush_all_updates_def by blast
  show "container_inv c' \<and> stored cs c' = stored cs c" if "dc_flush_all_updates io2 c = (r, c')"
    using quiet_index_step [where f = "flush_all_updates io2", OF assms g] that by (simp add: dc_flush_all_updates_def)
qed

lemma remove_span_step:
  assumes inv: "container_inv c" and key: "length key = 16" and s: "dc_remove_span key offset n c = (r, c')"
  shows "container_inv c' \<and> stored cs c' = stored cs c"
proof -
  obtain m' ok where u: "update_entry_status (dc_index c) key DataNonResident = (m', ok)" by fastforce
  have m': "manager_inv m' \<and> lookup m' k = lookup (dc_index c) k" if "9 \<le> length k" for k
    using update_entry_status_effect [OF container_invD(1) [OF inv] _ that _ u] key by simp
  have "c' = c \<or> dc_index c' = m' \<and> dc_archive c' = dc_archive c \<and> dc_lru c' = dc_lru c"
    using s u by (auto simp: dc_remove_span_def mark_entry_non_resident_def Let_def split: if_splits option.splits)
  then show ?thesis
  proof
    assume c': "dc_index c' = m' \<and> dc_archive c' = dc_archive c \<and> dc_lru c' = dc_lru c"
    have nine: "9 \<le> length (replicate 9 (0 :: byte))" by simp
    have "container_inv c'"
      by (rule container_step(1) [OF inv, of c']; use c' m' [OF nine] m' container_invD [OF inv] in \<open>simp add: later_same\<close>)
    moreover have "stored cs c' = stored cs c" using c' m' by (auto simp: stored_def fun_eq_iff)
    ultimately show ?thesis by blast
  qed (use inv in simp)
qed

section \<open>The container is such a store\<close>

text \<open>
  One operation and its effect. A write that fails may have stored its content already; its effect is
  read off the state after it.
\<close>

inductive container_op ::
  "codecs \<Rightarrow> (byte list \<Rightarrow> byte list) \<Rightarrow> dynamic_container \<Rightarrow> (byte list, (archive_error, byte list) outcome) effect
   \<Rightarrow> dynamic_container \<Rightarrow> bool" for cs md5 where
  op_write: "dc_write io cs md5 key data c = (r, c') \<Longrightarrow> length (am_write_positions (dc_archive c)) < 1024 \<Longrightarrow>
    compress_blte_with_mode cs data ModeNone = Ret blte \<Longrightarrow>
    container_op cs md5 c
      (if r = Ret () \<or> stored cs c' \<noteq> stored cs c then Some (take 9 (md5 blte), Some (Ret data)) else None) c'"
| op_read: "dc_read cs key buf c = (r, buf', c') \<Longrightarrow> length key = 16 \<Longrightarrow> container_op cs md5 c None c'"
| op_remove: "dc_remove io key c = (r, c') \<Longrightarrow> length key = 16 \<Longrightarrow>
    container_op cs md5 c (if can_write (dc_access_mode c) \<and> room (dc_index c) key then Some (take 9 key, None) else None) c'"
| op_remove_span: "dc_remove_span key offset n c = (r, c') \<Longrightarrow> length key = 16 \<Longrightarrow> container_op cs md5 c None c'"
| op_flush_bucket: "dc_flush_bucket io1 b c = (r, c') \<Longrightarrow> container_op cs md5 c None c'"
| op_flush_all: "dc_flush_all_updates io2 c = (r, c') \<Longrightarrow> container_op cs md5 c None c'"

lemma container_op_effect:
  assumes op: "container_op cs md5 c e c'" and inv: "container_inv c" and md5: "\<forall>x. length (md5 x) = 16"
  shows "container_inv c' \<and> stored cs c' = apply_effect e (stored cs c)"
  using op
proof cases
  case (op_write io key data r blte)
  obtain b where "container_inv c'" "r = Ret () \<longrightarrow> b"
    "stored cs c' = (if b then (stored cs c)(take 9 (md5 blte) \<mapsto> Ret data) else stored cs c)"
    using write_effect [OF inv _ op_write(3,2)] md5 op_write(4) by auto
  then show ?thesis by (cases b) (auto simp: op_write(1))
next
  case (op_read key buf r buf')
  then show ?thesis using read_step [OF inv] by simp
next
  case (op_remove io key r)
  then show ?thesis
    using remove_step [OF inv, of key io r c' cs] inv by (cases "can_write (dc_access_mode c)") (auto simp: dc_remove_def)
next
  case (op_remove_span key offset n r)
  then show ?thesis using remove_span_step [OF inv] by simp
next
  case (op_flush_bucket io1 b r)
  then show ?thesis using flush_step(1) [OF inv] by simp
next
  case (op_flush_all io2 r)
  then show ?thesis using flush_step(2) [OF inv] by simp
qed

interpretation dc: content_store "\<lambda>c. container_inv c \<and> (\<forall>x. length (md5 x) = 16)" "stored cs" "container_op cs md5" for cs md5
  by unfold_locales (use container_op_effect in blast)+

text \<open>
  C3. Histories of a container: after any sequence of writes, reads, removals, span removals and flushes,
  each with its own pattern of I/O failures, the container satisfies its invariant and stores what the
  effects of the operations add up to; in particular a content stays readable, byte for byte, as long as
  no operation writes or removes its own key.
\<close>

theorem container_history:
  assumes "history (container_op cs md5) c es c'" "container_inv c" "\<forall>x. length (md5 x) = 16"
  shows "container_inv c' \<and> stored cs c' = fold apply_effect es (stored cs c)
    \<and> (\<forall>k. (\<forall>e\<in>set es. \<forall>v. e \<noteq> Some (k, v)) \<longrightarrow> stored cs c' k = stored cs c k)"
  using dc.history_view [OF assms(1)] dc.content_stays [OF assms(1)] assms(2,3) by blast

theorem container_history_witness:
  "\<exists>es c'. history (container_op storing_codecs one_md5) example_container es c'
     \<and> length es = 2 \<and> stored storing_codecs c' (replicate 9 1) = Some (Ret [1, 2, 3])"
proof -
  obtain c1 where w: "dc_write example_container_io storing_codecs one_md5 (replicate 16 9) [1, 2, 3] example_container = (Ret (), c1)"
    by (rule example_written)
  obtain blte where blte: "compress_blte_with_mode storing_codecs [1, 2, 3] ModeNone = Ret blte" by (rule stored_blte)
  obtain r c2 where f: "dc_flush_bucket example_save_io 0 c1 = (r, c2)" by fastforce
  define es :: "(byte list, (archive_error, byte list) outcome) effect list" where "es = [Some (replicate 9 1, Some (Ret [1, 2, 3])), None]"
  have "container_op storing_codecs one_md5 example_container (Some (replicate 9 1, Some (Ret [1, 2, 3]))) c1"
    using container_op.op_write [OF w example_write_facts(7) blte] by (simp add: one_md5_def)
  then have "history (container_op storing_codecs one_md5) example_container ([] @ [Some (replicate 9 1, Some (Ret [1, 2, 3]))]) c1"
    by (rule history.more [OF history.start])
  from history.more [OF this container_op.op_flush_bucket [OF f]]
  have h: "history (container_op storing_codecs one_md5) example_container es c2" by (simp add: es_def)
  then have "stored storing_codecs c2 = fold apply_effect es (stored storing_codecs example_container)"
    using container_history [OF h example_container_inv] by (simp add: one_md5_def)
  then show ?thesis using h by (intro exI [of _ es] exI [of _ c2]) (simp add: es_def)
qed

end
