(* ===== verification/Compaction.thy ===== *)
theory Compaction
  imports Archive_Props
begin

text \<open>
  The compaction primitives of \<open>storage/compaction.rs\<close>: the buffered file mover, the backup file that
  records the segments in progress, the validation of spans, the extract-compact of one segment and
  the planning of archive merges. A file is its bytes. Offsets and lengths of spans are 64-bit words
  whose overflowing sum is a panic; positions inside a file are natural numbers, since a file is
  shorter than \<open>2 ^ 63\<close> bytes. The loop of the mover is a partial function: with a buffer of size zero
  it would not return.
\<close>

section \<open>Model: spans and plans\<close>

definition MIN_BUFFER_SIZE :: nat where
  "MIN_BUFFER_SIZE = 128 * 1024"

definition MAX_BUFFERS :: nat where
  "MAX_BUFFERS = 16"

definition BUFFER_SIZE_SHIFT :: nat where
  "BUFFER_SIZE_SHIFT = 17"

definition BACKUP_VERSION :: byte where
  "BACKUP_VERSION = 1"

datatype compaction_error =
  CoSeek | CoRead | CoWrite | CoOpen | CoStat | CoTruncate | CoRemove | CoOverlap

record data_span =
  ds_offset :: u64
  ds_length :: u64

definition data_span_end :: "data_span \<Rightarrow> u64 option" where
  "data_span_end s = (if unat (ds_offset s) + unat (ds_length s) < 2 ^ 64 then Some (ds_offset s + ds_length s) else None)"

definition overlaps :: "data_span \<Rightarrow> data_span \<Rightarrow> bool option" where
  "overlaps s other =
     do {
       e \<leftarrow> data_span_end other;
       if ds_offset s < e then do { e' \<leftarrow> data_span_end s; Some (ds_offset other < e') } else Some False
     }"

record move_item =
  mi_source_segment :: u16
  mi_source_offset :: nat
  mi_dest_segment :: u16
  mi_dest_offset :: nat
  mi_length :: nat
  mi_ekey :: "byte list"

record compaction_plan =
  cp_source_segments :: "u16 list"
  cp_target_segments :: "u16 list"
  cp_moves :: "move_item list"
  cp_total_bytes :: nat

definition compaction_plan_default :: compaction_plan where
  "compaction_plan_default = \<lparr>cp_source_segments = [], cp_target_segments = [], cp_moves = [], cp_total_bytes = 0\<rparr>"

definition plan_is_empty :: "compaction_plan \<Rightarrow> bool" where
  "plan_is_empty p \<longleftrightarrow> cp_moves p = []"

definition move_count :: "compaction_plan \<Rightarrow> nat" where
  "move_count p = length (cp_moves p)"

section \<open>Model: the file mover\<close>

text \<open>The contents of the buffer between two chunks do not matter and are left out.\<close>

record file_mover =
  fm_buf_size :: nat
  fm_buf_count :: nat
  fm_bytes_moved :: nat

definition file_mover_new :: "nat \<Rightarrow> file_mover" where
  "file_mover_new total_budget =
     (let total = max total_budget MIN_BUFFER_SIZE;
          count = min MAX_BUFFERS (max 1 (total div 2 ^ BUFFER_SIZE_SHIFT))
      in \<lparr>fm_buf_size = total div count, fm_buf_count = count, fm_bytes_moved = 0\<rparr>)"

text \<open>
  What the operating system does with one chunk: a write may fail after a part of the chunk. Reading
  past the end of the file fails in any case.
\<close>

datatype chunk_io = ChunkOk | SeekFails | ReadFails | WriteFailsAfter nat

definition copy_chunk ::
  "chunk_io \<Rightarrow> nat \<Rightarrow> nat \<Rightarrow> nat \<Rightarrow> byte list \<Rightarrow> byte list \<Rightarrow> (compaction_error, unit) outcome \<times> byte list" where
  "copy_chunk io src dst chunk source dest =
     (if io = SeekFails then (Fail CoSeek, dest)
      else if io = ReadFails \<or> length source < src + chunk then (Fail CoRead, dest)
      else case io of
             WriteFailsAfter n \<Rightarrow> (Fail CoWrite, write_at dst (take n (slice src (src + chunk) source)) dest)
           | _ \<Rightarrow> (Ret (), write_at dst (slice src (src + chunk) source) dest))"

definition count_bytes :: "nat \<Rightarrow> file_mover \<Rightarrow> file_mover" where
  "count_bytes n mv = mv\<lparr>fm_bytes_moved := fm_bytes_moved mv + n\<rparr>"

partial_function (option) move_loop ::
  "(nat \<Rightarrow> chunk_io) \<Rightarrow> nat \<Rightarrow> byte list \<Rightarrow> nat \<Rightarrow> nat \<Rightarrow> nat \<Rightarrow> file_mover \<Rightarrow> byte list
   \<Rightarrow> ((compaction_error, unit) outcome \<times> file_mover \<times> byte list) option" where
  "move_loop io k source src dst remaining mv dest =
     (if remaining = 0 then Some (Ret (), mv, dest)
      else case copy_chunk (io k) src dst (min remaining (fm_buf_size mv)) source dest of
             (Ret _, dest') \<Rightarrow>
               move_loop io (k + 1) source (src + min remaining (fm_buf_size mv)) (dst + min remaining (fm_buf_size mv))
                 (remaining - min remaining (fm_buf_size mv)) (count_bytes (min remaining (fm_buf_size mv)) mv) dest'
           | (r, dest') \<Rightarrow> Some (r, mv, dest'))"

definition move_data ::
  "bool \<Rightarrow> (nat \<Rightarrow> chunk_io) \<Rightarrow> byte list \<Rightarrow> nat \<Rightarrow> nat \<Rightarrow> nat \<Rightarrow> file_mover \<Rightarrow> byte list
   \<Rightarrow> ((compaction_error, unit) outcome \<times> file_mover \<times> byte list) option" where
  "move_data seek_ok io source src_offset dest_offset len mv dest =
     (if \<not> seek_ok then Some (Fail CoSeek, mv, dest) else move_loop io 0 source src_offset dest_offset len mv dest)"

partial_function (option) in_place_loop ::
  "(nat \<Rightarrow> chunk_io) \<Rightarrow> nat \<Rightarrow> nat \<Rightarrow> nat \<Rightarrow> nat \<Rightarrow> file_mover \<Rightarrow> byte list
   \<Rightarrow> ((compaction_error, unit) outcome \<times> file_mover \<times> byte list) option" where
  "in_place_loop io k src_pos dest_pos remaining mv fbytes =
     (if remaining = 0 then Some (Ret (), mv, fbytes)
      else case copy_chunk (io k) src_pos dest_pos (min remaining (fm_buf_size mv)) fbytes fbytes of
             (Ret _, fbytes') \<Rightarrow>
               in_place_loop io (k + 1) (src_pos + min remaining (fm_buf_size mv)) (dest_pos + min remaining (fm_buf_size mv))
                 (remaining - min remaining (fm_buf_size mv)) (count_bytes (min remaining (fm_buf_size mv)) mv) fbytes'
           | (r, fbytes') \<Rightarrow> Some (r, mv, fbytes'))"

definition compact_in_place ::
  "(nat \<Rightarrow> chunk_io) \<Rightarrow> nat \<Rightarrow> nat \<Rightarrow> nat \<Rightarrow> file_mover \<Rightarrow> byte list
   \<Rightarrow> ((compaction_error, unit) outcome \<times> file_mover \<times> byte list) option" where
  "compact_in_place io src_offset dest_offset len mv fbytes =
     (if src_offset = dest_offset then Some (Ret (), mv, fbytes)
      else in_place_loop io 0 src_offset dest_offset len mv fbytes)"

section \<open>Model: the backup file\<close>

definition BACKUP_NAME :: os_name where
  "BACKUP_NAME = Utf8 ''extract_bu''"

definition BACKUP_HEADER_SIZE :: nat where
  "BACKUP_HEADER_SIZE = 5"

definition BACKUP_MAX_ENTRIES :: u32 where
  "BACKUP_MAX_ENTRIES = word_of_nat MAX_SEGMENTS"

type_synonym compactor_backup = "u16 list"

definition backup_new :: compactor_backup where
  "backup_new = []"

definition backup_header :: "byte list" where
  "backup_header = BACKUP_VERSION # to_le 4 BACKUP_MAX_ENTRIES"

definition segment_bytes :: "u16 \<Rightarrow> byte list" where
  "segment_bytes seg = to_le 4 (ucast seg :: u32)"

text \<open>\<open>None\<close> of the result is a missing or unusable backup. \<open>decode_table\<close> reads the complete indices.\<close>

definition backup_load :: "bool \<Rightarrow> directory \<Rightarrow> (compaction_error, compactor_backup option) outcome" where
  "backup_load io_ok dir =
     (case map_of dir BACKUP_NAME of
        None \<Rightarrow> Ret None
      | Some data \<Rightarrow>
          if \<not> io_ok then Fail CoOpen
          else if length data < BACKUP_HEADER_SIZE then Ret None
          else if data ! 0 \<noteq> BACKUP_VERSION then Ret None
          else let max_entries = unat (from_le (slice 1 5 data) :: u32);
                   entry_count = (length data - BACKUP_HEADER_SIZE) div 4;
                   indices = decode_table 4 (from_le :: byte list \<Rightarrow> u32) (min entry_count max_entries) (drop BACKUP_HEADER_SIZE data)
               in Ret (Some (map ucast (filter (\<lambda>i. unat i < 2 ^ 16) indices))))"

text \<open>A file that cannot be opened is unchanged; a failing write leaves a prefix of what was to be written.\<close>

datatype backup_io = BackupOk | BackupOpenFails | BackupStatFails | BackupWriteFails nat

definition backup_save :: "backup_io \<Rightarrow> compactor_backup \<Rightarrow> directory \<Rightarrow> (compaction_error, unit) outcome \<times> directory" where
  "backup_save io segs dir =
     (let image = backup_header @ concat (map segment_bytes segs) in
      case io of
        BackupOpenFails \<Rightarrow> (Fail CoOpen, dir)
      | BackupWriteFails n \<Rightarrow> (Fail CoWrite, AList.update BACKUP_NAME (take n image) dir)
      | _ \<Rightarrow> (Ret (), AList.update BACKUP_NAME image dir))"

definition record_segment ::
  "backup_io \<Rightarrow> u16 \<Rightarrow> compactor_backup \<Rightarrow> directory \<Rightarrow> (compaction_error, unit) outcome \<times> compactor_backup \<times> directory" where
  "record_segment io seg segs dir =
     (let segs = segs @ [seg];
          old = (case map_of dir BACKUP_NAME of Some d \<Rightarrow> d | None \<Rightarrow> []);
          new = (if old = [] then backup_header else []) @ segment_bytes seg in
      case io of
        BackupOpenFails \<Rightarrow> (Fail CoOpen, segs, dir)
      | BackupStatFails \<Rightarrow> (Fail CoStat, segs, AList.update BACKUP_NAME old dir)
      | BackupWriteFails n \<Rightarrow> (Fail CoWrite, segs, AList.update BACKUP_NAME (old @ take n new) dir)
      | BackupOk \<Rightarrow> (Ret (), segs, AList.update BACKUP_NAME (old @ new) dir))"

definition backup_remove :: "bool \<Rightarrow> directory \<Rightarrow> (compaction_error, unit) outcome \<times> directory" where
  "backup_remove io_ok dir =
     (if map_of dir BACKUP_NAME = None then (Ret (), dir)
      else if io_ok then (Ret (), AList.delete BACKUP_NAME dir) else (Fail CoRemove, dir))"

section \<open>Model: validation, merge plans and extract-compact\<close>

fun check_adjacent :: "data_span list \<Rightarrow> (compaction_error, unit) outcome" where
  "check_adjacent (s # t # spans) =
     (case data_span_end s of
        None \<Rightarrow> Panic
      | Some e \<Rightarrow> if e > ds_offset t then Fail CoOverlap else check_adjacent (t # spans))"
| "check_adjacent spans = Ret ()"

definition validate_spans :: "data_span list \<Rightarrow> (compaction_error, unit) outcome \<times> data_span list" where
  "validate_spans spans =
     (if length spans \<le> 1 then (Ret (), spans)
      else let spans = sort_key ds_offset spans in (check_adjacent spans, spans))"

text \<open>
  \<open>low used\<close> is the comparison of the floating-point quotient of \<open>used\<close> and the segment size with the
  threshold.
\<close>

definition merge_sources :: "(nat \<Rightarrow> bool) \<Rightarrow> segment_info list \<Rightarrow> (u16 \<times> nat) list" where
  "merge_sources low segments =
     map (\<lambda>(i, seg). (if i < 2 ^ 16 then word_of_nat i else - 1, si_write_position seg))
       (filter (\<lambda>(i, seg). si_state seg = Frozen \<and> low (si_write_position seg) \<and> si_write_position seg > 0)
         (List.enumerate 0 segments))"

definition push_once :: "u16 \<Rightarrow> u16 list \<Rightarrow> u16 list" where
  "push_once x xs = (if x \<in> set xs then xs else xs @ [x])"

fun merge_loop :: "nat \<Rightarrow> (u16 \<times> nat) list \<Rightarrow> nat \<Rightarrow> nat \<Rightarrow> (u16 \<times> nat) list \<Rightarrow> compaction_plan \<Rightarrow> compaction_plan" where
  "merge_loop segment_size sources dest_idx dest_used [] plan = plan"
| "merge_loop segment_size sources dest_idx dest_used ((source_seg, source_used) # rest) plan =
     (if dest_used + source_used \<le> segment_size
      then let dest_seg = fst (sources ! dest_idx);
               item = \<lparr>mi_source_segment = source_seg, mi_source_offset = 0, mi_dest_segment = dest_seg,
                       mi_dest_offset = dest_used, mi_length = source_used, mi_ekey = replicate 9 0\<rparr>
           in merge_loop segment_size sources dest_idx (dest_used + source_used) rest
                (plan\<lparr>cp_moves := cp_moves plan @ [item], cp_total_bytes := cp_total_bytes plan + source_used,
                      cp_source_segments := push_once source_seg (cp_source_segments plan),
                      cp_target_segments := push_once dest_seg (cp_target_segments plan)\<rparr>)
      else if dest_idx + 1 \<ge> length sources then plan
      else merge_loop segment_size sources (dest_idx + 1) (snd (sources ! (dest_idx + 1))) rest plan)"

definition plan_archive_merge :: "(nat \<Rightarrow> bool) \<Rightarrow> nat \<Rightarrow> segment_info list \<Rightarrow> compaction_plan" where
  "plan_archive_merge low segment_size segments =
     (let sources = merge_sources low segments in
      if length sources < 2 then compaction_plan_default
      else let sources = sort_key snd sources
           in merge_loop segment_size sources 0 0 (tl sources) compaction_plan_default)"

text \<open>\<open>io i k\<close> is the fate of chunk \<open>k\<close> of span \<open>i\<close>.\<close>

fun extract_loop ::
  "(nat \<Rightarrow> nat \<Rightarrow> chunk_io) \<Rightarrow> nat \<Rightarrow> nat \<Rightarrow> data_span list \<Rightarrow> file_mover \<Rightarrow> byte list
   \<Rightarrow> ((compaction_error, nat) outcome \<times> file_mover \<times> byte list) option" where
  "extract_loop io i wpos [] mv fbytes = Some (Ret wpos, mv, fbytes)"
| "extract_loop io i wpos (span # spans) mv fbytes =
     (case (if unat (ds_offset span) > wpos
            then compact_in_place (io i) (unat (ds_offset span)) wpos (unat (ds_length span)) mv fbytes
            else Some (Ret (), mv, fbytes)) of
        None \<Rightarrow> None
      | Some (Ret _, mv, fbytes) \<Rightarrow>
          if wpos + unat (ds_length span) < 2 ^ 64
          then extract_loop io (i + 1) (wpos + unat (ds_length span)) spans mv fbytes
          else Some (Panic, mv, fbytes)
      | Some (Fail e, mv, fbytes) \<Rightarrow> Some (Fail e, mv, fbytes)
      | Some (Panic, mv, fbytes) \<Rightarrow> Some (Panic, mv, fbytes))"

record extract_io =
  ei_stat_ok :: bool
  ei_chunks :: "nat \<Rightarrow> nat \<Rightarrow> chunk_io"
  ei_truncate_ok :: bool

definition extract_compact_segment ::
  "extract_io \<Rightarrow> data_span list \<Rightarrow> file_mover \<Rightarrow> byte list
   \<Rightarrow> ((compaction_error, nat) outcome \<times> data_span list \<times> file_mover \<times> byte list) option" where
  "extract_compact_segment io spans mv fbytes =
     (if spans = [] then Some (Ret 0, spans, mv, fbytes)
      else case validate_spans spans of
             (Ret _, spans) \<Rightarrow>
               if \<not> ei_stat_ok io then Some (Fail CoStat, spans, mv, fbytes)
               else (case extract_loop (ei_chunks io) 0 0 spans mv fbytes of
                       None \<Rightarrow> None
                     | Some (Ret wpos, mv, fbytes') \<Rightarrow>
                         if wpos < length fbytes
                         then if ei_truncate_ok io
                              then Some (Ret (length fbytes - wpos), spans, mv, take wpos fbytes')
                              else Some (Fail CoTruncate, spans, mv, fbytes')
                         else Some (Ret 0, spans, mv, fbytes')
                     | Some (Fail e, mv, fbytes') \<Rightarrow> Some (Fail e, spans, mv, fbytes')
                     | Some (Panic, mv, fbytes') \<Rightarrow> Some (Panic, spans, mv, fbytes'))
           | (Fail e, spans) \<Rightarrow> Some (Fail e, spans, mv, fbytes)
           | (Panic, spans) \<Rightarrow> Some (Panic, spans, mv, fbytes))"

end
