(* ===== verification/Compaction_Props.thy ===== *)
theory Compaction_Props
  imports Compaction
begin

text \<open>
  Properties of the compaction primitives. The mover copies a span exactly, also onto itself to the
  left; extract-compact leaves the concatenation of the spans and refuses overlapping ones before it
  touches the file; the backup file gives back the recorded segments; and the first move of every
  merge plan goes over live data.
\<close>

section \<open>Slices\<close>

lemma slice_put_slice_after:
  "i + length xs \<le> a \<Longrightarrow> i + length xs \<le> length buf \<Longrightarrow> slice a b (put_slice i xs buf) = slice a b buf"
  by (simp add: slice_def put_slice_def)

lemma put_slice_put_slice:
  "i \<le> length buf \<Longrightarrow> put_slice (i + length xs) ys (put_slice i xs buf) = put_slice i (xs @ ys) buf"
  by (simp add: put_slice_def ac_simps)

lemma slice_slice_append: "a \<le> b \<Longrightarrow> b \<le> c \<Longrightarrow> slice a b xs @ slice b c xs = slice a c xs"
  using take_add [of "b - a" "c - b" "drop a xs"] by (simp add: slice_def)

lemma put_slice_id: "put_slice i (slice i j xs) xs = xs"
proof -
  have "slice i j xs @ drop (i + length (slice i j xs)) xs = drop i xs"
    using append_take_drop_id [of "j - i" "drop i xs"] by (cases "j - i \<le> length xs - i") (simp_all add: slice_def add.commute)
  then show ?thesis unfolding put_slice_def by (metis append_take_drop_id)
qed

lemma write_at_inside: "dst \<le> length f \<Longrightarrow> write_at dst d f = put_slice dst d f"
  by (simp add: write_at_def)

section \<open>The file mover\<close>

lemma file_mover_new_facts:
  "0 < fm_buf_size (file_mover_new budget) \<and> 1 \<le> fm_buf_count (file_mover_new budget)
   \<and> fm_buf_count (file_mover_new budget) \<le> 16
   \<and> fm_buf_count (file_mover_new budget) * fm_buf_size (file_mover_new budget) \<le> max budget (128 * 1024)"
proof -
  define total where "total = max budget (131072 :: nat)"
  define c where "c = min 16 (max 1 (total div 131072))"
  have "c \<le> total" "1 \<le> c" by (auto simp: c_def total_def)
  then have "0 < total div c" using div_greater_zero_iff [of total c] by simp
  moreover have "c * (total div c) \<le> total" by simp
  ultimately show ?thesis
    using \<open>1 \<le> c\<close> unfolding file_mover_new_def Let_def MIN_BUFFER_SIZE_def MAX_BUFFERS_def BUFFER_SIZE_SHIFT_def
    by (simp add: c_def total_def)
qed

lemma in_place_loop_moves:
  "0 < fm_buf_size mv \<Longrightarrow> \<forall>j. io j = ChunkOk \<Longrightarrow> dst \<le> src \<Longrightarrow> src + n \<le> length f \<Longrightarrow>
   in_place_loop io k src dst n mv f = Some (Ret (), count_bytes n mv, put_slice dst (slice src (src + n) f) f)"
proof (induction n arbitrary: k src dst mv f rule: less_induct)
  case (less n)
  show ?case
  proof (cases "n = 0")
    case True
    then show ?thesis
      by (subst in_place_loop.simps) (simp add: count_bytes_def slice_def put_slice_def)
  next
    case False
    define c where "c = min n (fm_buf_size mv)"
    define f' where "f' = put_slice dst (slice src (src + c) f) f"
    have c: "0 < c" "c \<le> n" using False less.prems by (auto simp: c_def)
    have len: "length (slice src (src + c) f) = c" using less.prems c by simp
    then have f': "length f' = length f" using less.prems c by (simp add: f'_def)
    have "in_place_loop io k src dst n mv f = in_place_loop io (k + 1) (src + c) (dst + c) (n - c) (count_bytes c mv) f'"
      using less.prems c False
      by (subst in_place_loop.simps) (simp add: copy_chunk_def c_def [symmetric] write_at_inside f'_def)
    also have "\<dots> = Some (Ret (), count_bytes (n - c) (count_bytes c mv),
        put_slice (dst + c) (slice (src + c) (src + c + (n - c)) f') f')"
      using less.prems c f' by (intro less.IH) (auto simp: count_bytes_def)
    also have "slice (src + c) (src + c + (n - c)) f' = slice (src + c) (src + n) f"
      using less.prems c len by (simp add: f'_def slice_put_slice_after)
    also have "put_slice (dst + c) (slice (src + c) (src + n) f) f' = put_slice dst (slice src (src + n) f) f"
      using less.prems c len put_slice_put_slice [of dst f "slice src (src + c) f" "slice (src + c) (src + n) f"]
        slice_slice_append [of src "src + c" "src + n" f]
      by (simp add: f'_def)
    finally show ?thesis using c by (simp add: count_bytes_def)
  qed
qed

lemma compact_in_place_moves:
  assumes "0 < fm_buf_size mv" "\<forall>j. io j = ChunkOk" "dst \<le> src" "src + n \<le> length f"
  shows "\<exists>mv'. compact_in_place io src dst n mv f = Some (Ret (), mv', put_slice dst (slice src (src + n) f) f)
           \<and> fm_buf_size mv' = fm_buf_size mv"
proof (cases "src = dst")
  case True
  then show ?thesis using put_slice_id [of dst "dst + n" f] by (simp add: compact_in_place_def)
next
  case False
  then show ?thesis using in_place_loop_moves [OF assms, of 0] by (simp add: compact_in_place_def count_bytes_def)
qed

lemma move_data_moves:
  "0 < fm_buf_size mv \<Longrightarrow> \<forall>j. io j = ChunkOk \<Longrightarrow> src + n \<le> length s \<Longrightarrow> dst \<le> length d \<Longrightarrow>
   move_loop io k s src dst n mv d = Some (Ret (), count_bytes n mv, put_slice dst (slice src (src + n) s) d)"
proof (induction n arbitrary: k src dst mv d rule: less_induct)
  case (less n)
  show ?case
  proof (cases "n = 0")
    case True
    then show ?thesis
      by (subst move_loop.simps) (simp add: count_bytes_def slice_def put_slice_def)
  next
    case False
    define c where "c = min n (fm_buf_size mv)"
    define d' where "d' = put_slice dst (slice src (src + c) s) d"
    have c: "0 < c" "c \<le> n" using False less.prems by (auto simp: c_def)
    have len: "length (slice src (src + c) s) = c" using less.prems c by simp
    then have d': "dst + c \<le> length d'" using less.prems by (simp add: d'_def put_slice_def)
    have "move_loop io k s src dst n mv d = move_loop io (k + 1) s (src + c) (dst + c) (n - c) (count_bytes c mv) d'"
      using less.prems c False
      by (subst move_loop.simps) (simp add: copy_chunk_def c_def [symmetric] write_at_inside d'_def)
    also have "\<dots> = Some (Ret (), count_bytes (n - c) (count_bytes c mv),
        put_slice (dst + c) (slice (src + c) (src + c + (n - c)) s) d')"
      using less.prems c d' by (intro less.IH) (auto simp: count_bytes_def)
    also have "put_slice (dst + c) (slice (src + c) (src + c + (n - c)) s) d' = put_slice dst (slice src (src + n) s) d"
      using less.prems c len put_slice_put_slice [of dst d "slice src (src + c) s" "slice (src + c) (src + n) s"]
        slice_slice_append [of src "src + c" "src + n" s]
      by (simp add: d'_def)
    finally show ?thesis using c by (simp add: count_bytes_def)
  qed
qed

section \<open>Extract-compact\<close>

definition span_start :: "data_span \<Rightarrow> nat" where
  "span_start s = unat (ds_offset s)"

definition span_stop :: "data_span \<Rightarrow> nat" where
  "span_stop s = unat (ds_offset s) + unat (ds_length s)"

definition live_bytes :: "byte list \<Rightarrow> data_span \<Rightarrow> byte list" where
  "live_bytes f s = slice (span_start s) (span_stop s) f"

definition apart :: "data_span \<Rightarrow> data_span \<Rightarrow> bool" where
  "apart s t \<longleftrightarrow> {span_start s..<span_stop s} \<inter> {span_start t..<span_stop t} = {}"

definition spans_disjoint :: "data_span list \<Rightarrow> bool" where
  "spans_disjoint spans \<longleftrightarrow> distinct spans \<and> (\<forall>s\<in>set spans. \<forall>t\<in>set spans. s \<noteq> t \<longrightarrow> apart s t)"

lemma apart_sym: "apart s t \<longleftrightarrow> apart t s"
  by (simp only: apart_def Int_commute)

lemma spans_disjoint_Cons:
  "spans_disjoint (s # spans) \<longleftrightarrow> spans_disjoint spans \<and> s \<notin> set spans \<and> (\<forall>t\<in>set spans. s \<noteq> t \<longrightarrow> apart s t)"
  unfolding spans_disjoint_def using apart_sym by auto

lemmas span_defs = span_start_def span_stop_def

text \<open>Spans that follow each other from a position on, inside a file of \<open>n\<close> bytes.\<close>

fun laid_out :: "nat \<Rightarrow> nat \<Rightarrow> data_span list \<Rightarrow> bool" where
  "laid_out p n [] \<longleftrightarrow> True"
| "laid_out p n (s # spans) \<longleftrightarrow> p \<le> span_start s \<and> span_stop s \<le> n \<and> laid_out (span_stop s) n spans"

lemma laid_out_members: "laid_out p n spans \<Longrightarrow> s \<in> set spans \<Longrightarrow> p \<le> span_start s \<and> span_stop s \<le> n"
proof (induction spans arbitrary: p)
  case (Cons t spans)
  have "span_start t \<le> span_stop t" by (simp add: span_defs)
  with Cons show ?case by fastforce
qed simp

lemma length_live_bytes: "span_stop s \<le> length f \<Longrightarrow> length (live_bytes f s) = unat (ds_length s)"
  by (simp add: live_bytes_def span_defs)

lemma extract_loop_packs:
  "laid_out p (length f) spans \<Longrightarrow> w \<le> p \<Longrightarrow> 0 < fm_buf_size mv \<Longrightarrow> \<forall>i j. io i j = ChunkOk \<Longrightarrow> length f < 2 ^ 64 \<Longrightarrow>
   \<exists>mv'. extract_loop io k w spans mv f =
     Some (Ret (w + length (concat (map (live_bytes f) spans))), mv', put_slice w (concat (map (live_bytes f) spans)) f)"
proof (induction spans arbitrary: p k w mv f)
  case Nil
  then show ?case by (simp add: put_slice_def)
next
  case (Cons s spans)
  let ?n = "unat (ds_length s)"
  define f' where "f' = put_slice w (live_bytes f s) f"
  have s: "w \<le> span_start s" "span_stop s = span_start s + ?n" "span_stop s \<le> length f" "laid_out (span_stop s) (length f) spans"
    using Cons.prems by (auto simp: span_defs)
  have len: "length (live_bytes f s) = ?n" using s(3) by (rule length_live_bytes)
  have f': "length f' = length f" using s len by (simp add: f'_def)
  have same: "map (live_bytes f') spans = map (live_bytes f) spans"
  proof (rule map_cong [OF refl])
    fix t assume "t \<in> set spans"
    then have "span_stop s \<le> span_start t" using laid_out_members [OF s(4)] by simp
    then show "live_bytes f' t = live_bytes f t"
      using s len unfolding live_bytes_def [of _ t] f'_def by (intro slice_put_slice_after) simp_all
  qed
  obtain mv1 where mv1: "fm_buf_size mv1 = fm_buf_size mv"
    "(if span_start s > w then compact_in_place (io k) (span_start s) w ?n mv f else Some (Ret (), mv, f)) = Some (Ret (), mv1, f')"
  proof (cases "span_start s > w")
    case True
    then show thesis
      using compact_in_place_moves [of mv "io k" w "span_start s" ?n f] Cons.prems s that by (auto simp: f'_def live_bytes_def)
  next
    case False
    then have "f' = f" using s put_slice_id [of w "span_stop s" f] by (simp add: f'_def live_bytes_def)
    then show thesis using False that [of mv] by simp
  qed
  have "\<exists>mv'. extract_loop io (k + 1) (w + ?n) spans mv1 f' =
     Some (Ret (w + ?n + length (concat (map (live_bytes f') spans))), mv',
       put_slice (w + ?n) (concat (map (live_bytes f') spans)) f')"
    using s f' Cons.prems mv1 by (intro Cons.IH [of "span_stop s"]) auto
  moreover have "put_slice (w + ?n) (concat (map (live_bytes f) spans)) f' = put_slice w (concat (map (live_bytes f) (s # spans))) f"
    using put_slice_put_slice [of w f "live_bytes f s"] s len by (simp add: f'_def)
  moreover have "extract_loop io k w (s # spans) mv f = extract_loop io (k + 1) (w + ?n) spans mv1 f'"
    using mv1(2) [unfolded span_start_def] s Cons.prems by (simp only: extract_loop.simps option.case prod.case outcome.case) simp
  ultimately show ?case using same len by (simp add: add.assoc)
qed

text \<open>Validation accepts exactly the spans without a common byte.\<close>

lemma check_adjacent_laid_out:
  "\<forall>s\<in>set spans. span_stop s < 2 ^ 64 \<and> span_stop s \<le> n \<Longrightarrow> spans \<noteq> [] \<Longrightarrow> p \<le> span_start (hd spans) \<Longrightarrow>
   check_adjacent spans = (if laid_out p n spans then Ret () else Fail CoOverlap)"
proof (induction spans arbitrary: p rule: check_adjacent.induct)
  case (1 s t spans)
  have e: "data_span_end s = Some (ds_offset s + ds_length s)" "unat (ds_offset s + ds_length s) = span_stop s"
    using 1 by (auto simp: data_span_end_def span_defs unat_add_lem [symmetric])
  then have "ds_offset s + ds_length s > ds_offset t \<longleftrightarrow> \<not> span_stop s \<le> span_start t"
    by (auto simp: word_less_nat_alt span_start_def)
  then show ?case using 1 e by auto
qed (auto simp: span_defs)

lemma laid_out_disjoint:
  assumes "sorted (map ds_offset spans)" "\<forall>s\<in>set spans. 0 < ds_length s \<and> span_stop s \<le> n"
  shows "laid_out 0 n spans \<longleftrightarrow> spans_disjoint spans"
proof -
  have "laid_out p n spans \<longleftrightarrow> (\<forall>s\<in>set spans. p \<le> span_start s) \<and> spans_disjoint spans" for p
    using assms
  proof (induction spans arbitrary: p)
    case (Cons s spans)
    have pos: "span_start t < span_stop t" if "t \<in> set (s # spans)" for t
      using Cons.prems that by (auto simp: span_defs word_less_nat_alt)
    have after: "span_start s \<le> span_start t" if "t \<in> set spans" for t
      using Cons.prems that by (auto simp: span_defs word_le_nat_alt)
    have "apart s t \<longleftrightarrow> span_stop s \<le> span_start t" if "t \<in> set spans" for t
      using after [OF that] pos [of t] pos [of s] that by (auto simp: apart_def)
    then have "(\<forall>t\<in>set spans. span_stop s \<le> span_start t) \<longleftrightarrow> s \<notin> set spans \<and> (\<forall>t\<in>set spans. s \<noteq> t \<longrightarrow> apart s t)"
      using pos [of s] by (metis list.set_intros(1) leD)
    moreover have "laid_out (span_stop s) n spans \<longleftrightarrow> (\<forall>t\<in>set spans. span_stop s \<le> span_start t) \<and> spans_disjoint spans"
      using Cons by simp
    moreover have "(\<forall>t\<in>set (s # spans). p \<le> span_start t) \<longleftrightarrow> p \<le> span_start s" using after by force
    ultimately show ?case using Cons.prems by (auto simp: spans_disjoint_Cons)
  qed (simp add: spans_disjoint_def)
  then show ?thesis by simp
qed

lemma spans_disjoint_sort: "spans_disjoint (sort_key k spans) = spans_disjoint spans"
  by (simp add: spans_disjoint_def)

lemma validate_spans_iff:
  assumes "\<forall>s\<in>set spans. 0 < ds_length s \<and> span_stop s \<le> n" "n < 2 ^ 64"
  shows "validate_spans spans =
    (if spans_disjoint spans then Ret () else Fail CoOverlap, sort_key ds_offset spans)"
proof (cases "length spans \<le> 1")
  case True
  then consider "spans = []" | s where "spans = [s]" by (cases spans) auto
  then show ?thesis by cases (simp_all add: validate_spans_def spans_disjoint_def)
next
  case False
  let ?s = "sort_key ds_offset spans"
  have "check_adjacent ?s = (if laid_out 0 n ?s then Ret () else Fail CoOverlap)"
  proof (rule check_adjacent_laid_out)
    show "?s \<noteq> []" using False length_sort [of ds_offset spans] by fastforce
  qed (use assms in fastforce)+
  then show ?thesis
    using False laid_out_disjoint [of ?s n] assms by (simp add: validate_spans_def spans_disjoint_sort)
qed

text \<open>
  C14. Extract-compact of a segment, whose spans are not empty and lie in the file: if two spans share a
  byte, it answers with an error and the file is not changed. Otherwise, when the file system does its
  work, it returns (with every positive buffer size, however the moved ranges overlap), the file is the
  concatenation of the bytes of the spans in the order of their offsets, and the result is the number
  of bytes saved.
\<close>

theorem extract_compact_concatenates:
  assumes spans: "spans \<noteq> []" "\<forall>s\<in>set spans. 0 < ds_length s \<and> span_stop s \<le> length f"
    and f: "length f < 2 ^ 64"
    and mv: "0 < fm_buf_size mv"
    and io: "ei_stat_ok io" "\<forall>i j. ei_chunks io i j = ChunkOk" "ei_truncate_ok io"
  shows "\<exists>mv'. extract_compact_segment io spans mv f =
    Some (if spans_disjoint spans
          then (Ret (length f - length (concat (map (live_bytes f) spans))), sort_key ds_offset spans, mv',
                concat (map (live_bytes f) (sort_key ds_offset spans)))
          else (Fail CoOverlap, sort_key ds_offset spans, mv, f))"
proof (cases "spans_disjoint spans")
  case False
  then show ?thesis using validate_spans_iff [OF spans(2) f] spans(1) by (simp add: extract_compact_segment_def)
next
  case True
  let ?s = "sort_key ds_offset spans"
  let ?d = "concat (map (live_bytes f) ?s)"
  have laid: "laid_out 0 (length f) ?s" using laid_out_disjoint [of ?s "length f"] True spans by (simp add: spans_disjoint_sort)
  obtain mv' where loop: "extract_loop (ei_chunks io) 0 0 ?s mv f = Some (Ret (length ?d), mv', put_slice 0 ?d f)"
    using extract_loop_packs [OF laid _ mv io(2) f, of 0 0] by auto
  have "mset (map (length \<circ> live_bytes f) ?s) = mset (map (length \<circ> live_bytes f) spans)" by simp
  then have total: "length ?d = length (concat (map (live_bytes f) spans))"
    unfolding length_concat map_map by (metis sum_mset_sum_list)
  show ?thesis
    using loop validate_spans_iff [OF spans(2) f] True spans(1) io total
    by (auto simp: extract_compact_segment_def put_slice_def)
qed

theorem extract_compact_concatenates_witness:
  "\<exists>mv'. extract_compact_segment \<lparr>ei_stat_ok = True, ei_chunks = \<lambda>i j. ChunkOk, ei_truncate_ok = True\<rparr>
     [\<lparr>ds_offset = 4, ds_length = 2\<rparr>, \<lparr>ds_offset = 1, ds_length = 2\<rparr>] (file_mover_new 0) [10, 11, 12, 13, 14, 15, 16] =
   Some (Ret 3, [\<lparr>ds_offset = 1, ds_length = 2\<rparr>, \<lparr>ds_offset = 4, ds_length = 2\<rparr>], mv', [11, 12, 14, 15])"
proof -
  let ?io = "\<lparr>ei_stat_ok = True, ei_chunks = \<lambda>i j. ChunkOk, ei_truncate_ok = True\<rparr>"
  let ?spans = "[\<lparr>ds_offset = 4, ds_length = 2\<rparr>, \<lparr>ds_offset = 1, ds_length = 2\<rparr>]"
  let ?f = "[10, 11, 12, 13, 14, 15, 16] :: byte list"
  have "spans_disjoint ?spans" by (simp add: spans_disjoint_def apart_def span_defs)
  moreover have "\<forall>s\<in>set ?spans. 0 < ds_length s \<and> span_stop s \<le> length ?f" by (simp add: span_defs)
  moreover have "sort_key ds_offset ?spans = [\<lparr>ds_offset = 1, ds_length = 2\<rparr>, \<lparr>ds_offset = 4, ds_length = 2\<rparr>]"
    by (simp add: word_le_nat_alt)
  ultimately show ?thesis
    using extract_compact_concatenates [of ?spans ?f "file_mover_new 0" ?io] file_mover_new_facts [of 0]
    by (simp add: live_bytes_def span_defs slice_def numeral_3_eq_3 del: sort_key_simps)
qed

section \<open>The backup file\<close>

interpretation segment_index: fixed_codec 4 "\<lambda>_. True" "to_le 4 :: u32 \<Rightarrow> byte list" "from_le :: byte list \<Rightarrow> u32"
  by unfold_locales (simp_all add: from_le_to_le)

lemma segment_bytes_table: "concat (map segment_bytes segs) = concat (map (to_le 4) (map (ucast :: u16 \<Rightarrow> u32) segs))"
  by (simp add: segment_bytes_def [abs_def] comp_def)

lemma segment_index_back: "map ucast (filter (\<lambda>i. unat i < 2 ^ 16) (map (ucast :: u16 \<Rightarrow> u32) segs)) = segs"
proof (induction segs)
  case (Cons seg segs)
  have "unat (ucast seg :: u32) < 2 ^ 16" using u16_bound [of seg] by (simp add: unsigned_ucast_eq take_bit_nat_eq_self)
  moreover have "(ucast (ucast seg :: u32) :: u16) = seg"
    by (simp add: word_unat_eq_iff unsigned_ucast_eq take_bit_word_eq_self)
  ultimately show ?case using Cons by simp
qed simp

text \<open>A torn index at the end of the file is not read.\<close>

lemma load_recorded:
  assumes "map_of dir BACKUP_NAME = Some (backup_header @ concat (map segment_bytes segs) @ torn)" "length torn < 4"
  shows "backup_load True dir = Ret (Some (take MAX_SEGMENTS segs))"
proof -
  let ?data = "backup_header @ concat (map segment_bytes segs) @ torn"
  let ?is = "map (ucast :: u16 \<Rightarrow> u32) segs"
  have len: "length backup_header = 5" "length (concat (map segment_bytes segs)) = 4 * length segs"
    using segment_index.length_table [of ?is] by (simp_all add: backup_header_def segment_bytes_table list_all_iff)
  have hdr: "?data ! 0 = BACKUP_VERSION" "slice 1 5 ?data = to_le 4 BACKUP_MAX_ENTRIES"
    by (simp_all add: backup_header_def slice_def)
  have max: "unat (from_le (slice 1 5 ?data) :: u32) = MAX_SEGMENTS"
    unfolding hdr by (simp add: BACKUP_MAX_ENTRIES_def from_le_to_le MAX_SEGMENTS_def)
  let ?m = "min (length segs) MAX_SEGMENTS"
  have "decode_table 4 (from_le :: byte list \<Rightarrow> u32) ?m (concat (map segment_bytes segs) @ torn) = take ?m ?is"
    using segment_index.decode_table_prefix [of "take ?m ?is" "concat (map (to_le 4) (drop ?m ?is)) @ torn"]
    by (simp add: segment_bytes_table list_all_iff flip: append.assoc concat_append map_append)
  then have "map ucast (filter (\<lambda>i. unat i < 2 ^ 16)
      (decode_table 4 (from_le :: byte list \<Rightarrow> u32) ?m (concat (map segment_bytes segs) @ torn))) = take ?m segs"
    using segment_index_back [of "take ?m segs"] by (simp add: take_map)
  moreover have "(length ?data - BACKUP_HEADER_SIZE) div 4 = length segs"
    using len assms(2) by (simp add: BACKUP_HEADER_SIZE_def)
  moreover have "take ?m segs = take MAX_SEGMENTS segs" by (simp add: min_def)
  moreover have "drop BACKUP_HEADER_SIZE ?data = concat (map segment_bytes segs) @ torn" "\<not> length ?data < BACKUP_HEADER_SIZE"
    using len by (simp_all add: BACKUP_HEADER_SIZE_def)
  ultimately show ?thesis
    unfolding backup_load_def assms(1) option.case Let_def max hdr(1) by (simp only: if_False not_True_eq_False simp_thms)
qed

fun record_all :: "u16 list \<Rightarrow> compactor_backup \<Rightarrow> directory \<Rightarrow> compactor_backup \<times> directory" where
  "record_all [] b dir = (b, dir)"
| "record_all (seg # segs) b dir = (case record_segment BackupOk seg b dir of (_, b', dir') \<Rightarrow> record_all segs b' dir')"

lemma backup_header_not_Nil [simp]: "backup_header \<noteq> []"
  by (simp add: backup_header_def)

lemma record_all_appends:
  "map_of dir BACKUP_NAME = Some (backup_header @ concat (map segment_bytes b)) \<Longrightarrow> record_all segs b dir = (b', dir') \<Longrightarrow>
   b' = b @ segs \<and> map_of dir' BACKUP_NAME = Some (backup_header @ concat (map segment_bytes (b @ segs)))"
proof (induction segs arbitrary: b dir)
  case (Cons seg segs)
  define dir1 where "dir1 = AList.update BACKUP_NAME (backup_header @ concat (map segment_bytes (b @ [seg]))) dir"
  have "map_of dir1 BACKUP_NAME = Some (backup_header @ concat (map segment_bytes (b @ [seg])))"
    by (simp add: dir1_def update_conv')
  moreover have "record_all segs (b @ [seg]) dir1 = (b', dir')"
    using Cons.prems by (simp add: record_segment_def dir1_def)
  ultimately show ?case using Cons.IH by fastforce
qed auto

lemma record_all_starts:
  assumes "map_of dir BACKUP_NAME = None" "segs \<noteq> []" "record_all segs backup_new dir = (b, dir')"
  shows "b = segs \<and> map_of dir' BACKUP_NAME = Some (backup_header @ concat (map segment_bytes segs))"
proof (cases segs)
  case (Cons seg rest)
  define dir1 where "dir1 = AList.update BACKUP_NAME (backup_header @ concat (map segment_bytes [seg])) dir"
  have "map_of dir1 BACKUP_NAME = Some (backup_header @ concat (map segment_bytes [seg]))"
    by (simp add: dir1_def update_conv')
  moreover have "record_all rest [seg] dir1 = (b, dir')"
    using assms Cons by (simp add: record_segment_def dir1_def backup_new_def)
  ultimately show ?thesis using record_all_appends [of dir1 "[seg]" rest] Cons by simp
qed (use assms in simp)

text \<open>
  C19. Crash recovery of the backup file: after any number of recorded segments and one more record that
  may fail at any point, a load gives back the recorded segments in order (the first 1023 of them); the
  segment of the last record is among them if the record succeeded, and a torn index is dropped.
\<close>

theorem backup_recovers_segments:
  assumes "map_of dir BACKUP_NAME = None" "segs \<noteq> []"
    and all: "record_all segs backup_new dir = (b, dir1)"
    and last: "record_segment io seg b dir1 = (r, b', dir')"
  shows "b' = segs @ [seg]
    \<and> (backup_load True dir' = Ret (Some (take MAX_SEGMENTS (segs @ [seg])))
       \<or> r \<noteq> Ret () \<and> backup_load True dir' = Ret (Some (take MAX_SEGMENTS segs)))"
proof -
  have b: "b = segs" "map_of dir1 BACKUP_NAME = Some (backup_header @ concat (map segment_bytes segs))"
    using record_all_starts [OF assms(1,2) all] by auto
  have len: "length (segment_bytes seg) = 4" by (simp add: segment_bytes_def)
  have whole: "backup_load True d = Ret (Some (take MAX_SEGMENTS (segs @ [seg])))"
    if "map_of d BACKUP_NAME = Some (backup_header @ concat (map segment_bytes segs) @ segment_bytes seg)" for d
    using load_recorded [of d "segs @ [seg]" "[]"] that by simp
  have part: "backup_load True d = Ret (Some (take MAX_SEGMENTS segs))"
    if "map_of d BACKUP_NAME = Some (backup_header @ concat (map segment_bytes segs) @ torn)" "length torn < 4" for d torn
    using load_recorded [OF that] .
  show ?thesis
  proof (cases io)
    case BackupOk
    then show ?thesis using last b whole [of dir'] by (auto simp: record_segment_def update_conv')
  next
    case BackupOpenFails
    then show ?thesis using last b part [of dir1 "[]"] by (auto simp: record_segment_def)
  next
    case BackupStatFails
    then show ?thesis using last b part [of dir' "[]"] by (auto simp: record_segment_def update_conv')
  next
    case (BackupWriteFails n)
    then have "map_of dir' BACKUP_NAME = Some (backup_header @ concat (map segment_bytes segs) @ take n (segment_bytes seg))"
      and "b' = segs @ [seg]" "r \<noteq> Ret ()"
      using last b by (auto simp: record_segment_def update_conv')
    then show ?thesis using whole [of dir'] part [of dir' "take n (segment_bytes seg)"] len by (cases "n < 4") auto
  qed
qed

theorem backup_recovers_segments_witness:
  "\<exists>b dir1 r b' dir'. record_all [5, 10] backup_new [] = (b, dir1)
     \<and> record_segment (BackupWriteFails 3) 200 b dir1 = (r, b', dir') \<and> b' = [5, 10, 200]
     \<and> (backup_load True dir' = Ret (Some (take MAX_SEGMENTS [5, 10, 200]))
        \<or> r \<noteq> Ret () \<and> backup_load True dir' = Ret (Some (take MAX_SEGMENTS [5, 10])))"
proof -
  obtain b dir1 where b: "record_all [5, 10] backup_new [] = (b, dir1)" by fastforce
  obtain r b' dir' where last: "record_segment (BackupWriteFails 3) 200 b dir1 = (r, b', dir')" by (metis prod_cases3)
  show ?thesis using backup_recovers_segments [OF _ _ b last] b last by auto
qed

section \<open>Merge plans\<close>

lemma merge_loop_extends: "\<exists>items. cp_moves (merge_loop cap sources d used rest plan) = cp_moves plan @ items"
proof (induction cap sources d used rest plan rule: merge_loop.induct)
  case (2 cap sources d used seg n rest plan)
  then show ?case by (auto simp: Let_def)
qed simp

lemma merge_loop_bounds:
  "\<forall>item\<in>set (cp_moves plan). mi_dest_offset item + mi_length item \<le> cap \<Longrightarrow>
   \<forall>item\<in>set (cp_moves (merge_loop cap sources d used rest plan)). mi_dest_offset item + mi_length item \<le> cap"
proof (induction cap sources d used rest plan rule: merge_loop.induct)
  case (2 cap sources d used seg n rest plan)
  then show ?case by (auto simp: Let_def)
qed simp

lemma merge_loop_no_room:
  "\<forall>s\<in>set rest. cap < snd s \<Longrightarrow> merge_loop cap sources d used rest plan = plan"
  by (induction cap sources d used rest plan rule: merge_loop.induct) auto

lemma merge_sources_members:
  assumes "s \<in> set (merge_sources low segments)" "length segments \<le> 2 ^ 16"
  shows "\<exists>i<length segments. fst s = word_of_nat i \<and> snd s = si_write_position (segments ! i)
    \<and> si_state (segments ! i) = Frozen \<and> 0 < si_write_position (segments ! i)"
  using assms by (auto simp: merge_sources_def in_set_enumerate_eq)

text \<open>
  C15. Merge plans never leave the segment, but the first move of every plan goes to the start of a
  segment that holds live data: the write position of the first target is taken as zero, so that
  executing the plan overwrites the target's own content.
\<close>

theorem merge_plan_overwrites:
  assumes segments: "length segments \<le> 2 ^ 16"
    and moves: "cp_moves (plan_archive_merge low cap segments) = item # items"
  shows "(\<forall>m\<in>set (item # items). mi_dest_offset m + mi_length m \<le> cap)
    \<and> mi_dest_offset item = 0 \<and> 0 < mi_length item
    \<and> (\<exists>i<length segments. mi_dest_segment item = word_of_nat i \<and> si_state (segments ! i) = Frozen
         \<and> 0 < si_write_position (segments ! i))"
proof -
  define sources where "sources = sort_key snd (merge_sources low segments)"
  have plan: "plan_archive_merge low cap segments = merge_loop cap sources 0 0 (tl sources) compaction_plan_default"
    "2 \<le> length sources"
    using moves by (auto simp: plan_archive_merge_def Let_def sources_def compaction_plan_default_def split: if_splits)
  then obtain d s rest where src: "sources = d # s # rest" by (metis One_nat_def Suc_1 Suc_le_length_iff)
  have members: "x \<in> set (merge_sources low segments)" if "x \<in> set sources" for x using that by (simp add: sources_def)
  have "sorted (map snd sources)" by (simp add: sources_def)
  then have larger: "\<forall>x\<in>set rest. snd s \<le> snd x" using src by simp
  have fits: "snd s \<le> cap"
  proof (rule ccontr)
    assume "\<not> snd s \<le> cap"
    with larger have "\<forall>x\<in>set (s # rest). cap < snd x" by auto
    then have "cp_moves (plan_archive_merge low cap segments) = []"
      using plan src merge_loop_no_room [of "s # rest" cap sources 0 0 compaction_plan_default]
      by (simp add: compaction_plan_default_def)
    then show False using moves by simp
  qed
  obtain seg n where s: "s = (seg, n)" by fastforce
  define first where "first = \<lparr>mi_source_segment = seg, mi_source_offset = 0, mi_dest_segment = fst d, mi_dest_offset = 0,
      mi_length = n, mi_ekey = replicate 9 0\<rparr>"
  define plan1 where "plan1 = \<lparr>cp_source_segments = [seg], cp_target_segments = [fst d], cp_moves = [first], cp_total_bytes = n\<rparr>"
  have "plan_archive_merge low cap segments = merge_loop cap sources 0 n rest plan1"
    using fits plan src s by (simp add: Let_def compaction_plan_default_def plan1_def first_def push_once_def)
  then have "item = first" using moves merge_loop_extends [of cap sources 0 n rest plan1] by (auto simp: plan1_def)
  moreover have "\<forall>m\<in>set (item # items). mi_dest_offset m + mi_length m \<le> cap"
    using merge_loop_bounds [of compaction_plan_default cap sources 0 0 "tl sources"] moves plan
    by (simp add: compaction_plan_default_def)
  ultimately show ?thesis
    using merge_sources_members [OF members segments, of d] merge_sources_members [OF members segments, of s] src s
    by (auto simp: first_def)
qed

theorem merge_plan_overwrites_witness:
  "\<exists>item. cp_moves (plan_archive_merge (\<lambda>used. used < 500) 1000
       [\<lparr>si_index = 0, si_state = Frozen, si_write_position = 300, si_header = segment_header_zeroed\<rparr>,
        \<lparr>si_index = 1, si_state = Frozen, si_write_position = 400, si_header = segment_header_zeroed\<rparr>]) = [item]
     \<and> mi_dest_offset item = 0 \<and> 0 < mi_length item"
proof -
  let ?segs = "[\<lparr>si_index = 0, si_state = Frozen, si_write_position = 300, si_header = segment_header_zeroed\<rparr>,
        \<lparr>si_index = 1, si_state = Frozen, si_write_position = 400, si_header = segment_header_zeroed\<rparr>]"
  obtain item where "cp_moves (plan_archive_merge (\<lambda>used. used < 500) 1000 ?segs) = [item]"
    by (simp add: plan_archive_merge_def merge_sources_def Let_def compaction_plan_default_def)
  then show ?thesis using merge_plan_overwrites [of ?segs "\<lambda>used. used < 500" 1000 item "[]"] by auto
qed

end
