(* ===== verification/Spec2Isabelle.thy ===== *)
theory Spec2Isabelle
  imports Lru_Disk Index_Disk_Props Espec_Props Blte_Props Agent_Runner Bsdiff_Props Container_History Compaction_Props
begin

text \<open>
  Verification development of cascette-rs, a Rust implementation of the NGDP content
  distribution system. Paths below are relative to \<open>src/crates/\<close>.

  \<^bold>\<open>The program.\<close> A local installation keeps contents in archive files \<open>data.NNN\<close>. Each content is
  stored in the BLTE container format behind a 30-byte local header; sixteen index buckets map the
  first nine bytes of its encoding key to archive, offset and size. The crate
  \<open>cascette-client-storage\<close> manages these files (index, archives, segments and their free space,
  residency of keys, LRU eviction) and puts them together in containers; \<open>cascette-formats\<close> has the
  formats (BLTE, encoding specifications, ZBSDIFF1 patches), \<open>cascette-crypto\<close> the hash and the
  ciphers, \<open>cascette-agent\<close> the background service with its operation queue.

  \<^bold>\<open>How the model is built.\<close> A struct is a record, an enum a datatype, an operation a function that
  takes and returns the state. Machine integers are words where their width matters and natural
  numbers where an invariant bounds them. A panic (index out of range, overflow, \<open>unwrap\<close>) is the value
  \<open>None\<close> of an option or \<open>Panic\<close> of an \<open>outcome\<close>; an error is \<open>Inl\<close> or \<open>Fail\<close>. Directories are
  association lists from names to bytes. Failures of the operating system are arguments (records and
  datatypes with names like \<open>save_io\<close> and \<open>archive_io\<close>), also failures that leave a part of the data
  behind, so that a theorem without a condition on them holds for every failure. Hash maps are association lists
  with distinct keys, B-tree maps sorted ones. Code of other packages is an argument: the compressors
  and decompressors (record \<open>codecs\<close>), MD5, the suffix sorting of the patch builder, randomness and
  clocks. Comparisons of floating-point ratios are arguments as well. Log messages are left out.

  \<^bold>\<open>Foundations.\<close>
  \<^item> \<open>Prelude\<close>: integer types, byte orders, slices, checked indexing, tables of fixed-width records;
    the locale \<open>fixed_codec\<close>, interpreted on the on-disk records (index entries, update entries, local
    headers, LRU entries, residency entries, backup indices).
  \<^item> \<open>Outcome\<close>: results with errors and panics, readers of binary data, the locale \<open>stream_codec\<close> of
    records that are read from a stream (rows of the BLTE chunk table, patch headers). \<open>Text\<close>: the string functions of the standard library. \<open>Lsm\<close>: sorted maps
    and the locale \<open>update_log\<close> of a log over a sorted table. \<open>Recency\<close>: the locale \<open>recency_cache\<close>.
    \<open>Stream_Cipher\<close>: the locale \<open>stream_cipher\<close>.

  \<^bold>\<open>cascette-crypto.\<close> \<open>Jenkins\<close> (\<open>jenkins.rs\<close>): lookup3; its entry points agree. \<open>Arc4\<close> (\<open>arc4.rs\<close>) and
  \<open>Salsa20\<close> (\<open>salsa20.rs\<close>): decryption undoes encryption, the S-box stays a permutation, the buffered
  keystream is the reference keystream at every position.

  \<^bold>\<open>cascette-formats.\<close>
  \<^item> \<open>Espec\<close>, \<open>Espec_Props\<close> (\<open>espec/types.rs\<close>, \<open>espec/parser.rs\<close>): parser and printer; round trip,
    ranges of accepted specifications, termination. The recursive descent takes fuel, and one more
    than the length of the input is proved to be enough.
  \<^item> \<open>Lz4_Frame\<close>, \<open>Blte\<close>, \<open>Blte_Builder\<close>, \<open>Blte_Props\<close> (\<open>blte/compression.rs\<close>, \<open>chunk.rs\<close>,
    \<open>header.rs\<close>, \<open>mod.rs\<close>, \<open>builder.rs\<close>): chunks, headers, encryption, building and reading; round trip from
    the builder through the bytes to the data, the exact condition of the panic of the parser, the size
    limit of decompression.
  \<^item> \<open>Zbsdiff\<close>, \<open>Zbsdiff_Props\<close>, \<open>Bsdiff\<close>, \<open>Bsdiff_Props\<close> (\<open>zbsdiff/\<close>): the patch format, the two patchers
    and the builders; a built patch turns the old data into the new data, and the streaming patcher
    agrees with the one in memory for every buffer size. The chunk loops are partial functions in
    the option monad and are proved to return.

  \<^bold>\<open>cascette-client-storage.\<close>
  \<^item> \<open>Lru_File\<close>, \<open>Lru\<close>, \<open>Lru_Props\<close>, \<open>Lru_Disk\<close> (\<open>lru/\<close>): the linked list in an array implements the
    recency list; eviction counts; shutdown and restart keep the order. The loops that follow links are
    partial functions that are proved to return under the invariant.
  \<^item> \<open>Index_Entry\<close>, \<open>Update\<close>, \<open>Index\<close>, \<open>Index_Props\<close>, \<open>Index_Disk\<close>, \<open>Index_Disk_Props\<close> (\<open>index/\<close>): an
    index bucket is a map; adding, removing, flushing and iterating against the map; atomic
    replacement of files and reloading.
  \<^item> \<open>Local_Header\<close>, \<open>Free_List\<close>, \<open>Segment\<close> (\<open>storage/local_header.rs\<close>, \<open>storage/segment.rs\<close>): checksums
    of headers, the free list as a set of bytes (locale \<open>free_space\<close>), the allocator never gives out
    overlapping blocks.
  \<^item> \<open>Archive\<close>, \<open>Archive_Props\<close> (\<open>storage/archive_file.rs\<close>): the archives are append-only logs of
    entries under every failure, and entries read back. Memory maps show the file up to the mapped
    size, or the replaced file.
  \<^item> \<open>Compaction\<close>, \<open>Compaction_Props\<close> (\<open>storage/compaction.rs\<close>): the file mover, extract-compact, the
    backup file and merge plans.
  \<^item> \<open>Residency\<close>, \<open>Residency_Props\<close> (\<open>kmt/key_state.rs\<close>): the residency database as a set of keys and
    its file.
  \<^item> \<open>Container\<close> (\<open>container/\<close>): the residency, static and dynamic containers. A dynamic container
    composes index, archives, allocator, residency and LRU over one directory. \<open>Container_Steps\<close> has
    the frame lemmas (index files and data files do not disturb each other) and one step lemma for each part of
    a write; \<open>Container_Props\<close> shows that the container is a map from keys to contents under writes, reads
    and removals; \<open>Container_Restart\<close> that a container opened on the directory after an acknowledged
    write finds the same contents; \<open>Container_History\<close> lifts this to histories of all operations with
    failures through the locale \<open>content_store\<close>.

  \<^bold>\<open>cascette-agent.\<close> \<open>Agent_Models\<close> (\<open>models/operation.rs\<close>, \<open>models/product.rs\<close>): the state machines.
  \<open>Agent_Queue\<close> (\<open>state/queue.rs\<close>, recovery in \<open>state/db.rs\<close>): at most one active operation for a
  product under every history. \<open>Agent_Runner\<close> (\<open>executor/runner.rs\<close>): the interleavings of passes,
  tasks and client calls as a step relation; the limit of concurrent tasks, and the window in which an
  operation is dispatched twice.

  \<^bold>\<open>Bounds.\<close> Archives and segments are bounded by the constants of the code. Files are shorter than
  \<open>2 ^ 63\<close> bytes. Locks are taken for the whole of an operation, so that operations of one manager are
  sequential; only the runner of the agent is modelled with interleavings.

  \<^bold>\<open>Not modelled.\<close> Shared memory between processes (\<open>shmem/\<close>), because it consists of atomics and
  system calls; the hard-link container, because directories here have no links; the V8 key mapping
  table (\<open>kmt/kmt_file.rs\<close>), which no other code uses; the installation layer with its resolver and
  validation, the maintenance and installation pipelines and the import and metadata crates, which
  drive the storage from manifests; the manifest formats of the CDN side (encoding, root, install,
  download, size, TVFS, patch manifests, CDN archives, BPSV, configuration files); the network
  clients and servers (\<open>cascette-protocol\<close>, \<open>cascette-ribbit\<close>, the HTTP handlers and executors of
  the agent); the concurrent caches of \<open>cascette-cache\<close>; loose-file installations over SQL databases
  (\<open>cascette-containerless\<close>); key tables and random generation in \<open>cascette-crypto\<close>.
\<close>

end
